(* ===== verification/Drew_Prelude.thy ===== *)
theory Drew_Prelude
  imports Main "HOL-Library.Word"
begin

text \<open>
  Shared vocabulary of the development: bytes, the fixed-width unsigned integers of
  \<^verbatim>\<open>stdint.h\<close>, the byte-wise view of a word in both byte orders, byte-wise
  exclusive or, and the cutting of a buffer into blocks. Everything here is generic; the
  definitions that translate a particular source file live in the component theories.
\<close>

unbundle bit_operations_syntax

type_synonym byte = "8 word"
type_synonym u16 = "16 word"
type_synonym u32 = "32 word"
type_synonym u64 = "64 word"

named_theorems bytes_simps \<open>lengths and round trips of the byte-level views of words\<close>
named_theorems cipher_defs \<open>definitions a cipher proof unfolds\<close>

section \<open>Bytes of a word\<close>

definition le_store :: "'a::len word \<Rightarrow> byte list" where
  "le_store w = map (\<lambda>i. ucast (drop_bit (8 * i) w)) [0..<LENGTH('a) div 8]"

fun le_load :: "byte list \<Rightarrow> 'a::len word" where
  "le_load [] = 0"
| "le_load (b # bs) = ucast b OR push_bit 8 (le_load bs)"

definition be_store :: "'a::len word \<Rightarrow> byte list" where
  "be_store w = rev (le_store w)"

definition be_load :: "byte list \<Rightarrow> 'a::len word" where
  "be_load bs = le_load (rev bs)"

lemma length_le_store [bytes_simps]: "length (le_store (w :: 'a::len word)) = LENGTH('a) div 8"
  by (simp add: le_store_def)

lemma length_be_store [bytes_simps]: "length (be_store (w :: 'a::len word)) = LENGTH('a) div 8"
  by (simp add: be_store_def bytes_simps)

lemma nth_le_store:
  "i < LENGTH('a) div 8 \<Longrightarrow> le_store (w :: 'a::len word) ! i = ucast (drop_bit (8 * i) w)"
  by (simp add: le_store_def)

lemma bit_le_load:
  "bit (le_load bs :: 'a::len word) n \<longleftrightarrow>
     n < LENGTH('a) \<and> n div 8 < length bs \<and> bit (bs ! (n div 8)) (n mod 8)"
proof (induction bs arbitrary: n)
  case Nil
  then show ?case by simp
next
  case (Cons b bs)
  show ?case
  proof (cases "n < 8")
    case True
    then show ?thesis by (auto simp: bit_simps)
  next
    case False
    then obtain m where m: "n = m + 8" by (metis add.commute le_Suc_ex linorder_not_le)
    have "\<not> bit b (m + 8)"
      using bit_imp_le_length[of b "m + 8"] by auto
    moreover have "(m + 8) div 8 = Suc (m div 8)" by simp
    ultimately show ?thesis
      using Cons.IH[of m] m by (auto simp: bit_simps)
  qed
qed

lemma le_load_store [bytes_simps]:
  assumes "8 dvd LENGTH('a::len)"
  shows "le_load (le_store (w :: 'a word)) = w"
proof (rule bit_word_eqI)
  fix n assume n: "n < LENGTH('a)"
  have lt: "n div 8 < LENGTH('a) div 8"
    using n assms by (metis dvd_div_mult_self less_mult_imp_div_less)
  have "8 * (n div 8) + n mod 8 = n" by simp
  then show "bit (le_load (le_store w) :: 'a word) n = bit w n"
    using n lt by (simp add: bit_le_load nth_le_store bytes_simps bit_simps)
qed

lemma le_store_load [bytes_simps]:
  assumes "LENGTH('a::len) = 8 * length bs"
  shows "le_store (le_load bs :: 'a word) = bs"
proof (rule nth_equalityI)
  show "length (le_store (le_load bs :: 'a word)) = length bs"
    using assms by (simp add: bytes_simps)
next
  fix i assume "i < length (le_store (le_load bs :: 'a word))"
  then have i: "i < length bs" using assms by (simp add: bytes_simps)
  show "le_store (le_load bs :: 'a word) ! i = bs ! i"
  proof (rule bit_word_eqI)
    fix n assume n: "n < LENGTH(8)"
    then have "8 * i + n < LENGTH('a)" using i assms by simp
    then show "bit (le_store (le_load bs :: 'a word) ! i) n = bit (bs ! i) n"
      using i n assms by (simp add: nth_le_store bit_simps bit_le_load)
  qed
qed

lemma be_load_store [bytes_simps]:
  "8 dvd LENGTH('a::len) \<Longrightarrow> be_load (be_store (w :: 'a word)) = w"
  by (simp add: be_load_def be_store_def bytes_simps)

lemma be_store_load [bytes_simps]:
  "LENGTH('a::len) = 8 * length bs \<Longrightarrow> be_store (be_load bs :: 'a word) = bs"
  by (simp add: be_load_def be_store_def bytes_simps)

lemma byte_index [simp]: "unat (x :: byte) < 256"
  using unsigned_less[of x, where ?'a = nat] by simp

section \<open>Blocks of a buffer\<close>

function chunks :: "nat \<Rightarrow> 'a list \<Rightarrow> 'a list list" where
  "chunks n xs = (if n = 0 \<or> length xs < n then [] else take n xs # chunks n (drop n xs))"
  by pat_completeness auto
termination
  by (relation "measure (\<lambda>(n, xs). length xs)") auto

declare chunks.simps [simp del]

text \<open>
  \<open>chunks n xs\<close> are the whole blocks of \<open>n\<close> elements at the start of the buffer; what is
  left over is \<open>remainder n xs\<close>.
\<close>

definition remainder :: "nat \<Rightarrow> 'a list \<Rightarrow> 'a list" where
  "remainder n xs = drop (n * (length xs div n)) xs"

lemma chunks_short [simp]: "length xs < n \<Longrightarrow> chunks n xs = []"
  by (subst chunks.simps) simp

lemma chunks_block:
  "0 < n \<Longrightarrow> length xs = n \<Longrightarrow> chunks n (xs @ ys) = xs # chunks n ys"
  by (subst chunks.simps) simp

lemma remainder_short [simp]: "length xs < n \<Longrightarrow> remainder n xs = xs"
  by (simp add: remainder_def)

lemma length_remainder [simp]: "length (remainder n xs) = length xs mod n"
  by (simp add: remainder_def minus_mult_div_eq_mod)

lemma remainder_block:
  assumes "0 < n" "length xs = n"
  shows "remainder n (xs @ ys) = remainder n ys"
proof -
  have "(n + length ys) div n = Suc (length ys div n)"
    using assms div_add_self1[of n "length ys"] by simp
  then show ?thesis using assms by (simp add: remainder_def)
qed

lemma chunks_append:
  assumes "0 < n"
  shows "chunks n (xs @ ys) = chunks n xs @ chunks n (remainder n xs @ ys)"
proof (induction n xs rule: chunks.induct)
  case (1 n xs)
  show ?case
  proof (cases "n = 0 \<or> length xs < n")
    case True
    then show ?thesis by (auto simp: chunks.simps[of 0])
  next
    case False
    then have n: "0 < n" "n \<le> length xs" by auto
    have rem: "remainder n xs = remainder n (drop n xs)"
      using n remainder_block[of n "take n xs" "drop n xs"] by simp
    have "chunks n (xs @ ys) = take n xs # chunks n (drop n xs @ ys)"
      using n by (subst chunks.simps) simp
    also have "\<dots> = take n xs # chunks n (drop n xs) @ chunks n (remainder n xs @ ys)"
      using "1.IH" False rem by simp
    finally show ?thesis
      using n by (simp add: chunks.simps[of n xs])
  qed
qed

lemma chunks_remainder_id [simp]:
  "0 < n \<Longrightarrow> chunks n (remainder n xs) = []"
  by simp

lemma length_chunks: "length (chunks n xs) = (if n = 0 then 0 else length xs div n)"
proof (induction n xs rule: chunks.induct)
  case (1 n xs)
  show ?case
  proof (cases "n = 0 \<or> length xs < n")
    case True
    then show ?thesis by (auto simp: chunks.simps[of 0])
  next
    case False
    then show ?thesis
      using 1 by (subst chunks.simps) (auto simp: le_div_geq)
  qed
qed

lemma chunks_sizes: "b \<in> set (chunks n xs) \<Longrightarrow> length b = n"
proof (induction n xs rule: chunks.induct)
  case (1 n xs)
  then show ?case
    by (subst (asm) (2) chunks.simps) (auto split: if_splits)
qed

lemma chunks_concat: "(\<forall>b\<in>set bs. length b = n) \<Longrightarrow> 0 < n \<Longrightarrow> chunks n (concat bs) = bs"
  by (induction bs) (auto simp: chunks_block)

lemma concat_chunks: "n dvd length xs \<Longrightarrow> concat (chunks n xs) = xs"
proof (induction n xs rule: chunks.induct)
  case (1 n xs)
  show ?case
  proof (cases "n = 0 \<or> length xs < n")
    case True
    then show ?thesis using "1.prems" by (auto simp: chunks.simps dest: nat_dvd_not_less)
  next
    case False
    then show ?thesis using 1 by (subst chunks.simps) (simp add: dvd_minus_self)
  qed
qed

lemma remainder_append:
  assumes "0 < n"
  shows "remainder n (xs @ ys) = remainder n (remainder n xs @ ys)"
proof (induction n xs rule: chunks.induct)
  case (1 n xs)
  show ?case
  proof (cases "n = 0 \<or> length xs < n")
    case True
    then show ?thesis by (auto simp: remainder_def)
  next
    case False
    then have "remainder n xs = remainder n (drop n xs)"
      and "remainder n (xs @ ys) = remainder n (drop n xs @ ys)"
      using remainder_block[of n "take n xs" "drop n xs"]
        remainder_block[of n "take n xs" "drop n xs @ ys"]
      by (simp_all flip: append_assoc)
    then show ?thesis using 1 False by simp
  qed
qed

lemma length_concat_blocks: "\<forall>b\<in>set bs. length b = n \<Longrightarrow> length (concat bs) = n * length bs"
  by (induction bs) simp_all

lemma nth_concat_blocks:
  "\<forall>b\<in>set bs. length b = n \<Longrightarrow> i < n * length bs \<Longrightarrow> concat bs ! i = bs ! (i div n) ! (i mod n)"
proof (induction bs arbitrary: i)
  case (Cons b bs)
  show ?case
  proof (cases "i < n")
    case True
    then show ?thesis using Cons.prems by (simp add: nth_append)
  next
    case False
    then obtain j where j: "i = n + j" by (metis add_diff_inverse)
    have n: "0 < n" using Cons.prems(2) by (cases n) simp_all
    have "i div n = Suc (j div n)" "i mod n = j mod n"
      unfolding j using n by (simp_all add: div_add_self1 del: neq0_conv)
    then show ?thesis using Cons j by (simp add: nth_append)
  qed
qed simp

lemma nth_chunks: "k < length xs div n \<Longrightarrow> chunks n xs ! k = take n (drop (n * k) xs)"
proof (induction n xs arbitrary: k rule: chunks.induct)
  case (1 n xs)
  have n: "0 < n" "n \<le> length xs"
    using "1.prems" by (cases "n = 0", simp_all, metis div_less not_less_zero not_le)
  show ?case
  proof (cases k)
    case 0
    then show ?thesis using n by (subst chunks.simps) simp
  next
    case (Suc j)
    have "j < length (drop n xs) div n" using "1.prems" Suc n by (simp add: le_div_geq)
    then show ?thesis
      using "1.IH"[of j] Suc n by (subst chunks.simps) (simp add: add.commute)
  qed
qed

text \<open>\<^verbatim>\<open>memcpy(buf + off, xs, length xs)\<close>.\<close>

definition put_bytes :: "nat \<Rightarrow> 'a list \<Rightarrow> 'a list \<Rightarrow> 'a list" where
  "put_bytes off xs buf = take off buf @ xs @ drop (off + length xs) buf"

lemma length_put_bytes [simp]:
  "off + length xs \<le> length buf \<Longrightarrow> length (put_bytes off xs buf) = length buf"
  by (simp add: put_bytes_def)

lemma put_bytes_nil [simp]: "put_bytes off [] buf = buf"
  by (simp add: put_bytes_def)

lemma take_put_bytes:
  "off \<le> length buf \<Longrightarrow> take (off + length xs) (put_bytes off xs buf) = take off buf @ xs"
  by (simp add: put_bytes_def)

section \<open>Byte-wise exclusive or\<close>

definition xor_bytes :: "byte list \<Rightarrow> byte list \<Rightarrow> byte list" where
  "xor_bytes xs ys = map2 (\<lambda>x y. x XOR y) xs ys"

lemma length_xor_bytes [simp]: "length (xor_bytes xs ys) = min (length xs) (length ys)"
  by (simp add: xor_bytes_def)

lemma nth_xor_bytes [simp]:
  "i < length xs \<Longrightarrow> i < length ys \<Longrightarrow> xor_bytes xs ys ! i = xs ! i XOR ys ! i"
  by (simp add: xor_bytes_def)

lemma xor_bytes_append:
  "length xs = length us \<Longrightarrow> xor_bytes (xs @ ys) (us @ vs) = xor_bytes xs us @ xor_bytes ys vs"
  by (simp add: xor_bytes_def)

section \<open>Loops that undo each other\<close>

text \<open>
  A cipher's decryption runs the inverse of each step in the opposite order. \<open>P\<close> is what
  the steps keep (for instance the length of the working array).
\<close>

lemma fold_undo:
  assumes "\<And>i s. i \<in> set xs \<Longrightarrow> P s \<Longrightarrow> g i (f i s) = s"
    and "\<And>i s. i \<in> set xs \<Longrightarrow> P s \<Longrightarrow> P (f i s)"
    and "P s"
  shows "fold g (rev xs) (fold f xs s) = s"
  using assms
proof (induction xs arbitrary: s)
  case (Cons x xs)
  have "fold g (rev xs) (fold f xs (f x s)) = f x s"
    using Cons by simp
  then show ?case using Cons.prems by simp
qed simp

lemma fold_keeps:
  assumes "\<And>i s. i \<in> set xs \<Longrightarrow> P s \<Longrightarrow> P (f i s)" and "P s"
  shows "P (fold f xs s)"
  using assms by (induction xs arbitrary: s) simp_all

lemma funpow_undo:
  fixes f g :: "'a \<Rightarrow> 'a"
  assumes "\<And>s. g (f s) = s"
  shows "(g ^^ n) ((f ^^ n) s) = s"
proof (induction n arbitrary: s)
  case (Suc n)
  have "(g ^^ Suc n) ((f ^^ Suc n) s) = (g ^^ n) (g (f ((f ^^ n) s)))"
    by (simp add: funpow_swap1)
  then show ?case using assms Suc by simp
qed simp

lemma xor_self_cancel [simp]: "(a XOR b) XOR b = (a :: 'a::len word)"
  by (simp add: xor.assoc)

lemma round_up_div:
  fixes n b :: nat
  assumes "0 < b"
  shows "(n + (b - 1)) div b = (if n mod b = 0 then n div b else Suc (n div b))"
proof -
  define k l where "k = n div b" and "l = n mod b"
  have n: "n = l + b * k" and l: "l < b" using assms by (simp_all add: k_def l_def)
  show ?thesis
  proof (cases "l = 0")
    case True
    have "(b * k + (b - 1)) div b = k + (b - 1) div b"
      using assms by (simp only: div_mult_self4)
    also have "(b - 1) div b = 0" using assms by simp
    finally show ?thesis using True n assms by (simp only: add_0 add_0_right) simp
  next
    case False
    have "l + b * k + (b - 1) = (l - 1) + b * Suc k" using False assms by simp
    then have "(l + b * k + (b - 1)) div b = Suc k + (l - 1) div b"
      using assms by (simp add: div_mult_self2 del: mult_Suc_right)
    moreover have "(l - 1) div b = 0" using l by simp
    moreover have "n mod b = l" "n div b = k" by (simp_all add: l_def k_def)
    ultimately show ?thesis using False n by (simp only: if_False add_0_right)
  qed
qed

lemma upt_split: "i \<le> j \<Longrightarrow> j \<le> k \<Longrightarrow> [i..<j] @ [j..<k] = [i..<k]"
  using upt_add_eq_append[of i j "k - j"] by simp

lemma upt_split_append: "i \<le> j \<Longrightarrow> j \<le> k \<Longrightarrow> [i..<j] @ [j..<k] @ xs = [i..<k] @ xs"
  using upt_split[of i j k] by (simp flip: append_assoc)

lemma length_two: "length xs = 2 \<Longrightarrow> xs = [xs ! 0, xs ! 1]"
  by (auto simp: numeral_2_eq_2 length_Suc_conv)

lemma length_four: "length xs = 4 \<Longrightarrow> xs = [xs ! 0, xs ! 1, xs ! 2, xs ! 3]"
  by (auto simp: numeral_eq_Suc length_Suc_conv)

section \<open>A sequence kept in a circular buffer of sixteen\<close>

text \<open>
  \<open>ring W i blk\<close>: the buffer holds the sixteen latest elements before \<open>i\<close> of the
  sequence \<open>W\<close>, each at its index modulo 16.
\<close>

definition ring :: "(nat \<Rightarrow> 'a) \<Rightarrow> nat \<Rightarrow> 'a list \<Rightarrow> bool" where
  "ring W i blk \<longleftrightarrow> length blk = 16 \<and> (\<forall>t. i \<le> t + 16 \<longrightarrow> t < i \<longrightarrow> blk ! (t mod 16) = W t)"

lemma and_15: "n AND 15 = n mod (16 :: nat)"
  using take_bit_eq_mask[of 4 n] by (simp add: take_bit_eq_mod mask_eq_exp_minus_1)

lemma ring_length: "ring W i blk \<Longrightarrow> length blk = 16"
  by (simp add: ring_def)

lemma ring_init: "length blk = 16 \<Longrightarrow> (\<And>t. t < 16 \<Longrightarrow> blk ! t = W t) \<Longrightarrow> ring W 16 blk"
  by (simp add: ring_def)

lemma ring_prev:
  assumes "ring W i blk" "16 \<le> i" "k < 16"
  shows "blk ! ((i + k) mod 16) = W (i - (16 - k))"
proof -
  obtain t where t: "i = t + (16 - k)" using assms(2,3) le_Suc_ex[of "16 - k" i]
    by (metis add.commute diff_le_self le_trans)
  then have "t + 16 = i + k" using assms(3) by simp
  then have "t mod 16 = (i + k) mod 16" by (metis mod_add_self2)
  moreover have "blk ! (t mod 16) = W t" using t assms by (simp add: ring_def)
  moreover have "t = i - (16 - k)" using t by simp
  ultimately show ?thesis by simp
qed

lemma ring_this: "ring W i blk \<Longrightarrow> 16 \<le> i \<Longrightarrow> blk ! (i mod 16) = W (i - 16)"
  using ring_prev[of W i blk 0] by simp

lemma ring_update:
  assumes ring: "ring W i blk"
  shows "ring W (Suc i) (blk[i mod 16 := W i])"
  unfolding ring_def
proof (intro conjI allI impI)
  show "length (blk[i mod 16 := W i]) = 16" using ring by (simp add: ring_def)
  fix t assume t: "Suc i \<le> t + 16" "t < Suc i"
  show "blk[i mod 16 := W i] ! (t mod 16) = W t"
  proof (cases "t = i")
    case True
    then show ?thesis using ring by (simp add: ring_def)
  next
    case False
    have "t mod 16 \<noteq> i mod 16"
    proof
      assume "t mod 16 = i mod 16"
      then have "16 dvd i - t" using t by (metis less_Suc_eq_le mod_eq_dvd_iff_nat)
      then show False using t False by (auto dest: dvd_imp_le)
    qed
    then show ?thesis using ring t False by (simp add: ring_def)
  qed
qed

lemma fold_add_words:
  assumes "length x = length y"
  shows "n \<le> length x \<Longrightarrow> fold (\<lambda>i cur. cur[i := cur ! i + y ! i]) [0..<n] x
     = map2 (+) (take n x) (take n y) @ drop n (x :: 'a::plus list)"
proof (induction n)
  case (Suc n)
  then have "drop n x = x ! n # drop (Suc n) x" using assms by (simp add: Cons_nth_drop_Suc)
  then show ?case
    using Suc assms by (simp add: nth_append list_update_append take_Suc_conv_app_nth)
qed simp

end
