(* ===== verification/Util.thy ===== *)
theory Util
  imports Drew_Prelude
begin

text \<open>
  The inline helpers of \<^verbatim>\<open>include/util.hh\<close>: rotations and the ternary functions, byte
  extraction, rounding, and the classes \<^verbatim>\<open>EndianBase\<close>, \<^verbatim>\<open>Endian\<close>,
  \<^verbatim>\<open>LittleEndian\<close>, \<^verbatim>\<open>BigEndian\<close> and \<^verbatim>\<open>NonEndian\<close>. The byte order of the
  machine (\<^verbatim>\<open>DREW_BYTE_ORDER\<close>) is the argument \<open>host\<close>; the lemmas show that no
  result depends on it, so the other theories use \<open>load E\<close> and \<open>store E\<close> directly.
\<close>

section \<open>Rotations and ternary functions\<close>

definition RotateLeft :: "'a::len word \<Rightarrow> nat \<Rightarrow> 'a word" where
  "RotateLeft x n = push_bit n x OR drop_bit (LENGTH('a) - n) x"

definition RotateRight :: "'a::len word \<Rightarrow> nat \<Rightarrow> 'a word" where
  "RotateRight x n = drop_bit n x OR push_bit (LENGTH('a) - n) x"

definition TernarySelection :: "'a::len word \<Rightarrow> 'a word \<Rightarrow> 'a word \<Rightarrow> 'a word" where
  "TernarySelection x y z = z XOR (x AND (y XOR z))"

definition TernaryMajority :: "'a::len word \<Rightarrow> 'a word \<Rightarrow> 'a word \<Rightarrow> 'a word" where
  "TernaryMajority x y z = (x AND y) OR (z AND (x XOR y))"

definition TernaryParity :: "'a::len word \<Rightarrow> 'a word \<Rightarrow> 'a word \<Rightarrow> 'a word" where
  "TernaryParity x y z = x XOR y XOR z"

lemma RotateRight_Left [simp]:
  assumes "n \<le> LENGTH('a)"
  shows "RotateRight (RotateLeft (x :: 'a::len word) n) n = x"
proof (rule bit_word_eqI)
  fix i assume i: "i < LENGTH('a)"
  show "bit (RotateRight (RotateLeft x n) n) i = bit x i"
  proof (cases "n + i < LENGTH('a)")
    case True
    then show ?thesis
      using assms i unfolding RotateRight_def RotateLeft_def
      by (auto simp: bit_simps dest: bit_imp_le_length)
  next
    case False
    then have "LENGTH('a) + (i + n - LENGTH('a)) - n = i" using assms by simp
    then show ?thesis
      using False assms i unfolding RotateRight_def RotateLeft_def
      by (auto simp: bit_simps dest: bit_imp_le_length)
  qed
qed

lemma RotateLeft_Right [simp]:
  assumes "n \<le> LENGTH('a)"
  shows "RotateLeft (RotateRight (x :: 'a::len word) n) n = x"
proof (rule bit_word_eqI)
  fix i assume i: "i < LENGTH('a)"
  show "bit (RotateLeft (RotateRight x n) n) i = bit x i"
  proof (cases "n \<le> i")
    case True
    then show ?thesis
      using assms i unfolding RotateRight_def RotateLeft_def
      by (auto simp: bit_simps dest: bit_imp_le_length)
  next
    case False
    then have "LENGTH('a) - n + i - (LENGTH('a) - n) = i" using assms by simp
    then show ?thesis
      using False assms i unfolding RotateRight_def RotateLeft_def
      by (auto simp: bit_simps dest: bit_imp_le_length)
  qed
qed

lemma RotateLeft_word_rotl:
  assumes "n < LENGTH('a)"
  shows "RotateLeft (x :: 'a::len word) n = word_rotl n x"
proof (rule bit_word_eqI)
  fix i assume i: "i < LENGTH('a)"
  have "(i + (LENGTH('a) - n)) mod LENGTH('a) = (if i < n then i + (LENGTH('a) - n) else i - n)"
    using i assms by (auto simp: mod_if)
  then show "bit (RotateLeft x n) i = bit (word_rotl n x) i"
    using i assms
    by (auto simp: RotateLeft_def bit_simps bit_word_rotl_iff add.commute dest: bit_imp_le_length)
qed

lemma TernarySelection_alt: "TernarySelection x y z = (x AND y) OR (NOT x AND z)"
  by (rule bit_word_eqI) (auto simp: TernarySelection_def bit_simps)

lemma TernaryMajority_alt: "TernaryMajority x y z = (x AND y) OR (x AND z) OR (y AND z)"
  by (rule bit_word_eqI) (auto simp: TernaryMajority_def bit_simps)

section \<open>Rounding\<close>

definition IsPowerOf2 :: "'a::len word \<Rightarrow> bool" where
  "IsPowerOf2 x \<longleftrightarrow> x AND (x - 1) = 0"

definition RoundUpToPowerOf2 :: "'a::len word \<Rightarrow> 'a word \<Rightarrow> 'a word" where
  "RoundUpToPowerOf2 x pow2 = (let m1 = pow2 - 1 in (x + m1) AND NOT m1)"

definition RoundUpToMultiple :: "'a::len word \<Rightarrow> 'a word \<Rightarrow> 'a word" where
  "RoundUpToMultiple x multiple = (let t = x + (multiple - 1) in t - (t mod multiple))"

definition DivideAndRoundUp :: "'a::len word \<Rightarrow> 'a word \<Rightarrow> 'a word" where
  "DivideAndRoundUp x div' = (let t = x + (div' - 1) in t div div')"

section \<open>Bytes of words\<close>

definition GetByte :: "'a::len word \<Rightarrow> nat \<Rightarrow> byte" where
  "GetByte x n = ucast (drop_bit (n * 8) x)"

definition GetArrayByte :: "'a::len word list \<Rightarrow> nat \<Rightarrow> byte" where
  "GetArrayByte p n =
     GetByte (p ! (n div (LENGTH('a) div 8))) (n AND (LENGTH('a) div 8 - 1))"

function CopyBackwards :: "byte list \<Rightarrow> nat \<Rightarrow> nat \<Rightarrow> nat \<Rightarrow> byte list" where
  "CopyBackwards src len sz blk =
     (if blk < len \<and> 0 < sz
      then map (\<lambda>j. src ! (blk + (sz - j - 1))) [0..<min sz (len - blk)]
             @ CopyBackwards src len sz (blk + sz)
      else [])"
  by pat_completeness auto
termination
  by (relation "measure (\<lambda>(src, len, sz, blk). len - blk)") auto

declare CopyBackwards.simps [simp del]

definition ByteSwap :: "'a::len word \<Rightarrow> 'a word" where
  "ByteSwap x =
     (let n = LENGTH('a) div 8
      in foldl (\<lambda>p i. p OR push_bit ((n - i - 1) * 8) (drop_bit (i * 8) x AND 0xff)) 0 [0..<n])"

section \<open>Byte order\<close>

datatype endianness = Little | Big

definition GetEndianness :: "endianness \<Rightarrow> nat" where
  "GetEndianness e = (case e of Little \<Rightarrow> 1234 | Big \<Rightarrow> 4321)"

text \<open>How a machine of the given byte order keeps a word in memory, and reads it back.\<close>

definition store :: "endianness \<Rightarrow> 'a::len word \<Rightarrow> byte list" where
  "store e w = (case e of Little \<Rightarrow> le_store w | Big \<Rightarrow> be_store w)"

definition load :: "endianness \<Rightarrow> byte list \<Rightarrow> 'a::len word" where
  "load e bs = (case e of Little \<Rightarrow> le_load bs | Big \<Rightarrow> be_load bs)"

definition Convert_in :: "endianness \<Rightarrow> endianness \<Rightarrow> byte list \<Rightarrow> 'a::len word" where
  "Convert_in host E p =
     (if host = E then load host p else ByteSwap (load host p))"

definition Convert_out :: "endianness \<Rightarrow> endianness \<Rightarrow> 'a::len word \<Rightarrow> byte list" where
  "Convert_out host E p =
     (if host = E then store host p else store host (ByteSwap p))"

definition Copy_in :: "endianness \<Rightarrow> endianness \<Rightarrow> byte list \<Rightarrow> nat \<Rightarrow> 'a::len word list" where
  "Copy_in host E src len =
     (if host = E then map (load host) (chunks (LENGTH('a) div 8) (take len src))
      else map (Convert_in host E) (chunks (LENGTH('a) div 8) (take len src)))"

definition Copy_out :: "endianness \<Rightarrow> endianness \<Rightarrow> 'a::len word list \<Rightarrow> nat \<Rightarrow> byte list" where
  "Copy_out host E src len =
     (if host = E then take len (concat (map (store host) src))
      else let n = LENGTH('a) div 8
           in concat (map (Convert_out host E) (take ((len + (n - 1)) div n) src)))"

definition CopyCarefully_out ::
    "endianness \<Rightarrow> endianness \<Rightarrow> 'a::len word list \<Rightarrow> nat \<Rightarrow> nat \<Rightarrow> byte list" where
  "CopyCarefully_out host E src len sz =
     (if host = E then take len (concat (map (store host) src))
      else CopyBackwards (concat (map (store host) src)) len sz 0)"

text \<open>Nothing depends on the byte order of the machine.\<close>

lemma bit_foldl_OR:
  "bit (foldl (\<lambda>p i. p OR f i) (a :: 'a::len word) xs) n \<longleftrightarrow> bit a n \<or> (\<exists>i\<in>set xs. bit (f i) n)"
  by (induction xs arbitrary: a) (auto simp: bit_simps)

lemma and_0xff: "x AND 0xff = take_bit 8 (x :: 'a::len word)"
  by (simp add: take_bit_eq_mask mask_eq_exp_minus_1)

lemma bit_ByteSwap_term:
  assumes k: "LENGTH('a) = 8 * k" and "i < k" "b < k" "r < 8"
  shows "bit (push_bit ((k - i - 1) * 8) (drop_bit (i * 8) x AND 0xff) :: 'a::len word) (8 * b + r)
     \<longleftrightarrow> i = k - 1 - b \<and> bit x (8 * i + r)"
proof -
  define c where "c = k - i - 1"
  have iff: "i = k - 1 - b \<longleftrightarrow> c = b" using assms by (auto simp: c_def)
  have n: "8 * b + r < LENGTH('a)" using assms by simp
  consider (lt) "b < c" | (eq) "b = c" | (gt) "c < b" by linarith
  then show ?thesis
  proof cases
    case lt
    then have "\<not> c * 8 \<le> 8 * b + r" using assms by simp
    then show ?thesis using lt unfolding iff c_def[symmetric] by (simp add: bit_simps)
  next
    case eq
    then have "8 * b + r - c * 8 = r" and "c * 8 \<le> 8 * b + r" by simp_all
    moreover have "r < LENGTH('a)" using n by simp
    ultimately show ?thesis
      using eq n assms(4) unfolding iff c_def[symmetric]
      by (auto simp: bit_simps and_0xff mult.commute)
  next
    case gt
    then have "\<not> 8 * b + r - c * 8 < 8" by simp
    then show ?thesis
      using gt unfolding iff c_def[symmetric] by (simp add: bit_simps and_0xff)
  qed
qed

lemma bit_ByteSwap:
  assumes k: "LENGTH('a) = 8 * k" and b: "b < k" and r: "r < 8"
  shows "bit (ByteSwap (x :: 'a::len word)) (8 * b + r) \<longleftrightarrow> bit x (8 * (k - 1 - b) + r)"
proof -
  have div: "LENGTH('a) div 8 = k" using k by simp
  have "bit (ByteSwap x) (8 * b + r) \<longleftrightarrow>
      (\<exists>i\<in>{0..<k}. bit (push_bit ((k - i - 1) * 8) (drop_bit (i * 8) x AND 0xff) :: 'a word) (8 * b + r))"
    unfolding ByteSwap_def Let_def div bit_foldl_OR by simp
  also have "\<dots> \<longleftrightarrow> (\<exists>i\<in>{0..<k}. i = k - 1 - b \<and> bit x (8 * i + r))"
    by (intro bex_cong refl bit_ByteSwap_term[OF k _ b r]) simp
  also have "\<dots> \<longleftrightarrow> bit x (8 * (k - 1 - b) + r)" using b by auto
  finally show ?thesis .
qed

lemma le_store_ByteSwap:
  assumes "8 dvd LENGTH('a)"
  shows "le_store (ByteSwap (x :: 'a::len word)) = be_store x"
proof -
  from assms obtain k where k: "LENGTH('a) = 8 * k" by (elim dvdE)
  show ?thesis
  proof (rule nth_equalityI)
    show "length (le_store (ByteSwap x)) = length (be_store x)" by (simp add: bytes_simps)
  next
    fix b assume "b < length (le_store (ByteSwap x))"
    then have b: "b < k" using k by (simp add: bytes_simps)
    show "le_store (ByteSwap x) ! b = be_store x ! b"
    proof (rule bit_word_eqI)
      fix r assume "r < LENGTH(8)"
      then have r: "r < 8" by simp
      have "be_store x ! b = ucast (drop_bit (8 * (k - 1 - b)) x)"
        using b k by (simp add: be_store_def rev_nth bytes_simps nth_le_store)
      then show "bit (le_store (ByteSwap x) ! b) r = bit (be_store x ! b) r"
        using b r k bit_ByteSwap[OF k b r, of x] by (simp add: nth_le_store bit_simps)
    qed
  qed
qed

lemma length_store [bytes_simps]: "length (store e (w :: 'a::len word)) = LENGTH('a) div 8"
  by (cases e) (simp_all add: store_def bytes_simps)

lemma load_store [bytes_simps]: "8 dvd LENGTH('a::len) \<Longrightarrow> load e (store e (w :: 'a word)) = w"
  by (cases e) (simp_all add: store_def load_def bytes_simps)

lemma store_load [bytes_simps]:
  "LENGTH('a::len) = 8 * length bs \<Longrightarrow> store e (load e bs :: 'a word) = bs"
  by (cases e) (simp_all add: store_def load_def bytes_simps)

lemma store_ByteSwap:
  assumes "8 dvd LENGTH('a)" and "e \<noteq> e'"
  shows "store e (ByteSwap (x :: 'a::len word)) = store e' x"
  using assms le_store_ByteSwap[of x]
  by (cases e; cases e') (simp_all add: store_def be_store_def)

lemma Convert_out_store:
  "8 dvd LENGTH('a) \<Longrightarrow> Convert_out host E (x :: 'a::len word) = store E x"
  by (simp add: Convert_out_def store_ByteSwap)

lemma Convert_in_load:
  assumes "LENGTH('a) = 8 * length bs"
  shows "Convert_in host E bs = (load E bs :: 'a::len word)"
proof (cases "host = E")
  case False
  let ?w = "load host bs :: 'a word"
  have dvd: "8 dvd LENGTH('a)" using assms by simp
  have "store E (ByteSwap ?w) = store host ?w"
    using store_ByteSwap[OF dvd, of E host ?w] False by auto
  then have "store E (ByteSwap ?w) = bs" using assms by (simp add: bytes_simps)
  then have "ByteSwap ?w = load E bs" using load_store[OF dvd, of E "ByteSwap ?w"] by simp
  then show ?thesis using False by (simp add: Convert_in_def)
qed (simp add: Convert_in_def)

lemma bytes_of_word_pos: "8 dvd LENGTH('a::len) \<Longrightarrow> 0 < LENGTH('a) div 8"
  using len_gt_0[where 'a = 'a] by (metis dvd_div_eq_0_iff gr0I less_numeral_extra(3))

section \<open>Copies are independent of the machine\<close>

lemma Copy_in_load:
  assumes "8 dvd LENGTH('a)"
  shows "Copy_in host E src len
     = (map (load E) (chunks (LENGTH('a) div 8) (take len src)) :: 'a::len word list)"
proof -
  have "Convert_in host E b = (load E b :: 'a word)"
    if "b \<in> set (chunks (LENGTH('a) div 8) (take len src))" for b
    using chunks_sizes[OF that] assms by (intro Convert_in_load) simp
  then show ?thesis by (auto simp: Copy_in_def)
qed

lemma length_concat_store [bytes_simps]:
  "length (concat (map (store e) (ws :: 'a::len word list))) = LENGTH('a) div 8 * length ws"
  by (induction ws) (simp_all add: bytes_simps)

lemma take_concat_store:
  "take (LENGTH('a) div 8 * m) (concat (map (store e) (ws :: 'a::len word list)))
     = concat (map (store e) (take m ws))"
proof (induction ws arbitrary: m)
  case (Cons w ws)
  then show ?case by (cases m) (simp_all add: bytes_simps)
qed simp

lemma Copy_out_store:
  assumes "8 dvd LENGTH('a)" "LENGTH('a) div 8 dvd len"
  shows "Copy_out host E (src :: 'a::len word list) len = take len (concat (map (store E) src))"
proof -
  let ?n = "LENGTH('a) div 8"
  from assms obtain m where m: "len = ?n * m" by (elim dvdE)
  have n: "0 < ?n" using assms(1) by (rule bytes_of_word_pos)
  have "(?n - 1 + ?n * m) div ?n = m + (?n - 1) div ?n"
    using n by (intro div_mult_self2) simp
  then have "(len + (?n - 1)) div ?n = m"
    using n by (simp add: m add.commute)
  moreover have "map (Convert_out host E) (take m src) = map (store E) (take m src)"
    by (intro map_cong refl Convert_out_store assms(1))
  ultimately have "Copy_out host E src len = concat (map (store E) (take m src))"
    using take_concat_store[of m host src] unfolding Copy_out_def Let_def
    by (cases "host = E") (simp_all only: m if_True if_False simp_thms)
  then show ?thesis by (simp add: m take_concat_store)
qed

text \<open>
  \<^verbatim>\<open>CopyCarefully\<close> also cuts in the middle of a word: the last group of
  \<^verbatim>\<open>CopyBackwards\<close> is the front of the reversed word.
\<close>

lemma CopyBackwards_shift:
  "length as \<le> len \<Longrightarrow>
   CopyBackwards (as @ src) len sz (length as + blk) = CopyBackwards src (len - length as) sz blk"
proof (induction src "len - length as" sz blk rule: CopyBackwards.induct)
  case (1 src sz blk)
  show ?case
  proof (cases "length as + blk < len \<and> 0 < sz")
    case True
    then have "CopyBackwards (as @ src) len sz (length as + (blk + sz))
        = CopyBackwards src (len - length as) sz (blk + sz)"
      using 1 by (simp add: less_diff_conv add.commute)
    then show ?thesis
      using True
      by (subst (1 2) CopyBackwards.simps)
        (simp add: nth_append less_diff_conv add.commute add.left_commute diff_diff_left)
  next
    case False
    then show ?thesis by (subst (1 2) CopyBackwards.simps) auto
  qed
qed

lemma CopyBackwards_group:
  assumes "length b = sz" "0 < sz" "0 < len"
  shows "CopyBackwards (b @ src) len sz 0
     = take len (rev b) @ CopyBackwards src (len - sz) sz 0"
proof -
  have "map (\<lambda>j. (b @ src) ! (sz - j - 1)) [0..<min sz len] = take len (rev b)"
    using assms by (intro nth_equalityI) (auto simp: nth_append rev_nth)
  moreover have "CopyBackwards (b @ src) len sz sz = CopyBackwards src (len - sz) sz 0"
  proof (cases "sz \<le> len")
    case True
    then show ?thesis using CopyBackwards_shift[of b len src sz 0] assms by simp
  next
    case False
    then show ?thesis by (simp add: CopyBackwards.simps)
  qed
  ultimately show ?thesis using assms by (subst CopyBackwards.simps) simp
qed

lemma CopyBackwards_eq:
  assumes "0 < sz" "\<forall>b\<in>set bs. length b = sz" "len \<le> sz * length bs"
  shows "CopyBackwards (concat bs) len sz 0 = take len (concat (map rev bs))"
  using assms(2,3)
proof (induction bs arbitrary: len)
  case Nil
  then show ?case by (simp add: CopyBackwards.simps)
next
  case (Cons b bs)
  show ?case
  proof (cases "len = 0")
    case True
    then show ?thesis by (simp add: CopyBackwards.simps)
  next
    case False
    then show ?thesis
      using Cons assms(1) CopyBackwards_group[of b sz len "concat bs"] by simp
  qed
qed

lemma rev_store:
  "e \<noteq> e' \<Longrightarrow> rev (store e w) = store e' w"
  by (cases e; cases e') (simp_all add: store_def be_store_def)

lemma CopyCarefully_out_store:
  assumes "8 dvd LENGTH('a)" "len \<le> LENGTH('a) div 8 * length src"
  shows "CopyCarefully_out host E (src :: 'a::len word list) len (LENGTH('a) div 8)
     = take len (concat (map (store E) src))"
proof (cases "host = E")
  case False
  have "0 < LENGTH('a) div 8" using assms(1) by (rule bytes_of_word_pos)
  moreover have "map rev (map (store host) src) = map (store E) src"
    by (simp add: rev_store[OF False])
  ultimately show ?thesis
    using False CopyBackwards_eq[of "LENGTH('a) div 8" "map (store host) src" len] assms(2)
    by (simp add: CopyCarefully_out_def bytes_simps del: map_map)
qed (simp add: CopyCarefully_out_def)

section \<open>Arrays of words\<close>

text \<open>
  \<open>E::Copy\<close> between a byte buffer and an array of words, as the algorithms use it: by
  \<open>Copy_in_load\<close> and \<open>Copy_out_store\<close> it is \<open>load_words E\<close> and
  \<open>store_words E\<close> on every machine.
\<close>

definition load_words :: "endianness \<Rightarrow> byte list \<Rightarrow> 'a::len word list" where
  "load_words E bs = map (load E) (chunks (LENGTH('a) div 8) bs)"

definition store_words :: "endianness \<Rightarrow> 'a::len word list \<Rightarrow> byte list" where
  "store_words E ws = concat (map (store E) ws)"

lemma Copy_in_load_words:
  "8 dvd LENGTH('a) \<Longrightarrow> Copy_in host E src len = (load_words E (take len src) :: 'a::len word list)"
  by (simp add: load_words_def Copy_in_load)

lemma Copy_out_store_words:
  assumes "8 dvd LENGTH('a)" "len = LENGTH('a) div 8 * length src"
  shows "Copy_out host E (src :: 'a::len word list) len = store_words E src"
  using assms by (simp add: store_words_def Copy_out_store bytes_simps)

lemma length_load_words [bytes_simps]:
  "8 dvd LENGTH('a) \<Longrightarrow> length (load_words E bs :: 'a::len word list) = length bs div (LENGTH('a) div 8)"
  using bytes_of_word_pos[where 'a = 'a] by (simp add: load_words_def length_chunks)

lemma length_store_words [bytes_simps]:
  "length (store_words E (ws :: 'a::len word list)) = LENGTH('a) div 8 * length ws"
  by (simp add: store_words_def bytes_simps)

lemma load_store_words [bytes_simps]:
  assumes "8 dvd LENGTH('a)"
  shows "load_words E (store_words E (ws :: 'a::len word list)) = ws"
proof -
  have "chunks (LENGTH('a) div 8) (concat (map (store E) ws)) = map (store E) ws"
    using bytes_of_word_pos[OF assms] by (intro chunks_concat) (auto simp: bytes_simps)
  then show ?thesis
    using assms by (simp add: load_words_def store_words_def o_def bytes_simps)
qed

lemma store_load_words [bytes_simps]:
  assumes "8 dvd LENGTH('a)" "LENGTH('a) div 8 dvd length bs"
  shows "store_words E (load_words E bs :: 'a::len word list) = bs"
proof -
  let ?n = "LENGTH('a) div 8"
  have "store E (load E b :: 'a word) = b" if "b \<in> set (chunks ?n bs)" for b
    using chunks_sizes[OF that] assms(1) by (intro store_load) simp
  then have "map (store E \<circ> (load E :: byte list \<Rightarrow> 'a word)) (chunks ?n bs) = chunks ?n bs"
    by (intro map_idI) simp
  then show ?thesis
    using assms by (simp add: store_words_def load_words_def concat_chunks)
qed

text \<open>
  \<open>E::Copy(m, key, len)\<close> of a key of any length into a member \<open>m\<close>. \<^verbatim>\<open>Copy\<close> assumes
  that \<open>len\<close> is a multiple of the size of a word: on a machine of the other byte order it reads a last,
  incomplete word past the end of the key. \<open>None\<close> is such a length, or one for which the array is too small.
\<close>

definition Copy_array :: "endianness \<Rightarrow> byte list \<Rightarrow> 'a::len word list \<Rightarrow> 'a word list option" where
  "Copy_array E key m =
     (let k = LENGTH('a) div 8
      in if k dvd length key \<and> length key \<le> k * length m
         then Some (load_words E key @ drop (length key div k) m) else None)"

lemma Copy_array_length:
  assumes "8 dvd LENGTH('a)" "Copy_array E key (m :: 'a::len word list) = Some m'"
  shows "length m' = length m"
proof -
  have "length key div (LENGTH('a) div 8) \<le> length m"
    using assms bytes_of_word_pos[OF assms(1)] by (auto simp: Copy_array_def Let_def elim!: dvdE split: if_splits)
  then show ?thesis using assms by (auto simp: Copy_array_def Let_def length_load_words split: if_splits)
qed

section \<open>Lengths as return values\<close>

text \<open>A \<^verbatim>\<open>size_t\<close> returned by a function whose type is \<^verbatim>\<open>int\<close>, of 32 bits: it is reduced
  modulo \<open>2 ^ 32\<close>, so a length from \<open>2 ^ 31\<close> on comes out negative or wrong.\<close>

definition int_of_size :: "nat \<Rightarrow> int" where
  "int_of_size n = (let m = n mod 2 ^ 32 in if m < 2 ^ 31 then int m else int m - 2 ^ 32)"

lemma int_of_size_small: "n < 2 ^ 31 \<Longrightarrow> int_of_size n = int n"
  by (simp add: int_of_size_def)

lemma int_of_size_large: "2 ^ 31 \<le> n \<Longrightarrow> n < 2 ^ 32 \<Longrightarrow> int_of_size n = int n - 2 ^ 32 \<and> int_of_size n < 0"
  by (simp add: int_of_size_def)

section \<open>Words in a row as one number\<close>

text \<open>The first element is the most significant.\<close>

definition be_num :: "'a::len word list \<Rightarrow> nat" where
  "be_num ws = foldl (\<lambda>v w. v * 2 ^ LENGTH('a) + unat w) 0 ws"

lemma be_num_simps [simp]:
  "be_num [] = 0"
  "be_num (ws @ [w :: 'a::len word]) = be_num ws * 2 ^ LENGTH('a) + unat w"
  by (simp_all add: be_num_def)

lemma be_num_single [simp]: "be_num [w] = unat w"
  using be_num_simps(2)[of "[]" w] by simp

lemma be_num_append:
  "be_num (ws @ vs) = be_num ws * (2 ^ LENGTH('a)) ^ length vs + be_num (vs :: 'a::len word list)"
proof (induction vs rule: rev_induct)
  case (snoc v vs)
  have "be_num (ws @ vs @ [v]) = be_num (ws @ vs) * 2 ^ LENGTH('a) + unat v"
    using be_num_simps(2)[of "ws @ vs" v] by simp
  then show ?case using snoc by (simp add: algebra_simps)
qed simp

lemma be_num_bound: "be_num (ws :: 'a::len word list) < (2 ^ LENGTH('a)) ^ length ws"
proof (induction ws rule: rev_induct)
  case (snoc w ws)
  let ?B = "2 ^ LENGTH('a) :: nat"
  have "be_num ws * ?B + unat w < be_num ws * ?B + ?B" by simp
  also have "\<dots> = (be_num ws + 1) * ?B" by (simp add: algebra_simps)
  also have "\<dots> \<le> ?B ^ length ws * ?B" using snoc by (intro mult_right_mono) simp_all
  finally show ?case by (simp add: mult.commute)
qed simp

lemma be_num_inj:
  "length ws = length vs \<Longrightarrow> be_num ws = be_num vs \<Longrightarrow> ws = (vs :: 'a::len word list)"
proof (induction ws arbitrary: vs rule: rev_induct)
  case (snoc w ws)
  let ?B = "2 ^ LENGTH('a) :: nat"
  obtain us v where v: "vs = us @ [v]" using snoc.prems(1) by (cases vs rule: rev_cases) auto
  have eq: "be_num ws * ?B + unat w = be_num us * ?B + unat v" using snoc.prems(2) v by simp
  have "unat w = (be_num ws * ?B + unat w) mod ?B" by simp
  also have "\<dots> = unat v" by (simp add: eq)
  finally have "w = v" by (simp add: word_unat_eq_iff)
  moreover have "be_num ws = be_num us" using eq \<open>w = v\<close> by simp
  ultimately show ?case using snoc v by simp
qed simp

lemma be_num_be_store:
  assumes "8 dvd LENGTH('a::len)"
  shows "be_num (be_store (w :: 'a word)) = unat w"
proof -
  have "be_num (rev (map (\<lambda>i. ucast (drop_bit (8 * i) w) :: byte) [0..<n])) = unat w mod 256 ^ n" for n
  proof (induction n)
    case (Suc n)
    let ?b = "ucast (drop_bit (8 * n) w) :: byte"
    have "unat ?b = unat w div 256 ^ n mod 256"
      unfolding unsigned_ucast_eq unsigned_drop_bit_eq by (simp add: take_bit_eq_mod drop_bit_eq_div power_mult)
    moreover have "be_num (?b # xs) = unat ?b * 256 ^ length xs + be_num xs" for xs
      using be_num_append[of "[?b]" xs] by simp
    moreover have "unat w mod 256 ^ Suc n = 256 ^ n * (unat w div 256 ^ n mod 256) + unat w mod 256 ^ n"
      using mod_mult2_eq[of "unat w" "256 ^ n" 256] by (simp add: mult.commute)
    ultimately show ?case using Suc by (simp add: mult.commute)
  qed simp
  moreover have "unat w mod 256 ^ (LENGTH('a) div 8) = unat w"
  proof -
    have "(256 :: nat) ^ (LENGTH('a) div 8) = (2 ^ 8) ^ (LENGTH('a) div 8)" by simp
    also have "\<dots> = 2 ^ LENGTH('a)" using assms by (simp only: power_mult[symmetric]) simp
    finally show ?thesis by simp
  qed
  ultimately show ?thesis by (simp add: be_store_def le_store_def)
qed

lemma be_num_store_words:
  assumes "8 dvd LENGTH('a::len)"
  shows "be_num (store_words Big (ws :: 'a word list)) = be_num ws"
proof (induction ws rule: rev_induct)
  case (snoc w ws)
  have "((2 :: nat) ^ LENGTH(8)) ^ (LENGTH('a) div 8) = 2 ^ LENGTH('a)"
    using assms by (simp only: power_mult[symmetric]) simp
  moreover have "store_words Big (ws @ [w]) = store_words Big ws @ be_store w"
    by (simp add: store_words_def store_def)
  ultimately show ?case
    using snoc assms by (simp add: be_num_append be_num_be_store length_be_store)
qed (simp add: store_words_def)

end
