(* ===== verification/Block_Cipher.thy ===== *)
theory Block_Cipher
  imports Util
begin

text \<open>
  The base class \<^verbatim>\<open>BlockCipher<BlockSize, E>\<close> of
  \<^verbatim>\<open>impl/block/blockcipher.hh\<close>: the multi-block operations \<^verbatim>\<open>EncryptFast\<close> and
  \<^verbatim>\<open>DecryptFast\<close> over the virtual single-block ones, and the contract every cipher of
  \<^verbatim>\<open>impl/block\<close> gives them, as the locale \<open>block_cipher\<close>.
\<close>

section \<open>The context\<close>

record 'c block_ctx =
  keysz :: nat
  cipher :: 'c

text \<open>The \<^verbatim>\<open>SetKeyInternal\<close> of a class is \<open>None\<close> where it would leave an array or divide by
  zero; where it returns at all, most classes return 0, and the 0 is left out.\<close>

definition SetKey :: "(byte list \<Rightarrow> 'c \<Rightarrow> 'c option) \<Rightarrow> byte list \<Rightarrow> 'c block_ctx \<Rightarrow> 'c block_ctx option" where
  "SetKey SetKeyInternal key ctx =
     map_option (\<lambda>c. ctx\<lparr>keysz := length key, cipher := c\<rparr>) (SetKeyInternal key (cipher ctx))"

definition GetKeySize :: "'c block_ctx \<Rightarrow> int" where
  "GetKeySize ctx = int_of_size (keysz ctx)"

section \<open>Blocks as small arrays of words\<close>

type_synonym quad = "u32 \<times> u32 \<times> u32 \<times> u32"

lemma load_pair:
  "length b = 8 \<Longrightarrow> store_words E [load_words E b ! 0, load_words E b ! Suc 0 :: u32] = b"
  using length_two[of "load_words E b :: u32 list"] store_load_words[where 'a = 32, of b E]
  by (simp add: bytes_simps)

lemma load_quad:
  "length b = 16 \<Longrightarrow> store_words E [load_words E b ! 0, load_words E b ! Suc 0,
     load_words E b ! 2, load_words E b ! 3 :: u32] = b"
  using length_four[of "load_words E b :: u32 list"] store_load_words[where 'a = 32, of b E]
  by (simp add: bytes_simps)

section \<open>Several blocks at once\<close>

text \<open>
  \<open>f\<close> is \<^verbatim>\<open>Encrypt\<close> or \<^verbatim>\<open>Decrypt\<close>. A \<^verbatim>\<open>FastBlock\<close> of 8 bytes is aligned
  to 16, so for an 8-byte cipher the pointers advance by 16 bytes and two blocks are done at
  a time, \<^verbatim>\<open>n/2\<close> times; a 16-byte cipher advances block by block; every other size
  keeps the pointers and moves an offset.
\<close>

definition FastBlocks :: "nat \<Rightarrow> (byte list \<Rightarrow> byte list) \<Rightarrow> byte list \<Rightarrow> nat \<Rightarrow> byte list" where
  "FastBlocks BlockSize f bin n =
     (if BlockSize = 8
      then concat (map (\<lambda>i. let b = drop (16 * i) bin in f (take 8 b) @ f (take 8 (drop 8 b)))
             [0..<n div 2])
      else if BlockSize = 16
      then concat (map (\<lambda>i. f (take 16 (drop (16 * i) bin))) [0..<n])
      else concat (map (\<lambda>i. let off = i * BlockSize in f (take BlockSize (drop off bin))) [0..<n]))"

definition EncryptFast ::
    "nat \<Rightarrow> ('c \<Rightarrow> byte list \<Rightarrow> byte list) \<Rightarrow> 'c \<Rightarrow> byte list \<Rightarrow> nat \<Rightarrow> byte list" where
  "EncryptFast BlockSize Encrypt c bin n = FastBlocks BlockSize (Encrypt c) bin n"

definition DecryptFast ::
    "nat \<Rightarrow> ('c \<Rightarrow> byte list \<Rightarrow> byte list) \<Rightarrow> 'c \<Rightarrow> byte list \<Rightarrow> nat \<Rightarrow> byte list" where
  "DecryptFast BlockSize Decrypt c bin n = FastBlocks BlockSize (Decrypt c) bin n"

lemma chunks_upt:
  "0 < m \<Longrightarrow> m * n \<le> length xs \<Longrightarrow> chunks m (take (m * n) xs) = map (\<lambda>i. take m (drop (m * i) xs)) [0..<n]"
proof (induction n arbitrary: xs)
  case 0
  then show ?case by simp
next
  case (Suc n)
  have "take (m * Suc n) xs = take m xs @ take (m * n) (drop m xs)"
    by (simp add: take_add)
  then have "chunks m (take (m * Suc n) xs) = take m xs # chunks m (take (m * n) (drop m xs))"
    using Suc.prems by (simp add: chunks_block)
  also have "chunks m (take (m * n) (drop m xs)) = map (\<lambda>i. take m (drop (m * i) (drop m xs))) [0..<n]"
    using Suc.prems by (intro Suc.IH) auto
  also have "\<dots> = map (\<lambda>i. take m (drop (m * Suc i) xs)) [0..<n]"
    by (simp add: add.commute)
  also have "take m xs # \<dots> = map (\<lambda>i. take m (drop (m * i) xs)) (0 # map Suc [0..<n])"
    by (simp add: o_def)
  also have "0 # map Suc [0..<n] = [0..<Suc n]"
    by (simp add: map_Suc_upt upt_conv_Cons del: upt_Suc)
  finally show ?case .
qed

lemma concat_pairs:
  assumes "\<And>i. p i = f (2 * i) @ f (Suc (2 * i))"
  shows "concat (map p [0..<m]) = concat (map f [0..<2 * m])"
  by (induction m) (simp_all add: assms)

lemma FastBlocks_chunks:
  assumes "0 < m" "m * n \<le> length bin" "m = 8 \<Longrightarrow> even n"
  shows "FastBlocks m f bin n = concat (map f (chunks m (take (m * n) bin)))"
proof (cases "m = 8")
  case True
  then obtain k where k: "n = 2 * k" using assms(3) by (auto elim: evenE)
  have "FastBlocks m f bin n = concat (map (\<lambda>i. f (take 8 (drop (8 * i) bin))) [0..<2 * k])"
    unfolding FastBlocks_def True k Let_def if_True
    by (simp add: concat_pairs[where f = "\<lambda>i. f (take 8 (drop (8 * i) bin))"])
  then show ?thesis
    using assms(2) True k chunks_upt[of 8 n bin] by (simp add: o_def)
next
  case False
  then show ?thesis
    using assms chunks_upt[of m n bin] by (auto simp: FastBlocks_def o_def mult.commute)
qed

section \<open>The contract of a block cipher\<close>

locale block_cipher =
  fixes BlockSize :: nat
    and Encrypt :: "'c \<Rightarrow> byte list \<Rightarrow> byte list"
    and Decrypt :: "'c \<Rightarrow> byte list \<Rightarrow> byte list"
    and keyed :: "'c \<Rightarrow> bool"
  assumes block_pos: "0 < BlockSize"
    and length_Encrypt: "keyed c \<Longrightarrow> length b = BlockSize \<Longrightarrow> length (Encrypt c b) = BlockSize"
    and length_Decrypt: "keyed c \<Longrightarrow> length b = BlockSize \<Longrightarrow> length (Decrypt c b) = BlockSize"
    and Decrypt_Encrypt: "keyed c \<Longrightarrow> length b = BlockSize \<Longrightarrow> Decrypt c (Encrypt c b) = b"
    and Encrypt_Decrypt: "keyed c \<Longrightarrow> length b = BlockSize \<Longrightarrow> Encrypt c (Decrypt c b) = b"
begin

lemma bij_Encrypt:
  assumes "keyed c"
  shows "bij_betw (Encrypt c) {b. length b = BlockSize} {b. length b = BlockSize}"
  using assms
  by (intro bij_betw_byWitness[where f' = "Decrypt c"])
    (auto simp: length_Encrypt length_Decrypt Decrypt_Encrypt Encrypt_Decrypt)

lemma length_map_Encrypt:
  "keyed c \<Longrightarrow> \<forall>b\<in>set bs. length b = BlockSize \<Longrightarrow> length (concat (map (Encrypt c) bs)) = BlockSize * length bs"
  by (induction bs) (simp_all add: length_Encrypt)

lemma DecryptFast_EncryptFast:
  assumes "keyed c" and len: "length bin = BlockSize * n" and "BlockSize = 8 \<Longrightarrow> even n"
  shows "DecryptFast BlockSize Decrypt c (EncryptFast BlockSize Encrypt c bin n) n = bin"
proof -
  let ?bs = "chunks BlockSize bin"
  have sizes: "\<forall>b\<in>set ?bs. length b = BlockSize" by (auto intro: chunks_sizes)
  have cnt: "length ?bs = n" using len block_pos by (simp add: length_chunks)
  have enc: "EncryptFast BlockSize Encrypt c bin n = concat (map (Encrypt c) ?bs)"
    using assms block_pos by (simp add: EncryptFast_def FastBlocks_chunks)
  have "\<forall>b\<in>set (map (Encrypt c) ?bs). length b = BlockSize"
    using sizes assms(1) by (auto simp: length_Encrypt)
  then have "chunks BlockSize (concat (map (Encrypt c) ?bs)) = map (Encrypt c) ?bs"
    using block_pos by (rule chunks_concat)
  moreover have "length (concat (map (Encrypt c) ?bs)) = BlockSize * n"
    using length_map_Encrypt[OF assms(1) sizes] cnt by simp
  ultimately have "DecryptFast BlockSize Decrypt c (concat (map (Encrypt c) ?bs)) n
      = concat (map (Decrypt c \<circ> Encrypt c) ?bs)"
    using assms(3) block_pos by (simp add: DecryptFast_def FastBlocks_chunks)
  also have "map (Decrypt c \<circ> Encrypt c) ?bs = ?bs"
    using sizes assms(1) by (intro map_idI) (simp add: Decrypt_Encrypt)
  finally show ?thesis using enc len by (simp add: concat_chunks)
qed

end

end
