(* ===== verification/Rijndael_Spec.thy ===== *)
theory Rijndael_Spec
  imports Block_Cipher
begin

text \<open>
  Rijndael as FIPS 197 and the submission to NIST describe it, for blocks of any number of
  columns: the field of 256 elements, the byte substitution, the cipher and its inverse over
  states that are lists of columns, and the key expansion. \<^verbatim>\<open>impl/block/aes\<close> and
  \<^verbatim>\<open>impl/block/rijndael\<close> are compared with it.
\<close>

section \<open>The field\<close>

definition xtime :: "byte \<Rightarrow> byte" where
  "xtime x = push_bit 1 x XOR (if bit x 7 then 0x1b else 0)"

definition gf_mul :: "byte \<Rightarrow> byte \<Rightarrow> byte" where
  "gf_mul k x = foldr (\<lambda>i r. (if bit k i then x else 0) XOR xtime r) [0..<8] 0"

text \<open>All bytes, and the multiplicative inverse, which is 0 for 0.\<close>

definition all_bytes :: "byte list" where
  "all_bytes = map word_of_nat [0..<256]"

definition gf_inv :: "byte \<Rightarrow> byte" where
  "gf_inv x = (case find (\<lambda>y. gf_mul x y = 1) all_bytes of None \<Rightarrow> 0 | Some y \<Rightarrow> y)"

definition affine :: "byte \<Rightarrow> byte" where
  "affine y = (y XOR RotateLeft y 1 XOR RotateLeft y 2 XOR RotateLeft y 3 XOR RotateLeft y 4) XOR 0x63"

definition inv_affine :: "byte \<Rightarrow> byte" where
  "inv_affine y = (RotateLeft y 1 XOR RotateLeft y 3 XOR RotateLeft y 6) XOR 0x05"

definition sub_byte :: "byte \<Rightarrow> byte" where
  "sub_byte x = affine (gf_inv x)"

definition inv_sub_byte :: "byte \<Rightarrow> byte" where
  "inv_sub_byte x = gf_inv (inv_affine x)"

lemma xtime_0 [simp]: "xtime 0 = 0"
  by (simp add: xtime_def)

lemma xtime_xor: "xtime (x XOR y) = xtime x XOR xtime y"
  unfolding xtime_def by (rule bit_word_eqI) (auto simp: bit_simps)

lemma gf_mul_xor: "gf_mul k (x XOR y) = gf_mul k x XOR gf_mul k y"
proof -
  have "foldr (\<lambda>i r. (if bit k i then x XOR y else 0) XOR xtime r) is (a XOR b) =
      foldr (\<lambda>i r. (if bit k i then x else 0) XOR xtime r) is a XOR
      foldr (\<lambda>i r. (if bit k i then y else 0) XOR xtime r) is b" for "is" a b
    by (induction "is") (simp_all add: xtime_xor ac_simps)
  from this[of "[0..<8]" 0 0] show ?thesis by (simp add: gf_mul_def)
qed

lemma gf_mul_0 [simp]: "gf_mul k 0 = 0"
  using gf_mul_xor[of k 0 0] by simp

lemma gf_mul_code:
  "gf_mul 1 x = x" "gf_mul 2 x = xtime x" "gf_mul 3 x = x XOR xtime x"
  "gf_mul 9 x = x XOR xtime (xtime (xtime x))"
  "gf_mul 0xb x = x XOR xtime (x XOR xtime (xtime x))"
  "gf_mul 0xd x = x XOR xtime (xtime (x XOR xtime x))"
  "gf_mul 0xe x = xtime (x XOR xtime (x XOR xtime x))"
  by (simp_all add: gf_mul_def upt_rec bit_numeral_rec)

text \<open>Multiplication is linear and commutes with \<^const>\<open>xtime\<close>, so it is commutative and associative.\<close>

lemma gf_mul_xtime: "gf_mul k (xtime x) = xtime (gf_mul k x)"
proof -
  have "foldr (\<lambda>i r. (if bit k i then xtime x else 0) XOR xtime r) is (xtime a) =
      xtime (foldr (\<lambda>i r. (if bit k i then x else 0) XOR xtime r) is a)" for "is" a
    by (induction "is") (simp_all add: xtime_xor)
  from this[of "[0..<8]" 0] show ?thesis by (simp add: gf_mul_def)
qed

lemma gf_mul_left_commute: "gf_mul j (gf_mul k x) = gf_mul k (gf_mul j x)"
proof -
  have "gf_mul j (foldr (\<lambda>i r. (if bit k i then x else 0) XOR xtime r) is a) =
      foldr (\<lambda>i r. (if bit k i then gf_mul j x else 0) XOR xtime r) is (gf_mul j a)" for "is" a
    by (induction "is") (simp_all add: gf_mul_xor gf_mul_xtime)
  from this[of "[0..<8]" 0] show ?thesis by (simp add: gf_mul_def[of k])
qed

lemma xtime_powers:
  "xtime 1 = 2" "xtime 2 = 4" "xtime 4 = 8" "xtime 8 = 16" "xtime 16 = 32" "xtime 32 = 64" "xtime 64 = 128"
  by (simp_all add: xtime_def bit_numeral_rec)

lemma upt_8: "[0..<8] = [0, 1, 2, 3, 4, 5, 6, 7]"
  by (simp add: upt_rec)

lemma gf_mul_1_right [simp]: "gf_mul x 1 = x"
proof -
  let ?bits = "\<lambda>x :: byte. (if bit x 0 then 1 else 0 :: byte) XOR (if bit x 1 then 2 else 0) XOR (if bit x 2 then 4 else 0) XOR
     (if bit x 3 then 8 else 0) XOR (if bit x 4 then 16 else 0) XOR (if bit x 5 then 32 else 0) XOR
     (if bit x 6 then 64 else 0) XOR (if bit x 7 then 128 else 0)"
  have "xtime (if c then a else 0) = (if c then xtime a else 0)" for c a by simp
  then have "gf_mul x 1 = ?bits x"
    by (simp add: gf_mul_def upt_8 xtime_xor xtime_powers cong: if_cong split del: if_split)
  also have "\<dots> = x"
  proof (rule bit_word_eqI)
    fix n assume "n < LENGTH(8)"
    then have "n \<in> {0, 1, 2, 3, 4, 5, 6, 7}" by auto
    moreover have "bit (if c then k else 0) n = (c \<and> bit k n)" for c and k :: byte by simp
    ultimately show "bit (?bits x) n = bit x n"
      unfolding bit_xor_iff by (elim insertE emptyE) (simp_all add: bit_numeral_rec)
  qed
  finally show ?thesis .
qed

lemma gf_mul_commute: "gf_mul x y = gf_mul y x"
  using gf_mul_left_commute[of x y 1] by simp

lemma gf_mul_assoc: "gf_mul (gf_mul x y) z = gf_mul x (gf_mul y z)"
  by (metis gf_mul_commute gf_mul_left_commute)

lemma gf_mul_cancel: "gf_mul x y = 1 \<Longrightarrow> gf_mul x z = 1 \<Longrightarrow> y = z"
  by (metis gf_mul_1_right gf_mul_assoc gf_mul_commute)

lemma all_bytes_code: "all_bytes =
     [0, 1, 2, 3, 4, 5, 6, 7, 8, 9, 10, 11, 12, 13, 14, 15, 16, 17, 18, 19, 20, 21, 22, 23, 24, 25,
      26, 27, 28, 29, 30, 31, 32, 33, 34, 35, 36, 37, 38, 39, 40, 41, 42, 43, 44, 45, 46, 47, 48,
      49, 50, 51, 52, 53, 54, 55, 56, 57, 58, 59, 60, 61, 62, 63, 64, 65, 66, 67, 68, 69, 70, 71,
      72, 73, 74, 75, 76, 77, 78, 79, 80, 81, 82, 83, 84, 85, 86, 87, 88, 89, 90, 91, 92, 93, 94,
      95, 96, 97, 98, 99, 100, 101, 102, 103, 104, 105, 106, 107, 108, 109, 110, 111, 112, 113, 114,
      115, 116, 117, 118, 119, 120, 121, 122, 123, 124, 125, 126, 127, 128, 129, 130, 131, 132, 133,
      134, 135, 136, 137, 138, 139, 140, 141, 142, 143, 144, 145, 146, 147, 148, 149, 150, 151, 152,
      153, 154, 155, 156, 157, 158, 159, 160, 161, 162, 163, 164, 165, 166, 167, 168, 169, 170, 171,
      172, 173, 174, 175, 176, 177, 178, 179, 180, 181, 182, 183, 184, 185, 186, 187, 188, 189, 190,
      191, 192, 193, 194, 195, 196, 197, 198, 199, 200, 201, 202, 203, 204, 205, 206, 207, 208, 209,
      210, 211, 212, 213, 214, 215, 216, 217, 218, 219, 220, 221, 222, 223, 224, 225, 226, 227, 228,
      229, 230, 231, 232, 233, 234, 235, 236, 237, 238, 239, 240, 241, 242, 243, 244, 245, 246, 247,
      248, 249, 250, 251, 252, 253, 254, 255]"
proof -
  have "[0..<256] = 0 # 1 # [2..<256]"
    using upt_conv_Cons[of 0 256] upt_conv_Cons[of 1 256] by (simp add: numeral_2_eq_2)
  then show ?thesis by (simp add: all_bytes_def)
qed

lemma nth_all_bytes [simp]: "map f all_bytes ! unat x = f x"
  by (simp add: all_bytes_def)

lemma set_all_bytes [simp]: "x \<in> set all_bytes"
  using nth_mem[of "unat x" all_bytes] nth_all_bytes[of id x] by (simp add: all_bytes_def)

lemma gf_inv_eq: "gf_mul x y = 1 \<Longrightarrow> gf_inv x = y"
  by (auto simp: gf_inv_def find_None_iff find_Some_iff split: option.splits intro: gf_mul_cancel)

lemma gf_inv_0 [simp]: "gf_inv 0 = 0"
proof -
  have "gf_mul 0 y \<noteq> 1" for y by (simp add: gf_mul_commute[of 0])
  then have "find (\<lambda>y. gf_mul 0 y = 1) all_bytes = None" by (simp add: find_None_iff)
  then show ?thesis by (simp add: gf_inv_def)
qed

lemma bit_RotateLeft_byte:
  "k < 8 \<Longrightarrow> n < 8 \<Longrightarrow> bit (RotateLeft (x :: byte) k) n = bit x (if k \<le> n then n - k else n + 8 - k)"
  by (auto simp: RotateLeft_word_rotl bit_word_rotl_iff mod_if)

lemma RotateLeft_xor: "k < 8 \<Longrightarrow> RotateLeft (x XOR y) k = RotateLeft x k XOR RotateLeft (y :: byte) k"
  by (rule bit_word_eqI) (simp add: bit_RotateLeft_byte bit_xor_iff)

lemma RotateLeft_RotateLeft:
  assumes "j < 8" "k < 8"
  shows "RotateLeft (RotateLeft x j) k = RotateLeft (x :: byte) ((j + k) mod 8)"
proof (rule bit_word_eqI)
  fix n assume "n < LENGTH(8)"
  moreover have "(j + k) mod 8 = (if j + k < 8 then j + k else j + k - 8)"
    using assms by (simp add: mod_if)
  ultimately show "bit (RotateLeft (RotateLeft x j) k) n = bit (RotateLeft x ((j + k) mod 8)) n"
    using assms by (auto simp: bit_RotateLeft_byte intro!: arg_cong[of _ _ "bit x"])
qed

lemma affine_inv [simp]: "affine (inv_affine x) = x" "inv_affine (affine x) = x"
proof -
  let ?f = "\<lambda>y :: byte. y XOR RotateLeft y 1 XOR RotateLeft y 2 XOR RotateLeft y 3 XOR RotateLeft y 4"
  let ?g = "\<lambda>y :: byte. RotateLeft y 1 XOR RotateLeft y 3 XOR RotateLeft y 6"
  have r: "RotateLeft y 0 = y" "RotateLeft y (Suc (Suc (Suc 0))) = RotateLeft y 3"
    "RotateLeft y (Suc (Suc (Suc (Suc (Suc (Suc 0)))))) = RotateLeft y 6" for y :: byte
    by (simp_all add: RotateLeft_def eval_nat_numeral)
  have c: "?f 5 = 0x63" "?g 0x63 = 5"
    by (simp_all add: RotateLeft_def drop_bit_eq_div)
  have fg: "?f (?g x) = x" "?g (?f x) = x"
    by (simp_all add: RotateLeft_xor RotateLeft_RotateLeft r ac_simps)
  have f: "?f (a XOR b) = ?f a XOR ?f b" and g: "?g (a XOR b) = ?g a XOR ?g b" for a b
    by (simp_all add: RotateLeft_xor ac_simps)
  show "affine (inv_affine x) = x"
    unfolding affine_def inv_affine_def f[of "?g x" 5] c fg by (rule xor_self_cancel)
  show "inv_affine (affine x) = x"
    unfolding affine_def inv_affine_def g[of "?f x" "0x63"] c fg by (rule xor_self_cancel)
qed

text \<open>How the entries of the tables are checked.\<close>

lemma xtime_code: "xtime x = (if x < 128 then 2 * x else (2 * x) XOR 0x11b)"
proof -
  have "bit x 7 \<longleftrightarrow> bit (unat x) 7" by (simp add: bit_unsigned_iff)
  also have "\<dots> \<longleftrightarrow> odd (unat x div 128)" by (simp add: bit_iff_odd)
  also have "unat x div 128 = (if unat x < 128 then 0 else 1)"
    using byte_index[of x] by (auto intro: div_nat_eqI)
  finally have "bit x 7 \<longleftrightarrow> \<not> x < 128" by (simp add: word_less_nat_alt)
  moreover have "2 * x XOR 0x11b = 2 * x XOR (0x1b :: byte)" by (rule arg_cong[of _ _ "(XOR) (2 * x)"]) simp
  ultimately show ?thesis by (simp add: xtime_def mult.commute)
qed

lemma RotateLeft_byte_code:
  "RotateLeft (x :: byte) k = push_bit k (take_bit (8 - k) x) OR drop_bit (8 - k) x"
  by (rule bit_word_eqI) (auto simp: RotateLeft_def bit_simps)

lemma gf_mul_horner: "gf_mul k x =
    (let a = (\<lambda>i r. (if bit k i then x else 0) XOR xtime r) in a 0 (a 1 (a 2 (a 3 (a 4 (a 5 (a 6 (a 7 0))))))))"
  by (simp add: gf_mul_def upt_8)

definition sub_pair :: "byte \<Rightarrow> byte \<Rightarrow> bool" where
  "sub_pair x s \<longleftrightarrow> (if x = 0 then s = 0x63 else gf_mul x (inv_affine s) = 1)"

lemma gf_inv_nonzero: "gf_mul x y = 1 \<Longrightarrow> y \<noteq> 0"
  by auto

lemma sub_pair_sub_byte: "sub_pair x s \<Longrightarrow> sub_byte x = s"
  by (auto simp: sub_pair_def sub_byte_def dest: gf_inv_eq split: if_splits)
    (simp add: affine_def RotateLeft_def)

lemma sub_pair_inv_sub_byte: "sub_pair x s \<Longrightarrow> inv_sub_byte s = x"
  by (auto simp: sub_pair_def inv_sub_byte_def gf_mul_commute[of x] dest: gf_inv_eq split: if_splits)
    (simp add: inv_affine_def RotateLeft_byte_code drop_bit_eq_div)

lemma sub_pairs_tables:
  assumes "list_all2 sub_pair all_bytes S"
  shows "S = map sub_byte all_bytes" "inv_sub_byte (sub_byte x) = x"
proof -
  have "list_all2 (\<lambda>x s. sub_byte x = s) all_bytes S"
    using assms by (rule list_all2_mono) (rule sub_pair_sub_byte)
  then show S: "S = map sub_byte all_bytes" by (induction rule: list_all2_induct) auto
  have "list_all (\<lambda>x. sub_pair x (sub_byte x)) all_bytes"
    using assms unfolding S by (simp add: list_all2_map2 list_all2_same list_all_iff)
  then show "inv_sub_byte (sub_byte x) = x" by (intro sub_pair_inv_sub_byte) (simp add: list_all_iff)
qed

lemma sub_byte_surj:
  assumes "\<And>x. inv_sub_byte (sub_byte x) = x"
  shows "sub_byte (inv_sub_byte y) = y"
proof -
  have "inj sub_byte" using assms by (rule inj_on_inverseI)
  then have "surj sub_byte" by (simp add: finite_UNIV_inj_surj)
  then obtain x where "y = sub_byte x" by (rule surjE)
  then show ?thesis using assms by simp
qed

section \<open>Columns\<close>

type_synonym column = "byte \<times> byte \<times> byte \<times> byte"

fun col_xor :: "column \<Rightarrow> column \<Rightarrow> column" where
  "col_xor (a, b, c, d) (a', b', c', d') = (a XOR a', b XOR b', c XOR c', d XOR d')"

fun col_map :: "(byte \<Rightarrow> byte) \<Rightarrow> column \<Rightarrow> column" where
  "col_map f (a, b, c, d) = (f a, f b, f c, f d)"

fun MixColumn :: "column \<Rightarrow> column" where
  "MixColumn (a, b, c, d) =
     (gf_mul 2 a XOR gf_mul 3 b XOR c XOR d, a XOR gf_mul 2 b XOR gf_mul 3 c XOR d,
      a XOR b XOR gf_mul 2 c XOR gf_mul 3 d, gf_mul 3 a XOR b XOR c XOR gf_mul 2 d)"

fun InvMixColumn :: "column \<Rightarrow> column" where
  "InvMixColumn (a, b, c, d) =
     (gf_mul 0xe a XOR gf_mul 0xb b XOR gf_mul 0xd c XOR gf_mul 9 d,
      gf_mul 9 a XOR gf_mul 0xe b XOR gf_mul 0xb c XOR gf_mul 0xd d,
      gf_mul 0xd a XOR gf_mul 9 b XOR gf_mul 0xe c XOR gf_mul 0xb d,
      gf_mul 0xb a XOR gf_mul 0xd b XOR gf_mul 9 c XOR gf_mul 0xe d)"

lemma xor_move: "(a XOR b = c) = (a = c XOR (b :: 'a::len word))"
  by auto

lemma InvMix_Mix [simp]: "InvMixColumn (MixColumn x) = x"
  by (cases x) (simp add: gf_mul_code xtime_xor ac_simps)

lemma Mix_InvMix [simp]: "MixColumn (InvMixColumn x) = x"
  by (cases x) (simp add: gf_mul_code xtime_xor ac_simps)

lemma InvMix_xor: "InvMixColumn (col_xor x y) = col_xor (InvMixColumn x) (InvMixColumn y)"
  by (cases x; cases y) (simp add: gf_mul_xor ac_simps)

lemma col_xor_cancel [simp]: "col_xor (col_xor x y) y = x"
  by (cases x; cases y) simp

text \<open>A column as the word that holds it, its first byte the most significant.\<close>

fun col_word :: "column \<Rightarrow> u32" where
  "col_word (a, b, c, d) = be_load [a, b, c, d]"

definition word_col :: "u32 \<Rightarrow> column" where
  "word_col w = (GetByte w 3, GetByte w 2, GetByte w 1, GetByte w 0)"

lemma word_col_word [simp]: "word_col (col_word x) = x"
  by (cases x) (simp add: word_col_def GetByte_def be_load_def, intro conjI bit_word_eqI; auto simp: bit_simps dest: bit_imp_le_length)

lemma be_store_col: "be_store w = (case word_col w of (a, b, c, d) \<Rightarrow> [a, b, c, d])"
  by (simp add: be_store_def le_store_def word_col_def GetByte_def upt_rec)

lemma col_word_col [simp]: "col_word (word_col w) = w"
proof -
  obtain a b c d where w: "word_col w = (a, b, c, d)" by (cases "word_col w")
  then have "be_load [a, b, c, d] = (be_load (be_store w) :: u32)" by (simp add: be_store_col)
  with w show ?thesis by (simp add: be_load_store)
qed

lemma word_col_xor [simp]: "word_col (x XOR y) = col_xor (word_col x) (word_col y)"
  by (simp add: word_col_def GetByte_def) (intro conjI bit_word_eqI; simp add: bit_simps)

lemma col_word_xor: "col_word (col_xor x y) = col_word x XOR col_word y"
  by (metis col_word_col word_col_word word_col_xor)

lemma GetByte_col_word [simp]:
  "GetByte (col_word (a, b, c, d)) 3 = a" "GetByte (col_word (a, b, c, d)) 2 = b"
  "GetByte (col_word (a, b, c, d)) (Suc 0) = c" "GetByte (col_word (a, b, c, d)) 0 = d"
  using word_col_word[of "(a, b, c, d)"] by (simp_all add: word_col_def del: word_col_word)

lemma mix_columns:
  "MixColumn (a, b, c, d) = col_xor (MixColumn (a, 0, 0, 0))
      (col_xor (MixColumn (0, b, 0, 0)) (col_xor (MixColumn (0, 0, c, 0)) (MixColumn (0, 0, 0, d))))"
  "InvMixColumn (a, b, c, d) = col_xor (InvMixColumn (a, 0, 0, 0))
      (col_xor (InvMixColumn (0, b, 0, 0)) (col_xor (InvMixColumn (0, 0, c, 0)) (InvMixColumn (0, 0, 0, d))))"
  by (simp_all add: ac_simps)

lemma col_xor_assoc: "col_xor (col_xor x y) z = col_xor x (col_xor y z)"
  by (cases x; cases y; cases z) (simp add: ac_simps)

lemma col_word_code: "col_word (a, b, c, d) = push_bit 24 (ucast a) OR push_bit 16 (ucast b) OR push_bit 8 (ucast c) OR ucast d"
  by (simp add: be_load_def push_bit_or ac_simps)

lemma col_word_sum: "col_word (a, b, c, d) = ucast a * 0x1000000 + ucast b * 0x10000 + ucast c * 0x100 + ucast d"
proof -
  have "push_bit 24 (ucast a) + push_bit 16 (ucast b) + push_bit 8 (ucast c) + (ucast d :: u32)
      = push_bit 24 (ucast a) OR push_bit 16 (ucast b) OR push_bit 8 (ucast c) OR ucast d"
    by (subst disjunctive_add, auto simp: bit_simps or.assoc dest!: bit_imp_le_length)+
  then show ?thesis unfolding col_word_code by (simp add: push_bit_eq_mult)
qed

lemma RotateRight_col: "RotateRight (col_word (a, b, c, d)) 8 = col_word (d, a, b, c)"
proof -
  let ?w = "col_word (a, b, c, d)" and ?v = "RotateRight (col_word (a, b, c, d)) 8"
  have byte: "GetByte ?v i = GetByte ?w ((i + 1) mod 4)" if "i < 4" for i
  proof (rule bit_word_eqI)
    fix n assume "n < LENGTH(8)"
    then have n: "n < 8" by simp
    from that have "i \<in> {0, 1, 2, 3}" by auto
    then show "bit (GetByte ?v i) n = bit (GetByte ?w ((i + 1) mod 4)) n"
      using n by (elim insertE emptyE) (auto simp: GetByte_def RotateRight_def bit_simps dest: bit_imp_le_length)
  qed
  have "word_col ?w = (a, b, c, d)" by (rule word_col_word)
  then have "word_col ?v = (d, a, b, c)" unfolding word_col_def by (simp add: byte del: col_word.simps flip: numeral_2_eq_2)
  then show ?thesis by (metis col_word_col)
qed

lemma map_RotateRight_col:
  "(\<And>s. col_word (g s) = RotateRight (col_word (f s)) 8) \<Longrightarrow> T = map (\<lambda>s. col_word (f s)) S \<Longrightarrow>
   map (\<lambda>w. RotateRight w 8) T = map (\<lambda>s. col_word (g s)) S"
  by simp

lemma RotateRight_code: "RotateRight (w :: u32) 8 = drop_bit 8 w OR push_bit 24 (take_bit 8 w)"
  by (rule bit_word_eqI) (auto simp: RotateRight_def bit_simps)

section \<open>The cipher\<close>

type_synonym state = "column list"

definition SubBytes :: "state \<Rightarrow> state" where
  "SubBytes s = map (col_map sub_byte) s"

definition InvSubBytes :: "state \<Rightarrow> state" where
  "InvSubBytes s = map (col_map inv_sub_byte) s"

text \<open>The distances the rows of a state of \<open>n\<close> columns are shifted by.\<close>

definition shift_row :: "nat \<Rightarrow> nat \<times> nat \<times> nat" where
  "shift_row n = (if n = 8 then (1, 3, 4) else if n = 7 then (1, 2, 4) else (1, 2, 3))"

definition rotate_rows :: "nat \<times> nat \<times> nat \<Rightarrow> state \<Rightarrow> state" where
  "rotate_rows d s =
     (let n = length s; (d1, d2, d3) = d
      in map (\<lambda>c. (case s ! c of (x, _) \<Rightarrow> x, case s ! ((c + d1) mod n) of (_, x, _) \<Rightarrow> x,
                   case s ! ((c + d2) mod n) of (_, _, x, _) \<Rightarrow> x, case s ! ((c + d3) mod n) of (_, _, _, x) \<Rightarrow> x)) [0..<n])"

definition ShiftRows :: "state \<Rightarrow> state" where
  "ShiftRows s = rotate_rows (shift_row (length s)) s"

definition InvShiftRows :: "state \<Rightarrow> state" where
  "InvShiftRows s = rotate_rows (case shift_row (length s) of (d1, d2, d3) \<Rightarrow> (length s - d1, length s - d2, length s - d3)) s"

definition AddRoundKey :: "state \<Rightarrow> state \<Rightarrow> state" where
  "AddRoundKey k s = map2 col_xor s k"

definition round_step :: "state \<Rightarrow> state \<Rightarrow> state" where
  "round_step k s = AddRoundKey k (map MixColumn (ShiftRows (SubBytes s)))"

definition inv_round_step :: "state \<Rightarrow> state \<Rightarrow> state" where
  "inv_round_step k s = map InvMixColumn (AddRoundKey k (InvSubBytes (InvShiftRows s)))"

text \<open>\<open>k i\<close> is the round key of round \<open>i\<close>.\<close>

definition cipher :: "nat \<Rightarrow> (nat \<Rightarrow> state) \<Rightarrow> state \<Rightarrow> state" where
  "cipher Nr k s =
     (let s = AddRoundKey (k 0) s; s = fold (\<lambda>i. round_step (k i)) [1..<Nr] s
      in AddRoundKey (k Nr) (ShiftRows (SubBytes s)))"

definition inv_cipher :: "nat \<Rightarrow> (nat \<Rightarrow> state) \<Rightarrow> state \<Rightarrow> state" where
  "inv_cipher Nr k s =
     (let s = AddRoundKey (k Nr) s; s = fold (\<lambda>i. inv_round_step (k i)) (rev [1..<Nr]) s
      in AddRoundKey (k 0) (InvSubBytes (InvShiftRows s)))"

lemma length_state [simp]:
  "length (SubBytes s) = length s" "length (InvSubBytes s) = length s" "length (rotate_rows d s) = length s"
  "length (ShiftRows s) = length s" "length (InvShiftRows s) = length s"
  "length (AddRoundKey k s) = min (length s) (length k)"
  by (simp_all add: SubBytes_def InvSubBytes_def rotate_rows_def ShiftRows_def InvShiftRows_def AddRoundKey_def Let_def split: prod.splits)

lemma AddRoundKey_twice [simp]: "length k = length s \<Longrightarrow> AddRoundKey k (AddRoundKey k s) = s"
  by (auto simp: AddRoundKey_def intro!: nth_equalityI)

lemma col_map_map [simp]: "col_map f (col_map g x) = col_map (\<lambda>y. f (g y)) x"
  by (cases x) simp

lemma col_map_id [simp]: "col_map (\<lambda>x. x) = id"
  by (rule ext) auto

lemma map_col_eqI: "(\<And>x. f (g x) = x) \<Longrightarrow> map f (map g xs) = xs"
  by (induction xs) simp_all

lemma rotate_rows_SubBytes: "rotate_rows d (map (col_map f) s) = map (col_map f) (rotate_rows d s)"
proof (cases "length s = 0")
  case False
  have "col_map f (p, q, r, t) = (f p, f q, f r, f t)" for p q r t by simp
  moreover have "(case col_map f x of (y, z) \<Rightarrow> y) = f (case x of (y, z) \<Rightarrow> y)"
    "(case col_map f x of (_, y, z) \<Rightarrow> y) = f (case x of (_, y, z) \<Rightarrow> y)"
    "(case col_map f x of (_, _, y, z) \<Rightarrow> y) = f (case x of (_, _, y, z) \<Rightarrow> y)"
    "(case col_map f x of (_, _, _, y) \<Rightarrow> y) = f (case x of (_, _, _, y) \<Rightarrow> y)" for x
    by (cases x; simp)+
  ultimately show ?thesis using False
    by (cases d) (simp add: rotate_rows_def Let_def)
qed (simp add: rotate_rows_def)

lemma nth_rotate_rows:
  "c < length s \<Longrightarrow> rotate_rows (d1, d2, d3) s ! c =
     (case s ! c of (x, _) \<Rightarrow> x, case s ! ((c + d1) mod length s) of (_, x, _) \<Rightarrow> x,
      case s ! ((c + d2) mod length s) of (_, _, x, _) \<Rightarrow> x, case s ! ((c + d3) mod length s) of (_, _, _, x) \<Rightarrow> x)"
  by (simp add: rotate_rows_def Let_def)

lemma rotate_rows_rotate:
  assumes "a1 + b1 = length s" "a2 + b2 = length s" "a3 + b3 = length s"
  shows "rotate_rows (b1, b2, b3) (rotate_rows (a1, a2, a3) s) = s"
proof (rule nth_equalityI)
  fix c assume "c < length (rotate_rows (b1, b2, b3) (rotate_rows (a1, a2, a3) s))"
  then have c: "c < length s" by simp
  then have n: "x mod length s < length s" for x by (intro mod_less_divisor) linarith
  have m: "((c + b) mod length s + a) mod length s = c" if "a + b = length s" for a b
  proof -
    have "((c + b) mod length s + a) mod length s = (c + (a + b)) mod length s"
      unfolding mod_add_left_eq by (simp add: ac_simps)
    then show ?thesis using c unfolding that by simp
  qed
  show "rotate_rows (b1, b2, b3) (rotate_rows (a1, a2, a3) s) ! c = s ! c"
    using c by (cases "s ! c") (simp add: nth_rotate_rows n m assms)
qed simp

lemma InvShiftRows_ShiftRows [simp]:
  assumes "4 \<le> length s"
  shows "InvShiftRows (ShiftRows s) = s" "ShiftRows (InvShiftRows s) = s"
proof -
  obtain a b c where d: "shift_row (length s) = (a, b, c)" by (cases "shift_row (length s)")
  then have "a \<le> length s" "b \<le> length s" "c \<le> length s"
    using assms by (auto simp: shift_row_def split: if_splits)
  then show "InvShiftRows (ShiftRows s) = s" "ShiftRows (InvShiftRows s) = s"
    by (simp_all add: InvShiftRows_def ShiftRows_def d rotate_rows_rotate)
qed

section \<open>The key expansion\<close>

fun rot_word :: "column \<Rightarrow> column" where
  "rot_word (a, b, c, d) = (b, c, d, a)"

definition round_const :: "nat \<Rightarrow> column" where
  "round_const j = ((xtime ^^ (j - 1)) 1, 0, 0, 0)"

text \<open>Word \<open>i\<close> of the expansion of the key \<open>key\<close> of \<open>Nk\<close> columns.\<close>

function key_word :: "column list \<Rightarrow> nat \<Rightarrow> column" where
  "key_word key i =
     (let Nk = length key
      in if i < Nk then key ! i
         else if Nk = 0 then (0, 0, 0, 0)
         else let t = key_word key (i - 1);
                  t = (if i mod Nk = 0 then col_xor (col_map sub_byte (rot_word t)) (round_const (i div Nk))
                       else if 6 < Nk \<and> i mod Nk = 4 then col_map sub_byte t else t)
              in col_xor (key_word key (i - Nk)) t)"
  by auto
termination
proof (relation "measure snd")
  fix key :: "column list" and i Nk
  assume "Nk = length key" "\<not> i < Nk" "Nk \<noteq> 0"
  then have "0 < length key" "length key \<le> i" by simp_all
  then have "0 < i" "0 < length key" by linarith+
  then show "((key, i - 1), key, i) \<in> measure snd" "((key, i - Nk), key, i) \<in> measure snd"
    using \<open>Nk = length key\<close> by auto
qed simp

declare key_word.simps [simp del]

definition round_key :: "nat \<Rightarrow> column list \<Rightarrow> nat \<Rightarrow> state" where
  "round_key Nb key i = map (\<lambda>c. key_word key (Nb * i + c)) [0..<Nb]"

lemma length_round_key [simp]: "length (round_key n key i) = n"
  by (simp add: round_key_def)

text \<open>A block of bytes fills the state column by column.\<close>

definition bytes_state :: "byte list \<Rightarrow> state" where
  "bytes_state bs = map (\<lambda>b. (b ! 0, b ! 1, b ! 2, b ! 3)) (chunks 4 bs)"

definition state_bytes :: "state \<Rightarrow> byte list" where
  "state_bytes s = concat (map (\<lambda>(a, b, c, d). [a, b, c, d]) s)"

lemma length_bytes_state [simp]: "length (bytes_state bs) = length bs div 4"
  by (simp add: bytes_state_def length_chunks)

lemma bytes_state_bytes [simp]: "bytes_state (state_bytes s) = s"
proof -
  have "chunks 4 (state_bytes s) = map (\<lambda>(a, b, c, d). [a, b, c, d]) s"
    unfolding state_bytes_def by (rule chunks_concat) auto
  then show ?thesis by (auto simp: bytes_state_def intro!: map_idI)
qed

lemma state_bytes_state: "4 dvd length bs \<Longrightarrow> state_bytes (bytes_state bs) = bs"
proof -
  assume d: "4 dvd length bs"
  have "(\<lambda>(a, b, c, d). [a, b, c, d]) (b ! 0, b ! 1, b ! 2, b ! 3) = b" if "b \<in> set (chunks 4 bs)" for b :: "byte list"
    using length_four[OF chunks_sizes[OF that]] by simp
  then have "map (\<lambda>b. (\<lambda>(a, b, c, d). [a, b, c, d]) (b ! 0, b ! 1, b ! 2, b ! 3)) (chunks 4 bs) = chunks 4 bs"
    by (intro map_idI) auto
  then show ?thesis using d by (simp add: state_bytes_def bytes_state_def o_def concat_chunks)
qed

lemma length_state_bytes [simp]: "length (state_bytes s) = 4 * length s"
  by (simp add: state_bytes_def length_concat o_def case_prod_beta' sum_list_triv)

fun col_list :: "column \<Rightarrow> byte list" where
  "col_list (a, b, c, d) = [a, b, c, d]"

lemma length_col_list [simp]: "length (col_list x) = 4"
  by (cases x) simp

lemma nth_state_bytes:
  assumes "c < length s" "r < 4"
  shows "state_bytes s ! (4 * c + r) = col_list (s ! c) ! r"
proof -
  have "(\<lambda>(a, b, c, d). [a, b, c, d]) = col_list" by (rule ext) auto
  then have "state_bytes s ! (4 * c + r) = concat (map col_list s) ! (4 * c + r)" by (simp add: state_bytes_def)
  also have "\<dots> = map col_list s ! ((4 * c + r) div 4) ! ((4 * c + r) mod 4)"
    using assms by (intro nth_concat_blocks) auto
  finally show ?thesis using assms by simp
qed

lemma bytes_state_nth:
  assumes "4 * j + 4 \<le> length bs"
  shows "bytes_state bs ! j = (bs ! (4 * j), bs ! (4 * j + 1), bs ! (4 * j + 2), bs ! (4 * j + 3))"
proof -
  have "j < length bs div 4" using assms by linarith
  then show ?thesis using assms by (simp add: bytes_state_def length_chunks nth_chunks)
qed

lemma key_word_rec:
  assumes "0 < length key" "length key \<le> i"
  shows "key_word key i = col_xor (key_word key (i - length key))
      (let t = key_word key (i - 1)
       in if i mod length key = 0 then col_xor (col_map sub_byte (rot_word t)) (round_const (i div length key))
          else if 6 < length key \<and> i mod length key = 4 then col_map sub_byte t else t)"
  using assms by (subst key_word.simps) (simp add: Let_def)

end
