(* ===== verification/Block_Plugin.thy ===== *)
theory Block_Plugin
  imports Block_Cipher
begin

text \<open>
  What the modes and the MACs see of a block cipher: the function table
  \<^verbatim>\<open>drew_block_functbl_t\<close> of \<^verbatim>\<open>include/drew/block.h\<close> applied to one context, and
  the buffer operations of \<^verbatim>\<open>include/util.h\<close>. The error codes are those of
  \<^verbatim>\<open>include/drew/plugin.h\<close>; a function that returns \<^verbatim>\<open>int\<close> returns it here too.
\<close>

section \<open>Return codes\<close>

definition DREW_ERR_NOT_ALLOWED :: int where
  "DREW_ERR_NOT_ALLOWED = 0x10004"

definition DREW_ERR_NOT_IMPL :: int where
  "DREW_ERR_NOT_IMPL = 0x10005"

definition DREW_ERR_INVALID :: int where
  "DREW_ERR_INVALID = 0x10006"

definition DREW_ERR_MORE_INFO :: int where
  "DREW_ERR_MORE_INFO = 0x10007"

text \<open>\<^verbatim>\<open>errno.h\<close>; only its sign matters.\<close>

definition ENOMEM :: int where
  "ENOMEM = 12"

definition DREW_MODE_ALIGNMENT :: nat where
  "DREW_MODE_ALIGNMENT = 16"

section \<open>A keyed block cipher\<close>

record block_algo =
  ba_blksize :: nat
  ba_encrypt :: "byte list \<Rightarrow> byte list"
  ba_decrypt :: "byte list \<Rightarrow> byte list"
  ba_encryptfast :: "byte list \<Rightarrow> nat \<Rightarrow> byte list"
  ba_decryptfast :: "byte list \<Rightarrow> nat \<Rightarrow> byte list"

text \<open>The table a class of \<^verbatim>\<open>impl/block\<close> provides for one of its contexts.\<close>

definition plugin_algo ::
    "nat \<Rightarrow> ('c \<Rightarrow> byte list \<Rightarrow> byte list) \<Rightarrow> ('c \<Rightarrow> byte list \<Rightarrow> byte list) \<Rightarrow> 'c \<Rightarrow> block_algo" where
  "plugin_algo bs Encrypt Decrypt c =
     \<lparr>ba_blksize = bs, ba_encrypt = Encrypt c, ba_decrypt = Decrypt c,
      ba_encryptfast = EncryptFast bs Encrypt c, ba_decryptfast = DecryptFast bs Decrypt c\<rparr>"

text \<open>The contract the modes rely on.\<close>

definition good_algo :: "block_algo \<Rightarrow> bool" where
  "good_algo a \<longleftrightarrow> 0 < ba_blksize a \<and>
     (\<forall>b. length b = ba_blksize a \<longrightarrow>
        length (ba_encrypt a b) = ba_blksize a \<and> length (ba_decrypt a b) = ba_blksize a \<and>
        ba_decrypt a (ba_encrypt a b) = b) \<and>
     (\<forall>bin n. length bin = ba_blksize a * n \<longrightarrow> (ba_blksize a = 8 \<longrightarrow> even n) \<longrightarrow>
        ba_encryptfast a bin n = concat (map (ba_encrypt a) (chunks (ba_blksize a) bin)))"

lemma good_algo_length:
  "good_algo a \<Longrightarrow> length b = ba_blksize a \<Longrightarrow> length (ba_encrypt a b) = ba_blksize a"
  by (simp add: good_algo_def)

lemma good_algo_blksize: "good_algo a \<Longrightarrow> 0 < ba_blksize a"
  by (simp add: good_algo_def)

text \<open>Every class that meets the contract of \<open>block_cipher\<close> provides such a table.\<close>

context block_cipher
begin

lemma good_plugin_algo:
  assumes "keyed c"
  shows "good_algo (plugin_algo BlockSize Encrypt Decrypt c)"
  using assms block_pos length_Encrypt length_Decrypt Decrypt_Encrypt
  by (simp add: good_algo_def plugin_algo_def EncryptFast_def FastBlocks_chunks)

end

section \<open>Buffers\<close>

text \<open>\<^verbatim>\<open>xor_buffers\<close> writes \<open>len\<close> bytes; the aligned variants only whole groups of 16.\<close>

definition xor_buffers :: "byte list \<Rightarrow> byte list \<Rightarrow> nat \<Rightarrow> byte list" where
  "xor_buffers inp x len = xor_bytes (take len inp) (take len x)"

definition xor_aligned :: "byte list \<Rightarrow> byte list \<Rightarrow> nat \<Rightarrow> byte list" where
  "xor_aligned inp x len = xor_buffers inp x (16 * (len div 16))"

definition xor_buffers2 :: "byte list \<Rightarrow> byte list \<Rightarrow> nat \<Rightarrow> byte list" where
  "xor_buffers2 outp x len = xor_buffers outp x len @ drop len outp"

definition xor_aligned2 :: "byte list \<Rightarrow> byte list \<Rightarrow> nat \<Rightarrow> byte list" where
  "xor_aligned2 outp x len = xor_buffers2 outp x (16 * (len div 16))"

text \<open>\<open>len\<close> bytes of a memory from an offset.\<close>

definition slice :: "nat \<Rightarrow> nat \<Rightarrow> 'a list \<Rightarrow> 'a list" where
  "slice off len mem = take len (drop off mem)"

lemma length_slice [simp]: "length (slice off len mem) = min len (length mem - off)"
  by (simp add: slice_def)

lemma slice_put_same:
  "off + length xs \<le> length mem \<Longrightarrow> n = length xs \<Longrightarrow> slice off n (put_bytes off xs mem) = xs"
  by (simp add: slice_def put_bytes_def)

lemma slice_put_disjoint:
  assumes "off + length xs \<le> length mem" "off + length xs \<le> i \<or> i + n \<le> off"
  shows "slice i n (put_bytes off xs mem) = slice i n mem"
proof (rule nth_equalityI)
  show len: "length (slice i n (put_bytes off xs mem)) = length (slice i n mem)"
    using assms(1) by simp
  fix j assume "j < length (slice i n (put_bytes off xs mem))"
  then have j: "j < n" "i + j < length mem" using assms(1) by auto
  then have "put_bytes off xs mem ! (i + j) = mem ! (i + j)"
    using assms by (auto simp: put_bytes_def nth_append)
  then show "slice i n (put_bytes off xs mem) ! j = slice i n mem ! j"
    using j assms(1) by (simp add: slice_def)
qed

lemma put_bytes_adjacent:
  "off + length xs + length ys \<le> length mem \<Longrightarrow>
   put_bytes (off + length xs) ys (put_bytes off xs mem) = put_bytes off (xs @ ys) mem"
  by (simp add: put_bytes_def ac_simps min_def)

lemma put_bytes_again:
  "off + length xs \<le> length mem \<Longrightarrow> length ys = length xs \<Longrightarrow>
   put_bytes off ys (put_bytes off xs mem) = put_bytes off ys mem"
  by (simp add: put_bytes_def)

lemma xor_buffers2_block: "length a = n \<Longrightarrow> length b = n \<Longrightarrow> xor_buffers2 a b n = xor_bytes a b"
  by (simp add: xor_buffers2_def xor_buffers_def)

lemma xor_bytes_twice: "length a = length b \<Longrightarrow> xor_bytes (xor_bytes a b) b = a"
  by (intro nth_equalityI) simp_all

lemma xor_bytes_commute: "xor_bytes a b = xor_bytes b a"
  by (intro nth_equalityI) (simp_all add: xor.commute)

end
