(* ===== verification/AES.thy ===== *)
theory AES
  imports AES_Tables Block_Plugin
begin

text \<open>
  AES (\<^verbatim>\<open>impl/block/aes/aes.cc\<close>): the optimised cipher, which keeps the state in four words, does
  the substitution and \<open>MixColumn\<close> by table lookups, and decrypts with round keys prepared for the
  equivalent inverse cipher. It is compared with \<open>Rijndael_Spec\<close>.
\<close>

section \<open>The context\<close>

record aes =
  ae_nr :: nat
  ae_nk :: nat
  ae_nri :: nat
  ae_rk :: "u32 list"
  ae_rkd :: "u32 list"

definition AES_m_nb :: nat where
  "AES_m_nb = 16 div 4"

section \<open>The key schedule\<close>

text \<open>The four lookups in \<^verbatim>\<open>Te4\<close> or \<^verbatim>\<open>Td4\<close>, each masked to its byte.\<close>

definition aes_sub4 :: "u32 list \<Rightarrow> byte \<Rightarrow> byte \<Rightarrow> byte \<Rightarrow> byte \<Rightarrow> u32" where
  "aes_sub4 T a b c d =
     (T ! unat a AND 0xff000000) XOR (T ! unat b AND 0x00ff0000) XOR
     (T ! unat c AND 0x0000ff00) XOR (T ! unat d AND 0x000000ff)"

definition aes_rot_sub :: "u32 \<Rightarrow> u32" where
  "aes_rot_sub temp = aes_sub4 aes_Te4 (GetByte temp 2) (GetByte temp 1) (GetByte temp 0) (GetByte temp 3)"

text \<open>The bodies of the three loops, with \<^verbatim>\<open>rk\<close> at offset \<open>n\<close> of the array.\<close>

definition aes_expand128 :: "nat \<Rightarrow> u32 list \<Rightarrow> u32 list" where
  "aes_expand128 i rk =
     (let n = 4 * i; temp = rk ! (n + 3);
          rk = rk[n + 4 := rk ! n XOR aes_rot_sub temp XOR aes_rcon ! i];
          rk = rk[n + 5 := rk ! (n + 1) XOR rk ! (n + 4)];
          rk = rk[n + 6 := rk ! (n + 2) XOR rk ! (n + 5)];
          rk = rk[n + 7 := rk ! (n + 3) XOR rk ! (n + 6)]
      in rk)"

definition aes_expand192 :: "nat \<Rightarrow> u32 list \<Rightarrow> u32 list" where
  "aes_expand192 i rk =
     (let n = 6 * i; temp = rk ! (n + 5);
          rk = rk[n + 6 := rk ! n XOR aes_rot_sub temp XOR aes_rcon ! i];
          rk = rk[n + 7 := rk ! (n + 1) XOR rk ! (n + 6)];
          rk = rk[n + 8 := rk ! (n + 2) XOR rk ! (n + 7)];
          rk = rk[n + 9 := rk ! (n + 3) XOR rk ! (n + 8)]
      in if i + 1 = 8 then rk
         else let rk = rk[n + 10 := rk ! (n + 4) XOR rk ! (n + 9)];
                  rk = rk[n + 11 := rk ! (n + 5) XOR rk ! (n + 10)]
              in rk)"

definition aes_expand256 :: "nat \<Rightarrow> u32 list \<Rightarrow> u32 list" where
  "aes_expand256 i rk =
     (let n = 8 * i; temp = rk ! (n + 7);
          rk = rk[n + 8 := rk ! n XOR aes_rot_sub temp XOR aes_rcon ! i];
          rk = rk[n + 9 := rk ! (n + 1) XOR rk ! (n + 8)];
          rk = rk[n + 10 := rk ! (n + 2) XOR rk ! (n + 9)];
          rk = rk[n + 11 := rk ! (n + 3) XOR rk ! (n + 10)]
      in if i + 1 = 7 then rk
         else let temp = rk ! (n + 11);
                  rk = rk[n + 12 := rk ! (n + 4) XOR
                    aes_sub4 aes_Te4 (GetByte temp 3) (GetByte temp 2) (GetByte temp 1) (GetByte temp 0)];
                  rk = rk[n + 13 := rk ! (n + 5) XOR rk ! (n + 12)];
                  rk = rk[n + 14 := rk ! (n + 6) XOR rk ! (n + 13)];
                  rk = rk[n + 15 := rk ! (n + 7) XOR rk ! (n + 14)]
              in rk)"

definition aes_load :: "byte list \<Rightarrow> nat \<Rightarrow> u32" where
  "aes_load p n = load Big (take 4 (drop n p))"

definition AES_SetKeyEncrypt :: "byte list \<Rightarrow> aes \<Rightarrow> aes" where
  "AES_SetKeyEncrypt key c =
     (let len = length key; nk = len div 4; nr = 6 + max AES_m_nb nk; nri = (nr - 10) div 2;
          c = c\<lparr>ae_nk := nk, ae_nr := nr, ae_nri := nri\<rparr>;
          rk = (ae_rk c)[0 := aes_load key 0, 1 := aes_load key 4, 2 := aes_load key 8, 3 := aes_load key 12]
      in if len = 16 then c\<lparr>ae_rk := fold aes_expand128 [0..<10] rk\<rparr>
         else let rk = rk[4 := aes_load key 16, 5 := aes_load key 20]
         in if len = 24 then c\<lparr>ae_rk := fold aes_expand192 [0..<8] rk\<rparr>
         else let rk = rk[6 := aes_load key 24, 7 := aes_load key 28]
         in if len = 32 then c\<lparr>ae_rk := fold aes_expand256 [0..<7] rk\<rparr>
         else c\<lparr>ae_rk := rk\<rparr>)"

text \<open>\<^verbatim>\<open>SetKeyDecrypt\<close>: the round keys in the opposite order, those between the first and the
  last through the inverse of \<open>MixColumn\<close>.\<close>

definition swap4 :: "nat \<Rightarrow> nat \<Rightarrow> u32 list \<Rightarrow> u32 list" where
  "swap4 i j rkd =
     (let rkd = rkd[i := rkd ! j, j := rkd ! i];
          rkd = rkd[i + 1 := rkd ! (j + 1), j + 1 := rkd ! (i + 1)];
          rkd = rkd[i + 2 := rkd ! (j + 2), j + 2 := rkd ! (i + 2)];
          rkd = rkd[i + 3 := rkd ! (j + 3), j + 3 := rkd ! (i + 3)]
      in rkd)"

function aes_reverse :: "nat \<Rightarrow> nat \<Rightarrow> u32 list \<Rightarrow> u32 list" where
  "aes_reverse i j rkd = (if i < j then aes_reverse (i + 4) (j - 4) (swap4 i j rkd) else rkd)"
  by auto
termination by (relation "measure (\<lambda>(i, j, _). j - i)") auto

declare aes_reverse.simps [simp del]

definition aes_inv_mix :: "u32 \<Rightarrow> u32" where
  "aes_inv_mix w =
     (let u = (\<lambda>n. unat (ucast (aes_Te4 ! unat (GetByte w n)) :: byte))
      in aes_Td0 ! u 3 XOR aes_Td1 ! u 2 XOR aes_Td2 ! u 1 XOR aes_Td3 ! u 0)"

definition aes_inv_mix_key :: "nat \<Rightarrow> u32 list \<Rightarrow> u32 list" where
  "aes_inv_mix_key i rkd =
     (let n = 4 * i
      in rkd[n := aes_inv_mix (rkd ! n), n + 1 := aes_inv_mix (rkd ! (n + 1)),
             n + 2 := aes_inv_mix (rkd ! (n + 2)), n + 3 := aes_inv_mix (rkd ! (n + 3))])"

definition AES_SetKeyDecrypt :: "aes \<Rightarrow> aes" where
  "AES_SetKeyDecrypt c =
     (let rkd = ae_rk c; rkd = aes_reverse 0 (4 * ae_nr c) rkd
      in c\<lparr>ae_rkd := fold aes_inv_mix_key [1..<ae_nr c] rkd\<rparr>)"

definition AES_SetKeyInternal :: "byte list \<Rightarrow> aes \<Rightarrow> int \<times> aes" where
  "AES_SetKeyInternal key c =
     (if length key \<in> {16, 24, 32} then (0, AES_SetKeyDecrypt (AES_SetKeyEncrypt key c))
      else if length key \<in> {20, 28} then (- DREW_ERR_NOT_IMPL, c)
      else (- DREW_ERR_INVALID, c))"

section \<open>The cipher\<close>

text \<open>\<open>rk\<close> is the array and \<open>n\<close> where the round key starts.\<close>

definition AES_EncryptRound :: "u32 list \<Rightarrow> nat \<Rightarrow> quad \<Rightarrow> quad" where
  "AES_EncryptRound rk n s =
     (let (s0, s1, s2, s3) = s in
      (aes_Te0 ! unat (GetByte s0 3) XOR aes_Te1 ! unat (GetByte s1 2) XOR
         aes_Te2 ! unat (GetByte s2 1) XOR aes_Te3 ! unat (GetByte s3 0) XOR rk ! n,
       aes_Te0 ! unat (GetByte s1 3) XOR aes_Te1 ! unat (GetByte s2 2) XOR
         aes_Te2 ! unat (GetByte s3 1) XOR aes_Te3 ! unat (GetByte s0 0) XOR rk ! (n + 1),
       aes_Te0 ! unat (GetByte s2 3) XOR aes_Te1 ! unat (GetByte s3 2) XOR
         aes_Te2 ! unat (GetByte s0 1) XOR aes_Te3 ! unat (GetByte s1 0) XOR rk ! (n + 2),
       aes_Te0 ! unat (GetByte s3 3) XOR aes_Te1 ! unat (GetByte s0 2) XOR
         aes_Te2 ! unat (GetByte s1 1) XOR aes_Te3 ! unat (GetByte s2 0) XOR rk ! (n + 3)))"

definition AES_DecryptRound :: "u32 list \<Rightarrow> nat \<Rightarrow> quad \<Rightarrow> quad" where
  "AES_DecryptRound rk n s =
     (let (s0, s1, s2, s3) = s in
      (aes_Td0 ! unat (GetByte s0 3) XOR aes_Td1 ! unat (GetByte s3 2) XOR
         aes_Td2 ! unat (GetByte s2 1) XOR aes_Td3 ! unat (GetByte s1 0) XOR rk ! n,
       aes_Td0 ! unat (GetByte s1 3) XOR aes_Td1 ! unat (GetByte s0 2) XOR
         aes_Td2 ! unat (GetByte s3 1) XOR aes_Td3 ! unat (GetByte s2 0) XOR rk ! (n + 1),
       aes_Td0 ! unat (GetByte s2 3) XOR aes_Td1 ! unat (GetByte s1 2) XOR
         aes_Td2 ! unat (GetByte s0 1) XOR aes_Td3 ! unat (GetByte s3 0) XOR rk ! (n + 2),
       aes_Td0 ! unat (GetByte s3 3) XOR aes_Td1 ! unat (GetByte s2 2) XOR
         aes_Td2 ! unat (GetByte s1 1) XOR aes_Td3 ! unat (GetByte s0 0) XOR rk ! (n + 3)))"

text \<open>The unrolled rounds: the \<^verbatim>\<open>switch\<close> on \<^verbatim>\<open>m_nri\<close> falls through, so it enters four, two
  or no rounds before the nine that are always done; \<^verbatim>\<open>rk += 4\<close> comes before each.\<close>

definition aes_rounds :: "(nat \<Rightarrow> quad \<Rightarrow> quad) \<Rightarrow> nat \<Rightarrow> quad \<Rightarrow> quad \<times> nat" where
  "aes_rounds r nri s =
     (let step = (\<lambda>(s, n). (r (n + 4) s, n + 4)); m = nri AND 3; st = (s, 0);
          st = (if m \<noteq> 0 \<and> m \<noteq> 1 then (step ^^ 2) st else st);
          st = (if m \<noteq> 0 then (step ^^ 2) st else st)
      in (step ^^ 9) st)"

definition AES_Encrypt :: "aes \<Rightarrow> byte list \<Rightarrow> byte list" where
  "AES_Encrypt c inp =
     (let rk = ae_rk c;
          s = (aes_load inp 0 XOR rk ! 0, aes_load inp 4 XOR rk ! 1, aes_load inp 8 XOR rk ! 2, aes_load inp 12 XOR rk ! 3);
          ((t0, t1, t2, t3), n) = aes_rounds (AES_EncryptRound rk) (ae_nri c) s;
          n = n + 4;
          s0 = aes_sub4 aes_Te4 (GetByte t0 3) (GetByte t1 2) (GetByte t2 1) (GetByte t3 0) XOR rk ! n;
          s1 = aes_sub4 aes_Te4 (GetByte t1 3) (GetByte t2 2) (GetByte t3 1) (GetByte t0 0) XOR rk ! (n + 1);
          s2 = aes_sub4 aes_Te4 (GetByte t2 3) (GetByte t3 2) (GetByte t0 1) (GetByte t1 0) XOR rk ! (n + 2);
          s3 = aes_sub4 aes_Te4 (GetByte t3 3) (GetByte t0 2) (GetByte t1 1) (GetByte t2 0) XOR rk ! (n + 3)
      in store_words Big [s0, s1, s2, s3])"

definition AES_Decrypt :: "aes \<Rightarrow> byte list \<Rightarrow> byte list" where
  "AES_Decrypt c inp =
     (let rk = ae_rkd c;
          s = (aes_load inp 0 XOR rk ! 0, aes_load inp 4 XOR rk ! 1, aes_load inp 8 XOR rk ! 2, aes_load inp 12 XOR rk ! 3);
          ((t0, t1, t2, t3), n) = aes_rounds (AES_DecryptRound rk) (ae_nri c) s;
          n = n + 4;
          s0 = aes_sub4 aes_Td4 (GetByte t0 3) (GetByte t3 2) (GetByte t2 1) (GetByte t1 0) XOR rk ! n;
          s1 = aes_sub4 aes_Td4 (GetByte t1 3) (GetByte t0 2) (GetByte t3 1) (GetByte t2 0) XOR rk ! (n + 1);
          s2 = aes_sub4 aes_Td4 (GetByte t2 3) (GetByte t1 2) (GetByte t0 1) (GetByte t3 0) XOR rk ! (n + 2);
          s3 = aes_sub4 aes_Td4 (GetByte t3 3) (GetByte t2 2) (GetByte t1 1) (GetByte t0 0) XOR rk ! (n + 3)
      in store_words Big [s0, s1, s2, s3])"

section \<open>The tables at work\<close>

lemma ucast_byte_of_word: "ucast (w :: u32) = GetByte w 0"
  by (simp add: GetByte_def)

lemma aes_sub4_col:
  "aes_sub4 aes_Te4 a b c d = col_word (col_map sub_byte (a, b, c, d))"
  "aes_sub4 aes_Td4 a b c d = col_word (col_map inv_sub_byte (a, b, c, d))"
proof -
  have k: "(0xff000000 :: u32) = col_word (0xff, 0, 0, 0)" "(0x00ff0000 :: u32) = col_word (0, 0xff, 0, 0)"
    "(0x0000ff00 :: u32) = col_word (0, 0, 0xff, 0)" "(0x000000ff :: u32) = col_word (0, 0, 0, 0xff)"
    by (simp_all add: col_word_sum del: col_word.simps)
  have "GetByte (x AND y) n = GetByte x n AND GetByte y n" for x y :: u32 and n
    unfolding GetByte_def by (rule bit_word_eqI) (simp add: bit_simps)
  then have "word_col (x AND y) = (case word_col x of (a, b, c, d) \<Rightarrow> case word_col y of (a', b', c', d') \<Rightarrow>
      (a AND a', b AND b', c AND c', d AND d'))" for x y
    by (simp add: word_col_def)
  then have c: "col_word (a, b, c, d) AND col_word (a', b', c', d') = col_word (a AND a', b AND b', c AND c', d AND d')"
    for a b c d a' b' c' d'
    by (metis (no_types, lifting) case_prod_conv col_word_col word_col_word)
  have f: "a AND 0xff = a" for a :: byte
    by (rule bit_word_eqI) (simp add: and_0xff bit_take_bit_iff)
  have m: "col_word (a, a, a, a) AND 0xff000000 = col_word (a, 0, 0, 0)" "col_word (a, a, a, a) AND 0x00ff0000 = col_word (0, a, 0, 0)"
    "col_word (a, a, a, a) AND 0x0000ff00 = col_word (0, 0, a, 0)" "col_word (a, a, a, a) AND 0x000000ff = col_word (0, 0, 0, a)" for a
    unfolding k c f by simp_all
  show "aes_sub4 aes_Te4 a b c d = col_word (col_map sub_byte (a, b, c, d))"
    "aes_sub4 aes_Td4 a b c d = col_word (col_map inv_sub_byte (a, b, c, d))"
    by (simp_all add: aes_sub4_def m flip: col_word_xor del: col_word.simps)
qed

lemma aes_rot_sub_col: "aes_rot_sub w = col_word (col_map sub_byte (rot_word (word_col w)))"
  unfolding aes_rot_sub_def aes_sub4_col by (simp add: word_col_def del: col_word.simps)

lemma aes_inv_mix_col: "aes_inv_mix w = col_word (InvMixColumn (word_col w))"
proof -
  have "aes_inv_mix w = col_word (InvMixColumn (GetByte w 3, 0, 0, 0)) XOR col_word (InvMixColumn (0, GetByte w 2, 0, 0)) XOR
      col_word (InvMixColumn (0, 0, GetByte w 1, 0)) XOR col_word (InvMixColumn (0, 0, 0, GetByte w 0))"
    by (simp add: aes_inv_mix_def Let_def ucast_byte_of_word del: col_word.simps InvMixColumn.simps)
  also have "\<dots> = col_word (InvMixColumn (word_col w))"
    unfolding word_col_def mix_columns(2)[of "GetByte w 3" "GetByte w 2" "GetByte w 1" "GetByte w 0"] col_word_xor ..
  finally show ?thesis .
qed

section \<open>A round of the code is a round of the cipher\<close>

fun quad_state :: "quad \<Rightarrow> state" where
  "quad_state (s0, s1, s2, s3) = [word_col s0, word_col s1, word_col s2, word_col s3]"

definition rk_state :: "u32 list \<Rightarrow> nat \<Rightarrow> state" where
  "rk_state rk n = [word_col (rk ! n), word_col (rk ! (n + 1)), word_col (rk ! (n + 2)), word_col (rk ! (n + 3))]"

lemma upt_4: "[0..<4] = [0, 1, 2, 3]"
  by (simp add: upt_rec)

lemma ShiftRows_four: "ShiftRows [(a0, a1, a2, a3), (b0, b1, b2, b3), (c0, c1, c2, c3), (d0, d1, d2, d3)] =
    [(a0, b1, c2, d3), (b0, c1, d2, a3), (c0, d1, a2, b3), (d0, a1, b2, c3)]"
  by (simp add: ShiftRows_def rotate_rows_def shift_row_def upt_4 Let_def)

lemma InvShiftRows_four: "InvShiftRows [(a0, a1, a2, a3), (b0, b1, b2, b3), (c0, c1, c2, c3), (d0, d1, d2, d3)] =
    [(a0, d1, c2, b3), (b0, a1, d2, c3), (c0, b1, a2, d3), (d0, c1, b2, a3)]"
  by (simp add: InvShiftRows_def rotate_rows_def shift_row_def upt_4 Let_def)

lemma table_row:
  "word_col (aes_Te0 ! unat a XOR aes_Te1 ! unat b XOR aes_Te2 ! unat c XOR aes_Te3 ! unat d XOR k) =
     col_xor (MixColumn (sub_byte a, sub_byte b, sub_byte c, sub_byte d)) (word_col k)"
  "word_col (aes_Td0 ! unat a XOR aes_Td1 ! unat b XOR aes_Td2 ! unat c XOR aes_Td3 ! unat d XOR k) =
     col_xor (InvMixColumn (inv_sub_byte a, inv_sub_byte b, inv_sub_byte c, inv_sub_byte d)) (word_col k)"
  unfolding mix_columns[of "sub_byte a" "sub_byte b" "sub_byte c" "sub_byte d"]
    mix_columns[of "inv_sub_byte a" "inv_sub_byte b" "inv_sub_byte c" "inv_sub_byte d"]
  by (simp_all add: col_xor_assoc del: col_word.simps MixColumn.simps InvMixColumn.simps)

lemma EncryptRound_state: "quad_state (AES_EncryptRound rk n s) = round_step (rk_state rk n) (quad_state s)"
proof -
  obtain a b c d where s: "s = (a, b, c, d)" by (cases s)
  show ?thesis
    by (simp add: s AES_EncryptRound_def round_step_def AddRoundKey_def SubBytes_def rk_state_def table_row ShiftRows_four
      word_col_def[of a] word_col_def[of b] word_col_def[of c] word_col_def[of d] del: MixColumn.simps nth_aes_tables word_col_xor)
qed

lemma DecryptRound_state:
  "quad_state (AES_DecryptRound rk n s) =
     AddRoundKey (rk_state rk n) (map InvMixColumn (InvSubBytes (InvShiftRows (quad_state s))))"
proof -
  obtain a b c d where s: "s = (a, b, c, d)" by (cases s)
  show ?thesis
    by (simp add: s AES_DecryptRound_def AddRoundKey_def InvSubBytes_def rk_state_def table_row InvShiftRows_four
      word_col_def[of a] word_col_def[of b] word_col_def[of c] word_col_def[of d] del: InvMixColumn.simps nth_aes_tables word_col_xor)
qed

lemma DecryptRound_inv:
  assumes "rk_state rk n = map InvMixColumn k" "length k = 4"
  shows "quad_state (AES_DecryptRound rk n s) = inv_round_step k (quad_state s)"
proof -
  have "AddRoundKey (map InvMixColumn k) (map InvMixColumn x) = map InvMixColumn (AddRoundKey k x)" for x
    by (auto simp: AddRoundKey_def InvMix_xor intro!: nth_equalityI simp del: InvMixColumn.simps)
  then show ?thesis by (simp add: DecryptRound_state assms inv_round_step_def)
qed

text \<open>The unrolled rounds are the loop of the cipher.\<close>

lemma rounds_fold:
  "(\<lambda>(s, n). (r (n + 4) s, n + 4)) ^^ m = (\<lambda>(s, n). (fold (\<lambda>i. r (n + 4 * i)) [1..<m + 1] s, n + 4 * m))"
proof (induction m)
  case 0
  then show ?case by auto
next
  case (Suc m)
  then show ?case by (auto simp: fun_eq_iff add.commute add.left_commute)
qed

lemma aes_rounds_fold:
  assumes "nri < 3"
  shows "aes_rounds r nri s = (fold (\<lambda>i. r (4 * i)) [1..<10 + 2 * nri] s, 4 * (9 + 2 * nri))"
proof -
  let ?step = "\<lambda>(s :: quad, n). (r (n + 4) s, n + 4)"
  have f: "(?step ^^ m) ((?step ^^ k) x) = (?step ^^ (m + k)) x" for m k x by (simp add: funpow_add)
  from assms have "nri = 0 \<or> nri = 1 \<or> nri = 2" by linarith
  then have "aes_rounds r nri s = (?step ^^ (9 + 2 * nri)) (s, 0)"
  proof (elim disjE)
    assume n: "nri = 0"
    have "nri AND 3 = 0" by (simp add: n)
    then show ?thesis unfolding aes_rounds_def Let_def n by simp
  next
    assume n: "nri = 1"
    have "nri AND 3 = 1" by (simp add: n)
    then show ?thesis unfolding aes_rounds_def Let_def n by (simp add: f)
  next
    assume n: "nri = 2"
    have "nri AND 3 = 2" by (simp add: n)
    then show ?thesis unfolding aes_rounds_def Let_def n by (simp add: f)
  qed
  then show ?thesis by (simp add: rounds_fold)
qed

section \<open>The key schedule is the key expansion\<close>

definition scheduled :: "column list \<Rightarrow> nat \<Rightarrow> u32 list \<Rightarrow> bool" where
  "scheduled key k rk \<longleftrightarrow> length rk = 72 \<and> (\<forall>j<k. rk ! j = col_word (key_word key j))"

lemma key_word_key: "i < length key \<Longrightarrow> key_word key i = key ! i"
  by (simp add: key_word.simps)

lemma key_word_step:
  assumes "0 < length key" "length key \<le> i"
  shows "i mod length key = 0 \<Longrightarrow> col_word (key_word key i) = col_word (key_word key (i - length key)) XOR
      aes_rot_sub (col_word (key_word key (i - 1))) XOR col_word (round_const (i div length key))"
    and "i mod length key \<noteq> 0 \<Longrightarrow> length key \<le> 6 \<or> i mod length key \<noteq> 4 \<Longrightarrow>
      col_word (key_word key i) = col_word (key_word key (i - length key)) XOR col_word (key_word key (i - 1))"
    and "i mod length key = 4 \<Longrightarrow> 6 < length key \<Longrightarrow>
      col_word (key_word key i) = col_word (key_word key (i - length key)) XOR
      col_word (col_map sub_byte (key_word key (i - 1)))"
proof -
  note k = key_word_rec[OF assms]
  show "i mod length key = 0 \<Longrightarrow> col_word (key_word key i) = col_word (key_word key (i - length key)) XOR
      aes_rot_sub (col_word (key_word key (i - 1))) XOR col_word (round_const (i div length key))"
    unfolding k by (simp add: aes_rot_sub_col col_word_xor del: col_word.simps)
  show "i mod length key \<noteq> 0 \<Longrightarrow> length key \<le> 6 \<or> i mod length key \<noteq> 4 \<Longrightarrow>
      col_word (key_word key i) = col_word (key_word key (i - length key)) XOR col_word (key_word key (i - 1))"
    unfolding k by (auto simp: col_word_xor simp del: col_word.simps)
  show "i mod length key = 4 \<Longrightarrow> 6 < length key \<Longrightarrow>
      col_word (key_word key i) = col_word (key_word key (i - length key)) XOR
      col_word (col_map sub_byte (key_word key (i - 1)))"
    unfolding k by (simp add: col_word_xor del: col_word.simps)
qed

lemma rcon_round_const: "i < 10 \<Longrightarrow> aes_rcon ! i = col_word (round_const (Suc i))"
proof -
  assume i: "i < 10"
  have "aes_rcon = map (\<lambda>i. col_word (round_const (Suc i))) [0..<10]"
    by (simp add: aes_rcon_def upt_rec round_const_def xtime_code col_word_sum del: col_word.simps)
  then have "aes_rcon ! i = map (\<lambda>i. col_word (round_const (Suc i))) [0..<10] ! i" by (rule arg_cong)
  also have "\<dots> = col_word (round_const (Suc i))" using i by (subst nth_map) simp_all
  finally show ?thesis .
qed

lemma scheduled_put:
  "scheduled key k rk \<Longrightarrow> k < 72 \<Longrightarrow> x = col_word (key_word key k) \<Longrightarrow> scheduled key (Suc k) (rk[k := x])"
  by (auto simp: scheduled_def nth_list_update less_Suc_eq)

lemma scheduled_nth: "scheduled key k rk \<Longrightarrow> j < k \<Longrightarrow> rk ! j = col_word (key_word key j)"
  by (simp add: scheduled_def)

lemma scheduled_plain:
  assumes "scheduled key k rk" "length key \<le> k" "0 < length key" "k < 72" "n + length key = k" "Suc l = k"
    and "k mod length key \<noteq> 0" "length key \<le> 6 \<or> k mod length key \<noteq> 4"
  shows "scheduled key (Suc k) (rk[k := rk ! n XOR rk ! l])"
proof (rule scheduled_put[OF assms(1,4)])
  have "n = k - length key" "l = k - 1" "n < k" "l < k" using assms by auto
  then show "rk ! n XOR rk ! l = col_word (key_word key k)"
    using key_word_step(2)[OF assms(3,2,7,8)] by (simp add: scheduled_nth[OF assms(1)])
qed

lemma scheduled_rot:
  assumes "scheduled key k rk" "length key \<le> k" "0 < length key" "k < 72" "n + length key = k" "Suc l = k"
    and "k mod length key = 0" "k div length key = Suc i" "i < 10"
  shows "scheduled key (Suc k) (rk[k := rk ! n XOR aes_rot_sub (rk ! l) XOR aes_rcon ! i])"
proof (rule scheduled_put[OF assms(1,4)])
  have "n = k - length key" "l = k - 1" "n < k" "l < k" using assms by auto
  then show "rk ! n XOR aes_rot_sub (rk ! l) XOR aes_rcon ! i = col_word (key_word key k)"
    using key_word_step(1)[OF assms(3,2,7)] by (simp add: scheduled_nth[OF assms(1)] rcon_round_const assms)
qed

lemma scheduled_sub:
  assumes "scheduled key k rk" "length key \<le> k" "k < 72" "n + length key = k" "Suc l = k"
    and "k mod length key = 4" "6 < length key"
  shows "scheduled key (Suc k) (rk[k := rk ! n XOR
     aes_sub4 aes_Te4 (GetByte (rk ! l) 3) (GetByte (rk ! l) 2) (GetByte (rk ! l) 1) (GetByte (rk ! l) 0)])"
proof (rule scheduled_put[OF assms(1,3)])
  have "n = k - length key" "l = k - 1" "n < k" "l < k" "0 < length key" using assms by auto
  then show "rk ! n XOR aes_sub4 aes_Te4 (GetByte (rk ! l) 3) (GetByte (rk ! l) 2) (GetByte (rk ! l) 1) (GetByte (rk ! l) 0)
      = col_word (key_word key k)"
    using key_word_step(3)[OF _ assms(2,6,7)]
    by (simp add: scheduled_nth[OF assms(1)] aes_sub4_col word_col_def[symmetric, unfolded One_nat_def]
      del: col_word.simps col_map.simps)
qed

text \<open>One iteration of each loop; \<open>k'\<close> is the next index, so that the rules chain.\<close>

lemma plain:
  assumes "scheduled key k rk" "k' = Suc k" "length key \<le> k" "0 < length key" "k < 72" "n + length key = k" "Suc l = k"
    "k mod length key \<noteq> 0" "length key \<le> 6 \<or> k mod length key \<noteq> 4"
  shows "scheduled key k' (rk[k := rk ! n XOR rk ! l])"
  unfolding assms(2) by (rule scheduled_plain[OF assms(1,3-9)])

lemma rot:
  assumes "scheduled key k rk" "k' = Suc k" "length key \<le> k" "0 < length key" "k < 72" "n + length key = k" "Suc l = k"
    "k mod length key = 0" "k div length key = Suc i" "i < 10"
  shows "scheduled key k' (rk[k := rk ! n XOR aes_rot_sub (rk ! l) XOR aes_rcon ! i])"
  unfolding assms(2) by (rule scheduled_rot[OF assms(1,3-10)])

lemma sub:
  assumes "scheduled key k rk" "k' = Suc k" "length key \<le> k" "k < 72" "n + length key = k" "Suc l = k"
    "k mod length key = 4" "6 < length key"
  shows "scheduled key k' (rk[k := rk ! n XOR
      aes_sub4 aes_Te4 (GetByte (rk ! l) 3) (GetByte (rk ! l) 2) (GetByte (rk ! l) 1) (GetByte (rk ! l) 0)])"
  unfolding assms(2) by (rule scheduled_sub[OF assms(1,3-8)])

lemma mod_offset: "(m * i + k) mod m = k mod (m :: nat)" "0 < m \<Longrightarrow> (m * i + k) div m = i + k div m"
  by simp_all

lemma expand128_scheduled:
  assumes "scheduled key (4 * i + 4) rk" "length key = 4" "i < 10"
  shows "scheduled key (4 * i + 8) (aes_expand128 i rk)"
  unfolding aes_expand128_def Let_def
  by (rule plain, rule plain, rule plain, rule rot, rule assms(1)) (use assms(2,3) in \<open>simp_all add: mod_offset\<close>)

lemma expand192_scheduled:
  assumes "scheduled key (6 * i + 6) rk" "length key = 6" "i < 8"
  shows "scheduled key (if i + 1 = 8 then 6 * i + 10 else 6 * i + 12) (aes_expand192 i rk)"
proof -
  let ?rk1 = "rk[6 * i + 6 := rk ! (6 * i) XOR aes_rot_sub (rk ! (6 * i + 5)) XOR aes_rcon ! i]"
  let ?rk2 = "?rk1[6 * i + 7 := ?rk1 ! (6 * i + 1) XOR ?rk1 ! (6 * i + 6)]"
  let ?rk3 = "?rk2[6 * i + 8 := ?rk2 ! (6 * i + 2) XOR ?rk2 ! (6 * i + 7)]"
  let ?rk4 = "?rk3[6 * i + 9 := ?rk3 ! (6 * i + 3) XOR ?rk3 ! (6 * i + 8)]"
  have 4: "scheduled key (6 * i + 10) ?rk4"
    by (rule plain, rule plain, rule plain, rule rot, rule assms(1)) (use assms(2,3) in \<open>simp_all add: mod_offset\<close>)
  have "scheduled key (6 * i + 12) (?rk4[6 * i + 10 := ?rk4 ! (6 * i + 4) XOR ?rk4 ! (6 * i + 9),
      6 * i + 11 := ?rk4[6 * i + 10 := ?rk4 ! (6 * i + 4) XOR ?rk4 ! (6 * i + 9)] ! (6 * i + 5) XOR
        ?rk4[6 * i + 10 := ?rk4 ! (6 * i + 4) XOR ?rk4 ! (6 * i + 9)] ! (6 * i + 10)])" if "i + 1 \<noteq> 8"
    by (rule plain, rule plain, rule 4) (use assms(2,3) that in \<open>simp_all add: mod_offset\<close>)
  with 4 show ?thesis unfolding aes_expand192_def Let_def by (simp only: if_True if_False split: if_split) blast
qed

lemma expand256_scheduled:
  assumes "scheduled key (8 * i + 8) rk" "length key = 8" "i < 7"
  shows "scheduled key (if i + 1 = 7 then 8 * i + 12 else 8 * i + 16) (aes_expand256 i rk)"
proof -
  define rk4 where "rk4 =
    (let n = 8 * i; temp = rk ! (n + 7);
         rk = rk[n + 8 := rk ! n XOR aes_rot_sub temp XOR aes_rcon ! i];
         rk = rk[n + 9 := rk ! (n + 1) XOR rk ! (n + 8)];
         rk = rk[n + 10 := rk ! (n + 2) XOR rk ! (n + 9)]
     in rk[n + 11 := rk ! (n + 3) XOR rk ! (n + 10)])"
  have 4: "scheduled key (8 * i + 12) rk4" unfolding rk4_def Let_def
    by (rule plain, rule plain, rule plain, rule rot, rule assms(1)) (use assms(2,3) in \<open>simp_all add: mod_offset\<close>)
  have e: "aes_expand256 i rk = (if i + 1 = 7 then rk4
     else let n = 8 * i; rk = rk4; temp = rk ! (n + 11);
              rk = rk[n + 12 := rk ! (n + 4) XOR
                aes_sub4 aes_Te4 (GetByte temp 3) (GetByte temp 2) (GetByte temp 1) (GetByte temp 0)];
              rk = rk[n + 13 := rk ! (n + 5) XOR rk ! (n + 12)];
              rk = rk[n + 14 := rk ! (n + 6) XOR rk ! (n + 13)]
          in rk[n + 15 := rk ! (n + 7) XOR rk ! (n + 14)])"
    unfolding aes_expand256_def rk4_def Let_def ..
  show ?thesis
  proof (cases "i + 1 = 7")
    case True
    then show ?thesis unfolding e using 4 by simp
  next
    case False
    have "scheduled key (8 * i + 16) (aes_expand256 i rk)"
      unfolding e if_not_P[OF False] Let_def
      by (rule plain, rule plain, rule plain, rule sub, rule 4) (use assms(2,3) False in \<open>simp_all add: mod_offset\<close>)
    with False show ?thesis by simp
  qed
qed

lemma expand_fold:
  "scheduled key 4 rk \<Longrightarrow> length key = 4 \<Longrightarrow> m \<le> 10 \<Longrightarrow> scheduled key (4 * m + 4) (fold aes_expand128 [0..<m] rk)"
  "scheduled key 6 rk \<Longrightarrow> length key = 6 \<Longrightarrow> m \<le> 8 \<Longrightarrow>
     scheduled key (if m = 8 then 52 else 6 * m + 6) (fold aes_expand192 [0..<m] rk)"
  "scheduled key 8 rk \<Longrightarrow> length key = 8 \<Longrightarrow> m \<le> 7 \<Longrightarrow>
     scheduled key (if m = 7 then 60 else 8 * m + 8) (fold aes_expand256 [0..<m] rk)"
proof (induction m)
  case (Suc m)
  have f: "fold g [0..<Suc m] rk = g m (fold g [0..<m] rk)" for g :: "nat \<Rightarrow> u32 list \<Rightarrow> u32 list" by simp
  {
    case 1
    then show ?case using Suc(1) expand128_scheduled[of key m "fold aes_expand128 [0..<m] rk"]
      unfolding f by (simp add: add.commute)
  next
    case 2
    then have "scheduled key (6 * m + 6) (fold aes_expand192 [0..<m] rk)" using Suc(2) by simp
    with 2 show ?case using expand192_scheduled[of key m "fold aes_expand192 [0..<m] rk"]
      unfolding f by (cases "m = 7") (simp_all add: add.commute)
  next
    case 3
    then have "scheduled key (8 * m + 8) (fold aes_expand256 [0..<m] rk)" using Suc(3) by simp
    with 3 show ?case using expand256_scheduled[of key m "fold aes_expand256 [0..<m] rk"]
      unfolding f by (cases "m = 6") (simp_all add: add.commute)
  }
qed simp_all

lemma aes_load_column: "4 * j + 4 \<le> length bs \<Longrightarrow> aes_load bs (4 * j) = col_word (bytes_state bs ! j)"
proof -
  assume j: "4 * j + 4 \<le> length bs"
  then have n: "bytes_state bs ! j = (\<lambda>b. (b ! 0, b ! 1, b ! 2, b ! 3)) (take 4 (drop (4 * j) bs))"
    by (subst bytes_state_def, subst nth_map) (auto simp: length_chunks nth_chunks less_eq_div_iff_mult_less_eq less_eq_Suc_le)
  have "length (take 4 (drop (4 * j) bs)) = 4" using j by simp
  from length_four[OF this] show ?thesis
    unfolding n aes_load_def load_def by (simp del: nth_take nth_drop)
qed

definition key_len_ok :: "byte list \<Rightarrow> bool" where
  "key_len_ok key \<longleftrightarrow> length key \<in> {16, 24, 32}"

definition aes_nr :: "byte list \<Rightarrow> nat" where
  "aes_nr key = length key div 4 + 6"

lemma AES_SetKeyEncrypt_keyed:
  assumes "key_len_ok key" "length (ae_rk c) = 72"
  shows "scheduled (bytes_state key) (4 * (aes_nr key + 1)) (ae_rk (AES_SetKeyEncrypt key c))"
    "ae_nr (AES_SetKeyEncrypt key c) = aes_nr key" "10 + 2 * ae_nri (AES_SetKeyEncrypt key c) = aes_nr key"
proof -
  let ?k = "bytes_state key"
  let ?rk4 = "(ae_rk c)[0 := aes_load key 0, 1 := aes_load key 4, 2 := aes_load key 8, 3 := aes_load key 12]"
  let ?rk6 = "?rk4[4 := aes_load key 16, 5 := aes_load key 20]"
  let ?rk8 = "?rk6[6 := aes_load key 24, 7 := aes_load key 28]"
  have ld: "aes_load key (4 * j) = col_word (key_word ?k j)" if "4 * j + 4 \<le> length key" for j
  proof -
    have "j < length ?k" using that by (simp add: less_eq_div_iff_mult_less_eq less_eq_Suc_le)
    then show ?thesis by (simp add: aes_load_column[OF that] key_word_key)
  qed
  have put: "scheduled ?k j rk \<Longrightarrow> j' = Suc j \<Longrightarrow> 4 * j + 4 \<le> length key \<Longrightarrow> j < 72 \<Longrightarrow> n = 4 * j \<Longrightarrow>
      scheduled ?k j' (rk[j := aes_load key n])" for j j' n rk
    by (simp add: scheduled_put ld)
  have 0: "scheduled ?k 0 (ae_rk c)" using assms(2) by (simp add: scheduled_def)
  have 4: "scheduled ?k 4 ?rk4" if "16 \<le> length key"
    by (rule put, rule put, rule put, rule put, rule 0) (use that in simp_all)
  have 6: "scheduled ?k 6 ?rk6" if "24 \<le> length key"
    by (rule put, rule put, rule 4) (use that in simp_all)
  have 8: "scheduled ?k 8 ?rk8" if "32 \<le> length key"
    by (rule put, rule put, rule 6) (use that in simp_all)
  consider "length key = 16" | "length key = 24" | "length key = 32" using assms(1) by (auto simp: key_len_ok_def)
  then show "scheduled ?k (4 * (aes_nr key + 1)) (ae_rk (AES_SetKeyEncrypt key c))"
  proof cases
    case 1
    then have "ae_rk (AES_SetKeyEncrypt key c) = fold aes_expand128 [0..<10] ?rk4" "4 * (aes_nr key + 1) = 44"
      by (simp_all add: AES_SetKeyEncrypt_def Let_def aes_nr_def del: upt_rec_numeral)
    then show ?thesis using expand_fold(1)[OF 4, of 10] 1 by simp
  next
    case 2
    then have "ae_rk (AES_SetKeyEncrypt key c) = fold aes_expand192 [0..<8] ?rk6" "4 * (aes_nr key + 1) = 52"
      by (simp_all add: AES_SetKeyEncrypt_def Let_def aes_nr_def)
    then show ?thesis using expand_fold(2)[OF 6, of 8] 2 by simp
  next
    case 3
    then have "ae_rk (AES_SetKeyEncrypt key c) = fold aes_expand256 [0..<7] ?rk8" "4 * (aes_nr key + 1) = 60"
      by (simp_all add: AES_SetKeyEncrypt_def Let_def aes_nr_def)
    then show ?thesis using expand_fold(3)[OF 8, of 7] 3 by simp
  qed
  show "ae_nr (AES_SetKeyEncrypt key c) = aes_nr key" "10 + 2 * ae_nri (AES_SetKeyEncrypt key c) = aes_nr key"
    using assms(1) by (auto simp: AES_SetKeyEncrypt_def Let_def aes_nr_def AES_m_nb_def key_len_ok_def)
qed

section \<open>The keys of the inverse cipher\<close>

lemma swap4_nth:
  assumes "i + 4 \<le> j" "j + 4 \<le> length xs" "k < length xs"
  shows "swap4 i j xs ! k = (if i \<le> k \<and> k < i + 4 then xs ! (k - i + j)
     else if j \<le> k \<and> k < j + 4 then xs ! (k - j + i) else xs ! k)"
proof -
  have e: "swap4 i j xs = xs[i := xs ! j, j := xs ! i, i + 1 := xs ! (j + 1), j + 1 := xs ! (i + 1),
      i + 2 := xs ! (j + 2), j + 2 := xs ! (i + 2), i + 3 := xs ! (j + 3), j + 3 := xs ! (i + 3)]"
    unfolding swap4_def Let_def using assms(1) by simp
  have "k < i \<or> i + 4 \<le> k \<or> k = i \<or> k = i + 1 \<or> k = i + 2 \<or> k = i + 3"
    "k < j \<or> j + 4 \<le> k \<or> k = j \<or> k = j + 1 \<or> k = j + 2 \<or> k = j + 3" by linarith+
  then show ?thesis unfolding e using assms
    by (elim disjE) (simp_all add: add.commute)
qed

lemma length_swap4 [simp]: "length (swap4 i j xs) = length xs"
  by (simp add: swap4_def Let_def)

text \<open>Word \<open>c\<close> of group \<open>p\<close> exchanges its place with word \<open>c\<close> of group \<open>a + b - p\<close>.\<close>

lemma aes_reverse_nth:
  assumes "a \<le> b + 1" "4 * b + 4 \<le> length xs" "c < 4" "4 * p + c < length xs"
  shows "length (aes_reverse (4 * a) (4 * b) xs) = length xs \<and>
    aes_reverse (4 * a) (4 * b) xs ! (4 * p + c) = (if a \<le> p \<and> p \<le> b then xs ! (4 * (a + b - p) + c) else xs ! (4 * p + c))"
  using assms(1,2,4)
proof (induction "b - a" arbitrary: a b xs rule: less_induct)
  case less
  let ?r = "aes_reverse (4 * a) (4 * b) xs"
  show ?case
  proof (cases "a < b")
    case False
    then have "?r = xs" by (simp add: aes_reverse.simps)
    moreover have "a + b - p = p" if "a \<le> p" "p \<le> b" using that False by simp
    ultimately show ?thesis by auto
  next
    case True
    let ?x = "swap4 (4 * a) (4 * b) xs"
    have r: "?r = aes_reverse (4 * (a + 1)) (4 * (b - 1)) ?x"
      using True by (subst aes_reverse.simps) (simp add: algebra_simps)
    have ih: "length ?r = length ?x"
      "?r ! (4 * p + c) = (if a + 1 \<le> p \<and> p \<le> b - 1 then ?x ! (4 * (a + 1 + (b - 1) - p) + c) else ?x ! (4 * p + c))"
      unfolding r using True less.prems less.hyps[of "b - 1" "a + 1" ?x] by simp_all
    have sw: "?x ! (4 * q + c) = (if q = a then xs ! (4 * b + c) else if q = b then xs ! (4 * a + c) else xs ! (4 * q + c))"
      if "4 * q + c < length xs" for q
    proof -
      have "4 * a \<le> 4 * q + c \<and> 4 * q + c < 4 * a + 4 \<longleftrightarrow> q = a" "4 * b \<le> 4 * q + c \<and> 4 * q + c < 4 * b + 4 \<longleftrightarrow> q = b"
        using assms(3) by auto
      then show ?thesis using swap4_nth[of "4 * a" "4 * b" xs "4 * q + c"] True that less.prems by (auto simp: algebra_simps)
    qed
    have "4 * (a + b - p) + c < length xs" if "a \<le> p" using that assms(3) less.prems by auto
    then show ?thesis using ih True less.prems by (auto simp: sw)
  qed
qed

lemma aes_inv_mix_keys:
  assumes "c < 4" "4 * m \<le> length xs"
  shows "length (fold aes_inv_mix_key [1..<m] xs) = length xs \<and>
    fold aes_inv_mix_key [1..<m] xs ! (4 * p + c) = (if 1 \<le> p \<and> p < m then aes_inv_mix (xs ! (4 * p + c)) else xs ! (4 * p + c))"
  using assms(2)
proof (induction m)
  case (Suc m)
  show ?case
  proof (cases "m = 0")
    case False
    let ?y = "fold aes_inv_mix_key [1..<m] xs"
    have y: "length ?y = length xs"
      "?y ! (4 * p + c) = (if 1 \<le> p \<and> p < m then aes_inv_mix (xs ! (4 * p + c)) else xs ! (4 * p + c))"
      using Suc by simp_all
    have f: "fold aes_inv_mix_key [1..<Suc m] xs = aes_inv_mix_key m ?y" using False by simp
    from assms(1) have c: "c \<in> {0, 1, 2, 3}" by auto
    have "aes_inv_mix_key m ?y ! (4 * p + c) = (if p = m then aes_inv_mix (?y ! (4 * p + c)) else ?y ! (4 * p + c))"
    proof (cases "p = m")
      case True
      with c show ?thesis using Suc.prems y(1)
        by (elim insertE emptyE) (simp_all add: aes_inv_mix_key_def Let_def)
    next
      case False
      then have "4 * p + c \<noteq> 4 * m" "4 * p + c \<noteq> 4 * m + 1" "4 * p + c \<noteq> 4 * m + 2" "4 * p + c \<noteq> 4 * m + 3"
        using assms(1) by presburger+
      with False show ?thesis by (simp add: aes_inv_mix_key_def Let_def)
    qed
    moreover have "length (aes_inv_mix_key m ?y) = length xs" using y(1) by (simp add: aes_inv_mix_key_def Let_def)
    ultimately show ?thesis unfolding f using y(2) False by auto
  qed auto
qed simp

text \<open>The invariant of a context whose key has been set.\<close>

definition AES_keyed :: "byte list \<Rightarrow> aes \<Rightarrow> bool" where
  "AES_keyed key c \<longleftrightarrow> ae_nri c < 3 \<and> 10 + 2 * ae_nri c = aes_nr key \<and>
     (\<forall>p\<le>aes_nr key. rk_state (ae_rk c) (4 * p) = round_key 4 (bytes_state key) p \<and>
        rk_state (ae_rkd c) (4 * p) =
          (if 1 \<le> p \<and> p < aes_nr key then map InvMixColumn (round_key 4 (bytes_state key) (aes_nr key - p))
           else round_key 4 (bytes_state key) (aes_nr key - p)))"

lemma rk_state_nth: "rk_state rk (4 * p) = map (\<lambda>c. word_col (rk ! (4 * p + c))) [0..<4]"
  by (simp add: rk_state_def upt_4)

lemma AES_SetKeyInternal_keyed:
  assumes "key_len_ok key" "length (ae_rk c) = 72"
  shows "fst (AES_SetKeyInternal key c) = 0" "AES_keyed key (snd (AES_SetKeyInternal key c))"
proof -
  let ?c = "AES_SetKeyEncrypt key c" and ?k = "bytes_state key" and ?nr = "aes_nr key"
  have set: "AES_SetKeyInternal key c = (0, AES_SetKeyDecrypt ?c)"
    using assms(1) by (simp add: AES_SetKeyInternal_def key_len_ok_def)
  then show "fst (AES_SetKeyInternal key c) = 0" by simp
  note e = AES_SetKeyEncrypt_keyed[OF assms]
  have nr: "10 \<le> ?nr" "?nr \<le> 14" using assms(1) by (auto simp: aes_nr_def key_len_ok_def)
  have len: "length (ae_rk ?c) = 72" using e(1) by (simp add: scheduled_def)
  have rk: "ae_rk ?c ! (4 * p + j) = col_word (key_word ?k (4 * p + j))" if "p \<le> ?nr" "j < 4" for p j
    using e(1) that by (intro scheduled_nth) auto
  define x where "x = aes_reverse (4 * 0) (4 * ?nr) (ae_rk ?c)"
  define d where "d = fold aes_inv_mix_key [1..<?nr] x"
  have x: "length x = 72" "x ! (4 * p + j) = ae_rk ?c ! (4 * (?nr - p) + j)" if "p \<le> ?nr" "j < 4" for p j
    using aes_reverse_nth[of 0 ?nr "ae_rk ?c" j p] that len nr by (auto simp: x_def)
  have d: "d ! (4 * p + j) = (if 1 \<le> p \<and> p < ?nr then aes_inv_mix (x ! (4 * p + j)) else x ! (4 * p + j))"
    if "p \<le> ?nr" "j < 4" for p j
    using aes_inv_mix_keys[of j ?nr x p] that x(1)[of 0 0] nr by (auto simp: d_def)
  have k1: "rk_state (ae_rk ?c) (4 * p) = round_key 4 ?k p" if "p \<le> ?nr" for p
    using that by (auto simp: rk_state_nth round_key_def rk simp del: col_word.simps)
  have k2: "rk_state d (4 * p) = (if 1 \<le> p \<and> p < ?nr then map InvMixColumn (round_key 4 ?k (?nr - p)) else round_key 4 ?k (?nr - p))"
    if "p \<le> ?nr" for p
  proof -
    have "word_col (d ! (4 * p + j)) = (if 1 \<le> p \<and> p < ?nr then InvMixColumn (key_word ?k (4 * (?nr - p) + j)) else key_word ?k (4 * (?nr - p) + j))"
      if "j < 4" for j
      unfolding d[OF \<open>p \<le> ?nr\<close> that] x[OF \<open>p \<le> ?nr\<close> that] using rk[of "?nr - p" j] that
      by (simp add: aes_inv_mix_col del: col_word.simps InvMixColumn.simps)
    then show ?thesis unfolding rk_state_nth round_key_def by auto
  qed
  have "AES_SetKeyDecrypt ?c = ?c\<lparr>ae_rkd := d\<rparr>"
    by (simp add: AES_SetKeyDecrypt_def Let_def e d_def x_def)
  then show "AES_keyed key (snd (AES_SetKeyInternal key c))"
    unfolding set AES_keyed_def using e(2,3) nr by (simp add: k1 k2)
qed

section \<open>The code computes the cipher\<close>

lemma store_quad: "store_words Big [a, b, c, d :: u32] = state_bytes [word_col a, word_col b, word_col c, word_col d]"
  by (simp add: store_words_def store_def be_store_col state_bytes_def split: prod.split)

lemma quad_load:
  assumes "length inp = 16"
  shows "quad_state (aes_load inp 0 XOR rk ! 0, aes_load inp 4 XOR rk ! 1, aes_load inp 8 XOR rk ! 2, aes_load inp 12 XOR rk ! 3) =
     AddRoundKey (rk_state rk 0) (bytes_state inp)"
proof -
  obtain a b c d where "bytes_state inp = [a, b, c, d]"
    using assms length_four[of "bytes_state inp"] by simp
  moreover have "aes_load inp 0 = col_word (bytes_state inp ! 0)" "aes_load inp 4 = col_word (bytes_state inp ! 1)"
    "aes_load inp 8 = col_word (bytes_state inp ! 2)" "aes_load inp 12 = col_word (bytes_state inp ! 3)"
    using assms aes_load_column[of 0 inp] aes_load_column[of 1 inp] aes_load_column[of 2 inp] aes_load_column[of 3 inp] by simp_all
  ultimately show ?thesis
    by (simp add: AddRoundKey_def rk_state_def numeral_2_eq_2 del: col_word.simps)
qed

lemma fold_quad:
  assumes "\<And>i s. i \<in> set is \<Longrightarrow> quad_state (r i s) = f i (quad_state s)"
  shows "quad_state (fold r is s) = fold f is (quad_state s)"
  using assms by (induction "is" arbitrary: s) simp_all

theorem AES_Encrypt_cipher:
  assumes "AES_keyed key c" "length inp = 16"
  shows "AES_Encrypt c inp = state_bytes (cipher (aes_nr key) (round_key 4 (bytes_state key)) (bytes_state inp))"
proof -
  let ?K = "round_key 4 (bytes_state key)" and ?nr = "aes_nr key" and ?rk = "ae_rk c"
  let ?s = "(aes_load inp 0 XOR ?rk ! 0, aes_load inp 4 XOR ?rk ! 1, aes_load inp 8 XOR ?rk ! 2, aes_load inp 12 XOR ?rk ! 3)"
  have nri: "ae_nri c < 3" and nr: "10 + 2 * ae_nri c = ?nr" and K: "\<And>p. p \<le> ?nr \<Longrightarrow> rk_state ?rk (4 * p) = ?K p"
    using assms(1) by (auto simp: AES_keyed_def)
  obtain t0 t1 t2 t3 where t: "fold (\<lambda>i. AES_EncryptRound ?rk (4 * i)) [1..<?nr] ?s = (t0, t1, t2, t3)"
    by (metis prod_cases4)
  have n: "4 * (9 + 2 * ae_nri c) + 4 = 4 * ?nr" using nr by simp
  have r: "aes_rounds (AES_EncryptRound ?rk) (ae_nri c) ?s = ((t0, t1, t2, t3), 4 * (9 + 2 * ae_nri c))"
    unfolding aes_rounds_fold[OF nri] nr t ..
  have "quad_state (t0, t1, t2, t3) = fold (\<lambda>i. round_step (?K i)) [1..<?nr] (quad_state ?s)"
    unfolding t[symmetric] by (rule fold_quad) (simp add: EncryptRound_state K)
  then have q: "quad_state (t0, t1, t2, t3) = fold (\<lambda>i. round_step (?K i)) [1..<?nr] (AddRoundKey (?K 0) (bytes_state inp))"
    unfolding quad_load[OF assms(2)] using K[of 0] by simp
  have "AES_Encrypt c inp = state_bytes (AddRoundKey (?K ?nr) (ShiftRows (SubBytes (quad_state (t0, t1, t2, t3)))))"
    unfolding K[OF order_refl, symmetric]
    unfolding AES_Encrypt_def Let_def r prod.case n
    by (simp add: store_quad aes_sub4_col AddRoundKey_def rk_state_def SubBytes_def ShiftRows_four
        word_col_def[of t0] word_col_def[of t1] word_col_def[of t2] word_col_def[of t3] del: col_word.simps)
  then show ?thesis unfolding q cipher_def Let_def .
qed

lemma rev_upt_diff: "map (\<lambda>i. n - i) [1..<n] = rev [1..<n]"
  by (auto simp: rev_nth intro!: nth_equalityI)

theorem AES_Decrypt_inv_cipher:
  assumes "AES_keyed key c" "length inp = 16"
  shows "AES_Decrypt c inp = state_bytes (inv_cipher (aes_nr key) (round_key 4 (bytes_state key)) (bytes_state inp))"
proof -
  let ?K = "round_key 4 (bytes_state key)" and ?nr = "aes_nr key" and ?rk = "ae_rkd c"
  let ?s = "(aes_load inp 0 XOR ?rk ! 0, aes_load inp 4 XOR ?rk ! 1, aes_load inp 8 XOR ?rk ! 2, aes_load inp 12 XOR ?rk ! 3)"
  have nri: "ae_nri c < 3" and nr: "10 + 2 * ae_nri c = ?nr"
    and K: "\<And>p. p \<le> ?nr \<Longrightarrow> rk_state ?rk (4 * p) = (if 1 \<le> p \<and> p < ?nr then map InvMixColumn (?K (?nr - p)) else ?K (?nr - p))"
    using assms(1) by (auto simp: AES_keyed_def)
  obtain t0 t1 t2 t3 where t: "fold (\<lambda>i. AES_DecryptRound ?rk (4 * i)) [1..<?nr] ?s = (t0, t1, t2, t3)"
    by (metis prod_cases4)
  have n: "4 * (9 + 2 * ae_nri c) + 4 = 4 * ?nr" using nr by simp
  have r: "aes_rounds (AES_DecryptRound ?rk) (ae_nri c) ?s = ((t0, t1, t2, t3), 4 * (9 + 2 * ae_nri c))"
    unfolding aes_rounds_fold[OF nri] nr t ..
  have "quad_state (t0, t1, t2, t3) = fold (\<lambda>i. inv_round_step (?K (?nr - i))) [1..<?nr] (quad_state ?s)"
    unfolding t[symmetric] by (rule fold_quad, rule DecryptRound_inv) (simp_all add: K)
  also have "\<dots> = fold (\<lambda>i. inv_round_step (?K i)) (rev [1..<?nr]) (quad_state ?s)"
    unfolding rev_upt_diff[symmetric] fold_map o_def ..
  finally have q: "quad_state (t0, t1, t2, t3) = fold (\<lambda>i. inv_round_step (?K i)) (rev [1..<?nr]) (AddRoundKey (?K ?nr) (bytes_state inp))"
    unfolding quad_load[OF assms(2)] using K[of 0] by simp
  have k: "rk_state ?rk (4 * ?nr) = ?K 0" using K[of ?nr] by simp
  have "AES_Decrypt c inp = state_bytes (AddRoundKey (?K 0) (InvSubBytes (InvShiftRows (quad_state (t0, t1, t2, t3)))))"
    unfolding k[symmetric] unfolding AES_Decrypt_def Let_def r prod.case n
    by (simp add: store_quad aes_sub4_col AddRoundKey_def rk_state_def InvSubBytes_def InvShiftRows_four
        word_col_def[of t0] word_col_def[of t1] word_col_def[of t2] word_col_def[of t3] del: col_word.simps)
  then show ?thesis unfolding q inv_cipher_def Let_def .
qed

interpretation aes: block_cipher 16 AES_Encrypt AES_Decrypt "\<lambda>c. \<exists>key. AES_keyed key c"
proof
  fix c :: aes and b :: "byte list"
  assume "\<exists>key. AES_keyed key c" and b: "length b = 16"
  then obtain key where key: "AES_keyed key c" by blast
  have l: "length (bytes_state b) = 4" using b by simp
  note e = AES_Encrypt_cipher[OF key] and d = AES_Decrypt_inv_cipher[OF key]
  show "length (AES_Encrypt c b) = 16" "length (AES_Decrypt c b) = 16"
    unfolding e[OF b] d[OF b] using l by simp_all
  then show "AES_Decrypt c (AES_Encrypt c b) = b" "AES_Encrypt c (AES_Decrypt c b) = b"
    unfolding d[OF \<open>length (AES_Encrypt c b) = 16\<close>] e[OF \<open>length (AES_Decrypt c b) = 16\<close>]
    unfolding e[OF b] d[OF b] using b l by (simp_all add: inv_cipher_cipher state_bytes_state)
qed simp

text \<open>A context before its first key.\<close>

definition aes_fresh :: aes where
  "aes_fresh = \<lparr>ae_nr = 0, ae_nk = 0, ae_nri = 0, ae_rk = replicate 72 0, ae_rkd = replicate 72 0\<rparr>"

lemma length_aes_fresh [simp]: "length (ae_rk aes_fresh) = 72"
  by (simp add: aes_fresh_def)

end
