(* ===== verification/Rijndael.thy ===== *)
theory Rijndael
  imports Rijndael_Tables "HOL-Library.Monad_Syntax"
begin

text \<open>
  Rijndael with blocks of 128 to 256 bits (\<^verbatim>\<open>impl/block/rijndael/rijndael.cc\<close>). The template
  parameter \<open>N\<close>, the block size in bits, is an argument. The code encrypts bytes, with the
  shifts of the rows written out for each size, and decrypts four words of 64 bits, one for a row, with
  generic shifts; the round keys are kept in both forms.
\<close>

section \<open>The context\<close>

record rijndael =
  rj_nr :: nat
  rj_nk :: nat
  rj_rk :: "u64 list list"
  rj_rkb :: "byte list"

definition rj_nb :: "nat \<Rightarrow> nat" where
  "rj_nb N = N div 32"

definition rj_bc :: "nat \<Rightarrow> nat" where
  "rj_bc N = N div 4"

definition rj_bcmask :: "nat \<Rightarrow> u64" where
  "rj_bcmask N = push_bit 1 (push_bit (rj_bc N - 1) 1 - 1) OR 1"

definition rj_shifts1 :: "nat list list" where
  "rj_shifts1 = [[0, 24, 16, 8], [0, 32, 24, 16], [0, 40, 32, 24], [0, 48, 40, 24], [0, 56, 40, 32]]"

definition rj_shiftoffset :: "nat \<Rightarrow> nat" where
  "rj_shiftoffset N = N div 32 - 4"

definition rj_sh1 :: "nat \<Rightarrow> nat list" where
  "rj_sh1 N = rj_shifts1 ! rj_shiftoffset N"

section \<open>The key schedule\<close>

text \<open>\<^verbatim>\<open>tk\<close> has four rows of \<^verbatim>\<open>MAXNK\<close> bytes.\<close>

definition upd2 :: "nat \<Rightarrow> nat \<Rightarrow> ('a \<Rightarrow> 'a) \<Rightarrow> 'a list list \<Rightarrow> 'a list list" where
  "upd2 i j f a = a[i := (a ! i)[j := f (a ! i ! j)]]"

definition rj_tk :: "byte list \<Rightarrow> byte list list" where
  "rj_tk key = fold (\<lambda>i tk. upd2 (i mod 4) (i div 4) (\<lambda>_. key ! i) tk) [0..<length key] (replicate 4 (replicate 8 0))"

text \<open>\<^verbatim>\<open>for (j = 0; (j < m_nk) && (t < (m_nr+1)*m_nb); j++, t++)\<close>\<close>

definition rj_emit_word :: "nat \<Rightarrow> byte list list \<Rightarrow> nat \<Rightarrow> nat \<Rightarrow> u64 list list \<Rightarrow> u64 list list" where
  "rj_emit_word N tk j t rk =
     fold (\<lambda>i. upd2 (t div rj_nb N) i (\<lambda>x. x OR push_bit ((t * 8) mod rj_bc N) (ucast (tk ! i ! j)))) [0..<4] rk"

definition rj_emit :: "nat \<Rightarrow> nat \<Rightarrow> nat \<Rightarrow> byte list list \<Rightarrow> u64 list list \<times> nat \<Rightarrow> u64 list list \<times> nat" where
  "rj_emit N nk nr tk st =
     fold (\<lambda>j (rk, t). if t < (nr + 1) * rj_nb N then (rj_emit_word N tk j t rk, t + 1) else (rk, t)) [0..<nk] st"

definition rj_xor_prev :: "nat \<Rightarrow> byte list list \<Rightarrow> byte list list" where
  "rj_xor_prev j tk = fold (\<lambda>i tk. upd2 i j (\<lambda>x. x XOR tk ! i ! (j - 1)) tk) [0..<4] tk"

definition rj_next :: "nat \<Rightarrow> nat \<Rightarrow> byte list list \<Rightarrow> byte list list" where
  "rj_next nk ri tk =
     (let tk = fold (\<lambda>i tk. upd2 i 0 (\<lambda>x. x XOR rijndael_S ! unat (tk ! ((i + 1) mod 4) ! (nk - 1))) tk) [0..<4] tk;
          tk = upd2 0 0 (\<lambda>x. x XOR rijndael_rcon ! ri) tk
      in if nk \<le> 6 then fold rj_xor_prev [1..<nk] tk
         else let tk = fold rj_xor_prev [1..<4] tk;
                  tk = fold (\<lambda>i tk. upd2 i 4 (\<lambda>x. x XOR rijndael_S ! unat (tk ! i ! 3)) tk) [0..<4] tk
              in fold rj_xor_prev [5..<nk] tk)"

text \<open>\<^verbatim>\<open>while (t < (m_nr+1)*m_nb)\<close>, which does not end for a key of no whole word.\<close>

partial_function (option) rj_expand ::
    "nat \<Rightarrow> nat \<Rightarrow> nat \<Rightarrow> nat \<Rightarrow> byte list list \<Rightarrow> u64 list list \<times> nat \<Rightarrow> (u64 list list) option" where
  "rj_expand N nk nr ri tk st =
     (if snd st < (nr + 1) * rj_nb N
      then let tk = rj_next nk ri tk in rj_expand N nk nr (ri + 1) tk (rj_emit N nk nr tk st)
      else Some (fst st))"

definition Rijndael_SetKeyInternal :: "nat \<Rightarrow> byte list \<Rightarrow> rijndael \<Rightarrow> rijndael option" where
  "Rijndael_SetKeyInternal N key c =
     (let nk = length key div 4; nr = 6 + max (rj_nb N) nk; tk = rj_tk key; rk = replicate 15 (replicate 4 0)
      in do {
        rk \<leftarrow> rj_expand N nk nr 0 tk (rj_emit N nk nr tk (rk, 0));
        Some (c\<lparr>rj_nk := nk, rj_nr := nr, rj_rk := rk,
          rj_rkb := fold (\<lambda>i. put_bytes (32 * i) (store_words Big (rk ! i))) [0..<nr + 1] (rj_rkb c)\<rparr>)
      })"

section \<open>Encryption\<close>

definition R128R :: "byte list \<Rightarrow> byte list \<Rightarrow> byte list \<Rightarrow>
    nat \<times> nat \<times> nat \<times> nat \<times> nat \<times> nat \<times> nat \<times> nat \<times> nat \<Rightarrow> byte list \<Rightarrow> byte list" where
  "R128R buf rk box args obuf =
     (let (i, e, f, g, h, w, x, y, z) = args;
          a = box ! unat (buf ! e XOR rk ! w);
          b = box ! unat (buf ! f XOR rk ! x);
          c = box ! unat (buf ! g XOR rk ! y);
          d = box ! unat (buf ! h XOR rk ! z);
          t = rijndael_Et0 ! unat a XOR rijndael_Et1 ! unat b XOR rijndael_Et2 ! unat c XOR rijndael_Et3 ! unat d
      in obuf[i + 0 := GetByte t 0, i + 1 := GetByte t 1, i + 2 := GetByte t 2, i + 3 := GetByte t 3])"

definition R128F :: "byte list \<Rightarrow> byte list \<Rightarrow> byte list \<Rightarrow> nat \<times> nat \<times> nat \<times> nat \<Rightarrow> byte list \<Rightarrow> byte list" where
  "R128F buf rk box args obuf =
     (let (x, z, y, w) = args in obuf[x := box ! unat (buf ! y XOR rk ! w) XOR rk ! (z + 32)])"

definition Rijndael128_Round :: "byte list \<Rightarrow> byte list \<Rightarrow> byte list \<Rightarrow> byte list \<Rightarrow> byte list" where
  "Rijndael128_Round obuf buf rk box = fold (R128R buf rk box)
     [(0, 0, 5, 10, 15, 7, 14, 21, 28),
      (4, 4, 9, 14, 3, 6, 13, 20, 31),
      (8, 8, 13, 2, 7, 5, 12, 23, 30),
      (12, 12, 1, 6, 11, 4, 15, 22, 29)] obuf"

definition Rijndael160_Round :: "byte list \<Rightarrow> byte list \<Rightarrow> byte list \<Rightarrow> byte list \<Rightarrow> byte list" where
  "Rijndael160_Round obuf buf rk box = fold (R128R buf rk box)
     [(0, 0, 5, 10, 15, 7, 14, 21, 28),
      (4, 4, 9, 14, 19, 6, 13, 20, 27),
      (8, 8, 13, 18, 3, 5, 12, 19, 31),
      (12, 12, 17, 2, 7, 4, 11, 23, 30),
      (16, 16, 1, 6, 11, 3, 15, 22, 29)] obuf"

definition Rijndael192_Round :: "byte list \<Rightarrow> byte list \<Rightarrow> byte list \<Rightarrow> byte list \<Rightarrow> byte list" where
  "Rijndael192_Round obuf buf rk box = fold (R128R buf rk box)
     [(0, 0, 5, 10, 15, 7, 14, 21, 28),
      (4, 4, 9, 14, 19, 6, 13, 20, 27),
      (8, 8, 13, 18, 23, 5, 12, 19, 26),
      (12, 12, 17, 22, 3, 4, 11, 18, 31),
      (16, 16, 21, 2, 7, 3, 10, 23, 30),
      (20, 20, 1, 6, 11, 2, 15, 22, 29)] obuf"

definition Rijndael224_Round :: "byte list \<Rightarrow> byte list \<Rightarrow> byte list \<Rightarrow> byte list \<Rightarrow> byte list" where
  "Rijndael224_Round obuf buf rk box = fold (R128R buf rk box)
     [(0, 0, 5, 10, 19, 7, 14, 21, 27),
      (4, 4, 9, 14, 23, 6, 13, 20, 26),
      (8, 8, 13, 18, 27, 5, 12, 19, 25),
      (12, 12, 17, 22, 3, 4, 11, 18, 31),
      (16, 16, 21, 26, 7, 3, 10, 17, 30),
      (20, 20, 25, 2, 11, 2, 9, 23, 29),
      (24, 24, 1, 6, 15, 1, 15, 22, 28)] obuf"

definition Rijndael256_Round :: "byte list \<Rightarrow> byte list \<Rightarrow> byte list \<Rightarrow> byte list \<Rightarrow> byte list" where
  "Rijndael256_Round obuf buf rk box = fold (R128R buf rk box)
     [(0, 0, 5, 14, 19, 7, 14, 20, 27),
      (4, 4, 9, 18, 23, 6, 13, 19, 26),
      (8, 8, 13, 22, 27, 5, 12, 18, 25),
      (12, 12, 17, 26, 31, 4, 11, 17, 24),
      (16, 16, 21, 30, 3, 3, 10, 16, 31),
      (20, 20, 25, 2, 7, 2, 9, 23, 30),
      (24, 24, 29, 6, 11, 1, 8, 22, 29),
      (28, 28, 1, 10, 15, 0, 15, 21, 28)] obuf"

definition Rijndael128_Final :: "byte list \<Rightarrow> byte list \<Rightarrow> byte list \<Rightarrow> byte list \<Rightarrow> byte list" where
  "Rijndael128_Final obuf buf rk box = fold (R128F buf rk box)
     [(12, 4, 12, 4), (13, 12, 1, 15), (14, 20, 6, 22), (15, 28, 11, 29),
      (8, 5, 8, 5), (9, 13, 13, 12), (10, 21, 2, 23), (11, 29, 7, 30),
      (4, 6, 4, 6), (5, 14, 9, 13), (6, 22, 14, 20), (7, 30, 3, 31),
      (0, 7, 0, 7), (1, 15, 5, 14), (2, 23, 10, 21), (3, 31, 15, 28)] obuf"

definition Rijndael160_Final :: "byte list \<Rightarrow> byte list \<Rightarrow> byte list \<Rightarrow> byte list \<Rightarrow> byte list" where
  "Rijndael160_Final obuf buf rk box = fold (R128F buf rk box)
     [(0, 7, 0, 7), (1, 15, 5, 14), (2, 23, 10, 21), (3, 31, 15, 28),
      (4, 6, 4, 6), (5, 14, 9, 13), (6, 22, 14, 20), (7, 30, 19, 27),
      (8, 5, 8, 5), (9, 13, 13, 12), (10, 21, 18, 19), (11, 29, 3, 31),
      (12, 4, 12, 4), (13, 12, 17, 11), (14, 20, 2, 23), (15, 28, 7, 30),
      (16, 3, 16, 3), (17, 11, 1, 15), (18, 19, 6, 22), (19, 27, 11, 29)] obuf"

definition Rijndael192_Final :: "byte list \<Rightarrow> byte list \<Rightarrow> byte list \<Rightarrow> byte list \<Rightarrow> byte list" where
  "Rijndael192_Final obuf buf rk box = fold (R128F buf rk box)
     [(0, 7, 0, 7), (1, 15, 5, 14), (2, 23, 10, 21), (3, 31, 15, 28),
      (4, 6, 4, 6), (5, 14, 9, 13), (6, 22, 14, 20), (7, 30, 19, 27),
      (8, 5, 8, 5), (9, 13, 13, 12), (10, 21, 18, 19), (11, 29, 23, 26),
      (12, 4, 12, 4), (13, 12, 17, 11), (14, 20, 22, 18), (15, 28, 3, 31),
      (16, 3, 16, 3), (17, 11, 21, 10), (18, 19, 2, 23), (19, 27, 7, 30),
      (20, 2, 20, 2), (21, 10, 1, 15), (22, 18, 6, 22), (23, 26, 11, 29)] obuf"

definition Rijndael224_Final :: "byte list \<Rightarrow> byte list \<Rightarrow> byte list \<Rightarrow> byte list \<Rightarrow> byte list" where
  "Rijndael224_Final obuf buf rk box = fold (R128F buf rk box)
     [(0, 7, 0, 7), (1, 15, 5, 14), (2, 23, 10, 21), (3, 31, 19, 27),
      (4, 6, 4, 6), (5, 14, 9, 13), (6, 22, 14, 20), (7, 30, 23, 26),
      (8, 5, 8, 5), (9, 13, 13, 12), (10, 21, 18, 19), (11, 29, 27, 25),
      (12, 4, 12, 4), (13, 12, 17, 11), (14, 20, 22, 18), (15, 28, 3, 31),
      (16, 3, 16, 3), (17, 11, 21, 10), (18, 19, 26, 17), (19, 27, 7, 30),
      (20, 2, 20, 2), (21, 10, 25, 9), (22, 18, 2, 23), (23, 26, 11, 29),
      (24, 1, 24, 1), (25, 9, 1, 15), (26, 17, 6, 22), (27, 25, 15, 28)] obuf"

definition Rijndael256_Final :: "byte list \<Rightarrow> byte list \<Rightarrow> byte list \<Rightarrow> byte list \<Rightarrow> byte list" where
  "Rijndael256_Final obuf buf rk box = fold (R128F buf rk box)
     [(0, 7, 0, 7), (1, 15, 5, 14), (2, 23, 14, 20), (3, 31, 19, 27),
      (4, 6, 4, 6), (5, 14, 9, 13), (6, 22, 18, 19), (7, 30, 23, 26),
      (8, 5, 8, 5), (9, 13, 13, 12), (10, 21, 22, 18), (11, 29, 27, 25),
      (12, 4, 12, 4), (13, 12, 17, 11), (14, 20, 26, 17), (15, 28, 31, 24),
      (16, 3, 16, 3), (17, 11, 21, 10), (18, 19, 30, 16), (19, 27, 3, 31),
      (20, 2, 20, 2), (21, 10, 25, 9), (22, 18, 2, 23), (23, 26, 7, 30),
      (24, 1, 24, 1), (25, 9, 29, 8), (26, 17, 6, 22), (27, 25, 11, 29),
      (28, 0, 28, 0), (29, 8, 1, 15), (30, 16, 10, 21), (31, 24, 15, 28)] obuf"

text \<open>The virtual functions of the class for the block size \<open>N\<close>.\<close>

definition rj_Round :: "nat \<Rightarrow> byte list \<Rightarrow> byte list \<Rightarrow> byte list \<Rightarrow> byte list \<Rightarrow> byte list" where
  "rj_Round N = (if N = 128 then Rijndael128_Round else if N = 160 then Rijndael160_Round
     else if N = 192 then Rijndael192_Round else if N = 224 then Rijndael224_Round else Rijndael256_Round)"

definition rj_Final :: "nat \<Rightarrow> byte list \<Rightarrow> byte list \<Rightarrow> byte list \<Rightarrow> byte list \<Rightarrow> byte list" where
  "rj_Final N = (if N = 128 then Rijndael128_Final else if N = 160 then Rijndael160_Final
     else if N = 192 then Rijndael192_Final else if N = 224 then Rijndael224_Final else Rijndael256_Final)"

text \<open>\<open>p\<close> and \<open>q\<close> are the contents of the two buffers, swapped after each round; \<open>rk\<close> advances
  by 32 bytes.\<close>

definition Rijndael_EncryptBlock :: "nat \<Rightarrow> rijndael \<Rightarrow> byte list \<Rightarrow> byte list \<Rightarrow> byte list" where
  "Rijndael_EncryptBlock N c st buf =
     (let (p, q) = fold (\<lambda>i (p, q). (rj_Round N q p (drop (32 * i) (rj_rkb c)) rijndael_S, p)) [0..<rj_nr c - 1] (st, buf)
      in take (N div 8) (rj_Final N q p (drop (32 * (rj_nr c - 1)) (rj_rkb c)) rijndael_S))"

definition Rijndael_Encrypt :: "nat \<Rightarrow> rijndael \<Rightarrow> byte list \<Rightarrow> byte list" where
  "Rijndael_Encrypt N c inp = Rijndael_EncryptBlock N c (take (N div 8) inp) (replicate 32 0)"

section \<open>Decryption\<close>

definition rj_shift :: "nat \<Rightarrow> u64 \<Rightarrow> nat \<Rightarrow> u64" where
  "rj_shift N x n = (drop_bit n x OR push_bit (rj_bc N - n) x) AND rj_bcmask N"

definition rj_ApplyS :: "nat \<Rightarrow> byte list \<Rightarrow> u64 \<Rightarrow> u64" where
  "rj_ApplyS N box r =
     fold (\<lambda>i res. push_bit 8 res OR ucast (box ! unat (GetByte r i))) (rev [0..<8]) 0 AND rj_bcmask N"

text \<open>The four rows.\<close>

type_synonym rows = "u64 \<times> u64 \<times> u64 \<times> u64"

definition rj_KeyAddition :: "u64 list \<Rightarrow> rows \<Rightarrow> rows" where
  "rj_KeyAddition rk st =
     (let (s0, s1, s2, s3) = st in (s0 XOR rk ! 0, s1 XOR rk ! 1, s2 XOR rk ! 2, s3 XOR rk ! 3))"

definition rj_ShiftRow :: "nat \<Rightarrow> nat list \<Rightarrow> rows \<Rightarrow> rows" where
  "rj_ShiftRow N shifts st =
     (let (s0, s1, s2, s3) = st in (s0, rj_shift N s1 (shifts ! 1), rj_shift N s2 (shifts ! 2), rj_shift N s3 (shifts ! 3)))"

definition rj_Substitution :: "nat \<Rightarrow> byte list \<Rightarrow> rows \<Rightarrow> rows" where
  "rj_Substitution N box st =
     (let (s0, s1, s2, s3) = st in (rj_ApplyS N box s0, rj_ApplyS N box s1, rj_ApplyS N box s2, rj_ApplyS N box s3))"

definition rj_InvMixColumn :: "nat \<Rightarrow> rows \<Rightarrow> rows" where
  "rj_InvMixColumn N st =
     (let (s0, s1, s2, s3) = st
      in fold (\<lambda>k (r0, r1, r2, r3).
           let i = 8 * k;
               a0 = unat (ucast (drop_bit i s0) :: byte);
               a1 = unat (ucast (drop_bit i s1) :: byte);
               a2 = unat (ucast (drop_bit i s2) :: byte);
               a3 = unat (ucast (drop_bit i s3) :: byte);
               e = (\<lambda>j. rijndael_multe ! j); b = (\<lambda>j. rijndael_multb ! j);
               d = (\<lambda>j. rijndael_multd ! j); n = (\<lambda>j. rijndael_mult9 ! j)
           in (r0 OR push_bit i (ucast (e a0 XOR b a1 XOR d a2 XOR n a3)),
               r1 OR push_bit i (ucast (e a1 XOR b a2 XOR d a3 XOR n a0)),
               r2 OR push_bit i (ucast (e a2 XOR b a3 XOR d a0 XOR n a1)),
               r3 OR push_bit i (ucast (e a3 XOR b a0 XOR d a1 XOR n a2))))
         [0..<rj_bc N div 8] (0, 0, 0, 0))"

definition rj_PackBlock :: "nat \<Rightarrow> rows \<Rightarrow> byte list" where
  "rj_PackBlock N st =
     (let (s0, s1, s2, s3) = st
      in concat (map (\<lambda>k. let j = 8 * k in [ucast (drop_bit j s0), ucast (drop_bit j s1), ucast (drop_bit j s2), ucast (drop_bit j s3)])
           [0..<rj_bc N div 8]))"

definition rj_UnpackBlock :: "nat \<Rightarrow> byte list \<Rightarrow> rows" where
  "rj_UnpackBlock N blk =
     fold (\<lambda>k (s0, s1, s2, s3).
         let j = 8 * k
         in (s0 OR push_bit j (ucast (blk ! (4 * k))), s1 OR push_bit j (ucast (blk ! (4 * k + 1))),
             s2 OR push_bit j (ucast (blk ! (4 * k + 2))), s3 OR push_bit j (ucast (blk ! (4 * k + 3)))))
       [1..<rj_bc N div 8] (ucast (blk ! 0), ucast (blk ! 1), ucast (blk ! 2), ucast (blk ! 3))"

definition Rijndael_DecryptBlock :: "nat \<Rightarrow> rijndael \<Rightarrow> rows \<Rightarrow> rows" where
  "Rijndael_DecryptBlock N c st =
     (let st = rj_KeyAddition (rj_rk c ! rj_nr c) st;
          st = rj_Substitution N rijndael_Si st;
          st = rj_ShiftRow N (rj_sh1 N) st;
          st = fold (\<lambda>i st.
                 let st = rj_KeyAddition (rj_rk c ! i) st;
                     st = rj_InvMixColumn N st;
                     st = rj_Substitution N rijndael_Si st
                 in rj_ShiftRow N (rj_sh1 N) st) (rev [1..<rj_nr c]) st
      in rj_KeyAddition (rj_rk c ! 0) st)"

definition Rijndael_Decrypt :: "nat \<Rightarrow> rijndael \<Rightarrow> byte list \<Rightarrow> byte list" where
  "Rijndael_Decrypt N c inp = rj_PackBlock N (Rijndael_DecryptBlock N c (rj_UnpackBlock N inp))"

section \<open>Encryption computes the cipher\<close>

text \<open>A buffer that holds a state, and the 32 bytes that hold a round key.\<close>

definition holds_state :: "byte list \<Rightarrow> state \<Rightarrow> bool" where
  "holds_state p s \<longleftrightarrow> 4 * length s \<le> length p \<and> take (4 * length s) p = state_bytes s"

definition holds_key :: "byte list \<Rightarrow> state \<Rightarrow> bool" where
  "holds_key rk k \<longleftrightarrow> (\<forall>c<length k. \<forall>r<4. rk ! (8 * r + (7 - c)) = col_list (k ! c) ! r)"

lemma holds_state_nth:
  assumes "holds_state p s" "c < length s" "r < 4"
  shows "p ! (4 * c + r) = col_list (s ! c) ! r"
proof -
  have "4 * c + r < 4 * length s" using assms(2,3) by linarith
  then have "p ! (4 * c + r) = take (4 * length s) p ! (4 * c + r)" by simp
  then show ?thesis using assms(1) nth_state_bytes[OF assms(2,3)] unfolding holds_state_def by (simp only:)
qed

text \<open>The arguments of the two macros, from the shifts of the cipher.\<close>

definition round_args :: "nat \<Rightarrow> nat \<Rightarrow> nat \<times> nat \<times> nat \<times> nat \<times> nat \<times> nat \<times> nat \<times> nat \<times> nat" where
  "round_args n c =
     (let (d1, d2, d3) = shift_row n; p = (c + d1) mod n; q = (c + d2) mod n; r = (c + d3) mod n
      in (4 * c, 4 * c, 4 * p + 1, 4 * q + 2, 4 * r + 3, 7 - c, 8 + (7 - p), 16 + (7 - q), 24 + (7 - r)))"

definition final_args :: "nat \<Rightarrow> nat \<Rightarrow> nat \<Rightarrow> nat \<times> nat \<times> nat \<times> nat" where
  "final_args n c r =
     (let (d1, d2, d3) = shift_row n; p = (c + [0, d1, d2, d3] ! r) mod n
      in (4 * c + r, 8 * r + (7 - c), 4 * p + r, 8 * r + (7 - p)))"

definition rijndael_size :: "nat \<Rightarrow> bool" where
  "rijndael_size N \<longleftrightarrow> N \<in> {128, 160, 192, 224, 256}"

lemma rijndael_size_nb:
  "rijndael_size N \<Longrightarrow> N = 32 * rj_nb N" "rijndael_size N \<Longrightarrow> rj_bc N = 8 * rj_nb N" "rijndael_size N \<Longrightarrow> 4 \<le> rj_nb N"
  "rijndael_size N \<Longrightarrow> rj_nb N \<le> 8" "rijndael_size N \<Longrightarrow> rj_nb N \<in> {4, 5, 6, 7, 8}"
  by (auto simp: rijndael_size_def rj_nb_def rj_bc_def)

lemma upt_nb: "[0..<4] = [0, 1, 2, 3]" "[0..<5] = [0, 1, 2, 3, 4]" "[0..<6] = [0, 1, 2, 3, 4, 5]"
  "[0..<7] = [0, 1, 2, 3, 4, 5, 6]"
  by (simp_all add: upt_rec)

lemma Round_args:
  "rijndael_size N \<Longrightarrow> rj_Round N obuf buf rk box = fold (R128R buf rk box) (map (round_args (rj_nb N)) [0..<rj_nb N]) obuf"
  by (auto simp: rijndael_size_def rj_Round_def rj_nb_def Rijndael128_Round_def Rijndael160_Round_def Rijndael192_Round_def
    Rijndael224_Round_def Rijndael256_Round_def upt_nb upt_8 round_args_def shift_row_def simp flip: numeral_2_eq_2)

text \<open>\<^verbatim>\<open>Rijndael128::Final\<close> writes the columns from the last to the first, the others from the first.\<close>

definition final_list :: "nat \<Rightarrow> (nat \<times> nat \<times> nat \<times> nat) list" where
  "final_list n = concat (map (\<lambda>c. map (final_args n c) [0..<4]) (if n = 4 then rev [0..<n] else [0..<n]))"

lemma Final_args:
  "rijndael_size N \<Longrightarrow> rj_Final N obuf buf rk box = fold (R128F buf rk box) (final_list (rj_nb N)) obuf"
  by (auto simp: rijndael_size_def rj_Final_def rj_nb_def Rijndael128_Final_def Rijndael160_Final_def Rijndael192_Final_def
    Rijndael224_Final_def Rijndael256_Final_def upt_nb upt_8 final_list_def final_args_def shift_row_def simp flip: numeral_2_eq_2)

lemma final_list_mem: "c < n \<Longrightarrow> r < 4 \<Longrightarrow> final_args n c r \<in> set (final_list n)"
  by (auto simp: final_list_def intro!: bexI[of _ c] imageI)

lemma fst_final_args: "fst (final_args n c r) = 4 * c + r"
  by (simp add: final_args_def Let_def split: prod.split)

lemma distinct_final_list: "distinct (map fst (final_list n))"
proof -
  have "distinct (concat (map (\<lambda>c. map (\<lambda>r. 4 * c + r) [0..<4]) cs))" if "distinct cs" for cs :: "nat list"
    using that
  proof (induction cs)
    case (Cons c cs)
    have "{4 * c..<4 + 4 * c} \<inter> (\<Union>d\<in>set cs. {4 * d..<4 + 4 * d}) = {}"
    proof -
      have "x \<notin> {4 * d..<4 + 4 * d}" if "x \<in> {4 * c..<4 + 4 * c}" "d \<in> set cs" for x d
      proof -
        have "d \<noteq> c" using Cons.prems that(2) by auto
        with that(1) show ?thesis by auto
      qed
      then show ?thesis by blast
    qed
    with Cons show ?case by (simp add: distinct_map image_image)
  qed simp
  moreover have "map fst (final_list n) = concat (map (\<lambda>c. map (\<lambda>r. 4 * c + r) [0..<4]) (if n = 4 then rev [0..<n] else [0..<n]))"
    by (simp add: final_list_def map_concat o_def fst_final_args)
  ultimately show ?thesis by simp
qed

lemma length_fold_R128F [simp]: "length (fold (R128F buf rk box) xs obuf) = length obuf"
  by (induction xs arbitrary: obuf) (auto simp: R128F_def split: prod.split)

lemma fold_R128F_nth:
  "distinct (map fst xs) \<Longrightarrow> (x, z, y, w) \<in> set xs \<Longrightarrow> x < length obuf \<Longrightarrow>
   fold (R128F buf rk box) xs obuf ! x = box ! unat (buf ! y XOR rk ! w) XOR rk ! (z + 32)"
proof (induction xs arbitrary: obuf)
  case (Cons a xs)
  have other: "fold (R128F buf rk box) ys o' ! x = o' ! x" if "x \<notin> fst ` set ys" for ys o'
    using that by (induction ys arbitrary: o') (auto simp: R128F_def split: prod.splits)
  show ?case
  proof (cases "a = (x, z, y, w)")
    case True
    then show ?thesis using Cons.prems by (simp add: other) (simp add: R128F_def)
  next
    case False
    then show ?thesis using Cons by (auto simp: R128F_def split: prod.splits)
  qed
qed simp

lemma update_four:
  "m + 4 \<le> length xs \<Longrightarrow> xs[m := a, m + 1 := b, m + 2 := c, m + 3 := d] = take m xs @ [a, b, c, d] @ drop (m + 4) xs"
proof (induction m arbitrary: xs)
  case 0
  then obtain x0 x1 x2 x3 r where "xs = x0 # x1 # x2 # x3 # r"
    by (cases xs; cases "tl xs"; cases "tl (tl xs)"; cases "tl (tl (tl xs))") auto
  then show ?case by (simp add: numeral_eq_Suc)
next
  case (Suc m)
  then obtain y ys where "xs = y # ys" by (cases xs) auto
  then show ?case using Suc.IH[of ys] Suc.prems by (simp add: numeral_eq_Suc)
qed

lemma R128R_column:
  assumes "holds_state p s" "holds_key rk k" "length k = length s" "c < length s" "4 \<le> length s"
    and "4 * c + 4 \<le> length obuf"
  shows "R128R p rk rijndael_S (round_args (length s) c) obuf =
    take (4 * c) obuf @ col_list (MixColumn (sub_shift (AddRoundKey k s) ! c)) @ drop (4 * c + 4) obuf"
proof -
  let ?n = "length s" and ?s = "AddRoundKey k s"
  obtain d1 d2 d3 where d: "shift_row ?n = (d1, d2, d3)" by (cases "shift_row ?n")
  let ?i = "(c + d1) mod ?n" and ?j = "(c + d2) mod ?n" and ?l = "(c + d3) mod ?n"
  have lt: "?i < ?n" "?j < ?n" "?l < ?n" using assms(5) by (auto intro!: mod_less_divisor)
  have pk: "p ! (4 * x + r) XOR rk ! (8 * r + (7 - x)) = col_list (?s ! x) ! r" if "x < ?n" "r < 4" for x r
  proof -
    have "?s ! x = col_xor (s ! x) (k ! x)" using that assms(3) by (simp add: AddRoundKey_def)
    then have "col_list (?s ! x) ! r = col_list (s ! x) ! r XOR col_list (k ! x) ! r"
      using that(2) by (cases "s ! x"; cases "k ! x") (auto simp: less_Suc_eq numeral_eq_Suc)
    then show ?thesis
      using that assms(2,3) holds_state_nth[OF assms(1) that] unfolding holds_key_def by auto
  qed
  obtain a0 a1 a2 a3 where a: "?s ! c = (a0, a1, a2, a3)" by (metis prod_cases4)
  obtain b0 b1 b2 b3 where b: "?s ! ?i = (b0, b1, b2, b3)" by (metis prod_cases4)
  obtain c0 c1 c2 c3 where cc: "?s ! ?j = (c0, c1, c2, c3)" by (metis prod_cases4)
  obtain e0 e1 e2 e3 where e: "?s ! ?l = (e0, e1, e2, e3)" by (metis prod_cases4)
  have len: "length ?s = ?n" using assms(3) by simp
  have col: "sub_shift ?s ! c = (sub_byte a0, sub_byte b1, sub_byte c2, sub_byte e3)"
    unfolding sub_shift_def ShiftRows_def SubBytes_def
    using assms(3,4) lt d by (simp add: nth_rotate_rows a b cc e)
  have in4: "p ! (4 * c) XOR rk ! (7 - c) = a0" "p ! (4 * ?i + 1) XOR rk ! (8 + (7 - ?i)) = b1"
    "p ! (4 * ?j + 2) XOR rk ! (16 + (7 - ?j)) = c2" "p ! (4 * ?l + 3) XOR rk ! (24 + (7 - ?l)) = e3"
    using pk[of c 0] pk[of ?i 1] pk[of ?j 2] pk[of ?l 3] assms(4) lt by (simp_all add: a b cc e)
  obtain m0 m1 m2 m3 where m: "MixColumn (sub_byte a0, sub_byte b1, sub_byte c2, sub_byte e3) = (m0, m1, m2, m3)"
    by (metis prod_cases4)
  have t: "rijndael_Et0 ! unat (sub_byte a0) XOR rijndael_Et1 ! unat (sub_byte b1) XOR
      rijndael_Et2 ! unat (sub_byte c2) XOR rijndael_Et3 ! unat (sub_byte e3) = col_word (m3, m2, m1, m0)"
  proof -
    have r: "col_xor (rev_col x) (rev_col y) = rev_col (col_xor x y)" for x y by (cases x; cases y) simp
    have "rev_col (MixColumn (sub_byte a0, sub_byte b1, sub_byte c2, sub_byte e3)) = (m3, m2, m1, m0)" by (simp add: m del: MixColumn.simps)
    then show ?thesis
      unfolding mix_columns(1)[of "sub_byte a0" "sub_byte b1" "sub_byte c2" "sub_byte e3"] r[symmetric]
      by (metis col_word_xor nth_rijndael_tables(5-8))
  qed
  have upd: "obuf[4 * c := m0, 4 * c + 1 := m1, 4 * c + 2 := m2, 4 * c + 3 := m3] =
      take (4 * c) obuf @ [m0, m1, m2, m3] @ drop (4 * c + 4) obuf"
    using assms(6) by (rule update_four)
  show ?thesis
    unfolding R128R_def round_args_def d Let_def prod.case in4 nth_rijndael_S t col m
    by (simp only: add_0_right GetByte_col_word GetByte_col_word(3)[folded One_nat_def] upd col_list.simps)
qed

lemma Round_state:
  assumes "rijndael_size N" "holds_state p s" "holds_key rk k" "length s = rj_nb N" "length k = rj_nb N" "4 * rj_nb N \<le> length q"
  shows "holds_state (rj_Round N q p rk rijndael_S) (map MixColumn (sub_shift (AddRoundKey k s)))"
    "length (rj_Round N q p rk rijndael_S) = length q"
proof -
  let ?n = "length s" and ?f = "\<lambda>c. MixColumn (sub_shift (AddRoundKey k s) ! c)"
  have n: "4 \<le> ?n" using rijndael_size_nb(3)[OF assms(1)] assms(4) by simp
  have "length (fold (R128R p rk rijndael_S) (map (round_args ?n) [0..<m]) q) = length q \<and>
      take (4 * m) (fold (R128R p rk rijndael_S) (map (round_args ?n) [0..<m]) q) = concat (map (\<lambda>c. col_list (?f c)) [0..<m])"
    if "m \<le> ?n" for m
    using that
  proof (induction m)
    case (Suc m)
    let ?o = "fold (R128R p rk rijndael_S) (map (round_args ?n) [0..<m]) q"
    have o: "length ?o = length q" "take (4 * m) ?o = concat (map (\<lambda>c. col_list (?f c)) [0..<m])" using Suc by simp_all
    have "4 * m + 4 \<le> length ?o" using Suc.prems assms(4,6) o(1) by linarith
    from R128R_column[OF assms(2,3) _ _ n this] have r: "R128R p rk rijndael_S (round_args ?n m) ?o =
        take (4 * m) ?o @ col_list (?f m) @ drop (4 * m + 4) ?o"
      using assms(4,5) Suc.prems by simp
    have l: "length (take (4 * m) ?o) = 4 * m" using \<open>4 * m + 4 \<le> length ?o\<close> by simp
    have f: "fold (R128R p rk rijndael_S) (map (round_args ?n) [0..<Suc m]) q = take (4 * m) ?o @ col_list (?f m) @ drop (4 * m + 4) ?o"
      using r by simp
    show ?case unfolding f using l o \<open>4 * m + 4 \<le> length ?o\<close> by (simp add: take_add)
  qed simp
  from this[of ?n] have "length (rj_Round N q p rk rijndael_S) = length q"
    "take (4 * ?n) (rj_Round N q p rk rijndael_S) = concat (map (\<lambda>c. col_list (?f c)) [0..<?n])"
    unfolding Round_args[OF assms(1)] using assms(4) by simp_all
  moreover have "concat (map (\<lambda>c. col_list (?f c)) [0..<?n]) = state_bytes (map MixColumn (sub_shift (AddRoundKey k s)))"
  proof -
    have l: "length (sub_shift (AddRoundKey k s)) = ?n" using assms(4,5) by (simp add: sub_shift_def)
    have "(\<lambda>(a, b, c, d). [a, b, c, d]) = col_list" by (rule ext) auto
    moreover have "map (\<lambda>c. col_list (?f c)) [0..<?n] = map col_list (map MixColumn (sub_shift (AddRoundKey k s)))"
      using l by (intro nth_equalityI) (simp_all del: MixColumn.simps)
    ultimately show ?thesis by (simp add: state_bytes_def)
  qed
  ultimately show "holds_state (rj_Round N q p rk rijndael_S) (map MixColumn (sub_shift (AddRoundKey k s)))"
    "length (rj_Round N q p rk rijndael_S) = length q"
    using assms(4-6) by (simp_all add: holds_state_def sub_shift_def)
qed

lemma col_list_xor: "r < 4 \<Longrightarrow> col_list (col_xor x y) ! r = col_list x ! r XOR col_list y ! r"
  by (cases x; cases y) (auto simp: less_Suc_eq numeral_eq_Suc)

lemma sub_shift_nth:
  assumes "shift_row (length s) = (d1, d2, d3)" "c < length s" "r < 4"
  shows "col_list (sub_shift s ! c) ! r = sub_byte (col_list (s ! ((c + [0, d1, d2, d3] ! r) mod length s)) ! r)"
proof -
  have lt: "x mod length s < length s" for x using assms(2) by (intro mod_less_divisor) linarith
  have m: "col_map sub_byte x = (case x of (a, b, c, d) \<Rightarrow> (sub_byte a, sub_byte b, sub_byte c, sub_byte d))" for x
    by (cases x) simp
  have "r \<in> {0, 1, 2, 3}" using assms(3) by auto
  then show ?thesis
    using assms(1,2) lt
    by (elim insertE emptyE) (simp_all add: sub_shift_def ShiftRows_def SubBytes_def nth_rotate_rows m split: prod.splits)
qed

lemma key_bytes:
  assumes "holds_state p s" "holds_key rk k" "length k = length s" "x < length s" "r < 4"
  shows "p ! (4 * x + r) XOR rk ! (8 * r + (7 - x)) = col_list (AddRoundKey k s ! x) ! r"
  using assms holds_state_nth[OF assms(1,4,5)] by (simp add: AddRoundKey_def col_list_xor holds_key_def)

lemma Final_state:
  assumes "rijndael_size N" "holds_state p s" "holds_key rk k" "holds_key (drop 32 rk) k'" "32 \<le> length rk"
    and "length s = rj_nb N" "length k = rj_nb N" "length k' = rj_nb N" "4 * rj_nb N \<le> length q"
  shows "holds_state (rj_Final N q p rk rijndael_S) (AddRoundKey k' (sub_shift (AddRoundKey k s)))"
proof -
  let ?n = "length s" and ?A = "AddRoundKey k s" and ?o = "rj_Final N q p rk rijndael_S"
  let ?B = "AddRoundKey k' (sub_shift ?A)"
  have A: "length ?A = ?n" "length (sub_shift ?A) = ?n" "length ?B = ?n" using assms(6-8) by (simp_all add: sub_shift_def)
  obtain d1 d2 d3 where d: "shift_row ?n = (d1, d2, d3)" by (cases "shift_row ?n")
  have o: "?o = fold (R128F p rk rijndael_S) (final_list ?n) q" using Final_args[OF assms(1)] assms(6) by simp
  have byte: "?o ! (4 * c + r) = col_list (?B ! c) ! r" if "c < ?n" "r < 4" for c r
  proof -
    let ?x = "(c + [0, d1, d2, d3] ! r) mod ?n"
    have lt: "?x < ?n" using that by (intro mod_less_divisor) linarith
    have args: "final_args ?n c r = (4 * c + r, 8 * r + (7 - c), 4 * ?x + r, 8 * r + (7 - ?x))"
      by (simp add: final_args_def d Let_def)
    have "4 * c + r < length q" using that assms(6,9) by linarith
    then have "?o ! (4 * c + r) = rijndael_S ! unat (p ! (4 * ?x + r) XOR rk ! (8 * r + (7 - ?x))) XOR rk ! (8 * r + (7 - c) + 32)"
      unfolding o using final_list_mem[OF that] unfolding args by (intro fold_R128F_nth distinct_final_list)
    also have "p ! (4 * ?x + r) XOR rk ! (8 * r + (7 - ?x)) = col_list (?A ! ?x) ! r"
      using assms lt that by (intro key_bytes) simp_all
    also have "rk ! (8 * r + (7 - c) + 32) = col_list (k' ! c) ! r"
      using assms(4-6,8) that unfolding holds_key_def by (auto simp: add.commute)
    finally show ?thesis
      using sub_shift_nth[of ?A d1 d2 d3 c r] that d A assms(6,8) by (simp add: AddRoundKey_def[of k'] col_list_xor)
  qed
  have "take (4 * ?n) ?o = state_bytes ?B"
  proof (rule nth_equalityI)
    show "length (take (4 * ?n) ?o) = length (state_bytes ?B)" using A assms(6,9) o by simp
    fix i assume "i < length (take (4 * ?n) ?o)"
    then have i: "i < 4 * ?n" by simp
    then have "i div 4 < ?n" "i mod 4 < 4" "i = 4 * (i div 4) + i mod 4" by auto
    then show "take (4 * ?n) ?o ! i = state_bytes ?B ! i"
      using byte[of "i div 4" "i mod 4"] nth_state_bytes[of "i div 4" ?B "i mod 4"] A i assms(6,8) by simp
  qed
  then show ?thesis using A assms(6,9) o by (simp add: holds_state_def)
qed

text \<open>The rounds of the code add the round key before the substitution, those of the cipher after
  \<open>MixColumn\<close>.\<close>

lemma rounds_regroup:
  "AddRoundKey (k m) (fold (\<lambda>i s. map MixColumn (sub_shift (AddRoundKey (k i) s))) [0..<m] s) =
     fold (\<lambda>i. round_step (k i)) [1..<Suc m] (AddRoundKey (k 0) s)"
  by (induction m) (simp_all add: round_step_def sub_shift_def)

definition rj_keys :: "nat \<Rightarrow> (nat \<Rightarrow> state) \<Rightarrow> rijndael \<Rightarrow> bool" where
  "rj_keys N k c \<longleftrightarrow> 1 \<le> rj_nr c \<and> rj_nr c < 15 \<and> length (rj_rkb c) = 480 \<and>
     (\<forall>i. length (k i) = rj_nb N) \<and> (\<forall>i\<le>rj_nr c. holds_key (drop (32 * i) (rj_rkb c)) (k i))"

theorem Rijndael_Encrypt_cipher:
  assumes "rijndael_size N" "rj_keys N k c" "length inp = N div 8"
  shows "Rijndael_Encrypt N c inp = state_bytes (cipher (rj_nr c) k (bytes_state inp))"
proof -
  let ?n = "rj_nb N" and ?nr = "rj_nr c" and ?s = "bytes_state inp" and ?rk = "\<lambda>i. drop (32 * i) (rj_rkb c)"
  note nb = rijndael_size_nb[OF assms(1)]
  have N8: "N div 8 = 4 * ?n" using nb(1) by linarith
  have len: "length ?s = ?n" and k: "\<And>i. length (k i) = ?n" and nr: "1 \<le> ?nr" "?nr < 15"
    and hk: "\<And>i. i \<le> ?nr \<Longrightarrow> holds_key (?rk i) (k i)"
    using assms(2,3) N8 by (auto simp: rj_keys_def)
  have inp: "holds_state inp ?s" using assms(3) N8 len by (simp add: holds_state_def state_bytes_state)
  let ?g = "\<lambda>i s. map MixColumn (sub_shift (AddRoundKey (k i) s))"
  have "\<exists>p q. fold (\<lambda>i (p, q). (rj_Round N q p (?rk i) rijndael_S, p)) [0..<m] (inp, replicate 32 0) = (p, q) \<and>
      holds_state p (fold ?g [0..<m] ?s) \<and> length (fold ?g [0..<m] ?s) = ?n \<and> 4 * ?n \<le> length p \<and> 4 * ?n \<le> length q"
    if "m < ?nr" for m
    using that
  proof (induction m)
    case 0
    then show ?case using inp len nb(4) assms(3) N8 by simp
  next
    case (Suc m)
    then obtain p q where pq: "fold (\<lambda>i (p, q). (rj_Round N q p (?rk i) rijndael_S, p)) [0..<m] (inp, replicate 32 0) = (p, q)"
      "holds_state p (fold ?g [0..<m] ?s)" "length (fold ?g [0..<m] ?s) = ?n" "4 * ?n \<le> length p" "4 * ?n \<le> length q"
      by auto
    note r = Round_state[OF assms(1) pq(2) hk[of m] pq(3) k pq(5)]
    have "holds_state (rj_Round N q p (?rk m) rijndael_S) (?g m (fold ?g [0..<m] ?s))" "length (rj_Round N q p (?rk m) rijndael_S) = length q"
      using r Suc.prems by simp_all
    then show ?case using pq k by (simp add: sub_shift_def)
  qed
  from this[of "?nr - 1"] nr obtain p q where
    pq: "fold (\<lambda>i (p, q). (rj_Round N q p (?rk i) rijndael_S, p)) [0..<?nr - 1] (inp, replicate 32 0) = (p, q)"
    and hp: "holds_state p (fold ?g [0..<?nr - 1] ?s)" and l: "length (fold ?g [0..<?nr - 1] ?s) = ?n" "4 * ?n \<le> length q"
    by auto
  have "drop 32 (?rk (?nr - 1)) = ?rk ?nr"
  proof -
    have "32 + 32 * (?nr - 1) = 32 * ?nr" using nr by simp
    then show ?thesis by simp
  qed
  then have k2: "holds_key (drop 32 (?rk (?nr - 1))) (k ?nr)" using hk[of ?nr] by simp
  have "32 \<le> length (?rk (?nr - 1))" using assms(2) nr by (auto simp: rj_keys_def)
  from Final_state[OF assms(1) hp hk k2 this l(1) k k l(2)]
  have "holds_state (rj_Final N q p (?rk (?nr - 1)) rijndael_S) (AddRoundKey (k ?nr) (sub_shift (AddRoundKey (k (?nr - 1)) (fold ?g [0..<?nr - 1] ?s))))"
    by simp
  also have "AddRoundKey (k (?nr - 1)) (fold ?g [0..<?nr - 1] ?s) = fold (\<lambda>i. round_step (k i)) [1..<?nr] (AddRoundKey (k 0) ?s)"
    using rounds_regroup[of k "?nr - 1" ?s] nr by simp
  also have "AddRoundKey (k ?nr) (sub_shift (fold (\<lambda>i. round_step (k i)) [1..<?nr] (AddRoundKey (k 0) ?s))) = cipher ?nr k ?s"
    by (simp add: cipher_def sub_shift_def Let_def)
  finally have "take (4 * ?n) (rj_Final N q p (?rk (?nr - 1)) rijndael_S) = state_bytes (cipher ?nr k ?s)"
    using k len by (simp add: holds_state_def)
  then show ?thesis using pq assms(3) N8 by (simp add: Rijndael_Encrypt_def Rijndael_EncryptBlock_def)
qed

section \<open>Rows of 64 bits\<close>

lemma GetByte_64: "n < 8 \<Longrightarrow> i < 8 \<Longrightarrow> bit (GetByte (x :: u64) i) n = bit x (8 * i + n)"
  by (auto simp: GetByte_def bit_simps ac_simps)

lemma u64_bytes_eqI:
  assumes "\<And>i. i < 8 \<Longrightarrow> GetByte x i = GetByte (y :: u64) i"
  shows "x = y"
proof (rule bit_word_eqI)
  fix n assume "n < LENGTH(64)"
  then have "n div 8 < 8" "n mod 8 < 8" by auto
  then show "bit x n = bit y n"
    using GetByte_64[of "n mod 8" "n div 8" x] GetByte_64[of "n mod 8" "n div 8" y] assms[of "n div 8"] by simp
qed

lemma GetByte_logic [simp]:
  "GetByte (x XOR y) i = GetByte x i XOR GetByte (y :: 'a::len word) i"
  "GetByte (x OR y) i = GetByte x i OR GetByte y i" "GetByte (x AND y) i = GetByte x i AND GetByte y i" "GetByte (0 :: 'a word) i = 0"
  unfolding GetByte_def by (rule bit_word_eqI, simp add: bit_simps)+

lemma GetByte_push_ucast:
  assumes "i < 8" "k < 8"
  shows "GetByte (push_bit (8 * k) (ucast (b :: byte)) :: u64) i = (if i = k then b else 0)"
proof (rule bit_word_eqI)
  fix n assume "n < LENGTH(8)"
  then have n: "n < 8" by simp
  have "8 * k \<le> 8 * i + n \<and> bit b (8 * i + n - 8 * k) \<longleftrightarrow> i = k \<and> bit b n"
  proof (cases "i = k")
    case False
    then have "i < k \<or> k < i" by auto
    then show ?thesis using n False by (auto dest!: bit_imp_le_length)
  qed simp
  then show "bit (GetByte (push_bit (8 * k) (ucast b) :: u64) i) n = bit (if i = k then b else 0) n"
    using n assms by (auto simp: GetByte_64 bit_simps)
qed

text \<open>A word built byte by byte.\<close>

lemma GetByte_build:
  assumes "i < 8" "m \<le> 8"
  shows "GetByte (fold (\<lambda>k r. r OR push_bit (8 * k) (ucast (f k))) [0..<m] (0 :: u64)) i = (if i < m then f i else 0)"
  using assms(2) by (induction m) (auto simp: GetByte_push_ucast assms(1))

lemma rj_bcmask_mask: "rijndael_size N \<Longrightarrow> rj_bcmask N = mask (rj_bc N)"
  by (auto simp: rijndael_size_def rj_bcmask_def rj_bc_def mask_numeral mask_eq_exp_minus_1)

lemma GetByte_bcmask:
  assumes "rijndael_size N" "i < 8"
  shows "GetByte (x AND rj_bcmask N) i = (if i < rj_nb N then GetByte x i else 0)"
proof (rule bit_word_eqI)
  fix n assume "n < LENGTH(8)"
  then have n: "n < 8" by simp
  have "8 * i + n < rj_bc N \<longleftrightarrow> i < rj_nb N" using rijndael_size_nb(2)[OF assms(1)] n by auto
  moreover have "bit (GetByte (x AND rj_bcmask N) i) n = (bit x (8 * i + n) \<and> 8 * i + n < rj_bc N)"
    using n assms by (simp add: GetByte_64 bit_and_iff rj_bcmask_mask bit_mask_iff del: GetByte_logic)
  ultimately show "bit (GetByte (x AND rj_bcmask N) i) n = bit (if i < rj_nb N then GetByte x i else 0) n"
    using n assms by (simp add: GetByte_64)
qed

text \<open>A row is masked when its bytes outside the block are 0.\<close>

definition masked :: "nat \<Rightarrow> u64 \<Rightarrow> bool" where
  "masked n x \<longleftrightarrow> (\<forall>i<8. n \<le> i \<longrightarrow> GetByte x i = 0)"

lemma GetByte_shift:
  assumes "rijndael_size N" "masked (rj_nb N) x" "d \<le> rj_nb N" "0 < d" "i < 8"
  shows "GetByte (rj_shift N x (8 * d)) i = (if i < rj_nb N then GetByte x ((i + d) mod rj_nb N) else 0)"
proof -
  note nb = rijndael_size_nb[OF assms(1)]
  have byte: "GetByte (drop_bit (8 * d) x OR push_bit (rj_bc N - 8 * d) x) i = GetByte x ((i + d) mod rj_nb N)" if "i < rj_nb N"
  proof (rule bit_word_eqI)
    fix n assume "n < LENGTH(8)"
    then have n: "n < 8" by simp
    have bit0: "\<not> bit x j" if "8 * rj_nb N \<le> j" for j
    proof
      assume b: "bit x j"
      then have j: "j < 64" by (auto dest: bit_imp_le_length)
      then have "j div 8 < 8" "rj_nb N \<le> j div 8" using that by linarith+
      then have "GetByte x (j div 8) = 0" "j div 8 < 8" using assms(2) by (auto simp: masked_def)
      then show False using GetByte_64[of "j mod 8" "j div 8" x] b j by simp
    qed
    show "bit (GetByte (drop_bit (8 * d) x OR push_bit (rj_bc N - 8 * d) x) i) n = bit (GetByte x ((i + d) mod rj_nb N)) n"
    proof (cases "i + d < rj_nb N")
      case True
      then have "8 * i + n < rj_bc N - 8 * d" using nb(2) n by linarith
      then show ?thesis using True n nb(4) assms(5) by (simp add: GetByte_64 bit_simps algebra_simps del: GetByte_logic)
    next
      case False
      define e where "e = i + d - rj_nb N"
      have e: "(i + d) mod rj_nb N = e" "e < 8" "i + d = rj_nb N + e"
        using False that assms(3,5) nb(3,4) by (auto simp: e_def mod_if)
      have p: "rj_bc N - 8 * d \<le> 8 * i + n" "8 * i + n - (rj_bc N - 8 * d) = 8 * e + n" "8 * rj_nb N \<le> 8 * i + n + 8 * d"
        using e(3) nb(2) assms(3) by linarith+
      have "bit (drop_bit (8 * d) x OR push_bit (rj_bc N - 8 * d) x) (8 * i + n) = bit x (8 * e + n)"
        using p bit0[OF p(3)] assms(5) n by (simp add: bit_simps add.commute)
      then show ?thesis using n assms(5) e by (simp add: GetByte_64 del: GetByte_logic)
    qed
  qed
  then show ?thesis unfolding rj_shift_def GetByte_bcmask[OF assms(1,5)] by simp
qed

lemma GetByte_ApplyS:
  assumes "rijndael_size N" "i < 8"
  shows "GetByte (rj_ApplyS N box r) i = (if i < rj_nb N then box ! unat (GetByte r i) else 0)"
proof -
  let ?f = "\<lambda>i. box ! unat (GetByte r i)"
  have push: "GetByte (push_bit 8 x OR ucast (b :: byte)) j = (if j = 0 then b else GetByte x (j - 1))" if "j < 8" for x :: u64 and b j
  proof (rule bit_word_eqI)
    fix n assume "n < LENGTH(8)"
    then have n: "n < 8" by simp
    then have "8 \<le> 8 * j + n \<longleftrightarrow> j \<noteq> 0" "j \<noteq> 0 \<Longrightarrow> 8 * (j - 1) + n = 8 * j + n - 8" by (cases j; simp)+
    then show "bit (GetByte (push_bit 8 x OR ucast b) j) n = bit (if j = 0 then b else GetByte x (j - 1)) n"
      using n that by (auto simp: GetByte_64 bit_simps simp del: GetByte_logic dest: bit_imp_le_length)
  qed
  have "GetByte (fold (\<lambda>i res. push_bit 8 res OR ucast (?f i)) (rev [m..<8]) (0 :: u64)) j = (if m + j < 8 then ?f (m + j) else 0)"
    if "m \<le> 8" "j < 8" for m j
    using that
  proof (induction "8 - m" arbitrary: m j)
    case (Suc d)
    then have m: "m < 8" by simp
    then have r: "rev [m..<8] = rev [Suc m..<8] @ [m]" by (simp add: upt_conv_Cons)
    let ?x = "fold (\<lambda>i res. push_bit 8 res OR ucast (?f i)) (rev [Suc m..<8]) (0 :: u64)"
    have ih: "GetByte ?x (j - 1) = (if Suc m + (j - 1) < 8 then ?f (Suc m + (j - 1)) else 0)"
    proof (rule Suc.hyps(1))
      show "d = 8 - Suc m" "Suc m \<le> 8" "j - 1 < 8" using Suc.hyps(2) Suc.prems m by linarith+
    qed
    show ?case unfolding r fold_append comp_apply fold.simps id_apply push[OF Suc.prems(2)] ih
      using m by (cases j) auto
  qed simp
  from this[of 0 i] assms(2) show ?thesis
    unfolding rj_ApplyS_def GetByte_bcmask[OF assms] by simp
qed

text \<open>The state four rows stand for.\<close>

definition rows_col :: "rows \<Rightarrow> nat \<Rightarrow> column" where
  "rows_col st c = (case st of (s0, s1, s2, s3) \<Rightarrow> (GetByte s0 c, GetByte s1 c, GetByte s2 c, GetByte s3 c))"

definition rows_state :: "nat \<Rightarrow> rows \<Rightarrow> state" where
  "rows_state n st = map (rows_col st) [0..<n]"

definition rows_masked :: "nat \<Rightarrow> rows \<Rightarrow> bool" where
  "rows_masked n st \<longleftrightarrow> (case st of (s0, s1, s2, s3) \<Rightarrow> masked n s0 \<and> masked n s1 \<and> masked n s2 \<and> masked n s3)"

lemma length_rows_state [simp]: "length (rows_state n st) = n"
  by (simp add: rows_state_def)

lemma KeyAddition_rows:
  "rows_state n (rj_KeyAddition rk st) = AddRoundKey (rows_state n (rk ! 0, rk ! 1, rk ! 2, rk ! 3)) (rows_state n st)"
  "rows_masked n (rk ! 0, rk ! 1, rk ! 2, rk ! 3) \<Longrightarrow> rows_masked n st \<Longrightarrow> rows_masked n (rj_KeyAddition rk st)"
  by (cases st, auto simp: rows_state_def AddRoundKey_def rj_KeyAddition_def rows_col_def intro!: nth_equalityI)
    (cases st, auto simp: rows_masked_def masked_def rj_KeyAddition_def)

lemma Substitution_rows:
  assumes "rijndael_size N"
  shows "rows_state (rj_nb N) (rj_Substitution N rijndael_Si st) = InvSubBytes (rows_state (rj_nb N) st)"
    "rows_masked (rj_nb N) (rj_Substitution N rijndael_Si st)"
  using rijndael_size_nb(4)[OF assms]
  by (cases st, auto simp: rows_state_def InvSubBytes_def rj_Substitution_def rows_col_def GetByte_ApplyS[OF assms] intro!: nth_equalityI)
    (cases st, auto simp: rows_masked_def masked_def rj_Substitution_def GetByte_ApplyS[OF assms])

lemma sh1_shift_row:
  assumes "rijndael_size N" "shift_row (rj_nb N) = (d1, d2, d3)"
  shows "rj_sh1 N = [0, 8 * (rj_nb N - d1), 8 * (rj_nb N - d2), 8 * (rj_nb N - d3)]" "0 < d1 \<and> d1 < rj_nb N"
    "0 < d2 \<and> d2 < rj_nb N" "0 < d3 \<and> d3 < rj_nb N"
  using assms by (auto simp: rijndael_size_def rj_sh1_def rj_shifts1_def rj_shiftoffset_def rj_nb_def shift_row_def)

lemma ShiftRow_rows:
  assumes "rijndael_size N" "rows_masked (rj_nb N) st"
  shows "rows_state (rj_nb N) (rj_ShiftRow N (rj_sh1 N) st) = InvShiftRows (rows_state (rj_nb N) st)"
    "rows_masked (rj_nb N) (rj_ShiftRow N (rj_sh1 N) st)"
proof -
  let ?n = "rj_nb N"
  obtain s0 s1 s2 s3 where st: "st = (s0, s1, s2, s3)" by (cases st)
  obtain d1 d2 d3 where d: "shift_row ?n = (d1, d2, d3)" by (cases "shift_row ?n")
  note sh = sh1_shift_row[OF assms(1) d]
  have n8: "?n \<le> 8" using rijndael_size_nb(4)[OF assms(1)] .
  have m: "masked ?n s0" "masked ?n s1" "masked ?n s2" "masked ?n s3" using assms(2) by (auto simp: rows_masked_def st)
  have g: "GetByte (rj_shift N x (8 * (?n - e))) i = (if i < ?n then GetByte x ((i + (?n - e)) mod ?n) else 0)"
    if "masked ?n x" "0 < e \<and> e < ?n" "i < 8" for x e i
    using GetByte_shift[OF assms(1) that(1), of "?n - e" i] that by simp
  have lt: "x mod ?n < ?n" if "c < ?n" for x c :: nat using that by (intro mod_less_divisor) linarith
  show "rows_state ?n (rj_ShiftRow N (rj_sh1 N) st) = InvShiftRows (rows_state ?n st)"
  proof (rule nth_equalityI)
    fix c assume "c < length (rows_state ?n (rj_ShiftRow N (rj_sh1 N) st))"
    then have c: "c < ?n" "c < 8" using n8 by simp_all
    then show "rows_state ?n (rj_ShiftRow N (rj_sh1 N) st) ! c = InvShiftRows (rows_state ?n st) ! c"
      unfolding InvShiftRows_def length_rows_state d prod.case
      by (subst nth_rotate_rows, simp)
        (simp add: st rj_ShiftRow_def sh(1) rows_state_def rows_col_def lt[OF c(1)] g m sh(2-4))
  qed simp
  show "rows_masked ?n (rj_ShiftRow N (rj_sh1 N) st)"
    unfolding rows_masked_def st rj_ShiftRow_def sh(1) using m by (simp add: masked_def g sh(2-4))
qed

lemma fold_four:
  "fold (\<lambda>k (r0, r1, r2, r3). (f0 k r0, f1 k r1, f2 k r2, f3 k r3)) ks (a, b, c, d) = (fold f0 ks a, fold f1 ks b, fold f2 ks c, fold f3 ks d)"
  by (induction ks arbitrary: a b c d) simp_all

lemma InvMixColumn_rows:
  assumes "rijndael_size N"
  shows "rows_state (rj_nb N) (rj_InvMixColumn N st) = map InvMixColumn (rows_state (rj_nb N) st)"
    "rows_masked (rj_nb N) (rj_InvMixColumn N st)"
proof -
  let ?n = "rj_nb N"
  obtain s0 s1 s2 s3 where st: "st = (s0, s1, s2, s3)" by (cases st)
  have n: "rj_bc N div 8 = ?n" "?n \<le> 8" using rijndael_size_nb[OF assms] by simp_all
  have b: "ucast (drop_bit (8 * k) x) = GetByte (x :: u64) k" for x k by (simp add: GetByte_def mult.commute)
  let ?w = "\<lambda>f. fold (\<lambda>k r. r OR push_bit (8 * k) (ucast (f k))) [0..<?n] (0 :: u64)"
  have r: "rj_InvMixColumn N st = (
      ?w (\<lambda>k. gf_mul 0xe (GetByte s0 k) XOR gf_mul 0xb (GetByte s1 k) XOR gf_mul 0xd (GetByte s2 k) XOR gf_mul 9 (GetByte s3 k)),
      ?w (\<lambda>k. gf_mul 0xe (GetByte s1 k) XOR gf_mul 0xb (GetByte s2 k) XOR gf_mul 0xd (GetByte s3 k) XOR gf_mul 9 (GetByte s0 k)),
      ?w (\<lambda>k. gf_mul 0xe (GetByte s2 k) XOR gf_mul 0xb (GetByte s3 k) XOR gf_mul 0xd (GetByte s0 k) XOR gf_mul 9 (GetByte s1 k)),
      ?w (\<lambda>k. gf_mul 0xe (GetByte s3 k) XOR gf_mul 0xb (GetByte s0 k) XOR gf_mul 0xd (GetByte s1 k) XOR gf_mul 9 (GetByte s2 k)))"
    unfolding st rj_InvMixColumn_def prod.case Let_def n(1) b nth_rijndael_tables fold_four ..
  show "rows_state ?n (rj_InvMixColumn N st) = map InvMixColumn (rows_state ?n st)"
    unfolding r using n(2) by (auto simp: st rows_state_def rows_col_def GetByte_build xor.commute xor.left_commute intro!: nth_equalityI)
  show "rows_masked ?n (rj_InvMixColumn N st)"
    unfolding r using n(2) by (auto simp: rows_masked_def masked_def GetByte_build)
qed

lemma Pack_rows: "rijndael_size N \<Longrightarrow> rj_PackBlock N st = state_bytes (rows_state (rj_nb N) st)"
proof -
  assume "rijndael_size N"
  then have n: "rj_bc N div 8 = rj_nb N" using rijndael_size_nb by simp
  have b: "ucast (drop_bit (8 * k) x) = GetByte (x :: u64) k" for x k by (simp add: GetByte_def mult.commute)
  show ?thesis by (cases st) (simp add: rj_PackBlock_def n b Let_def state_bytes_def rows_state_def rows_col_def o_def)
qed

lemma Unpack_rows:
  assumes "rijndael_size N" "length inp = N div 8"
  shows "rows_state (rj_nb N) (rj_UnpackBlock N inp) = bytes_state inp" "rows_masked (rj_nb N) (rj_UnpackBlock N inp)"
proof -
  let ?n = "rj_nb N"
  note nb = rijndael_size_nb[OF assms(1)]
  have n: "rj_bc N div 8 = ?n" "?n \<le> 8" "0 < ?n" "N div 8 = 4 * ?n" using nb by linarith+
  let ?w = "\<lambda>f. fold (\<lambda>k r. r OR push_bit (8 * k) (ucast (f k))) [0..<?n] (0 :: u64)"
  have w: "?w f = fold (\<lambda>k r. r OR push_bit (8 * k) (ucast (f k))) [1..<?n] (ucast (f 0 :: byte))" for f
    using n(3) by (simp add: upt_conv_Cons[of 0])
  have r: "rj_UnpackBlock N inp = (?w (\<lambda>k. inp ! (4 * k)), ?w (\<lambda>k. inp ! (4 * k + 1)), ?w (\<lambda>k. inp ! (4 * k + 2)), ?w (\<lambda>k. inp ! (4 * k + 3)))"
    unfolding rj_UnpackBlock_def Let_def n(1) fold_four w by (simp add: numeral_2_eq_2)
  have c: "bytes_state inp ! c = (inp ! (4 * c), inp ! (4 * c + 1), inp ! (4 * c + 2), inp ! (4 * c + 3))" if "c < ?n" for c
    using that assms(2) n(4) by (simp add: bytes_state_def length_chunks nth_chunks)
  show "rows_state ?n (rj_UnpackBlock N inp) = bytes_state inp"
  proof (rule nth_equalityI)
    fix i assume "i < length (rows_state ?n (rj_UnpackBlock N inp))"
    then have i: "i < ?n" "i < 8" using n(2) by simp_all
    show "rows_state ?n (rj_UnpackBlock N inp) ! i = bytes_state inp ! i"
      unfolding r c[OF i(1)] using i n(2) by (simp add: rows_state_def rows_col_def GetByte_build del: One_nat_def)
  qed (use assms(2) n(4) in simp)
  show "rows_masked ?n (rj_UnpackBlock N inp)"
    unfolding r using n(2) by (auto simp: rows_masked_def masked_def GetByte_build)
qed

section \<open>Decryption computes the inverse cipher\<close>

definition rj_row_keys :: "nat \<Rightarrow> (nat \<Rightarrow> state) \<Rightarrow> rijndael \<Rightarrow> bool" where
  "rj_row_keys N k c \<longleftrightarrow> (\<forall>i\<le>rj_nr c.
     let r = rj_rk c ! i; st = (r ! 0, r ! 1, r ! 2, r ! 3) in rows_state (rj_nb N) st = k i \<and> rows_masked (rj_nb N) st)"

definition inv_sub_shift :: "state \<Rightarrow> state" where
  "inv_sub_shift s = InvSubBytes (InvShiftRows s)"

lemma inv_sub_shift_swap: "InvShiftRows (InvSubBytes s) = inv_sub_shift s"
  by (simp add: inv_sub_shift_def InvShiftRows_def InvSubBytes_def rotate_rows_SubBytes)

lemma inv_rounds_regroup:
  "inv_sub_shift (fold (\<lambda>i. inv_round_step (k i)) is s) =
     fold (\<lambda>i s. inv_sub_shift (map InvMixColumn (AddRoundKey (k i) s))) is (inv_sub_shift s)"
  by (induction "is" arbitrary: s) (simp_all add: inv_round_step_def inv_sub_shift_def)

theorem Rijndael_Decrypt_inv_cipher:
  assumes "rijndael_size N" "rj_row_keys N k c" "length inp = N div 8"
  shows "Rijndael_Decrypt N c inp = state_bytes (inv_cipher (rj_nr c) k (bytes_state inp))"
proof -
  let ?n = "rj_nb N" and ?nr = "rj_nr c" and ?st = "rj_UnpackBlock N inp"
  let ?rows = "rows_state ?n"
  have key: "?rows (rj_KeyAddition (rj_rk c ! i) st) = AddRoundKey (k i) (?rows st)"
    "rows_masked ?n st \<Longrightarrow> rows_masked ?n (rj_KeyAddition (rj_rk c ! i) st)" if "i \<le> ?nr" for i st
    using assms(2) that KeyAddition_rows[of ?n "rj_rk c ! i" st] by (auto simp: rj_row_keys_def Let_def)
  have sub: "?rows (rj_ShiftRow N (rj_sh1 N) (rj_Substitution N rijndael_Si st)) = inv_sub_shift (?rows st)"
    "rows_masked ?n (rj_ShiftRow N (rj_sh1 N) (rj_Substitution N rijndael_Si st))" for st
    using ShiftRow_rows[OF assms(1) Substitution_rows(2)[OF assms(1)]] Substitution_rows(1)[OF assms(1)]
    by (simp_all add: inv_sub_shift_swap)
  let ?step = "\<lambda>i st. rj_ShiftRow N (rj_sh1 N) (rj_Substitution N rijndael_Si (rj_InvMixColumn N (rj_KeyAddition (rj_rk c ! i) st)))"
  have loop: "?rows (fold ?step is st) = fold (\<lambda>i s. inv_sub_shift (map InvMixColumn (AddRoundKey (k i) s))) is (?rows st)"
    if "\<forall>i\<in>set is. i \<le> ?nr" for "is" st
    using that by (induction "is" arbitrary: st) (simp_all add: sub key InvMixColumn_rows[OF assms(1)])
  let ?st1 = "rj_ShiftRow N (rj_sh1 N) (rj_Substitution N rijndael_Si (rj_KeyAddition (rj_rk c ! ?nr) ?st))"
  have "?rows ?st1 = inv_sub_shift (AddRoundKey (k ?nr) (bytes_state inp))"
    by (simp add: sub key Unpack_rows[OF assms(1,3)])
  then have "?rows (fold ?step (rev [1..<?nr]) ?st1) =
      inv_sub_shift (fold (\<lambda>i. inv_round_step (k i)) (rev [1..<?nr]) (AddRoundKey (k ?nr) (bytes_state inp)))"
    unfolding inv_rounds_regroup by (subst loop) auto
  then have "?rows (Rijndael_DecryptBlock N c ?st) = inv_cipher ?nr k (bytes_state inp)"
    unfolding Rijndael_DecryptBlock_def Let_def by (simp add: key inv_cipher_def Let_def inv_sub_shift_def)
  then show ?thesis by (simp add: Rijndael_Decrypt_def Pack_rows[OF assms(1)])
qed

section \<open>The key schedule is the key expansion\<close>

definition tk_col :: "byte list list \<Rightarrow> nat \<Rightarrow> column" where
  "tk_col tk j = (tk ! 0 ! j, tk ! 1 ! j, tk ! 2 ! j, tk ! 3 ! j)"

definition tk_ok :: "byte list list \<Rightarrow> bool" where
  "tk_ok tk \<longleftrightarrow> length tk = 4 \<and> (\<forall>r\<in>set tk. length r = 8)"

lemma tk_rows: "tk_ok tk \<Longrightarrow> \<exists>r0 r1 r2 r3. tk = [r0, r1, r2, r3] \<and> length r0 = 8 \<and> length r1 = 8 \<and> length r2 = 8 \<and> length r3 = 8"
  using length_four[of tk] unfolding tk_ok_def by (metis list.set_intros(1,2))

lemma tk_ok_upd2 [simp]: "tk_ok tk \<Longrightarrow> tk_ok (upd2 i j f tk)"
  by (cases "i < length tk") (auto simp: tk_ok_def upd2_def list_update_beyond dest!: set_update_subset_insert[THEN subsetD])

lemma upd2_nth: "x < length a \<Longrightarrow> y < length (a ! x) \<Longrightarrow>
    upd2 i j f a ! x ! y = (if x = i \<and> y = j then f (a ! i ! j) else a ! x ! y)"
  by (cases "x = i"; cases "y = j") (simp_all add: upd2_def)

text \<open>The key in \<^verbatim>\<open>tk\<close>.\<close>

lemma tk_col_key:
  assumes "length key \<le> 32" "4 dvd length key" "j < length key div 4"
  shows "tk_ok (rj_tk key)" "tk_col (rj_tk key) j = bytes_state key ! j"
proof -
  define T where "T m = fold (\<lambda>i. upd2 (i mod 4) (i div 4) (\<lambda>_. key ! i)) [0..<m] (replicate 4 (replicate 8 0))" for m
  have T: "T 0 = replicate 4 (replicate 8 0)" "T (Suc m) = upd2 (m mod 4) (m div 4) (\<lambda>_. key ! m) (T m)" for m
    by (simp_all add: T_def)
  have ok: "tk_ok (T m)" for m by (induction m) (simp_all add: T tk_ok_def[of "replicate 4 _"])
  have dims: "i mod 4 < length (T m)" "i div 4 < length (T m ! (i mod 4))" if "i < length key" for i m
  proof -
    have "length (T m) = 4" using ok[of m] by (simp only: tk_ok_def)
    then show l: "i mod 4 < length (T m)" by simp
    have "i div 4 < 8" using that assms(1) by linarith
    moreover from nth_mem[OF l] have "length (T m ! (i mod 4)) = 8" using ok[of m] by (simp only: tk_ok_def)
    ultimately show "i div 4 < length (T m ! (i mod 4))" by (simp only:)
  qed
  have f: "T m ! (i mod 4) ! (i div 4) = key ! i" if "m \<le> length key" "i < m" for m i
    using that
  proof (induction m)
    case (Suc m)
    then have i: "i < length key" by simp
    have step: "T (Suc m) ! (i mod 4) ! (i div 4) =
        (if i mod 4 = m mod 4 \<and> i div 4 = m div 4 then key ! m else T m ! (i mod 4) ! (i div 4))"
      unfolding T(2) by (rule upd2_nth[OF dims[OF i, of m]])
    show ?case
    proof (cases "i = m")
      case True
      then show ?thesis using step by simp
    next
      case False
      have "\<not> (i mod 4 = m mod 4 \<and> i div 4 = m div 4)"
      proof
        assume "i mod 4 = m mod 4 \<and> i div 4 = m div 4"
        then have "i = m" using mult_div_mod_eq[of 4 i] mult_div_mod_eq[of 4 m] by argo
        with False show False ..
      qed
      then have "T (Suc m) ! (i mod 4) ! (i div 4) = T m ! (i mod 4) ! (i div 4)" unfolding step by (rule if_not_P)
      also have "\<dots> = key ! i" using Suc.prems False by (intro Suc.IH) simp_all
      finally show ?thesis .
    qed
  qed simp
  have rj: "rj_tk key = T (length key)" by (simp add: rj_tk_def T_def)
  show "tk_ok (rj_tk key)" unfolding rj by (rule ok)
  have g: "rj_tk key ! r ! j = key ! (4 * j + r)" if "r < 4" for r
  proof -
    have i: "4 * j + r < length key" using that assms(2,3) by auto
    have e: "(4 * j + r) mod 4 = r" "(4 * j + r) div 4 = j" using that by auto
    show ?thesis using f[OF order_refl i] unfolding e rj .
  qed
  have "4 * j + 4 \<le> length key" using assms(2,3) by auto
  from bytes_state_nth[OF this] show "tk_col (rj_tk key) j = bytes_state key ! j"
    unfolding tk_col_def using g[of 0] g[of 1] g[of 2] g[of 3] by (simp only:) simp
qed

text \<open>The steps that make the next \<open>Nk\<close> words of the expansion.\<close>

lemma xor_prev_col:
  assumes "tk_ok tk" "1 \<le> j" "j < 8"
  shows "tk_ok (rj_xor_prev j tk)"
    "i < 8 \<Longrightarrow> tk_col (rj_xor_prev j tk) i = (if i = j then col_xor (tk_col tk j) (tk_col tk (j - 1)) else tk_col tk i)"
proof -
  obtain r0 r1 r2 r3 where tk: "tk = [r0, r1, r2, r3]" "length r0 = 8" "length r1 = 8" "length r2 = 8" "length r3 = 8"
    using tk_rows[OF assms(1)] by blast
  have e: "rj_xor_prev j tk = [r0[j := r0 ! j XOR r0 ! (j - 1)], r1[j := r1 ! j XOR r1 ! (j - 1)],
      r2[j := r2 ! j XOR r2 ! (j - 1)], r3[j := r3 ! j XOR r3 ! (j - 1)]]"
    by (simp add: rj_xor_prev_def upt_nb upd2_def tk(1))
  show "tk_ok (rj_xor_prev j tk)" unfolding e by (simp add: tk_ok_def tk)
  show "tk_col (rj_xor_prev j tk) i = (if i = j then col_xor (tk_col tk j) (tk_col tk (j - 1)) else tk_col tk i)" if "i < 8"
    unfolding e using that tk by (simp add: tk_col_def nth_list_update)
qed

lemma sub_col:
  assumes "tk_ok tk"
  shows "tk_ok (fold (\<lambda>i tk. upd2 i 4 (\<lambda>x. x XOR rijndael_S ! unat (tk ! i ! 3)) tk) [0..<4] tk)"
    "i < 8 \<Longrightarrow> tk_col (fold (\<lambda>i tk. upd2 i 4 (\<lambda>x. x XOR rijndael_S ! unat (tk ! i ! 3)) tk) [0..<4] tk) i =
       (if i = 4 then col_xor (tk_col tk 4) (col_map sub_byte (tk_col tk 3)) else tk_col tk i)"
proof -
  obtain r0 r1 r2 r3 where tk: "tk = [r0, r1, r2, r3]" "length r0 = 8" "length r1 = 8" "length r2 = 8" "length r3 = 8"
    using tk_rows[OF assms(1)] by blast
  have e: "fold (\<lambda>i tk. upd2 i 4 (\<lambda>x. x XOR rijndael_S ! unat (tk ! i ! 3)) tk) [0..<4] tk =
      [r0[4 := r0 ! 4 XOR sub_byte (r0 ! 3)], r1[4 := r1 ! 4 XOR sub_byte (r1 ! 3)],
       r2[4 := r2 ! 4 XOR sub_byte (r2 ! 3)], r3[4 := r3 ! 4 XOR sub_byte (r3 ! 3)]]"
    by (simp add: upt_nb upd2_def tk(1))
  show "tk_ok (fold (\<lambda>i tk. upd2 i 4 (\<lambda>x. x XOR rijndael_S ! unat (tk ! i ! 3)) tk) [0..<4] tk)"
    unfolding e by (simp add: tk_ok_def tk)
  show "tk_col (fold (\<lambda>i tk. upd2 i 4 (\<lambda>x. x XOR rijndael_S ! unat (tk ! i ! 3)) tk) [0..<4] tk) i =
       (if i = 4 then col_xor (tk_col tk 4) (col_map sub_byte (tk_col tk 3)) else tk_col tk i)" if "i < 8"
    unfolding e using that tk by (simp add: tk_col_def nth_list_update)
qed

definition rj_first :: "nat \<Rightarrow> nat \<Rightarrow> byte list list \<Rightarrow> byte list list" where
  "rj_first nk ri tk = upd2 0 0 (\<lambda>x. x XOR rijndael_rcon ! ri)
     (fold (\<lambda>i tk. upd2 i 0 (\<lambda>x. x XOR rijndael_S ! unat (tk ! ((i + 1) mod 4) ! (nk - 1))) tk) [0..<4] tk)"

lemma first_col:
  assumes "tk_ok tk" "2 \<le> nk" "nk \<le> 8"
  shows "tk_ok (rj_first nk ri tk)"
    "i < 8 \<Longrightarrow> tk_col (rj_first nk ri tk) i = (if i = 0 then col_xor (col_xor (tk_col tk 0) (col_map sub_byte (rot_word (tk_col tk (nk - 1)))))
       (rijndael_rcon ! ri, 0, 0, 0) else tk_col tk i)"
proof -
  obtain r0 r1 r2 r3 where tk: "tk = [r0, r1, r2, r3]" "length r0 = 8" "length r1 = 8" "length r2 = 8" "length r3 = 8"
    using tk_rows[OF assms(1)] by blast
  have e: "rj_first nk ri tk =
      [r0[0 := (r0 ! 0 XOR sub_byte (r1 ! (nk - 1))) XOR rijndael_rcon ! ri], r1[0 := r1 ! 0 XOR sub_byte (r2 ! (nk - 1))],
       r2[0 := r2 ! 0 XOR sub_byte (r3 ! (nk - 1))], r3[0 := r3 ! 0 XOR sub_byte (r0 ! (nk - 1))]]"
    using assms(2) tk by (simp add: rj_first_def upt_nb upd2_def numeral_2_eq_2)
  show "tk_ok (rj_first nk ri tk)" unfolding e by (simp add: tk_ok_def tk)
  show "tk_col (rj_first nk ri tk) i = (if i = 0 then col_xor (col_xor (tk_col tk 0) (col_map sub_byte (rot_word (tk_col tk (nk - 1)))))
       (rijndael_rcon ! ri, 0, 0, 0) else tk_col tk i)" if "i < 8"
    unfolding e using that tk by (simp add: tk_col_def nth_list_update)
qed

lemma rcon_rounds: "b < 30 \<Longrightarrow> (rijndael_rcon ! b, 0, 0, 0) = round_const (Suc b)"
proof -
  assume b: "b < 30"
  have "rijndael_rcon = map (\<lambda>b. (xtime ^^ b) 1) [0..<30]"
    by (simp add: rijndael_rcon_def upt_rec xtime_code)
  then have "rijndael_rcon ! b = map (\<lambda>b. (xtime ^^ b) 1) [0..<30] ! b" by (rule arg_cong)
  also have "\<dots> = (xtime ^^ b) 1" using b by (subst nth_map) simp_all
  finally show ?thesis by (simp add: round_const_def)
qed

text \<open>A stretch of columns, each from the one before it.\<close>

lemma xor_prev_fold:
  assumes "tk_ok tk" "1 \<le> a" "m \<le> 8" "\<And>j. a \<le> j \<Longrightarrow> j < m \<Longrightarrow> W j = col_xor (tk_col tk j) (W (j - 1))" "tk_col tk (a - 1) = W (a - 1)"
  shows "tk_ok (fold rj_xor_prev [a..<m] tk) \<and>
    (\<forall>i<8. tk_col (fold rj_xor_prev [a..<m] tk) i = (if a \<le> i \<and> i < m then W i else tk_col tk i))"
  using assms(3,4)
proof (induction m)
  case 0
  then show ?case using assms(1) by simp
next
  case (Suc m)
  show ?case
  proof (cases "a \<le> m")
    case False
    then show ?thesis using assms(1) by auto
  next
    case True
    let ?t = "fold rj_xor_prev [a..<m] tk"
    have ih: "tk_ok ?t" "\<And>i. i < 8 \<Longrightarrow> tk_col ?t i = (if a \<le> i \<and> i < m then W i else tk_col tk i)"
      using Suc.IH Suc.prems by simp_all
    have m: "1 \<le> m" "m < 8" using True assms(2) Suc.prems by simp_all
    have f: "fold rj_xor_prev [a..<Suc m] tk = rj_xor_prev m ?t" using True by simp
    have "tk_col ?t (m - 1) = W (m - 1)"
    proof (cases "a = m")
      case True
      then show ?thesis using ih(2)[of "m - 1"] assms(5) m by simp
    next
      case False
      then have "a \<le> m - 1" "m - 1 < m" using \<open>a \<le> m\<close> m by linarith+
      then show ?thesis using ih(2)[of "m - 1"] m by simp
    qed
    moreover have "tk_col ?t m = tk_col tk m" using ih(2)[of m] m by simp
    moreover have "W m = col_xor (tk_col tk m) (W (m - 1))" using Suc.prems True by simp
    ultimately have w: "col_xor (tk_col ?t m) (tk_col ?t (m - 1)) = W m" by (simp only:)
    show ?thesis unfolding f using xor_prev_col[OF ih(1) m] ih(2) w True by auto
  qed
qed

text \<open>Block \<open>b\<close> of the expansion.\<close>

definition tk_block :: "column list \<Rightarrow> nat \<Rightarrow> byte list list \<Rightarrow> bool" where
  "tk_block key b tk \<longleftrightarrow> tk_ok tk \<and> (\<forall>j<length key. tk_col tk j = key_word key (length key * b + j))"

lemma key_word_next:
  assumes "4 \<le> length key" "j < length key"
  shows "key_word key (length key * Suc b + j) = col_xor (key_word key (length key * b + j))
     (if j = 0 then col_xor (col_map sub_byte (rot_word (key_word key (length key * b + (length key - 1))))) (round_const (Suc b))
      else if 6 < length key \<and> j = 4 then col_map sub_byte (key_word key (length key * Suc b + (j - 1)))
      else key_word key (length key * Suc b + (j - 1)))"
proof -
  let ?n = "length key"
  let ?i = "?n * Suc b + j"
  have m: "?i mod ?n = j" using assms(2) by (simp del: mult_Suc_right)
  have i: "0 < ?n" "?n \<le> ?i" "?i - ?n = ?n * b + j" using assms by auto
  show ?thesis
  proof (cases "j = 0")
    case True
    then have "?i div ?n = Suc b" "?i - 1 = ?n * b + (?n - 1)" using assms by (simp_all add: algebra_simps)
    then show ?thesis unfolding key_word_rec[OF i(1,2)] m i(3) Let_def using True by (simp del: mult_Suc_right)
  next
    case False
    then have p: "?i - 1 = ?n * Suc b + (j - 1)" by simp
    show ?thesis unfolding key_word_rec[OF i(1,2)] m i(3) Let_def p by (simp only: False if_False)
  qed
qed

lemma next_block:
  assumes "tk_block key b tk" "4 \<le> length key" "length key \<le> 8" "b < 30"
  shows "tk_block key (Suc b) (rj_next (length key) b tk)"
proof -
  let ?n = "length key" and ?W = "\<lambda>j. key_word key (length key * Suc b + j)"
  let ?f = "rj_first ?n b tk"
  have ok: "tk_ok tk" and old: "\<And>j. j < ?n \<Longrightarrow> tk_col tk j = key_word key (?n * b + j)" using assms(1) by (auto simp: tk_block_def)
  have W: "?W j = col_xor (tk_col tk j) (if j = 0 then col_xor (col_map sub_byte (rot_word (tk_col tk (?n - 1)))) (round_const (Suc b))
      else if 6 < ?n \<and> j = 4 then col_map sub_byte (?W (j - 1)) else ?W (j - 1))" if "j < ?n" for j
    using key_word_next[OF assms(2) that] old[OF that] old[of "?n - 1"] assms(2) by (simp del: mult_Suc_right)
  have n0: "0 < ?n" using assms(2) by linarith
  have f_ok: "tk_ok ?f" and f: "\<And>i. i < 8 \<Longrightarrow> tk_col ?f i = (if i = 0 then ?W 0 else tk_col tk i)"
    using first_col[OF ok _ assms(3), where ri = b] assms(2) W[OF n0] rcon_rounds[OF assms(4)] by (auto simp: col_xor_assoc simp del: mult_Suc_right)
  have nx: "rj_next ?n b tk = (if ?n \<le> 6 then fold rj_xor_prev [1..<?n] ?f
      else fold rj_xor_prev [5..<?n] (fold (\<lambda>i tk. upd2 i 4 (\<lambda>x. x XOR rijndael_S ! unat (tk ! i ! 3)) tk) [0..<4] (fold rj_xor_prev [1..<4] ?f)))"
    by (simp add: rj_next_def rj_first_def Let_def)
  show ?thesis
  proof (cases "?n \<le> 6")
    case True
    have "tk_ok (fold rj_xor_prev [1..<?n] ?f) \<and> (\<forall>i<8. tk_col (fold rj_xor_prev [1..<?n] ?f) i = (if 1 \<le> i \<and> i < ?n then ?W i else tk_col ?f i))"
      using f f_ok assms(2,3) True W by (intro xor_prev_fold) (auto simp del: mult_Suc_right)
    then show ?thesis unfolding tk_block_def nx using True f assms(3) by (auto simp: not_less_eq_eq simp del: mult_Suc_right)
  next
    case False
    let ?g = "fold rj_xor_prev [1..<4] ?f"
    have g: "tk_ok ?g \<and> (\<forall>i<8. tk_col ?g i = (if 1 \<le> i \<and> i < 4 then ?W i else tk_col ?f i))"
      using f f_ok assms(2,3) W by (intro xor_prev_fold) (auto simp del: mult_Suc_right)
    let ?h = "fold (\<lambda>i tk. upd2 i 4 (\<lambda>x. x XOR rijndael_S ! unat (tk ! i ! 3)) tk) [0..<4] ?g"
    note sub = sub_col[OF conjunct1[OF g]]
    have h: "tk_ok ?h" "\<And>i. i < 8 \<Longrightarrow> tk_col ?h i = (if i < 5 then ?W i else tk_col tk i)"
    proof -
      show "tk_ok ?h" by (rule sub(1))
      have "col_xor (tk_col ?g 4) (col_map sub_byte (tk_col ?g 3)) = ?W 4"
        using g f W[of 4] False assms(2) by (simp del: mult_Suc_right)
      then show "tk_col ?h i = (if i < 5 then ?W i else tk_col tk i)" if "i < 8" for i
        using sub(2)[OF that] that g f by (auto simp: not_less_eq_eq simp del: mult_Suc_right)
    qed
    have "tk_ok (fold rj_xor_prev [5..<?n] ?h) \<and> (\<forall>i<8. tk_col (fold rj_xor_prev [5..<?n] ?h) i = (if 5 \<le> i \<and> i < ?n then ?W i else tk_col ?h i))"
      using h assms(2,3) W by (intro xor_prev_fold) (auto simp del: mult_Suc_right)
    then show ?thesis unfolding tk_block_def nx using False h assms(3) by (auto simp del: mult_Suc_right)
  qed
qed

text \<open>The round keys built so far: the first \<open>T\<close> words of the expansion, and zeros.\<close>

definition keys_upto :: "nat \<Rightarrow> column list \<Rightarrow> nat \<Rightarrow> u64 list list \<Rightarrow> bool" where
  "keys_upto n key T rk \<longleftrightarrow> length rk = 15 \<and> (\<forall>p<15. length (rk ! p) = 4 \<and>
     (\<forall>i<4. \<forall>c<8. GetByte (rk ! p ! i) c = (if c < n \<and> n * p + c < T then col_list (key_word key (n * p + c)) ! i else 0)))"

lemma emit_word:
  assumes "rijndael_size N" "keys_upto (rj_nb N) key T rk" "T < 15 * rj_nb N" "tk_ok tk" "tk_col tk j = key_word key T"
  shows "keys_upto (rj_nb N) key (Suc T) (rj_emit_word N tk j T rk)"
proof -
  let ?n = "rj_nb N"
  define p where "p = T div ?n"
  define c where "c = T mod ?n"
  note nb = rijndael_size_nb[OF assms(1)]
  have pc: "T = ?n * p + c" "c < ?n" "p < 15" "c < 8"
    using assms(3) nb(3,4) by (auto simp: p_def c_def less_mult_imp_div_less intro: less_le_trans[OF mod_less_divisor])
  have off: "(T * 8) mod rj_bc N = 8 * c" unfolding nb(2) c_def by (simp add: mult.commute mult_mod_right)
  let ?v = "\<lambda>i. push_bit (8 * c) (ucast (tk ! i ! j) :: u64)"
  have len: "length rk = 15" "\<And>q. q < 15 \<Longrightarrow> length (rk ! q) = 4" using assms(2) by (auto simp: keys_upto_def)
  have tk: "tk ! i ! j = col_list (key_word key T) ! i" if "i < 4" for i
  proof -
    have "i \<in> {0, 1, 2, 3}" using that by auto
    then show ?thesis unfolding assms(5)[symmetric] tk_col_def by (elim insertE emptyE) simp_all
  qed
  have "length (fold (\<lambda>i. upd2 p i (\<lambda>x. x OR ?v i)) [0..<m] rk) = 15 \<and>
     (\<forall>q<15. length (fold (\<lambda>i. upd2 p i (\<lambda>x. x OR ?v i)) [0..<m] rk ! q) = 4 \<and>
        (\<forall>i<4. fold (\<lambda>i. upd2 p i (\<lambda>x. x OR ?v i)) [0..<m] rk ! q ! i = (if q = p \<and> i < m then rk ! q ! i OR ?v i else rk ! q ! i)))"
    if "m \<le> 4" for m
    using that
  proof (induction m)
    case 0
    then show ?case using len by simp
  next
    case (Suc m)
    let ?x = "fold (\<lambda>i. upd2 p i (\<lambda>x. x OR ?v i)) [0..<m] rk"
    have x: "length ?x = 15" "\<And>q. q < 15 \<Longrightarrow> length (?x ! q) = 4"
      "\<And>q i. q < 15 \<Longrightarrow> i < 4 \<Longrightarrow> ?x ! q ! i = (if q = p \<and> i < m then rk ! q ! i OR ?v i else rk ! q ! i)" using Suc by auto
    have f: "fold (\<lambda>i. upd2 p i (\<lambda>x. x OR ?v i)) [0..<Suc m] rk = upd2 p m (\<lambda>x. x OR ?v m) ?x" by simp
    have l: "length (upd2 p m (\<lambda>x. x OR ?v m) ?x) = 15" "\<And>q. q < 15 \<Longrightarrow> length (upd2 p m (\<lambda>x. x OR ?v m) ?x ! q) = 4"
      using x(1,2) pc(3) by (auto simp: upd2_def nth_list_update)
    have "upd2 p m (\<lambda>x. x OR ?v m) ?x ! q ! i = (if q = p \<and> i < Suc m then rk ! q ! i OR ?v i else rk ! q ! i)"
      if "q < 15" "i < 4" for q i
      using that x(1,2) x(3)[OF that] Suc.prems by (subst upd2_nth) (auto simp: less_Suc_eq x(3))
    then show ?case unfolding f using l by simp
  qed
  from this[of 4] have r: "length (rj_emit_word N tk j T rk) = 15" "\<And>q. q < 15 \<Longrightarrow> length (rj_emit_word N tk j T rk ! q) = 4"
    "\<And>q i. q < 15 \<Longrightarrow> i < 4 \<Longrightarrow> rj_emit_word N tk j T rk ! q ! i = (if q = p then rk ! q ! i OR ?v i else rk ! q ! i)"
    unfolding rj_emit_word_def off p_def[symmetric] by auto
  have b: "GetByte (rj_emit_word N tk j T rk ! q ! i) d =
      (if d < ?n \<and> ?n * q + d < Suc T then col_list (key_word key (?n * q + d)) ! i else 0)" if "q < 15" "i < 4" "d < 8" for q i d
  proof -
    have old: "GetByte (rk ! q ! i) d = (if d < ?n \<and> ?n * q + d < T then col_list (key_word key (?n * q + d)) ! i else 0)"
      using assms(2) that by (simp add: keys_upto_def)
    have e: "?n * q + d = T \<longleftrightarrow> q = p \<and> d = c" if "d < ?n"
    proof
      assume "?n * q + d = T"
      then have "(?n * q + d) div ?n = T div ?n" "(?n * q + d) mod ?n = T mod ?n" by simp_all
      then show "q = p \<and> d = c" using that by (simp add: p_def c_def)
    qed (use pc in simp)
    show ?thesis
    proof (cases "q = p \<and> d = c")
      case True
      then have "\<not> ?n * q + d < T" "?n * q + d = T" "d < ?n" using pc by simp_all
      then show ?thesis using True that old tk[OF that(2)] by (simp add: r(3) GetByte_push_ucast)
    next
      case False
      then have "GetByte (rj_emit_word N tk j T rk ! q ! i) d = GetByte (rk ! q ! i) d"
        using that pc(4) by (auto simp: r(3) GetByte_push_ucast)
      then show ?thesis unfolding old using e False by (auto simp: less_Suc_eq)
    qed
  qed
  show ?thesis unfolding keys_upto_def using r(1,2) b by blast
qed

lemma emit_block:
  assumes "rijndael_size N" "keys_upto (rj_nb N) key T rk" "T = length key * b" "tk_block key b tk"
    and "(nr + 1) * rj_nb N \<le> 15 * rj_nb N" "T \<le> (nr + 1) * rj_nb N"
  shows "\<exists>rk'. rj_emit N (length key) nr tk (rk, T) = (rk', min ((nr + 1) * rj_nb N) (T + length key)) \<and>
     keys_upto (rj_nb N) key (min ((nr + 1) * rj_nb N) (T + length key)) rk'"
proof -
  let ?lim = "(nr + 1) * rj_nb N"
  let ?f = "\<lambda>j (rk, t). if t < ?lim then (rj_emit_word N tk j t rk, t + 1) else (rk, t)"
  have "\<exists>rk'. fold ?f [0..<m] (rk, T) = (rk', min ?lim (T + m)) \<and> keys_upto (rj_nb N) key (min ?lim (T + m)) rk'" if "m \<le> length key" for m
    using that
  proof (induction m)
    case 0
    then show ?case using assms(2,6) by simp
  next
    case (Suc m)
    then obtain rk' where rk': "fold ?f [0..<m] (rk, T) = (rk', min ?lim (T + m))" "keys_upto (rj_nb N) key (min ?lim (T + m)) rk'"
      by auto
    have f: "fold ?f [0..<Suc m] (rk, T) = ?f m (rk', min ?lim (T + m))" using rk'(1) by simp
    show ?case
    proof (cases "T + m < ?lim")
      case True
      then have m: "min ?lim (T + m) = T + m" "min ?lim (T + Suc m) = Suc (T + m)" by simp_all
      have "tk_col tk m = key_word key (T + m)" using assms(3,4) Suc.prems by (simp add: tk_block_def)
      moreover have "T + m < 15 * rj_nb N" using True assms(5) by linarith
      ultimately have "keys_upto (rj_nb N) key (Suc (T + m)) (rj_emit_word N tk m (T + m) rk')"
        using emit_word[OF assms(1)] rk'(2) assms(4) unfolding m tk_block_def by blast
      then show ?thesis unfolding f m using True by simp
    next
      case False
      then have m: "min ?lim (T + m) = ?lim" "min ?lim (T + Suc m) = ?lim" by simp_all
      then show ?thesis unfolding f using rk'(2) by simp
    qed
  qed
  then show ?thesis unfolding rj_emit_def by blast
qed

lemma expand_keys:
  assumes "rijndael_size N" "4 \<le> length key" "length key \<le> 8" "nr = 6 + max (rj_nb N) (length key)"
  shows "tk_block key b tk \<Longrightarrow> T = min ((nr + 1) * rj_nb N) (length key * Suc b) \<Longrightarrow> keys_upto (rj_nb N) key T rk \<Longrightarrow>
     \<exists>rk'. rj_expand N (length key) nr b tk (rk, T) = Some rk' \<and> keys_upto (rj_nb N) key ((nr + 1) * rj_nb N) rk'"
proof (induction "(nr + 1) * rj_nb N - T" arbitrary: b tk rk T rule: less_induct)
  case less
  let ?lim = "(nr + 1) * rj_nb N" and ?n = "length key"
  note nb = rijndael_size_nb[OF assms(1)]
  have lim: "?lim \<le> 15 * rj_nb N" using assms(3,4) nb(4) by (intro mult_le_mono1) simp
  show ?case
  proof (cases "T < ?lim")
    case False
    then have "T = ?lim" using less.prems(2) by simp
    then show ?thesis using less.prems(3) by (simp add: rj_expand.simps)
  next
    case True
    then have T: "T = ?n * Suc b" using less.prems(2) by (simp add: min_def split: if_splits)
    have "?lim \<le> 15 * 8" using lim nb(4) by linarith
    then have "T < 120" using True by (intro less_le_trans[of T ?lim 120]) simp_all
    moreover have "4 * Suc b \<le> T" unfolding T using assms(2) by (intro mult_le_mono1)
    ultimately have "4 * Suc b < 4 * 30" by simp
    then have b: "b < 30" by simp
    note tk = next_block[OF less.prems(1) assms(2,3) b]
    obtain rk' where e: "rj_emit N ?n nr (rj_next ?n b tk) (rk, T) = (rk', min ?lim (T + ?n))" "keys_upto (rj_nb N) key (min ?lim (T + ?n)) rk'"
      using emit_block[OF assms(1) less.prems(3) T tk lim] True by auto
    have step: "rj_expand N ?n nr b tk (rk, T) = rj_expand N ?n nr (b + 1) (rj_next ?n b tk) (rk', min ?lim (T + ?n))"
      using True by (subst rj_expand.simps) (simp add: e(1) Let_def)
    have "min ?lim (T + ?n) = min ?lim (?n * Suc (b + 1))" unfolding T by simp
    moreover have "?lim - min ?lim (T + ?n) < ?lim - T" using True assms(2) by linarith
    ultimately show ?thesis unfolding step using less.hyps[of "min ?lim (T + ?n)" "b + 1"] tk e(2) by simp
  qed
qed

lemma nth_store_u64:
  assumes "i < length ws" "c < 8"
  shows "store_words Big (ws :: u64 list) ! (8 * i + (7 - c)) = GetByte (ws ! i) c"
proof -
  have b: "be_store w ! (7 - c) = GetByte w c" for w :: u64
    using assms(2) by (simp add: be_store_def le_store_def rev_nth GetByte_def mult.commute)
  have "store_words Big ws ! (8 * i + (7 - c)) = map (store Big) ws ! ((8 * i + (7 - c)) div 8) ! ((8 * i + (7 - c)) mod 8)"
    unfolding store_words_def using assms by (intro nth_concat_blocks) (auto simp: bytes_simps)
  moreover have "(8 * i + (7 - c)) div 8 = i" "(8 * i + (7 - c)) mod 8 = 7 - c" by simp_all
  ultimately show ?thesis using assms(1) by (simp add: store_def b)
qed

lemma round_key_bytes:
  assumes "length rkb = 480" "m \<le> 15" "\<And>i. i < 15 \<Longrightarrow> length (rk ! i) = 4"
  shows "length (fold (\<lambda>i. put_bytes (32 * i) (store_words Big (rk ! i :: u64 list))) [0..<m] rkb) = 480 \<and>
    (\<forall>i<m. \<forall>x<32. fold (\<lambda>i. put_bytes (32 * i) (store_words Big (rk ! i))) [0..<m] rkb ! (32 * i + x) = store_words Big (rk ! i) ! x)"
  using assms(2)
proof (induction m)
  case 0
  then show ?case using assms(1) by simp
next
  case (Suc m)
  let ?b = "fold (\<lambda>i. put_bytes (32 * i) (store_words Big (rk ! i))) [0..<m] rkb" and ?w = "store_words Big (rk ! m)"
  have ih: "length ?b = 480" "\<And>i x. i < m \<Longrightarrow> x < 32 \<Longrightarrow> ?b ! (32 * i + x) = store_words Big (rk ! i) ! x" using Suc by auto
  have w: "length ?w = 32" using assms(3)[of m] Suc.prems by (simp add: bytes_simps)
  have f: "fold (\<lambda>i. put_bytes (32 * i) (store_words Big (rk ! i))) [0..<Suc m] rkb = put_bytes (32 * m) ?w ?b" by simp
  have "put_bytes (32 * m) ?w ?b ! (32 * i + x) = store_words Big (rk ! i) ! x" if "i < Suc m" "x < 32" for i x
  proof (cases "i = m")
    case True
    then show ?thesis using that w ih(1) Suc.prems by (simp add: put_bytes_def nth_append)
  next
    case False
    then have "32 * i + x < 32 * m" "i < m" using that by auto
    then show ?thesis using ih w Suc.prems that by (simp add: put_bytes_def nth_append)
  qed
  then show ?case unfolding f using ih(1) w Suc.prems by simp
qed

definition rijndael_key :: "byte list \<Rightarrow> bool" where
  "rijndael_key key \<longleftrightarrow> length key \<in> {16, 20, 24, 28, 32}"

theorem Rijndael_SetKeyInternal_keys:
  assumes "rijndael_size N" "rijndael_key key" "length (rj_rkb c) = 480"
  shows "\<exists>c'. Rijndael_SetKeyInternal N key c = Some c' \<and> rj_nr c' = 6 + max (rj_nb N) (length key div 4) \<and>
    rj_keys N (round_key (rj_nb N) (bytes_state key)) c' \<and> rj_row_keys N (round_key (rj_nb N) (bytes_state key)) c'"
proof -
  let ?n = "rj_nb N" and ?k = "bytes_state key" and ?nk = "length key div 4"
  let ?nr = "6 + max ?n ?nk"
  let ?lim = "(?nr + 1) * ?n"
  note nb = rijndael_size_nb[OF assms(1)]
  have k: "length key \<le> 32" "4 dvd length key" "4 \<le> ?nk" "?nk \<le> 8" "length ?k = ?nk"
    using assms(2) by (auto simp: rijndael_key_def)
  have nr: "10 \<le> ?nr" "?nr \<le> 14" using k nb(3,4) by auto
  have "tk_ok (rj_tk key)" "\<And>j. j < ?nk \<Longrightarrow> tk_col (rj_tk key) j = ?k ! j"
    using tk_col_key[OF k(1,2)] k(3) by force+
  then have tk: "tk_block ?k 0 (rj_tk key)" unfolding tk_block_def k(5) by (simp add: key_word.simps[of ?k] k(5))
  have e0: "keys_upto ?n ?k 0 (replicate 15 (replicate 4 0))" by (simp add: keys_upto_def)
  have lim: "?lim \<le> 15 * ?n" using nr by (intro mult_le_mono1) simp
  obtain rk1 where rk1: "rj_emit N ?nk ?nr (rj_tk key) (replicate 15 (replicate 4 0), 0) = (rk1, min ?lim ?nk)" "keys_upto ?n ?k (min ?lim ?nk) rk1"
    using emit_block[OF assms(1) e0 _ tk lim] unfolding k(5) by auto
  obtain rk where rk: "rj_expand N ?nk ?nr 0 (rj_tk key) (rk1, min ?lim ?nk) = Some rk" "keys_upto ?n ?k ?lim rk"
    using expand_keys[OF assms(1), of ?k ?nr 0 "rj_tk key" "min ?lim ?nk" rk1] tk rk1(2) k(3-5) by auto
  let ?rkb = "fold (\<lambda>i. put_bytes (32 * i) (store_words Big (rk ! i))) [0..<?nr + 1] (rj_rkb c)"
  let ?c = "c\<lparr>rj_nk := ?nk, rj_nr := ?nr, rj_rk := rk, rj_rkb := ?rkb\<rparr>"
  have set: "Rijndael_SetKeyInternal N key c = Some ?c"
    unfolding Rijndael_SetKeyInternal_def Let_def rk1(1) rk(1) by simp
  have len4: "length (rk ! p) = 4" if "p < 15" for p using rk(2) that by (simp add: keys_upto_def)
  have byte: "GetByte (rk ! p ! i) d = (if d < ?n then col_list (round_key ?n ?k p ! d) ! i else 0)" if "p \<le> ?nr" "i < 4" "d < 8" for p i d
  proof -
    have "?n * p + d < ?lim" if "d < ?n"
    proof -
      have "?n * p + d < ?n * (p + 1)" using that by simp
      also have "\<dots> \<le> ?n * (?nr + 1)" using \<open>p \<le> ?nr\<close> by (intro mult_le_mono2) simp
      finally show ?thesis by (simp only: mult.commute)
    qed
    then show ?thesis using rk(2) that nr unfolding keys_upto_def by (auto simp: round_key_def)
  qed
  have rkb: "length ?rkb = 480" "?rkb ! (32 * i + x) = store_words Big (rk ! i) ! x" if "i \<le> ?nr" "x < 32" for i x
    using round_key_bytes[OF assms(3) _ len4, of "?nr + 1"] nr that by auto
  have "holds_key (drop (32 * i) ?rkb) (round_key ?n ?k i)" if "i \<le> ?nr" for i
  proof -
    have "drop (32 * i) ?rkb ! (8 * r + (7 - d)) = col_list (round_key ?n ?k i ! d) ! r" if "d < ?n" "r < 4" for d r
    proof -
      have "i \<le> 14" using \<open>i \<le> ?nr\<close> nr by linarith
      moreover have "length ?rkb = 480" by (rule rkb(1)[of 0 0]) simp_all
      ultimately have "32 * i \<le> length ?rkb" by simp
      then have "drop (32 * i) ?rkb ! (8 * r + (7 - d)) = ?rkb ! (32 * i + (8 * r + (7 - d)))" by (rule nth_drop)
      also have "\<dots> = store_words Big (rk ! i) ! (8 * r + (7 - d))" using \<open>i \<le> ?nr\<close> that by (intro rkb(2)) simp_all
      also have "\<dots> = GetByte (rk ! i ! r) d" using that nb(4) len4[of i] \<open>i \<le> ?nr\<close> nr by (intro nth_store_u64) simp_all
      also have "\<dots> = col_list (round_key ?n ?k i ! d) ! r" using byte[OF \<open>i \<le> ?nr\<close> that(2), of d] that nb(4) by simp
      finally show ?thesis .
    qed
    then show ?thesis by (simp add: holds_key_def)
  qed
  then have keys: "rj_keys N (round_key ?n ?k) ?c"
    unfolding rj_keys_def using nr rkb(1)[of 0 0] by simp
  have "rows_state ?n (rk ! i ! 0, rk ! i ! 1, rk ! i ! 2, rk ! i ! 3) = round_key ?n ?k i"
    "rows_masked ?n (rk ! i ! 0, rk ! i ! 1, rk ! i ! 2, rk ! i ! 3)" if "i \<le> ?nr" for i
  proof -
    have "rows_col (rk ! i ! 0, rk ! i ! 1, rk ! i ! 2, rk ! i ! 3) d = round_key ?n ?k i ! d" if "d < ?n" for d
      using byte[OF \<open>i \<le> ?nr\<close>, of _ d] that nb(4) by (cases "round_key ?n ?k i ! d") (simp add: rows_col_def)
    then show "rows_state ?n (rk ! i ! 0, rk ! i ! 1, rk ! i ! 2, rk ! i ! 3) = round_key ?n ?k i"
      by (intro nth_equalityI) (simp_all add: rows_state_def)
    show "rows_masked ?n (rk ! i ! 0, rk ! i ! 1, rk ! i ! 2, rk ! i ! 3)"
      using byte[OF that] by (simp add: rows_masked_def masked_def)
  qed
  then have "rj_row_keys N (round_key ?n ?k) ?c" by (simp add: rj_row_keys_def Let_def)
  with set keys show ?thesis by (intro exI[of _ ?c]) simp
qed

section \<open>The contract of a block cipher\<close>

definition rijndael_keyed :: "nat \<Rightarrow> rijndael \<Rightarrow> bool" where
  "rijndael_keyed N c \<longleftrightarrow> (\<exists>k. rj_keys N k c \<and> rj_row_keys N k c)"

lemma rijndael_block_cipher:
  assumes "rijndael_size N"
  shows "block_cipher (N div 8) (Rijndael_Encrypt N) (Rijndael_Decrypt N) (rijndael_keyed N)"
proof
  note nb = rijndael_size_nb[OF assms]
  have n: "N div 8 = 4 * rj_nb N" using nb(1) by linarith
  show "0 < N div 8" using n nb(3) by linarith
  fix c :: rijndael and b :: "byte list"
  assume "rijndael_keyed N c" and b: "length b = N div 8"
  then obtain k where k: "rj_keys N k c" "rj_row_keys N k c" by (auto simp: rijndael_keyed_def)
  then have l: "length (k i) = length (bytes_state b)" for i using b n by (simp add: rj_keys_def)
  have l4: "4 \<le> length (bytes_state b)" "4 dvd length b" using b n nb(3) by simp_all
  note e = Rijndael_Encrypt_cipher[OF assms k(1)] and d = Rijndael_Decrypt_inv_cipher[OF assms k(2)]
  show "length (Rijndael_Encrypt N c b) = N div 8" "length (Rijndael_Decrypt N c b) = N div 8"
    unfolding e[OF b] d[OF b] length_state_bytes length_cipher[of k, OF l] using b n by simp_all
  then show "Rijndael_Decrypt N c (Rijndael_Encrypt N c b) = b" "Rijndael_Encrypt N c (Rijndael_Decrypt N c b) = b"
    unfolding d[OF \<open>length (Rijndael_Encrypt N c b) = N div 8\<close>] e[OF \<open>length (Rijndael_Decrypt N c b) = N div 8\<close>]
    unfolding e[OF b] d[OF b] bytes_state_bytes inv_cipher_cipher[of k, OF l l4(1)] by (simp_all add: state_bytes_state l4)
qed

interpretation rijndael128: block_cipher 16 "Rijndael_Encrypt 128" "Rijndael_Decrypt 128" "rijndael_keyed 128"
  using rijndael_block_cipher[of 128] by (simp add: rijndael_size_def)

interpretation rijndael160: block_cipher 20 "Rijndael_Encrypt 160" "Rijndael_Decrypt 160" "rijndael_keyed 160"
  using rijndael_block_cipher[of 160] by (simp add: rijndael_size_def)

interpretation rijndael192: block_cipher 24 "Rijndael_Encrypt 192" "Rijndael_Decrypt 192" "rijndael_keyed 192"
  using rijndael_block_cipher[of 192] by (simp add: rijndael_size_def)

interpretation rijndael224: block_cipher 28 "Rijndael_Encrypt 224" "Rijndael_Decrypt 224" "rijndael_keyed 224"
  using rijndael_block_cipher[of 224] by (simp add: rijndael_size_def)

interpretation rijndael256: block_cipher 32 "Rijndael_Encrypt 256" "Rijndael_Decrypt 256" "rijndael_keyed 256"
  using rijndael_block_cipher[of 256] by (simp add: rijndael_size_def)

text \<open>A context before its first key.\<close>

definition rijndael_fresh :: rijndael where
  "rijndael_fresh = \<lparr>rj_nr = 0, rj_nk = 0, rj_rk = [], rj_rkb = replicate 480 0\<rparr>"

lemma length_rijndael_fresh [simp]: "length (rj_rkb rijndael_fresh) = 480"
  by (simp add: rijndael_fresh_def)
end
