(* ===== verification/Serpent_Boxes.thy ===== *)
theory Serpent_Boxes
  imports Block_Cipher
begin

text \<open>
  The substitutions of Serpent (\<^verbatim>\<open>impl/block/serpent/serpent-impl.cc\<close>), which the code computes
  for the 32 positions of four words at once, and their inverses. At one position a substitution is a
  function of four booleans, \<open>bit_s0\<close> and so on, where the 16 inputs are checked.
\<close>

section \<open>The substitutions of the code\<close>

definition serpent_s0 :: "quad \<Rightarrow> quad" where
  "serpent_s0 x =
     (let (r0, r1, r2, r3) = x;
          r3 = r3 XOR r0; r4 = r1; r1 = r1 AND r3; r4 = r4 XOR r2; r1 = r1 XOR r0;
          r0 = r0 OR r3; r0 = r0 XOR r4; r4 = r4 XOR r3; r3 = r3 XOR r2; r2 = r2 OR r1;
          r2 = r2 XOR r4; r4 = NOT r4; r4 = r4 OR r1; r1 = r1 XOR r3; r1 = r1 XOR r4;
          r3 = r3 OR r0; r1 = r1 XOR r3; r4 = r4 XOR r3
      in (r1, r4, r2, r0))"

definition serpent_s1 :: "quad \<Rightarrow> quad" where
  "serpent_s1 x =
     (let (r0, r1, r2, r3) = x;
          r0 = NOT r0; r2 = NOT r2; r4 = r0; r0 = r0 AND r1; r2 = r2 XOR r0; r0 = r0 OR r3;
          r3 = r3 XOR r2; r1 = r1 XOR r0; r0 = r0 XOR r4; r4 = r4 OR r1; r1 = r1 XOR r3;
          r2 = r2 OR r0; r2 = r2 AND r4; r0 = r0 XOR r1; r1 = r1 AND r2; r1 = r1 XOR r0;
          r0 = r0 AND r2; r0 = r0 XOR r4
      in (r2, r0, r3, r1))"

definition serpent_s2 :: "quad \<Rightarrow> quad" where
  "serpent_s2 x =
     (let (r0, r1, r2, r3) = x;
          r4 = r0; r0 = r0 AND r2; r0 = r0 XOR r3; r2 = r2 XOR r1; r2 = r2 XOR r0;
          r3 = r3 OR r4; r3 = r3 XOR r1; r4 = r4 XOR r2; r1 = r3; r3 = r3 OR r4; r3 = r3 XOR r0;
          r0 = r0 AND r1; r4 = r4 XOR r0; r1 = r1 XOR r3; r1 = r1 XOR r4; r4 = NOT r4
      in (r2, r3, r1, r4))"

definition serpent_s3 :: "quad \<Rightarrow> quad" where
  "serpent_s3 x =
     (let (r0, r1, r2, r3) = x;
          r4 = r0; r0 = r0 OR r3; r3 = r3 XOR r1; r1 = r1 AND r4; r4 = r4 XOR r2;
          r2 = r2 XOR r3; r3 = r3 AND r0; r4 = r4 OR r1; r3 = r3 XOR r4; r0 = r0 XOR r1;
          r4 = r4 AND r0; r1 = r1 XOR r3; r4 = r4 XOR r2; r1 = r1 OR r0; r1 = r1 XOR r2;
          r0 = r0 XOR r3; r2 = r1; r1 = r1 OR r3; r1 = r1 XOR r0
      in (r1, r2, r3, r4))"

definition serpent_s4 :: "quad \<Rightarrow> quad" where
  "serpent_s4 x =
     (let (r0, r1, r2, r3) = x;
          r1 = r1 XOR r3; r3 = NOT r3; r2 = r2 XOR r3; r3 = r3 XOR r0; r4 = r1; r1 = r1 AND r3;
          r1 = r1 XOR r2; r4 = r4 XOR r3; r0 = r0 XOR r4; r2 = r2 AND r4; r2 = r2 XOR r0;
          r0 = r0 AND r1; r3 = r3 XOR r0; r4 = r4 OR r1; r4 = r4 XOR r0; r0 = r0 OR r3;
          r0 = r0 XOR r2; r2 = r2 AND r3; r0 = NOT r0; r4 = r4 XOR r2
      in (r1, r4, r0, r3))"

definition serpent_s5 :: "quad \<Rightarrow> quad" where
  "serpent_s5 x =
     (let (r0, r1, r2, r3) = x;
          r0 = r0 XOR r1; r1 = r1 XOR r3; r3 = NOT r3; r4 = r1; r1 = r1 AND r0; r2 = r2 XOR r3;
          r1 = r1 XOR r2; r2 = r2 OR r4; r4 = r4 XOR r3; r3 = r3 AND r1; r3 = r3 XOR r0;
          r4 = r4 XOR r1; r4 = r4 XOR r2; r2 = r2 XOR r0; r0 = r0 AND r3; r2 = NOT r2;
          r0 = r0 XOR r4; r4 = r4 OR r3; r2 = r2 XOR r4
      in (r1, r3, r0, r2))"

definition serpent_s6 :: "quad \<Rightarrow> quad" where
  "serpent_s6 x =
     (let (r0, r1, r2, r3) = x;
          r2 = NOT r2; r4 = r3; r3 = r3 AND r0; r0 = r0 XOR r4; r3 = r3 XOR r2; r2 = r2 OR r4;
          r1 = r1 XOR r3; r2 = r2 XOR r0; r0 = r0 OR r1; r2 = r2 XOR r1; r4 = r4 XOR r0;
          r0 = r0 OR r3; r0 = r0 XOR r2; r4 = r4 XOR r3; r4 = r4 XOR r0; r3 = NOT r3;
          r2 = r2 AND r4; r2 = r2 XOR r3
      in (r0, r1, r4, r2))"

definition serpent_s7 :: "quad \<Rightarrow> quad" where
  "serpent_s7 x =
     (let (r0, r1, r2, r3) = x;
          r4 = r1; r1 = r1 OR r2; r1 = r1 XOR r3; r4 = r4 XOR r2; r2 = r2 XOR r1; r3 = r3 OR r4;
          r3 = r3 AND r0; r4 = r4 XOR r2; r3 = r3 XOR r1; r1 = r1 OR r4; r1 = r1 XOR r0;
          r0 = r0 OR r4; r0 = r0 XOR r2; r1 = r1 XOR r4; r2 = r2 XOR r1; r1 = r1 AND r0;
          r1 = r1 XOR r4; r2 = NOT r2; r2 = r2 OR r0; r4 = r4 XOR r2
      in (r4, r3, r1, r0))"

definition serpent_si0 :: "quad \<Rightarrow> quad" where
  "serpent_si0 x =
     (let (r0, r1, r2, r3) = x;
          r2 = NOT r2; r4 = r1; r1 = r1 OR r0; r4 = NOT r4; r1 = r1 XOR r2; r2 = r2 OR r4;
          r1 = r1 XOR r3; r0 = r0 XOR r4; r2 = r2 XOR r0; r0 = r0 AND r3; r4 = r4 XOR r0;
          r0 = r0 OR r1; r0 = r0 XOR r2; r3 = r3 XOR r4; r2 = r2 XOR r1; r3 = r3 XOR r0;
          r3 = r3 XOR r1; r2 = r2 AND r3; r4 = r4 XOR r2
      in (r0, r4, r1, r3))"

definition serpent_si1 :: "quad \<Rightarrow> quad" where
  "serpent_si1 x =
     (let (r0, r1, r2, r3) = x;
          r4 = r1; r1 = r1 XOR r3; r3 = r3 AND r1; r4 = r4 XOR r2; r3 = r3 XOR r0;
          r0 = r0 OR r1; r2 = r2 XOR r3; r0 = r0 XOR r4; r0 = r0 OR r2; r1 = r1 XOR r3;
          r0 = r0 XOR r1; r1 = r1 OR r3; r1 = r1 XOR r0; r4 = NOT r4; r4 = r4 XOR r1;
          r1 = r1 OR r0; r1 = r1 XOR r0; r1 = r1 OR r4; r3 = r3 XOR r1
      in (r4, r0, r3, r2))"

definition serpent_si2 :: "quad \<Rightarrow> quad" where
  "serpent_si2 x =
     (let (r0, r1, r2, r3) = x;
          r2 = r2 XOR r3; r3 = r3 XOR r0; r4 = r3; r3 = r3 AND r2; r3 = r3 XOR r1;
          r1 = r1 OR r2; r1 = r1 XOR r4; r4 = r4 AND r3; r2 = r2 XOR r3; r4 = r4 AND r0;
          r4 = r4 XOR r2; r2 = r2 AND r1; r2 = r2 OR r0; r3 = NOT r3; r2 = r2 XOR r3;
          r0 = r0 XOR r3; r0 = r0 AND r1; r3 = r3 XOR r4; r3 = r3 XOR r0
      in (r1, r4, r2, r3))"

definition serpent_si3 :: "quad \<Rightarrow> quad" where
  "serpent_si3 x =
     (let (r0, r1, r2, r3) = x;
          r4 = r2; r2 = r2 XOR r1; r0 = r0 XOR r2; r4 = r4 AND r2; r4 = r4 XOR r0;
          r0 = r0 AND r1; r1 = r1 XOR r3; r3 = r3 OR r4; r2 = r2 XOR r3; r0 = r0 XOR r3;
          r1 = r1 XOR r4; r3 = r3 AND r2; r3 = r3 XOR r1; r1 = r1 XOR r0; r1 = r1 OR r2;
          r0 = r0 XOR r3; r1 = r1 XOR r4; r0 = r0 XOR r1
      in (r2, r1, r3, r0))"

definition serpent_si4 :: "quad \<Rightarrow> quad" where
  "serpent_si4 x =
     (let (r0, r1, r2, r3) = x;
          r4 = r2; r2 = r2 AND r3; r2 = r2 XOR r1; r1 = r1 OR r3; r1 = r1 AND r0;
          r4 = r4 XOR r2; r4 = r4 XOR r1; r1 = r1 AND r2; r0 = NOT r0; r3 = r3 XOR r4;
          r1 = r1 XOR r3; r3 = r3 AND r0; r3 = r3 XOR r2; r0 = r0 XOR r1; r2 = r2 AND r0;
          r3 = r3 XOR r0; r2 = r2 XOR r4; r2 = r2 OR r3; r3 = r3 XOR r0; r2 = r2 XOR r1
      in (r0, r3, r2, r4))"

definition serpent_si5 :: "quad \<Rightarrow> quad" where
  "serpent_si5 x =
     (let (r0, r1, r2, r3) = x;
          r1 = NOT r1; r4 = r3; r2 = r2 XOR r1; r3 = r3 OR r0; r3 = r3 XOR r2; r2 = r2 OR r1;
          r2 = r2 AND r0; r4 = r4 XOR r3; r2 = r2 XOR r4; r4 = r4 OR r0; r4 = r4 XOR r1;
          r1 = r1 AND r2; r1 = r1 XOR r3; r4 = r4 XOR r2; r3 = r3 AND r4; r4 = r4 XOR r1;
          r3 = r3 XOR r4; r4 = NOT r4; r3 = r3 XOR r0
      in (r1, r4, r3, r2))"

definition serpent_si6 :: "quad \<Rightarrow> quad" where
  "serpent_si6 x =
     (let (r0, r1, r2, r3) = x;
          r0 = r0 XOR r2; r4 = r2; r2 = r2 AND r0; r4 = r4 XOR r3; r2 = NOT r2; r3 = r3 XOR r1;
          r2 = r2 XOR r3; r4 = r4 OR r0; r0 = r0 XOR r2; r3 = r3 XOR r4; r4 = r4 XOR r1;
          r1 = r1 AND r3; r1 = r1 XOR r0; r0 = r0 XOR r3; r0 = r0 OR r2; r3 = r3 XOR r1;
          r4 = r4 XOR r0
      in (r1, r2, r4, r3))"

definition serpent_si7 :: "quad \<Rightarrow> quad" where
  "serpent_si7 x =
     (let (r0, r1, r2, r3) = x;
          r4 = r2; r2 = r2 XOR r0; r0 = r0 AND r3; r4 = r4 OR r3; r2 = NOT r2; r3 = r3 XOR r1;
          r1 = r1 OR r0; r0 = r0 XOR r2; r2 = r2 AND r4; r3 = r3 AND r4; r1 = r1 XOR r2;
          r2 = r2 XOR r0; r0 = r0 OR r2; r4 = r4 XOR r1; r0 = r0 XOR r3; r3 = r3 XOR r4;
          r4 = r4 OR r0; r3 = r3 XOR r2; r4 = r4 XOR r2
      in (r3, r0, r1, r4))"

section \<open>One position\<close>

type_synonym bquad = "bool \<times> bool \<times> bool \<times> bool"

definition bit_s0 :: "bquad \<Rightarrow> bquad" where
  "bit_s0 x =
     (let (r0, r1, r2, r3) = x;
          r3 = (r3 \<noteq> r0); r4 = r1; r1 = r1 \<and> r3; r4 = (r4 \<noteq> r2); r1 = (r1 \<noteq> r0);
          r0 = r0 \<or> r3; r0 = (r0 \<noteq> r4); r4 = (r4 \<noteq> r3); r3 = (r3 \<noteq> r2); r2 = r2 \<or> r1;
          r2 = (r2 \<noteq> r4); r4 = \<not> r4; r4 = r4 \<or> r1; r1 = (r1 \<noteq> r3); r1 = (r1 \<noteq> r4);
          r3 = r3 \<or> r0; r1 = (r1 \<noteq> r3); r4 = (r4 \<noteq> r3)
      in (r1, r4, r2, r0))"

definition bit_s1 :: "bquad \<Rightarrow> bquad" where
  "bit_s1 x =
     (let (r0, r1, r2, r3) = x;
          r0 = \<not> r0; r2 = \<not> r2; r4 = r0; r0 = r0 \<and> r1; r2 = (r2 \<noteq> r0); r0 = r0 \<or> r3;
          r3 = (r3 \<noteq> r2); r1 = (r1 \<noteq> r0); r0 = (r0 \<noteq> r4); r4 = r4 \<or> r1; r1 = (r1 \<noteq> r3);
          r2 = r2 \<or> r0; r2 = r2 \<and> r4; r0 = (r0 \<noteq> r1); r1 = r1 \<and> r2; r1 = (r1 \<noteq> r0);
          r0 = r0 \<and> r2; r0 = (r0 \<noteq> r4)
      in (r2, r0, r3, r1))"

definition bit_s2 :: "bquad \<Rightarrow> bquad" where
  "bit_s2 x =
     (let (r0, r1, r2, r3) = x;
          r4 = r0; r0 = r0 \<and> r2; r0 = (r0 \<noteq> r3); r2 = (r2 \<noteq> r1); r2 = (r2 \<noteq> r0);
          r3 = r3 \<or> r4; r3 = (r3 \<noteq> r1); r4 = (r4 \<noteq> r2); r1 = r3; r3 = r3 \<or> r4; r3 = (r3 \<noteq> r0);
          r0 = r0 \<and> r1; r4 = (r4 \<noteq> r0); r1 = (r1 \<noteq> r3); r1 = (r1 \<noteq> r4); r4 = \<not> r4
      in (r2, r3, r1, r4))"

definition bit_s3 :: "bquad \<Rightarrow> bquad" where
  "bit_s3 x =
     (let (r0, r1, r2, r3) = x;
          r4 = r0; r0 = r0 \<or> r3; r3 = (r3 \<noteq> r1); r1 = r1 \<and> r4; r4 = (r4 \<noteq> r2);
          r2 = (r2 \<noteq> r3); r3 = r3 \<and> r0; r4 = r4 \<or> r1; r3 = (r3 \<noteq> r4); r0 = (r0 \<noteq> r1);
          r4 = r4 \<and> r0; r1 = (r1 \<noteq> r3); r4 = (r4 \<noteq> r2); r1 = r1 \<or> r0; r1 = (r1 \<noteq> r2);
          r0 = (r0 \<noteq> r3); r2 = r1; r1 = r1 \<or> r3; r1 = (r1 \<noteq> r0)
      in (r1, r2, r3, r4))"

definition bit_s4 :: "bquad \<Rightarrow> bquad" where
  "bit_s4 x =
     (let (r0, r1, r2, r3) = x;
          r1 = (r1 \<noteq> r3); r3 = \<not> r3; r2 = (r2 \<noteq> r3); r3 = (r3 \<noteq> r0); r4 = r1; r1 = r1 \<and> r3;
          r1 = (r1 \<noteq> r2); r4 = (r4 \<noteq> r3); r0 = (r0 \<noteq> r4); r2 = r2 \<and> r4; r2 = (r2 \<noteq> r0);
          r0 = r0 \<and> r1; r3 = (r3 \<noteq> r0); r4 = r4 \<or> r1; r4 = (r4 \<noteq> r0); r0 = r0 \<or> r3;
          r0 = (r0 \<noteq> r2); r2 = r2 \<and> r3; r0 = \<not> r0; r4 = (r4 \<noteq> r2)
      in (r1, r4, r0, r3))"

definition bit_s5 :: "bquad \<Rightarrow> bquad" where
  "bit_s5 x =
     (let (r0, r1, r2, r3) = x;
          r0 = (r0 \<noteq> r1); r1 = (r1 \<noteq> r3); r3 = \<not> r3; r4 = r1; r1 = r1 \<and> r0; r2 = (r2 \<noteq> r3);
          r1 = (r1 \<noteq> r2); r2 = r2 \<or> r4; r4 = (r4 \<noteq> r3); r3 = r3 \<and> r1; r3 = (r3 \<noteq> r0);
          r4 = (r4 \<noteq> r1); r4 = (r4 \<noteq> r2); r2 = (r2 \<noteq> r0); r0 = r0 \<and> r3; r2 = \<not> r2;
          r0 = (r0 \<noteq> r4); r4 = r4 \<or> r3; r2 = (r2 \<noteq> r4)
      in (r1, r3, r0, r2))"

definition bit_s6 :: "bquad \<Rightarrow> bquad" where
  "bit_s6 x =
     (let (r0, r1, r2, r3) = x;
          r2 = \<not> r2; r4 = r3; r3 = r3 \<and> r0; r0 = (r0 \<noteq> r4); r3 = (r3 \<noteq> r2); r2 = r2 \<or> r4;
          r1 = (r1 \<noteq> r3); r2 = (r2 \<noteq> r0); r0 = r0 \<or> r1; r2 = (r2 \<noteq> r1); r4 = (r4 \<noteq> r0);
          r0 = r0 \<or> r3; r0 = (r0 \<noteq> r2); r4 = (r4 \<noteq> r3); r4 = (r4 \<noteq> r0); r3 = \<not> r3;
          r2 = r2 \<and> r4; r2 = (r2 \<noteq> r3)
      in (r0, r1, r4, r2))"

definition bit_s7 :: "bquad \<Rightarrow> bquad" where
  "bit_s7 x =
     (let (r0, r1, r2, r3) = x;
          r4 = r1; r1 = r1 \<or> r2; r1 = (r1 \<noteq> r3); r4 = (r4 \<noteq> r2); r2 = (r2 \<noteq> r1); r3 = r3 \<or> r4;
          r3 = r3 \<and> r0; r4 = (r4 \<noteq> r2); r3 = (r3 \<noteq> r1); r1 = r1 \<or> r4; r1 = (r1 \<noteq> r0);
          r0 = r0 \<or> r4; r0 = (r0 \<noteq> r2); r1 = (r1 \<noteq> r4); r2 = (r2 \<noteq> r1); r1 = r1 \<and> r0;
          r1 = (r1 \<noteq> r4); r2 = \<not> r2; r2 = r2 \<or> r0; r4 = (r4 \<noteq> r2)
      in (r4, r3, r1, r0))"

definition bit_si0 :: "bquad \<Rightarrow> bquad" where
  "bit_si0 x =
     (let (r0, r1, r2, r3) = x;
          r2 = \<not> r2; r4 = r1; r1 = r1 \<or> r0; r4 = \<not> r4; r1 = (r1 \<noteq> r2); r2 = r2 \<or> r4;
          r1 = (r1 \<noteq> r3); r0 = (r0 \<noteq> r4); r2 = (r2 \<noteq> r0); r0 = r0 \<and> r3; r4 = (r4 \<noteq> r0);
          r0 = r0 \<or> r1; r0 = (r0 \<noteq> r2); r3 = (r3 \<noteq> r4); r2 = (r2 \<noteq> r1); r3 = (r3 \<noteq> r0);
          r3 = (r3 \<noteq> r1); r2 = r2 \<and> r3; r4 = (r4 \<noteq> r2)
      in (r0, r4, r1, r3))"

definition bit_si1 :: "bquad \<Rightarrow> bquad" where
  "bit_si1 x =
     (let (r0, r1, r2, r3) = x;
          r4 = r1; r1 = (r1 \<noteq> r3); r3 = r3 \<and> r1; r4 = (r4 \<noteq> r2); r3 = (r3 \<noteq> r0);
          r0 = r0 \<or> r1; r2 = (r2 \<noteq> r3); r0 = (r0 \<noteq> r4); r0 = r0 \<or> r2; r1 = (r1 \<noteq> r3);
          r0 = (r0 \<noteq> r1); r1 = r1 \<or> r3; r1 = (r1 \<noteq> r0); r4 = \<not> r4; r4 = (r4 \<noteq> r1);
          r1 = r1 \<or> r0; r1 = (r1 \<noteq> r0); r1 = r1 \<or> r4; r3 = (r3 \<noteq> r1)
      in (r4, r0, r3, r2))"

definition bit_si2 :: "bquad \<Rightarrow> bquad" where
  "bit_si2 x =
     (let (r0, r1, r2, r3) = x;
          r2 = (r2 \<noteq> r3); r3 = (r3 \<noteq> r0); r4 = r3; r3 = r3 \<and> r2; r3 = (r3 \<noteq> r1);
          r1 = r1 \<or> r2; r1 = (r1 \<noteq> r4); r4 = r4 \<and> r3; r2 = (r2 \<noteq> r3); r4 = r4 \<and> r0;
          r4 = (r4 \<noteq> r2); r2 = r2 \<and> r1; r2 = r2 \<or> r0; r3 = \<not> r3; r2 = (r2 \<noteq> r3);
          r0 = (r0 \<noteq> r3); r0 = r0 \<and> r1; r3 = (r3 \<noteq> r4); r3 = (r3 \<noteq> r0)
      in (r1, r4, r2, r3))"

definition bit_si3 :: "bquad \<Rightarrow> bquad" where
  "bit_si3 x =
     (let (r0, r1, r2, r3) = x;
          r4 = r2; r2 = (r2 \<noteq> r1); r0 = (r0 \<noteq> r2); r4 = r4 \<and> r2; r4 = (r4 \<noteq> r0);
          r0 = r0 \<and> r1; r1 = (r1 \<noteq> r3); r3 = r3 \<or> r4; r2 = (r2 \<noteq> r3); r0 = (r0 \<noteq> r3);
          r1 = (r1 \<noteq> r4); r3 = r3 \<and> r2; r3 = (r3 \<noteq> r1); r1 = (r1 \<noteq> r0); r1 = r1 \<or> r2;
          r0 = (r0 \<noteq> r3); r1 = (r1 \<noteq> r4); r0 = (r0 \<noteq> r1)
      in (r2, r1, r3, r0))"

definition bit_si4 :: "bquad \<Rightarrow> bquad" where
  "bit_si4 x =
     (let (r0, r1, r2, r3) = x;
          r4 = r2; r2 = r2 \<and> r3; r2 = (r2 \<noteq> r1); r1 = r1 \<or> r3; r1 = r1 \<and> r0;
          r4 = (r4 \<noteq> r2); r4 = (r4 \<noteq> r1); r1 = r1 \<and> r2; r0 = \<not> r0; r3 = (r3 \<noteq> r4);
          r1 = (r1 \<noteq> r3); r3 = r3 \<and> r0; r3 = (r3 \<noteq> r2); r0 = (r0 \<noteq> r1); r2 = r2 \<and> r0;
          r3 = (r3 \<noteq> r0); r2 = (r2 \<noteq> r4); r2 = r2 \<or> r3; r3 = (r3 \<noteq> r0); r2 = (r2 \<noteq> r1)
      in (r0, r3, r2, r4))"

definition bit_si5 :: "bquad \<Rightarrow> bquad" where
  "bit_si5 x =
     (let (r0, r1, r2, r3) = x;
          r1 = \<not> r1; r4 = r3; r2 = (r2 \<noteq> r1); r3 = r3 \<or> r0; r3 = (r3 \<noteq> r2); r2 = r2 \<or> r1;
          r2 = r2 \<and> r0; r4 = (r4 \<noteq> r3); r2 = (r2 \<noteq> r4); r4 = r4 \<or> r0; r4 = (r4 \<noteq> r1);
          r1 = r1 \<and> r2; r1 = (r1 \<noteq> r3); r4 = (r4 \<noteq> r2); r3 = r3 \<and> r4; r4 = (r4 \<noteq> r1);
          r3 = (r3 \<noteq> r4); r4 = \<not> r4; r3 = (r3 \<noteq> r0)
      in (r1, r4, r3, r2))"

definition bit_si6 :: "bquad \<Rightarrow> bquad" where
  "bit_si6 x =
     (let (r0, r1, r2, r3) = x;
          r0 = (r0 \<noteq> r2); r4 = r2; r2 = r2 \<and> r0; r4 = (r4 \<noteq> r3); r2 = \<not> r2; r3 = (r3 \<noteq> r1);
          r2 = (r2 \<noteq> r3); r4 = r4 \<or> r0; r0 = (r0 \<noteq> r2); r3 = (r3 \<noteq> r4); r4 = (r4 \<noteq> r1);
          r1 = r1 \<and> r3; r1 = (r1 \<noteq> r0); r0 = (r0 \<noteq> r3); r0 = r0 \<or> r2; r3 = (r3 \<noteq> r1);
          r4 = (r4 \<noteq> r0)
      in (r1, r2, r4, r3))"

definition bit_si7 :: "bquad \<Rightarrow> bquad" where
  "bit_si7 x =
     (let (r0, r1, r2, r3) = x;
          r4 = r2; r2 = (r2 \<noteq> r0); r0 = r0 \<and> r3; r4 = r4 \<or> r3; r2 = \<not> r2; r3 = (r3 \<noteq> r1);
          r1 = r1 \<or> r0; r0 = (r0 \<noteq> r2); r2 = r2 \<and> r4; r3 = r3 \<and> r4; r1 = (r1 \<noteq> r2);
          r2 = (r2 \<noteq> r0); r0 = r0 \<or> r2; r4 = (r4 \<noteq> r1); r0 = (r0 \<noteq> r3); r3 = (r3 \<noteq> r4);
          r4 = r4 \<or> r0; r3 = (r3 \<noteq> r2); r4 = (r4 \<noteq> r2)
      in (r3, r0, r1, r4))"

fun at :: "nat \<Rightarrow> quad \<Rightarrow> bquad" where
  "at n (a, b, c, d) = (bit a n, bit b n, bit c n, bit d n)"

lemma quad_eqI: "(\<And>n. n < 32 \<Longrightarrow> at n x = at n y) \<Longrightarrow> x = y"
  by (cases x; cases y) (auto intro!: bit_word_eqI)

lemma bit_not_32: "n < 32 \<Longrightarrow> bit (NOT (x :: u32)) n = (\<not> bit x n)"
  by (simp add: bit_not_iff)

lemmas bits32 = bit_xor_iff bit_or_iff bit_and_iff bit_not_32

text \<open>The published substitution of a nibble, whose bit \<open>i\<close> is the bit of word \<open>i\<close>.\<close>

fun nibble :: "bquad \<Rightarrow> nat" where
  "nibble (a, b, c, d) = of_bool a + 2 * of_bool b + 4 * of_bool c + 8 * of_bool d"

definition serpent_standard :: "nat list list" where
  "serpent_standard =
    [[3, 8, 15, 1, 10, 6, 5, 11, 14, 13, 4, 2, 7, 0, 9, 12],
     [15, 12, 2, 7, 9, 0, 5, 10, 1, 11, 14, 8, 6, 13, 3, 4],
     [8, 6, 7, 9, 3, 12, 10, 15, 13, 1, 14, 4, 0, 11, 5, 2],
     [0, 15, 11, 8, 12, 9, 6, 3, 13, 1, 2, 4, 10, 7, 5, 14],
     [1, 15, 8, 3, 12, 0, 11, 6, 2, 5, 4, 10, 9, 14, 7, 13],
     [15, 5, 2, 11, 4, 10, 9, 12, 0, 3, 14, 8, 13, 6, 7, 1],
     [7, 2, 12, 5, 8, 4, 6, 11, 14, 9, 1, 15, 13, 3, 10, 0],
     [1, 13, 15, 0, 14, 8, 2, 11, 7, 4, 12, 10, 9, 3, 5, 6]]"

lemma at_s0: "n < 32 \<Longrightarrow> at n (serpent_s0 x) = bit_s0 (at n x)" "n < 32 \<Longrightarrow> at n (serpent_si0 x) = bit_si0 (at n x)"
  by (cases x, simp only: serpent_s0_def bit_s0_def Let_def prod.case at.simps bits32)
    (cases x, simp only: serpent_si0_def bit_si0_def Let_def prod.case at.simps bits32)

lemma bit_si0_s0: "bit_si0 (bit_s0 x) = x" "bit_s0 (bit_si0 x) = x" "nibble (bit_s0 x) = serpent_standard ! 0 ! nibble x"
  by (cases x rule: prod_cases4, rename_tac a b c d, case_tac a; case_tac b; case_tac c; case_tac d;
    simp add: bit_s0_def bit_si0_def Let_def serpent_standard_def)+

lemma at_s1: "n < 32 \<Longrightarrow> at n (serpent_s1 x) = bit_s1 (at n x)" "n < 32 \<Longrightarrow> at n (serpent_si1 x) = bit_si1 (at n x)"
  by (cases x, simp only: serpent_s1_def bit_s1_def Let_def prod.case at.simps bits32)
    (cases x, simp only: serpent_si1_def bit_si1_def Let_def prod.case at.simps bits32)

lemma bit_si1_s1: "bit_si1 (bit_s1 x) = x" "bit_s1 (bit_si1 x) = x" "nibble (bit_s1 x) = serpent_standard ! 1 ! nibble x"
  by (cases x rule: prod_cases4, rename_tac a b c d, case_tac a; case_tac b; case_tac c; case_tac d;
    simp add: bit_s1_def bit_si1_def Let_def serpent_standard_def)+

lemma at_s2: "n < 32 \<Longrightarrow> at n (serpent_s2 x) = bit_s2 (at n x)" "n < 32 \<Longrightarrow> at n (serpent_si2 x) = bit_si2 (at n x)"
  by (cases x, simp only: serpent_s2_def bit_s2_def Let_def prod.case at.simps bits32)
    (cases x, simp only: serpent_si2_def bit_si2_def Let_def prod.case at.simps bits32)

lemma bit_si2_s2: "bit_si2 (bit_s2 x) = x" "bit_s2 (bit_si2 x) = x" "nibble (bit_s2 x) = serpent_standard ! 2 ! nibble x"
  by (cases x rule: prod_cases4, rename_tac a b c d, case_tac a; case_tac b; case_tac c; case_tac d;
    simp add: bit_s2_def bit_si2_def Let_def serpent_standard_def)+

lemma at_s3: "n < 32 \<Longrightarrow> at n (serpent_s3 x) = bit_s3 (at n x)" "n < 32 \<Longrightarrow> at n (serpent_si3 x) = bit_si3 (at n x)"
  by (cases x, simp only: serpent_s3_def bit_s3_def Let_def prod.case at.simps bits32)
    (cases x, simp only: serpent_si3_def bit_si3_def Let_def prod.case at.simps bits32)

lemma bit_si3_s3: "bit_si3 (bit_s3 x) = x" "bit_s3 (bit_si3 x) = x" "nibble (bit_s3 x) = serpent_standard ! 3 ! nibble x"
  by (cases x rule: prod_cases4, rename_tac a b c d, case_tac a; case_tac b; case_tac c; case_tac d;
    simp add: bit_s3_def bit_si3_def Let_def serpent_standard_def)+

lemma at_s4: "n < 32 \<Longrightarrow> at n (serpent_s4 x) = bit_s4 (at n x)" "n < 32 \<Longrightarrow> at n (serpent_si4 x) = bit_si4 (at n x)"
  by (cases x, simp only: serpent_s4_def bit_s4_def Let_def prod.case at.simps bits32)
    (cases x, simp only: serpent_si4_def bit_si4_def Let_def prod.case at.simps bits32)

lemma bit_si4_s4: "bit_si4 (bit_s4 x) = x" "bit_s4 (bit_si4 x) = x" "nibble (bit_s4 x) = serpent_standard ! 4 ! nibble x"
  by (cases x rule: prod_cases4, rename_tac a b c d, case_tac a; case_tac b; case_tac c; case_tac d;
    simp add: bit_s4_def bit_si4_def Let_def serpent_standard_def)+

lemma at_s5: "n < 32 \<Longrightarrow> at n (serpent_s5 x) = bit_s5 (at n x)" "n < 32 \<Longrightarrow> at n (serpent_si5 x) = bit_si5 (at n x)"
  by (cases x, simp only: serpent_s5_def bit_s5_def Let_def prod.case at.simps bits32)
    (cases x, simp only: serpent_si5_def bit_si5_def Let_def prod.case at.simps bits32)

lemma bit_si5_s5: "bit_si5 (bit_s5 x) = x" "bit_s5 (bit_si5 x) = x" "nibble (bit_s5 x) = serpent_standard ! 5 ! nibble x"
  by (cases x rule: prod_cases4, rename_tac a b c d, case_tac a; case_tac b; case_tac c; case_tac d;
    simp add: bit_s5_def bit_si5_def Let_def serpent_standard_def)+

lemma at_s6: "n < 32 \<Longrightarrow> at n (serpent_s6 x) = bit_s6 (at n x)" "n < 32 \<Longrightarrow> at n (serpent_si6 x) = bit_si6 (at n x)"
  by (cases x, simp only: serpent_s6_def bit_s6_def Let_def prod.case at.simps bits32)
    (cases x, simp only: serpent_si6_def bit_si6_def Let_def prod.case at.simps bits32)

lemma bit_si6_s6: "bit_si6 (bit_s6 x) = x" "bit_s6 (bit_si6 x) = x" "nibble (bit_s6 x) = serpent_standard ! 6 ! nibble x"
  by (cases x rule: prod_cases4, rename_tac a b c d, case_tac a; case_tac b; case_tac c; case_tac d;
    simp add: bit_s6_def bit_si6_def Let_def serpent_standard_def)+

lemma at_s7: "n < 32 \<Longrightarrow> at n (serpent_s7 x) = bit_s7 (at n x)" "n < 32 \<Longrightarrow> at n (serpent_si7 x) = bit_si7 (at n x)"
  by (cases x, simp only: serpent_s7_def bit_s7_def Let_def prod.case at.simps bits32)
    (cases x, simp only: serpent_si7_def bit_si7_def Let_def prod.case at.simps bits32)

lemma bit_si7_s7: "bit_si7 (bit_s7 x) = x" "bit_s7 (bit_si7 x) = x" "nibble (bit_s7 x) = serpent_standard ! 7 ! nibble x"
  by (cases x rule: prod_cases4, rename_tac a b c d, case_tac a; case_tac b; case_tac c; case_tac d;
    simp add: bit_s7_def bit_si7_def Let_def serpent_standard_def)+

section \<open>The substitutions are inverse to each other\<close>

lemma serpent_inverse [simp]:
  "serpent_si0 (serpent_s0 x) = x" "serpent_s0 (serpent_si0 x) = x"
  "serpent_si1 (serpent_s1 x) = x" "serpent_s1 (serpent_si1 x) = x"
  "serpent_si2 (serpent_s2 x) = x" "serpent_s2 (serpent_si2 x) = x"
  "serpent_si3 (serpent_s3 x) = x" "serpent_s3 (serpent_si3 x) = x"
  "serpent_si4 (serpent_s4 x) = x" "serpent_s4 (serpent_si4 x) = x"
  "serpent_si5 (serpent_s5 x) = x" "serpent_s5 (serpent_si5 x) = x"
  "serpent_si6 (serpent_s6 x) = x" "serpent_s6 (serpent_si6 x) = x"
  "serpent_si7 (serpent_s7 x) = x" "serpent_s7 (serpent_si7 x) = x"
  by (rule quad_eqI, simp add: at_s0 bit_si0_s0 at_s1 bit_si1_s1 at_s2 bit_si2_s2 at_s3 bit_si3_s3 at_s4 bit_si4_s4 at_s5 bit_si5_s5 at_s6 bit_si6_s6 at_s7 bit_si7_s7)+

end
