(* ===== verification/Serpent.thy ===== *)
theory Serpent
  imports Serpent_Boxes
begin

text \<open>
  Serpent (\<^verbatim>\<open>impl/block/serpent/serpent-impl.cc\<close>) over the substitutions of \<open>Serpent_Boxes\<close>.
  The context is the array \<^verbatim>\<open>m_keybuf\<close> of 140 words, of which \<^verbatim>\<open>m_key\<close> points to the
  ninth; offsets of \<^verbatim>\<open>m_key\<close> are written \<open>8 + k\<close>. The copy of a key whose length is no multiple
  of four is the one of a little-endian machine.
\<close>

section \<open>The key schedule\<close>

definition words_at :: "u32 list \<Rightarrow> nat \<Rightarrow> quad" where
  "words_at w n = (w ! n, w ! (n + 1), w ! (n + 2), w ! (n + 3))"

definition serpent_sub :: "(quad \<Rightarrow> quad) \<Rightarrow> nat \<Rightarrow> u32 list \<Rightarrow> u32 list" where
  "serpent_sub s n w =
     (let (a, b, c, d) = s (words_at w n) in w[n := a, n + 1 := b, n + 2 := c, n + 3 := d])"

definition serpent_phi :: u32 where
  "serpent_phi = 0x9e3779b9"

text \<open>The array with the bytes of the key, and the bit that ends a short one.\<close>

definition serpent_key_bytes :: "byte list \<Rightarrow> u32 list" where
  "serpent_key_bytes key =
     (let m = load_words Little (put_bytes 0 key (replicate 560 0)); len = length key
      in if len < 32 then m[len div 4 := m ! (len div 4) OR push_bit ((len AND 3) * 8) 1] else m)"

definition serpent_prekey_step :: "nat \<Rightarrow> u32 list \<Rightarrow> u32 list" where
  "serpent_prekey_step i m =
     (let w = 8 + i
      in m[w := RotateLeft (m ! (w - 8) XOR m ! (w - 5) XOR m ! (w - 3) XOR m ! (w - 1) XOR serpent_phi XOR of_nat i) 11])"

definition serpent_sub_keys :: "nat \<Rightarrow> u32 list \<Rightarrow> u32 list" where
  "serpent_sub_keys w m =
     (let m = serpent_sub serpent_s3 (w + 0) m;
          m = serpent_sub serpent_s2 (w + 4) m;
          m = serpent_sub serpent_s1 (w + 8) m;
          m = serpent_sub serpent_s0 (w + 12) m;
          m = serpent_sub serpent_s7 (w + 16) m;
          m = serpent_sub serpent_s6 (w + 20) m;
          m = serpent_sub serpent_s5 (w + 24) m;
          m = serpent_sub serpent_s4 (w + 28) m
      in m)"

text \<open>Nothing of the old array is left. A key that is longer than the array is \<open>None\<close>.\<close>

definition Serpent_SetKeyInternal :: "byte list \<Rightarrow> u32 list \<Rightarrow> u32 list option" where
  "Serpent_SetKeyInternal key m_keybuf =
     (if 560 < length key then None
      else let m = serpent_key_bytes key;
               m = fold serpent_prekey_step [0..<132] m;
               m = fold (\<lambda>i. serpent_sub_keys (8 + 32 * i)) [0..<4] m
           in Some (serpent_sub serpent_s3 (8 + 128) m))"

section \<open>The cipher\<close>

definition serpent_xor :: "u32 list \<Rightarrow> nat \<Rightarrow> quad \<Rightarrow> quad" where
  "serpent_xor m k b =
     (let (b0, b1, b2, b3) = b; (k0, k1, k2, k3) = words_at m (8 + k)
      in (b0 XOR k0, b1 XOR k1, b2 XOR k2, b3 XOR k3))"

definition serpent_eround :: "u32 list \<Rightarrow> nat \<Rightarrow> (quad \<Rightarrow> quad) \<Rightarrow> quad \<Rightarrow> quad" where
  "serpent_eround m k s b =
     (let (b0, b1, b2, b3) = s (serpent_xor m k b);
          b0 = RotateLeft b0 13;
          b2 = RotateLeft b2 3;
          b1 = RotateLeft (b1 XOR b2 XOR b0) 1;
          b3 = RotateLeft (b3 XOR b2 XOR push_bit 3 b0) 7;
          b0 = RotateLeft (b0 XOR b3 XOR b1) 5;
          b2 = RotateLeft (b2 XOR b3 XOR push_bit 7 b1) 22
      in (b0, b1, b2, b3))"

definition serpent_dround :: "u32 list \<Rightarrow> nat \<Rightarrow> (quad \<Rightarrow> quad) \<Rightarrow> quad \<Rightarrow> quad" where
  "serpent_dround m k s b =
     (let (b0, b1, b2, b3) = b;
          b2 = RotateRight b2 22;
          b0 = RotateRight b0 5;
          b2 = b2 XOR (b3 XOR push_bit 7 b1);
          b0 = b0 XOR (b1 XOR b3);
          b3 = RotateRight b3 7;
          b1 = RotateRight b1 1;
          b3 = b3 XOR (b2 XOR push_bit 3 b0);
          b1 = b1 XOR (b0 XOR b2);
          b2 = RotateRight b2 3;
          b0 = RotateRight b0 13
      in serpent_xor m k (s (b0, b1, b2, b3)))"

definition serpent_load :: "byte list \<Rightarrow> quad" where
  "serpent_load inp = (let b = load_words Little (take 16 inp) in (b ! 0, b ! 1, b ! 2, b ! 3))"

definition serpent_store :: "quad \<Rightarrow> byte list" where
  "serpent_store b = (let (b0, b1, b2, b3) = b in store_words Little [b0, b1, b2, b3])"

text \<open>One iteration of each loop; the last one of \<^verbatim>\<open>Encrypt\<close> and the first one of \<^verbatim>\<open>Decrypt\<close>
  leave a round out.\<close>

definition serpent_enc_step :: "u32 list \<Rightarrow> nat \<Rightarrow> quad \<Rightarrow> quad" where
  "serpent_enc_step m i b =
     (let k = 32 * i;
          b = serpent_eround m (k + 0) serpent_s0 b;
          b = serpent_eround m (k + 4) serpent_s1 b;
          b = serpent_eround m (k + 8) serpent_s2 b;
          b = serpent_eround m (k + 12) serpent_s3 b;
          b = serpent_eround m (k + 16) serpent_s4 b;
          b = serpent_eround m (k + 20) serpent_s5 b;
          b = serpent_eround m (k + 24) serpent_s6 b
      in if i = 3 then b else serpent_eround m (k + 28) serpent_s7 b)"

definition serpent_dec_step :: "u32 list \<Rightarrow> nat \<Rightarrow> quad \<Rightarrow> quad" where
  "serpent_dec_step m i b =
     (let k = (128 - 32) - 32 * i;
          b = (if i \<noteq> 0 then serpent_dround m (k + 28) serpent_si7 b else b);
          b = serpent_dround m (k + 24) serpent_si6 b;
          b = serpent_dround m (k + 20) serpent_si5 b;
          b = serpent_dround m (k + 16) serpent_si4 b;
          b = serpent_dround m (k + 12) serpent_si3 b;
          b = serpent_dround m (k + 8) serpent_si2 b;
          b = serpent_dround m (k + 4) serpent_si1 b;
          b = serpent_dround m (k + 0) serpent_si0 b
      in b)"

definition Serpent_Encrypt :: "u32 list \<Rightarrow> byte list \<Rightarrow> byte list" where
  "Serpent_Encrypt m inp =
     (let b = serpent_load inp;
          b = fold (serpent_enc_step m) [0..<4] b;
          b = serpent_xor m (96 + 28) b;
          b = serpent_s7 b;
          b = serpent_xor m (96 + 32) b
      in serpent_store b)"

definition Serpent_Decrypt :: "u32 list \<Rightarrow> byte list \<Rightarrow> byte list" where
  "Serpent_Decrypt m inp =
     (let b = serpent_load inp;
          b = serpent_xor m 128 b;
          b = serpent_si7 b;
          b = serpent_xor m 124 b
      in serpent_store (fold (serpent_dec_step m) [0..<4] b))"

text \<open>What Sosemanuk uses: one substitution, and 24 rounds with the states after 12, 18 and 24.\<close>

definition Serpent1 :: "quad \<Rightarrow> quad" where
  "Serpent1 blk = serpent_s2 blk"

definition Serpent24 :: "u32 list \<Rightarrow> byte list \<Rightarrow> quad \<times> quad \<times> quad" where
  "Serpent24 m inp =
     (let b = serpent_load inp;
          r = (\<lambda>k s. serpent_eround m k s);
          b = r 0 serpent_s0 b; b = r 4 serpent_s1 b; b = r 8 serpent_s2 b; b = r 12 serpent_s3 b;
          b = r 16 serpent_s4 b; b = r 20 serpent_s5 b; b = r 24 serpent_s6 b; b = r 28 serpent_s7 b;
          b = r 32 serpent_s0 b; b = r 36 serpent_s1 b; b = r 40 serpent_s2 b; b = r 44 serpent_s3 b;
          out0 = b;
          b = r 48 serpent_s4 b; b = r 52 serpent_s5 b; b = r 56 serpent_s6 b; b = r 60 serpent_s7 b;
          b = r 64 serpent_s0 b; b = r 68 serpent_s1 b;
          out1 = b;
          b = r 72 serpent_s2 b; b = r 76 serpent_s3 b; b = r 80 serpent_s4 b; b = r 84 serpent_s5 b;
          b = r 88 serpent_s6 b; b = r 92 serpent_s7 b
      in (out0, out1, serpent_xor m 96 b))"

section \<open>Decryption undoes encryption\<close>

lemma serpent_xor_twice [simp]: "serpent_xor m k (serpent_xor m k b) = b"
  by (simp add: serpent_xor_def words_at_def split: prod.splits)

lemma xor_cancel_left [simp]: "(a XOR b) XOR (b XOR a) = (0 :: 'a::len word)"
  by (simp add: ac_simps)

lemma dround_eround:
  assumes "\<And>x. s' (s x) = x"
  shows "serpent_dround m k s' (serpent_eround m k s b) = b"
proof -
  obtain b0 b1 b2 b3 where b: "s (serpent_xor m k b) = (b0, b1, b2, b3)" by (metis prod_cases4)
  have "serpent_dround m k s' (serpent_eround m k s b) = serpent_xor m k (s' (s (serpent_xor m k b)))"
    by (simp add: serpent_dround_def serpent_eround_def b Let_def ac_simps)
  then show ?thesis by (simp add: assms)
qed

lemma eround_dround:
  assumes "\<And>x. s (s' x) = x"
  shows "serpent_eround m k s (serpent_dround m k s' b) = b"
  by (cases b) (simp add: serpent_dround_def serpent_eround_def assms Let_def ac_simps)

lemmas serpent_rounds [simp] =
  dround_eround[of serpent_si0 serpent_s0, OF serpent_inverse(1)] eround_dround[of serpent_s0 serpent_si0, OF serpent_inverse(2)]
  dround_eround[of serpent_si1 serpent_s1, OF serpent_inverse(3)] eround_dround[of serpent_s1 serpent_si1, OF serpent_inverse(4)]
  dround_eround[of serpent_si2 serpent_s2, OF serpent_inverse(5)] eround_dround[of serpent_s2 serpent_si2, OF serpent_inverse(6)]
  dround_eround[of serpent_si3 serpent_s3, OF serpent_inverse(7)] eround_dround[of serpent_s3 serpent_si3, OF serpent_inverse(8)]
  dround_eround[of serpent_si4 serpent_s4, OF serpent_inverse(9)] eround_dround[of serpent_s4 serpent_si4, OF serpent_inverse(10)]
  dround_eround[of serpent_si5 serpent_s5, OF serpent_inverse(11)] eround_dround[of serpent_s5 serpent_si5, OF serpent_inverse(12)]
  dround_eround[of serpent_si6 serpent_s6, OF serpent_inverse(13)] eround_dround[of serpent_s6 serpent_si6, OF serpent_inverse(14)]
  dround_eround[of serpent_si7 serpent_s7, OF serpent_inverse(15)] eround_dround[of serpent_s7 serpent_si7, OF serpent_inverse(16)]

lemma serpent_bytes:
  "serpent_load (serpent_store b) = b" "length b' = 16 \<Longrightarrow> serpent_store (serpent_load b') = b'" "length (serpent_store b) = 16"
  by (cases b, simp add: serpent_load_def serpent_store_def bytes_simps Let_def)
    (simp add: serpent_load_def serpent_store_def Let_def load_quad,
     cases b, simp add: serpent_load_def serpent_store_def bytes_simps Let_def)

lemma upt_four: "[0..<4] = [0, 1, 2, 3]"
  by (simp add: upt_rec)

lemma Serpent_Decrypt_Encrypt:
  "length b = 16 \<Longrightarrow> Serpent_Decrypt m (Serpent_Encrypt m b) = b"
  "length b = 16 \<Longrightarrow> Serpent_Encrypt m (Serpent_Decrypt m b) = b"
  by (simp_all add: Serpent_Decrypt_def Serpent_Encrypt_def Let_def serpent_bytes upt_four serpent_enc_step_def serpent_dec_step_def)

interpretation serpent: block_cipher 16 Serpent_Encrypt Serpent_Decrypt "\<lambda>_. True"
  by unfold_locales
    (simp_all add: Serpent_Decrypt_Encrypt, simp_all add: Serpent_Encrypt_def Serpent_Decrypt_def Let_def serpent_bytes)

section \<open>The key schedule is the published one\<close>

text \<open>Word \<open>i\<close> of the affine recurrence, the eight words of the padded key first, and the
  substitution that makes four of them round key \<open>g\<close>.\<close>

fun serpent_prekey :: "u32 list \<Rightarrow> nat \<Rightarrow> u32" where
  "serpent_prekey k i =
     (if i < 8 then k ! i
      else RotateLeft (serpent_prekey k (i - 8) XOR serpent_prekey k (i - 5) XOR serpent_prekey k (i - 3) XOR
             serpent_prekey k (i - 1) XOR serpent_phi XOR of_nat (i - 8)) 11)"

declare serpent_prekey.simps [simp del]

definition serpent_box :: "nat \<Rightarrow> quad \<Rightarrow> quad" where
  "serpent_box i = [serpent_s0, serpent_s1, serpent_s2, serpent_s3, serpent_s4, serpent_s5, serpent_s6, serpent_s7] ! i"

definition serpent_round_key :: "u32 list \<Rightarrow> nat \<Rightarrow> quad" where
  "serpent_round_key k g =
     (let w = (\<lambda>j. serpent_prekey k (8 + 4 * g + j)) in serpent_box ((35 - g) mod 8) (w 0, w 1, w 2, w 3))"

lemma length_serpent_key_bytes: "length key \<le> 560 \<Longrightarrow> length (serpent_key_bytes key) = 140"
  by (simp add: serpent_key_bytes_def Let_def bytes_simps put_bytes_def)

text \<open>The padding of the specification: one bit after the key, then zeros, up to 32 bytes. Of a longer key only the
  first 32 bytes count.\<close>

definition serpent_padded :: "byte list \<Rightarrow> u32 list" where
  "serpent_padded key = load_words Little (take 32 (key @ [1] @ replicate 31 0))"

lemma le_load_append: "le_load (xs @ ys) = (le_load xs OR push_bit (8 * length xs) (le_load ys) :: 'a::len word)"
  by (induction xs) (simp_all add: or.assoc add.commute)

lemma le_load_zeros: "le_load (replicate n 0) = 0"
  by (induction n) simp_all

lemma nat_and_3: "n AND 3 = n mod (4 :: nat)"
  using take_bit_eq_mask[of 2 n] by (simp add: take_bit_eq_mod mask_eq_exp_minus_1)

lemma take_four: "length ks < 4 \<Longrightarrow> 4 \<le> length ks + Suc m \<Longrightarrow> take 4 (ks @ b # replicate m 0) = ks @ b # replicate (3 - length ks) 0"
  by (auto simp: take_Cons' min_def)

lemma serpent_key_word:
  assumes "length key \<le> 560" "i < 8"
  shows "serpent_key_bytes key ! i = serpent_padded key ! i"
proof -
  let ?A = "key @ replicate (560 - length key) 0" and ?B = "key @ [1] @ replicate 31 0"
  let ?w = "\<lambda>xs. le_load (take 4 (drop (4 * i) xs)) :: u32"
  have A: "put_bytes 0 key (replicate 560 0) = ?A" by (simp add: put_bytes_def)
  define f where "f = (\<lambda>i. le_load (take 4 (drop (4 * i) ?A)) :: u32)"
  have wA: "(load_words Little ?A :: u32 list) = map f [0..<140]"
    unfolding f_def using chunks_upt[of 4 140 ?A] assms(1) by (simp add: load_words_def load_def o_def del: upt_rec_numeral)
  have "serpent_padded key ! i = ?w ?B"
    using chunks_upt[of 4 8 ?B] assms(2) by (simp add: serpent_padded_def load_words_def load_def del: upt_rec_numeral)
  moreover have "serpent_key_bytes key ! i = ?w ?B"
  proof (cases "length key < 32 \<and> i = length key div 4")
    case True
    define ks where "ks = drop (4 * i) key"
    have k: "length ks = length key mod 4" "length ks < 4"
      using True by (simp_all add: ks_def modulo_nat_def mult.commute)
    have d: "drop (4 * i) (key @ ys) = ks @ ys" for ys using True by (simp add: ks_def)
    have r: "replicate (560 - length key) 0 = (0 :: byte) # replicate (559 - length key) 0"
    proof -
      have "560 - length key = Suc (559 - length key)" using True by linarith
      then show ?thesis by simp
    qed
    have z: "take 4 (drop (4 * i) ?A) = ks @ 0 # replicate (3 - length ks) 0"
      unfolding d r using k True by (intro take_four) auto
    have o: "take 4 (drop (4 * i) ?B) = ks @ 1 # replicate (3 - length ks) 0"
      unfolding d append_Cons append_Nil using k by (intro take_four) auto
    have "?w ?B = ?w ?A OR push_bit (8 * length ks) 1"
      unfolding z o by (simp add: le_load_append le_load_zeros)
    then have "?w ?B = f i OR push_bit (8 * (length key mod 4)) 1" unfolding f_def k(1) .
    then show ?thesis
      using True assms(2) unfolding serpent_key_bytes_def A Let_def wA nat_and_3 by (simp add: mult.commute del: upt_rec_numeral)
  next
    case False
    have e: "take 4 (drop (4 * i) ?A) = take 4 (drop (4 * i) ?B)"
    proof (cases "4 * i + 4 \<le> length key")
      case True
      then show ?thesis by simp
    next
      case False
      then have "length key < 4 * i" using \<open>\<not> (length key < 32 \<and> i = length key div 4)\<close> assms(2) by linarith
      then show ?thesis using assms by (auto simp: drop_Cons')
    qed
    have "serpent_key_bytes key ! i = f i"
      using False assms(2) unfolding serpent_key_bytes_def A Let_def wA nat_and_3 by (auto simp: nth_list_update simp del: upt_rec_numeral)
    then show ?thesis unfolding f_def e .
  qed
  ultimately show ?thesis by simp
qed

lemma serpent_key_padded:
  assumes "length key \<le> 560"
  shows "take 8 (serpent_key_bytes key) = serpent_padded key"
proof (rule nth_equalityI)
  show "length (take 8 (serpent_key_bytes key)) = length (serpent_padded key)"
    using length_serpent_key_bytes[OF assms] by (simp add: serpent_padded_def bytes_simps)
qed (use serpent_key_word[OF assms] in simp)

lemma serpent_prekey_fold:
  assumes "length m = 140" "n \<le> 132"
  shows "length (fold serpent_prekey_step [0..<n] m) = 140 \<and>
    (\<forall>j<8 + n. fold serpent_prekey_step [0..<n] m ! j = serpent_prekey m j)"
  using assms(2)
proof (induction n)
  case 0
  then show ?case using assms(1) by (auto simp: serpent_prekey.simps)
next
  case (Suc n)
  let ?m = "fold serpent_prekey_step [0..<n] m"
  have l: "length ?m = 140" and e: "\<And>j. j < 8 + n \<Longrightarrow> ?m ! j = serpent_prekey m j" using Suc by simp_all
  have s: "fold serpent_prekey_step [0..<Suc n] m = ?m[8 + n := serpent_prekey m (8 + n)]"
    using e by (simp add: serpent_prekey_step_def Let_def serpent_prekey.simps[of m "8 + n"])
  show ?case unfolding s using l e Suc.prems by (auto simp: nth_list_update less_Suc_eq)
qed

lemma length_serpent_sub [simp]: "length (serpent_sub s n w) = length w"
  by (simp add: serpent_sub_def split: prod.split)

lemma words_at_sub:
  "n + 4 \<le> length w \<Longrightarrow> words_at (serpent_sub s n w) n = s (words_at w n)"
  "k + 4 \<le> n \<or> n + 4 \<le> k \<Longrightarrow> words_at (serpent_sub s n w) k = words_at w k"
  by (auto simp: serpent_sub_def words_at_def nth_list_update split: prod.split)

text \<open>The eight substitutions of an iteration, and the whole loop.\<close>

lemma length_sub_keys [simp]: "length (serpent_sub_keys w m) = length m"
  by (simp add: serpent_sub_keys_def Let_def)

lemma words_at_sub_keys:
  assumes "w + 32 \<le> length m" "j < 8"
  shows "words_at (serpent_sub_keys w m) (w + 4 * j) = serpent_box ((11 - j) mod 8) (words_at m (w + 4 * j))"
proof -
  from assms(2) have "j \<in> {0, 1, 2, 3, 4, 5, 6, 7}" by auto
  then show ?thesis using assms(1)
    by (elim insertE emptyE) (simp_all add: serpent_sub_keys_def Let_def words_at_sub serpent_box_def)
qed

lemma words_at_sub_keys_other:
  "k + 4 \<le> w \<or> w + 32 \<le> k \<Longrightarrow> words_at (serpent_sub_keys w m) k = words_at m k"
  by (auto simp: serpent_sub_keys_def Let_def words_at_sub)

lemma words_at_sub_loop:
  assumes "length m = 140" "n \<le> 4"
  shows "length (fold (\<lambda>i. serpent_sub_keys (8 + 32 * i)) [0..<n] m) = 140 \<and>
    words_at (fold (\<lambda>i. serpent_sub_keys (8 + 32 * i)) [0..<n] m) (8 + 4 * g) =
      (if g < 8 * n then serpent_box ((35 - g) mod 8) else id) (words_at m (8 + 4 * g))"
  using assms(2)
proof (induction n)
  case (Suc n)
  let ?m = "fold (\<lambda>i. serpent_sub_keys (8 + 32 * i)) [0..<n] m"
  have l: "length ?m = 140"
    and ih: "words_at ?m (8 + 4 * g) = (if g < 8 * n then serpent_box ((35 - g) mod 8) else id) (words_at m (8 + 4 * g))"
    using Suc by simp_all
  have f: "fold (\<lambda>i. serpent_sub_keys (8 + 32 * i)) [0..<Suc n] m = serpent_sub_keys (8 + 32 * n) ?m" by simp
  show ?case
  proof (cases "8 * n \<le> g \<and> g < 8 * Suc n")
    case True
    define j where "j = g - 8 * n"
    have j: "g = 8 * n + j" "j < 8" using True by (auto simp: j_def)
    have "(35 - g) mod 8 = (11 - j) mod 8"
    proof -
      have "35 - g = (11 - j) + 8 * (3 - n)" using j Suc.prems by auto
      then show ?thesis by simp
    qed
    moreover have "words_at (serpent_sub_keys (8 + 32 * n) ?m) (8 + 32 * n + 4 * j) =
        serpent_box ((11 - j) mod 8) (words_at ?m (8 + 32 * n + 4 * j))"
      using l Suc.prems j by (intro words_at_sub_keys) auto
    ultimately show ?thesis unfolding f using l ih True by (simp add: j(1) add.assoc)
  next
    case False
    then have "8 + 4 * g + 4 \<le> 8 + 32 * n \<or> 8 + 32 * n + 32 \<le> 8 + 4 * g" by auto
    then show ?thesis unfolding f using l ih False by (auto simp: words_at_sub_keys_other)
  qed
qed (simp add: assms(1))

theorem Serpent_key_schedule:
  assumes "g < 33" "Serpent_SetKeyInternal key m = Some w"
  shows "words_at w (8 + 4 * g) = serpent_round_key (serpent_padded key) g"
proof -
  have len: "length key \<le> 560" using assms(2) by (auto simp: Serpent_SetKeyInternal_def split: if_splits)
  let ?k = "serpent_key_bytes key"
  let ?p = "fold serpent_prekey_step [0..<132] ?k"
  let ?q = "fold (\<lambda>i. serpent_sub_keys (8 + 32 * i)) [0..<4] ?p"
  have p: "length ?p = 140" "\<And>j. j < 140 \<Longrightarrow> ?p ! j = serpent_prekey ?k j"
    using serpent_prekey_fold[OF length_serpent_key_bytes[OF len], of 132] by simp_all
  have "serpent_prekey (take 8 ?k) j = serpent_prekey ?k j" for j
  proof (induction j rule: less_induct)
    case (less j)
    then show ?case by (simp add: serpent_prekey.simps[of _ j])
  qed
  then have w: "words_at ?p (8 + 4 * g) = (let w = (\<lambda>j. serpent_prekey (serpent_padded key) (8 + 4 * g + j)) in (w 0, w 1, w 2, w 3))"
    using p(2) assms(1) serpent_key_padded[OF len] by (simp add: words_at_def Let_def)
  have q: "length ?q = 140"
    "words_at ?q (8 + 4 * g) = (if g < 32 then serpent_box ((35 - g) mod 8) else id) (words_at ?p (8 + 4 * g))"
    using words_at_sub_loop[OF p(1), of 4 g] by simp_all
  have set: "w = serpent_sub serpent_s3 (8 + 128) ?q"
    using assms(2) len by (simp add: Serpent_SetKeyInternal_def Let_def)
  show ?thesis
  proof (cases "g = 32")
    case True
    then show ?thesis using w q words_at_sub(1)[of "8 + 128" ?q serpent_s3]
      unfolding set by (simp add: serpent_round_key_def serpent_box_def Let_def)
  next
    case False
    then have "words_at w (8 + 4 * g) = words_at ?q (8 + 4 * g)"
      unfolding set using assms(1) by (intro words_at_sub(2)) auto
    also have "\<dots> = serpent_box ((35 - g) mod 8) (words_at ?p (8 + 4 * g))" using q(2) False assms(1) by simp
    finally show ?thesis unfolding w serpent_round_key_def Let_def .
  qed
qed

section \<open>The code computes the published cipher\<close>

lemma serpent_box_nth:
  "serpent_box 0 = serpent_s0" "serpent_box 1 = serpent_s1" "serpent_box 2 = serpent_s2" "serpent_box 3 = serpent_s3"
  "serpent_box 4 = serpent_s4" "serpent_box 5 = serpent_s5" "serpent_box 6 = serpent_s6" "serpent_box 7 = serpent_s7"
  by (simp_all add: serpent_box_def)

lemma serpent_box_standard:
  assumes "i < 8" "n < 32"
  shows "nibble (at n (serpent_box i x)) = serpent_standard ! i ! nibble (at n x)"
proof -
  from assms(1) have "i \<in> {0, 1, 2, 3, 4, 5, 6, 7}" by auto
  then show ?thesis using assms(2)
    by (elim insertE emptyE)
      (simp_all only: serpent_box_nth at_s0(1) at_s1(1) at_s2(1) at_s3(1) at_s4(1) at_s5(1) at_s6(1) at_s7(1)
        bit_si0_s0(3) bit_si1_s1(3) bit_si2_s2(3) bit_si3_s3(3) bit_si4_s4(3) bit_si5_s5(3) bit_si6_s6(3) bit_si7_s7(3))
qed

text \<open>The linear transformation, and the cipher for round keys \<open>K\<close>: 31 full rounds and a last one with
  a round key in its place.\<close>

fun serpent_linear :: "quad \<Rightarrow> quad" where
  "serpent_linear (a, b, c, d) =
     (let x0 = RotateLeft a 13; x2 = RotateLeft c 3;
          x1 = RotateLeft (b XOR x0 XOR x2) 1; x3 = RotateLeft (d XOR x2 XOR push_bit 3 x0) 7
      in (RotateLeft (x0 XOR x1 XOR x3) 5, x1, RotateLeft (x2 XOR x3 XOR push_bit 7 x1) 22, x3))"

fun quad_xor :: "quad \<Rightarrow> quad \<Rightarrow> quad" where
  "quad_xor (a, b, c, d) (a', b', c', d') = (a XOR a', b XOR b', c XOR c', d XOR d')"

definition serpent_cipher :: "(nat \<Rightarrow> quad) \<Rightarrow> quad \<Rightarrow> quad" where
  "serpent_cipher K x =
     (let x = fold (\<lambda>i x. serpent_linear (serpent_box (i mod 8) (quad_xor x (K i)))) [0..<31] x
      in quad_xor (serpent_box 7 (quad_xor x (K 31))) (K 32))"

lemma serpent_xor_quad: "serpent_xor m k b = quad_xor b (words_at m (8 + k))"
  by (cases b; cases "words_at m (8 + k)") (simp add: serpent_xor_def)

lemma serpent_eround_linear: "serpent_eround m k s b = serpent_linear (s (quad_xor b (words_at m (8 + k))))"
  by (cases "s (quad_xor b (words_at m (8 + k)))") (simp add: serpent_eround_def serpent_xor_quad Let_def ac_simps)

lemma serpent_rounds_31: "[0..<31] = [0, 1, 2, 3, 4, 5, 6, 7, 8, 9, 10, 11, 12, 13, 14, 15, 16, 17, 18, 19, 20, 21, 22, 23, 24, 25, 26, 27, 28, 29, 30]"
  by (simp add: upt_rec)

theorem Serpent_Encrypt_published:
  assumes "Serpent_SetKeyInternal key m = Some w"
  shows "Serpent_Encrypt w inp = serpent_store (serpent_cipher (serpent_round_key (serpent_padded key)) (serpent_load inp))"
proof -
  define K where "K = serpent_round_key (serpent_padded key)"
  have K: "words_at w (8 + 4 * g) = K g" if "g < 33" for g
    unfolding K_def by (rule Serpent_key_schedule[OF that assms])
  note [simp] = K[of 0, simplified] K[of 1, simplified] K[of 2, simplified] K[of 3, simplified] K[of 4, simplified] K[of 5, simplified]
    K[of 6, simplified] K[of 7, simplified] K[of 8, simplified] K[of 9, simplified] K[of 10, simplified] K[of 11, simplified]
    K[of 12, simplified] K[of 13, simplified] K[of 14, simplified] K[of 15, simplified] K[of 16, simplified] K[of 17, simplified]
    K[of 18, simplified] K[of 19, simplified] K[of 20, simplified] K[of 21, simplified] K[of 22, simplified] K[of 23, simplified]
    K[of 24, simplified] K[of 25, simplified] K[of 26, simplified] K[of 27, simplified] K[of 28, simplified] K[of 29, simplified]
    K[of 30, simplified] K[of 31, simplified] K[of 32, simplified]
  show ?thesis
    unfolding K_def[symmetric]
    by (simp add: Serpent_Encrypt_def serpent_cipher_def serpent_enc_step_def serpent_eround_linear serpent_xor_quad Let_def
        upt_four serpent_rounds_31 serpent_box_nth serpent_box_nth(2)[unfolded One_nat_def] del: serpent_linear.simps quad_xor.simps upt_rec_numeral)
qed

end
