(* ===== verification/TEA.thy ===== *)
theory TEA
  imports Block_Cipher
begin

text \<open>
  TEA (\<^verbatim>\<open>impl/block/tea/tea.cc\<close>) and XTEA (\<^verbatim>\<open>impl/block/xtea/xtea.cc\<close>).
  The key array \<^verbatim>\<open>m_k\<close> is a list of four words, and a key that does not fit it is \<open>None\<close>; the local array \<^verbatim>\<open>v\<close> is a pair.
\<close>

section \<open>TEA\<close>

record tea =
  tea_k :: "u32 list"

definition tea_delta :: u32 where
  "tea_delta = 0x9e3779b9"

definition TEA_SetKeyInternal :: "byte list \<Rightarrow> tea \<Rightarrow> tea option" where
  "TEA_SetKeyInternal key c = map_option (\<lambda>k. c\<lparr>tea_k := k\<rparr>) (Copy_array Big key (tea_k c))"

definition tea_mix :: "u32 \<Rightarrow> u32 \<Rightarrow> u32 \<Rightarrow> u32 \<Rightarrow> u32" where
  "tea_mix v ka kb sm = (push_bit 4 v + ka) XOR (v + sm) XOR (drop_bit 5 v + kb)"

fun tea_enc_step :: "u32 list \<Rightarrow> u32 \<times> u32 \<times> u32 \<Rightarrow> u32 \<times> u32 \<times> u32" where
  "tea_enc_step k (v0, v1, sm) =
     (let sm = sm + tea_delta;
          v0 = v0 + tea_mix v1 (k ! 0) (k ! 1) sm;
          v1 = v1 + tea_mix v0 (k ! 2) (k ! 3) sm
      in (v0, v1, sm))"

fun tea_dec_step :: "u32 list \<Rightarrow> u32 \<times> u32 \<times> u32 \<Rightarrow> u32 \<times> u32 \<times> u32" where
  "tea_dec_step k (v0, v1, sm) =
     (let v1 = v1 - tea_mix v0 (k ! 2) (k ! 3) sm;
          v0 = v0 - tea_mix v1 (k ! 0) (k ! 1) sm;
          sm = sm - tea_delta
      in (v0, v1, sm))"

definition TEA_Encrypt :: "tea \<Rightarrow> byte list \<Rightarrow> byte list" where
  "TEA_Encrypt c inp =
     (let v = load_words Big (take 8 inp);
          body = (\<lambda>s. tea_enc_step (tea_k c) (tea_enc_step (tea_k c) s));
          (v0, v1, sm) = (body ^^ 16) (v ! 0, v ! 1, 0)
      in store_words Big [v0, v1])"

definition TEA_Decrypt :: "tea \<Rightarrow> byte list \<Rightarrow> byte list" where
  "TEA_Decrypt c inp =
     (let v = load_words Big (take 8 inp);
          body = (\<lambda>s. tea_dec_step (tea_k c) (tea_dec_step (tea_k c) s));
          (v0, v1, sm) = (body ^^ 16) (v ! 0, v ! 1, push_bit 5 tea_delta)
      in store_words Big [v0, v1])"

lemma tea_dec_enc_step [simp]: "tea_dec_step k (tea_enc_step k s) = s"
  by (cases s) (simp add: Let_def)

lemma tea_enc_dec_step [simp]: "tea_enc_step k (tea_dec_step k s) = s"
  by (cases s) (simp add: Let_def)

lemma tea_step_sum [simp]:
  "snd (snd (tea_enc_step k s)) = snd (snd s) + tea_delta"
  "snd (snd (tea_dec_step k s)) = snd (snd s) - tea_delta"
  by (cases s; simp add: Let_def)+

lemma tea_enc_sum:
  "snd (snd (((\<lambda>s. tea_enc_step k (tea_enc_step k s)) ^^ n) s)) = snd (snd s) + of_nat (2 * n) * tea_delta"
  by (induction n) (simp_all add: algebra_simps)

lemma tea_dec_sum:
  "snd (snd (((\<lambda>s. tea_dec_step k (tea_dec_step k s)) ^^ n) s)) = snd (snd s) - of_nat (2 * n) * tea_delta"
  by (induction n) (simp_all add: algebra_simps)

lemma tea_sum_32: "32 * tea_delta = push_bit 5 tea_delta"
  by (simp add: tea_delta_def)

lemma TEA_Decrypt_Encrypt:
  assumes "length b = 8"
  shows "TEA_Decrypt c (TEA_Encrypt c b) = b"
proof -
  let ?k = "tea_k c" and ?v = "load_words Big b :: u32 list"
  let ?enc = "\<lambda>s. tea_enc_step ?k (tea_enc_step ?k s)"
  let ?dec = "\<lambda>s. tea_dec_step ?k (tea_dec_step ?k s)"
  obtain v0 v1 sm where enc: "(?enc ^^ 16) (?v ! 0, ?v ! 1, 0) = (v0, v1, sm)"
    by (metis prod_cases3)
  have "sm = push_bit 5 tea_delta"
    using tea_enc_sum[of 16 ?k "(?v ! 0, ?v ! 1, 0)"] enc tea_sum_32 by simp
  moreover have "(?dec ^^ 16) ((?enc ^^ 16) (?v ! 0, ?v ! 1, 0)) = (?v ! 0, ?v ! 1, 0)"
    by (rule funpow_undo) simp
  ultimately have "(?dec ^^ 16) (v0, v1, push_bit 5 tea_delta) = (?v ! 0, ?v ! 1, 0)"
    by (simp only: enc)
  then show ?thesis
    using assms enc by (simp add: TEA_Encrypt_def TEA_Decrypt_def bytes_simps load_pair)
qed

lemma TEA_Encrypt_Decrypt:
  assumes "length b = 8"
  shows "TEA_Encrypt c (TEA_Decrypt c b) = b"
proof -
  let ?k = "tea_k c" and ?v = "load_words Big b :: u32 list"
  let ?enc = "\<lambda>s. tea_enc_step ?k (tea_enc_step ?k s)"
  let ?dec = "\<lambda>s. tea_dec_step ?k (tea_dec_step ?k s)"
  let ?s = "(?v ! 0, ?v ! 1, push_bit 5 tea_delta)"
  obtain v0 v1 sm where dec: "(?dec ^^ 16) ?s = (v0, v1, sm)"
    by (metis prod_cases3)
  have "sm = 0"
    using tea_dec_sum[of 16 ?k ?s] dec tea_sum_32 by simp
  moreover have "(?enc ^^ 16) ((?dec ^^ 16) ?s) = ?s"
    by (rule funpow_undo) simp
  ultimately have "(?enc ^^ 16) (v0, v1, 0) = ?s" by (simp only: dec)
  then show ?thesis
    using assms dec by (simp add: TEA_Encrypt_def TEA_Decrypt_def bytes_simps load_pair)
qed

lemma length_TEA [simp]:
  "length (TEA_Encrypt c b) = 8" "length (TEA_Decrypt c b) = 8"
  by (simp_all add: TEA_Encrypt_def TEA_Decrypt_def bytes_simps Let_def split: prod.splits)

text \<open>The keys that fit: at most four words.\<close>

lemma TEA_SetKeyInternal_accepts:
  "length (tea_k c) = 4 \<Longrightarrow> TEA_SetKeyInternal key c =
     (if 4 dvd length key \<and> length key \<le> 16 then Some (c\<lparr>tea_k := load_words Big key @ drop (length key div 4) (tea_k c)\<rparr>) else None)"
  by (simp add: TEA_SetKeyInternal_def Copy_array_def)

interpretation tea: block_cipher 8 TEA_Encrypt TEA_Decrypt "\<lambda>_. True"
  by unfold_locales (simp_all add: TEA_Decrypt_Encrypt TEA_Encrypt_Decrypt)

section \<open>XTEA\<close>

text \<open>The number of rounds is a parameter of the constructor (32 by default).\<close>

record xtea =
  xtea_k :: "u32 list"
  xtea_rounds :: nat

definition XTEA_default :: "u32 list \<Rightarrow> xtea" where
  "XTEA_default k = \<lparr>xtea_k = k, xtea_rounds = 32\<rparr>"

definition XTEA_SetKeyInternal :: "byte list \<Rightarrow> xtea \<Rightarrow> xtea option" where
  "XTEA_SetKeyInternal key c = map_option (\<lambda>k. c\<lparr>xtea_k := k\<rparr>) (Copy_array Big key (xtea_k c))"

definition xtea_mix :: "u32 \<Rightarrow> u32 \<Rightarrow> u32" where
  "xtea_mix z sk = ((push_bit 4 z XOR drop_bit 5 z) + z) XOR sk"

fun xtea_enc_round :: "u32 list \<Rightarrow> u32 \<times> u32 \<times> u32 \<Rightarrow> u32 \<times> u32 \<times> u32" where
  "xtea_enc_round k (y, z, sm) =
     (let y = y + xtea_mix z (sm + k ! unat (sm AND 3));
          sm = sm + tea_delta;
          z = z + xtea_mix y (sm + k ! unat (drop_bit 11 sm AND 3))
      in (y, z, sm))"

fun xtea_dec_round :: "u32 list \<Rightarrow> u32 \<times> u32 \<times> u32 \<Rightarrow> u32 \<times> u32 \<times> u32" where
  "xtea_dec_round k (y, z, sm) =
     (let z = z - xtea_mix y (sm + k ! unat (drop_bit 11 sm AND 3));
          sm = sm - tea_delta;
          y = y - xtea_mix z (sm + k ! unat (sm AND 3))
      in (y, z, sm))"

definition XTEA_Encrypt :: "xtea \<Rightarrow> byte list \<Rightarrow> byte list" where
  "XTEA_Encrypt c inp =
     (let v = load_words Big (take 8 inp);
          (y, z, sm) = (xtea_enc_round (xtea_k c) ^^ xtea_rounds c) (v ! 0, v ! 1, 0)
      in store_words Big [y, z])"

definition XTEA_Decrypt :: "xtea \<Rightarrow> byte list \<Rightarrow> byte list" where
  "XTEA_Decrypt c inp =
     (let v = load_words Big (take 8 inp);
          (y, z, sm) = (xtea_dec_round (xtea_k c) ^^ xtea_rounds c)
             (v ! 0, v ! 1, tea_delta * of_nat (xtea_rounds c))
      in store_words Big [y, z])"

lemma xtea_dec_enc_round [simp]: "xtea_dec_round k (xtea_enc_round k s) = s"
  by (cases s) (simp add: Let_def)

lemma xtea_enc_dec_round [simp]: "xtea_enc_round k (xtea_dec_round k s) = s"
  by (cases s) (simp add: Let_def)

lemma xtea_round_sum [simp]:
  "snd (snd (xtea_enc_round k s)) = snd (snd s) + tea_delta"
  "snd (snd (xtea_dec_round k s)) = snd (snd s) - tea_delta"
  by (cases s; simp add: Let_def)+

lemma xtea_enc_sum:
  "snd (snd ((xtea_enc_round k ^^ n) s)) = snd (snd s) + tea_delta * of_nat n"
  by (induction n) (simp_all add: algebra_simps)

lemma xtea_dec_sum:
  "snd (snd ((xtea_dec_round k ^^ n) s)) = snd (snd s) - tea_delta * of_nat n"
  by (induction n) (simp_all add: algebra_simps)

lemma XTEA_Decrypt_Encrypt:
  assumes "length b = 8"
  shows "XTEA_Decrypt c (XTEA_Encrypt c b) = b"
proof -
  let ?k = "xtea_k c" and ?n = "xtea_rounds c" and ?v = "load_words Big b :: u32 list"
  obtain y z sm where enc: "(xtea_enc_round ?k ^^ ?n) (?v ! 0, ?v ! 1, 0) = (y, z, sm)"
    by (metis prod_cases3)
  have "sm = tea_delta * of_nat ?n"
    using xtea_enc_sum[of ?n ?k "(?v ! 0, ?v ! 1, 0)"] enc by simp
  moreover have "(xtea_dec_round ?k ^^ ?n) ((xtea_enc_round ?k ^^ ?n) (?v ! 0, ?v ! 1, 0))
      = (?v ! 0, ?v ! 1, 0)"
    by (rule funpow_undo) simp
  ultimately have "(xtea_dec_round ?k ^^ ?n) (y, z, tea_delta * of_nat ?n) = (?v ! 0, ?v ! 1, 0)"
    by (simp only: enc)
  then show ?thesis
    using assms enc by (simp add: XTEA_Encrypt_def XTEA_Decrypt_def bytes_simps load_pair)
qed

lemma XTEA_Encrypt_Decrypt:
  assumes "length b = 8"
  shows "XTEA_Encrypt c (XTEA_Decrypt c b) = b"
proof -
  let ?k = "xtea_k c" and ?n = "xtea_rounds c" and ?v = "load_words Big b :: u32 list"
  let ?s = "(?v ! 0, ?v ! 1, tea_delta * of_nat ?n)"
  obtain y z sm where dec: "(xtea_dec_round ?k ^^ ?n) ?s = (y, z, sm)"
    by (metis prod_cases3)
  have "sm = 0"
    using xtea_dec_sum[of ?n ?k ?s] dec by simp
  moreover have "(xtea_enc_round ?k ^^ ?n) ((xtea_dec_round ?k ^^ ?n) ?s) = ?s"
    by (rule funpow_undo) simp
  ultimately have "(xtea_enc_round ?k ^^ ?n) (y, z, 0) = ?s" by (simp only: dec)
  then show ?thesis
    using assms dec by (simp add: XTEA_Encrypt_def XTEA_Decrypt_def bytes_simps load_pair)
qed

lemma length_XTEA [simp]:
  "length (XTEA_Encrypt c b) = 8" "length (XTEA_Decrypt c b) = 8"
  by (simp_all add: XTEA_Encrypt_def XTEA_Decrypt_def bytes_simps Let_def split: prod.splits)

lemma XTEA_SetKeyInternal_accepts:
  "length (xtea_k c) = 4 \<Longrightarrow> XTEA_SetKeyInternal key c =
     (if 4 dvd length key \<and> length key \<le> 16 then Some (c\<lparr>xtea_k := load_words Big key @ drop (length key div 4) (xtea_k c)\<rparr>) else None)"
  by (simp add: XTEA_SetKeyInternal_def Copy_array_def)

interpretation xtea: block_cipher 8 XTEA_Encrypt XTEA_Decrypt "\<lambda>_. True"
  by unfold_locales (simp_all add: XTEA_Decrypt_Encrypt XTEA_Encrypt_Decrypt)

end
