(* ===== verification/RC2.thy ===== *)
theory RC2
  imports Block_Cipher
begin

text \<open>
  RC2 (\<^verbatim>\<open>impl/block/rc2/rc2.cc\<close>): the key expansion over the byte array \<^verbatim>\<open>k\<close> and
  \<^verbatim>\<open>pitable\<close>, and the mixing and mashing rounds over the array \<^verbatim>\<open>r\<close> of four
  16-bit words. An empty key, which is read at \<open>-1\<close>, or one longer than \<^verbatim>\<open>k\<close> is \<open>None\<close>.
\<close>

record rc2 =
  rc2_k :: "u16 list"

definition rc2_pitable :: "byte list" where
  "rc2_pitable =
    [0xd9, 0x78, 0xf9, 0xc4, 0x19, 0xdd, 0xb5, 0xed, 0x28, 0xe9, 0xfd, 0x79, 0x4a, 0xa0, 0xd8, 0x9d,
     0xc6, 0x7e, 0x37, 0x83, 0x2b, 0x76, 0x53, 0x8e, 0x62, 0x4c, 0x64, 0x88, 0x44, 0x8b, 0xfb, 0xa2,
     0x17, 0x9a, 0x59, 0xf5, 0x87, 0xb3, 0x4f, 0x13, 0x61, 0x45, 0x6d, 0x8d, 0x09, 0x81, 0x7d, 0x32,
     0xbd, 0x8f, 0x40, 0xeb, 0x86, 0xb7, 0x7b, 0x0b, 0xf0, 0x95, 0x21, 0x22, 0x5c, 0x6b, 0x4e, 0x82,
     0x54, 0xd6, 0x65, 0x93, 0xce, 0x60, 0xb2, 0x1c, 0x73, 0x56, 0xc0, 0x14, 0xa7, 0x8c, 0xf1, 0xdc,
     0x12, 0x75, 0xca, 0x1f, 0x3b, 0xbe, 0xe4, 0xd1, 0x42, 0x3d, 0xd4, 0x30, 0xa3, 0x3c, 0xb6, 0x26,
     0x6f, 0xbf, 0x0e, 0xda, 0x46, 0x69, 0x07, 0x57, 0x27, 0xf2, 0x1d, 0x9b, 0xbc, 0x94, 0x43, 0x03,
     0xf8, 0x11, 0xc7, 0xf6, 0x90, 0xef, 0x3e, 0xe7, 0x06, 0xc3, 0xd5, 0x2f, 0xc8, 0x66, 0x1e, 0xd7,
     0x08, 0xe8, 0xea, 0xde, 0x80, 0x52, 0xee, 0xf7, 0x84, 0xaa, 0x72, 0xac, 0x35, 0x4d, 0x6a, 0x2a,
     0x96, 0x1a, 0xd2, 0x71, 0x5a, 0x15, 0x49, 0x74, 0x4b, 0x9f, 0xd0, 0x5e, 0x04, 0x18, 0xa4, 0xec,
     0xc2, 0xe0, 0x41, 0x6e, 0x0f, 0x51, 0xcb, 0xcc, 0x24, 0x91, 0xaf, 0x50, 0xa1, 0xf4, 0x70, 0x39,
     0x99, 0x7c, 0x3a, 0x85, 0x23, 0xb8, 0xb4, 0x7a, 0xfc, 0x02, 0x36, 0x5b, 0x25, 0x55, 0x97, 0x31,
     0x2d, 0x5d, 0xfa, 0x98, 0xe3, 0x8a, 0x92, 0xae, 0x05, 0xdf, 0x29, 0x10, 0x67, 0x6c, 0xba, 0xc9,
     0xd3, 0x00, 0xe6, 0xcf, 0xe1, 0x9e, 0xa8, 0x2c, 0x63, 0x16, 0x01, 0x3f, 0x58, 0xe2, 0x89, 0xa9,
     0x0d, 0x38, 0x34, 0x1b, 0xab, 0x33, 0xff, 0xb0, 0xbb, 0x48, 0x0c, 0x5f, 0xb9, 0xb1, 0xcd, 0x2e,
     0xc5, 0xf3, 0xdb, 0x47, 0xe5, 0xa5, 0x9c, 0x77, 0x0a, 0xa6, 0x20, 0x68, 0xfe, 0x7f, 0xc1, 0xad]"

text \<open>The array \<^verbatim>\<open>k\<close> has 128 bytes, and with an empty key the first word of the expansion is
  read before it: both are \<open>None\<close>.\<close>

definition RC2_SetKeyInternal :: "byte list \<Rightarrow> rc2 \<Rightarrow> rc2 option" where
  "RC2_SetKeyInternal key c =
     (if key = [] \<or> 128 < length key then None
      else let len = length key;
               pi = (\<lambda>x. rc2_pitable ! unat (x :: byte));
               k = key @ replicate (128 - len) 0;
               k = fold (\<lambda>i k. k[i := pi (k ! (i - 1) + k ! (i - len))]) [len..<128] k;
               k = k[128 - len := pi (k ! (128 - len) AND 0xff)];
               k = fold (\<lambda>i k. k[i := pi (k ! (i + 1) XOR k ! (i + len))]) (rev [0..<128 - len]) k
           in Some (c\<lparr>rc2_k := load_words Little k\<rparr>))"

definition rc2_R :: "u16 list \<Rightarrow> nat \<Rightarrow> nat \<Rightarrow> u16" where
  "rc2_R r i x = r ! ((i + x) mod 4)"

definition rc2_mix_word :: "u16 list \<Rightarrow> u16 list \<Rightarrow> nat \<Rightarrow> nat \<Rightarrow> u16" where
  "rc2_mix_word k r i j =
     k ! j + (rc2_R r i 3 AND rc2_R r i 2) + (NOT (rc2_R r i 3) AND rc2_R r i 1)"

definition rc2_Mix :: "u16 list \<Rightarrow> nat \<Rightarrow> nat \<Rightarrow> nat \<Rightarrow> u16 list \<Rightarrow> u16 list" where
  "rc2_Mix k i j s r =
     (let r = r[i := r ! i + rc2_mix_word k r i j] in r[i := RotateLeft (r ! i) s])"

definition rc2_MixRound :: "u16 list \<Rightarrow> nat \<Rightarrow> u16 list \<Rightarrow> u16 list" where
  "rc2_MixRound k j r =
     rc2_Mix k 3 (j + 3) 5 (rc2_Mix k 2 (j + 2) 3 (rc2_Mix k 1 (j + 1) 2 (rc2_Mix k 0 (j + 0) 1 r)))"

definition rc2_Mash :: "u16 list \<Rightarrow> nat \<Rightarrow> u16 list \<Rightarrow> u16 list" where
  "rc2_Mash k i r = r[i := r ! i + k ! unat (rc2_R r i 3 AND 63)]"

definition rc2_MashRound :: "u16 list \<Rightarrow> u16 list \<Rightarrow> u16 list" where
  "rc2_MashRound k r = rc2_Mash k 3 (rc2_Mash k 2 (rc2_Mash k 1 (rc2_Mash k 0 r)))"

definition rc2_RMix :: "u16 list \<Rightarrow> nat \<Rightarrow> nat \<Rightarrow> nat \<Rightarrow> u16 list \<Rightarrow> u16 list" where
  "rc2_RMix k i j s r =
     (let r = r[i := RotateRight (r ! i) s] in r[i := r ! i - rc2_mix_word k r i j])"

definition rc2_RMixRound :: "u16 list \<Rightarrow> nat \<Rightarrow> u16 list \<Rightarrow> u16 list" where
  "rc2_RMixRound k j r =
     rc2_RMix k 0 (j + 0) 1 (rc2_RMix k 1 (j + 1) 2 (rc2_RMix k 2 (j + 2) 3 (rc2_RMix k 3 (j + 3) 5 r)))"

definition rc2_RMash :: "u16 list \<Rightarrow> nat \<Rightarrow> u16 list \<Rightarrow> u16 list" where
  "rc2_RMash k i r = r[i := r ! i - k ! unat (rc2_R r i 3 AND 63)]"

definition rc2_RMashRound :: "u16 list \<Rightarrow> u16 list \<Rightarrow> u16 list" where
  "rc2_RMashRound k r = rc2_RMash k 0 (rc2_RMash k 1 (rc2_RMash k 2 (rc2_RMash k 3 r)))"

text \<open>The counter \<^verbatim>\<open>j\<close> runs from 0 in steps of 4 through the three loops.\<close>

definition RC2_Encrypt :: "rc2 \<Rightarrow> byte list \<Rightarrow> byte list" where
  "RC2_Encrypt c inp =
     (let k = rc2_k c;
          r = load_words Little (take 8 inp);
          r = fold (rc2_MixRound k) [0, 4, 8, 12, 16] r;
          r = rc2_MashRound k r;
          r = fold (rc2_MixRound k) [20, 24, 28, 32, 36, 40] r;
          r = rc2_MashRound k r;
          r = fold (rc2_MixRound k) [44, 48, 52, 56, 60] r
      in store_words Little r)"

definition RC2_Decrypt :: "rc2 \<Rightarrow> byte list \<Rightarrow> byte list" where
  "RC2_Decrypt c inp =
     (let k = rc2_k c;
          r = load_words Little (take 8 inp);
          r = fold (rc2_RMixRound k) [60, 56, 52, 48, 44] r;
          r = rc2_RMashRound k r;
          r = fold (rc2_RMixRound k) [40, 36, 32, 28, 24, 20] r;
          r = rc2_RMashRound k r;
          r = fold (rc2_RMixRound k) [16, 12, 8, 4, 0] r
      in store_words Little r)"

section \<open>Each round undoes its counterpart\<close>

lemma rc2_R_update [simp]:
  assumes "i < 4" "0 < x" "x < 4"
  shows "rc2_R (r[i := v]) i x = rc2_R r i x"
proof -
  have "(i + x) mod 4 \<noteq> i"
    using assms by presburger
  then show ?thesis by (simp add: rc2_R_def)
qed

lemma rc2_mix_word_update [simp]:
  "i < 4 \<Longrightarrow> rc2_mix_word k (r[i := v]) i j = rc2_mix_word k r i j"
  by (simp add: rc2_mix_word_def)

lemma rc2_length [simp]:
  "length (rc2_Mix k i j s r) = length r" "length (rc2_RMix k i j s r) = length r"
  "length (rc2_Mash k i r) = length r" "length (rc2_RMash k i r) = length r"
  by (simp_all add: rc2_Mix_def rc2_RMix_def rc2_Mash_def rc2_RMash_def Let_def)

lemma rc2_round_length [simp]:
  "length (rc2_MixRound k j r) = length r" "length (rc2_RMixRound k j r) = length r"
  "length (rc2_MashRound k r) = length r" "length (rc2_RMashRound k r) = length r"
  by (simp_all add: rc2_MixRound_def rc2_RMixRound_def rc2_MashRound_def rc2_RMashRound_def)

lemma rc2_Mix_undo [simp]:
  assumes "i < 4" "length r = 4" "s \<le> 16"
  shows "rc2_RMix k i j s (rc2_Mix k i j s r) = r" "rc2_Mix k i j s (rc2_RMix k i j s r) = r"
  using assms by (simp_all add: rc2_RMix_def rc2_Mix_def Let_def)

lemma rc2_Mash_undo [simp]:
  assumes "i < 4" "length r = 4"
  shows "rc2_RMash k i (rc2_Mash k i r) = r" "rc2_Mash k i (rc2_RMash k i r) = r"
  using assms by (simp_all add: rc2_RMash_def rc2_Mash_def)

lemma rc2_MixRound_undo:
  "length r = 4 \<Longrightarrow> rc2_RMixRound k j (rc2_MixRound k j r) = r"
  "length r = 4 \<Longrightarrow> rc2_MixRound k j (rc2_RMixRound k j r) = r"
  by (simp_all add: rc2_MixRound_def rc2_RMixRound_def)

lemma rc2_MashRound_undo:
  "length r = 4 \<Longrightarrow> rc2_RMashRound k (rc2_MashRound k r) = r"
  "length r = 4 \<Longrightarrow> rc2_MashRound k (rc2_RMashRound k r) = r"
  by (simp_all add: rc2_MashRound_def rc2_RMashRound_def)

lemmas rc2_undo = rc2_MixRound_undo rc2_MashRound_undo

lemma length_RC2 [simp]:
  "length b = 8 \<Longrightarrow> length (RC2_Encrypt c b) = 8"
  "length b = 8 \<Longrightarrow> length (RC2_Decrypt c b) = 8"
  by (simp_all add: RC2_Encrypt_def RC2_Decrypt_def bytes_simps Let_def)

lemma RC2_Decrypt_Encrypt: "length b = 8 \<Longrightarrow> RC2_Decrypt c (RC2_Encrypt c b) = b"
  using length_RC2(1)[of b c]
  by (simp add: RC2_Decrypt_def RC2_Encrypt_def bytes_simps rc2_undo Let_def)

lemma RC2_Encrypt_Decrypt: "length b = 8 \<Longrightarrow> RC2_Encrypt c (RC2_Decrypt c b) = b"
  using length_RC2(2)[of b c]
  by (simp add: RC2_Decrypt_def RC2_Encrypt_def bytes_simps rc2_undo Let_def)

interpretation rc2: block_cipher 8 RC2_Encrypt RC2_Decrypt "\<lambda>_. True"
  by unfold_locales (simp_all add: RC2_Decrypt_Encrypt RC2_Encrypt_Decrypt)

section \<open>Key schedule\<close>

lemma length_rc2_pitable: "length rc2_pitable = 256"
  by (simp add: rc2_pitable_def)

lemma length_RC2_key:
  assumes "key \<noteq> []" "length key \<le> 128"
  shows "\<exists>k. RC2_SetKeyInternal key c = Some k \<and> length (rc2_k k) = 64"
proof -
  have keep: "length (fold (\<lambda>i k. k[i := f i k]) is k0) = length k0" for f "is" and k0 :: "byte list"
    by (rule fold_keeps[where P = "\<lambda>k. length k = length k0"]) auto
  show ?thesis using assms by (simp add: RC2_SetKeyInternal_def Let_def bytes_simps keep)
qed

end
