(* ===== verification/Blowfish.thy ===== *)
theory Blowfish
  imports Block_Cipher Blowfish_Tables
begin

text \<open>
  Blowfish (\<^verbatim>\<open>impl/block/blowfish/blowfish.cc\<close>). The context keeps the key-dependent
  boxes \<^verbatim>\<open>m_s\<close>, the subkeys \<^verbatim>\<open>m_p\<close> and the same subkeys in the order of
  decryption, \<^verbatim>\<open>m_pd\<close>; \<open>blowfish_keyed\<close> is the invariant the key schedule
  establishes and decryption relies on. An empty key, by whose length the code divides, is \<open>None\<close>.
\<close>

record blowfish =
  bf_s :: "u32 list"
  bf_p :: "u32 list"
  bf_pd :: "u32 list"

definition blowfish_f :: "u32 list \<Rightarrow> u32 \<Rightarrow> u32" where
  "blowfish_f s x =
     ((s ! unat (GetByte x 3) + s ! (0x100 + unat (GetByte x 2))) XOR
       s ! (0x200 + unat (GetByte x 1))) + s ! (0x300 + unat (GetByte x 0))"

definition blowfish_body :: "u32 list \<Rightarrow> u32 list \<Rightarrow> nat \<Rightarrow> u32 \<times> u32 \<Rightarrow> u32 \<times> u32" where
  "blowfish_body s p i d =
     (let (d0, d1) = d;
          d0 = d0 XOR p ! i;
          d1 = d1 XOR blowfish_f s d0;
          d1 = d1 XOR p ! (i + 1);
          d0 = d0 XOR blowfish_f s d1
      in (d0, d1))"

definition blowfish_MainAlgorithm :: "u32 list \<Rightarrow> u32 list \<Rightarrow> u32 \<times> u32 \<Rightarrow> u32 \<times> u32" where
  "blowfish_MainAlgorithm s p d =
     (let (d0, d1) = fold (blowfish_body s p) [0, 2, 4, 6, 8, 10, 12, 14] d
      in (d0 XOR p ! 16, d1 XOR p ! 17))"

text \<open>
  The key schedule: the key bytes, repeated, are mixed into \<^verbatim>\<open>m_p\<close>; then \<^verbatim>\<open>m_p\<close>
  (with \<^verbatim>\<open>m_pd\<close>) and \<^verbatim>\<open>m_s\<close> are replaced, two words at a time, by the running
  encryption of the zero block.
\<close>

definition blowfish_key_word :: "byte list \<Rightarrow> nat \<Rightarrow> u32" where
  "blowfish_key_word key ival =
     fold (\<lambda>j k. push_bit 8 k OR ucast (key ! ((ival + j) mod length key))) [0..<4] 0"

definition blowfish_mix_key :: "byte list \<Rightarrow> u32 list \<Rightarrow> u32 list" where
  "blowfish_mix_key key p =
     fold (\<lambda>i p. p[i := p ! i XOR blowfish_key_word key (4 * i)]) [0..<18] p"

definition blowfish_p_step ::
    "u32 list \<Rightarrow> nat \<Rightarrow> u32 list \<times> u32 list \<times> u32 \<times> u32 \<Rightarrow> u32 list \<times> u32 list \<times> u32 \<times> u32" where
  "blowfish_p_step s i st =
     (let (p, pd, d) = st;
          (d1, d0) = blowfish_MainAlgorithm s p d;
          pd = pd[17 - i := d0];
          p = p[i + 0 := d0];
          pd = pd[16 - i := d1];
          p = p[i + 1 := d1]
      in (p, pd, d0, d1))"

definition blowfish_s_step ::
    "u32 list \<Rightarrow> nat \<Rightarrow> u32 list \<times> u32 \<times> u32 \<Rightarrow> u32 list \<times> u32 \<times> u32" where
  "blowfish_s_step p i st =
     (let (s, d) = st;
          (d1, d0) = blowfish_MainAlgorithm s p d;
          s = s[i := d0, i + 1 := d1]
      in (s, d0, d1))"

definition blowfish_schedule_p ::
    "byte list \<Rightarrow> u32 list \<Rightarrow> u32 list \<times> u32 list \<times> u32 \<times> u32" where
  "blowfish_schedule_p key pd =
     fold (blowfish_p_step blowfish_sbox) [0, 2, 4, 6, 8, 10, 12, 14, 16]
       (blowfish_mix_key key blowfish_parray, pd, 0, 0)"

text \<open>The index of a key byte is taken modulo the length of the key; for an empty key this is a division by
  zero, \<open>None\<close>.\<close>

definition Blowfish_SetKeyInternal :: "byte list \<Rightarrow> blowfish \<Rightarrow> blowfish option" where
  "Blowfish_SetKeyInternal key c =
     (if key = [] then None
      else let (p, pd, d) = blowfish_schedule_p key (bf_pd c);
               (s, d) = fold (blowfish_s_step p) (map (\<lambda>i. 2 * i) [0..<512]) (blowfish_sbox, d)
           in Some (c\<lparr>bf_s := s, bf_p := p, bf_pd := pd\<rparr>))"

definition Blowfish_Encrypt :: "blowfish \<Rightarrow> byte list \<Rightarrow> byte list" where
  "Blowfish_Encrypt c inp =
     (let d = load_words Big (take 8 inp);
          (d0, d1) = blowfish_MainAlgorithm (bf_s c) (bf_p c) (d ! 0, d ! 1)
      in store_words Big [d1] @ store_words Big [d0])"

definition Blowfish_Decrypt :: "blowfish \<Rightarrow> byte list \<Rightarrow> byte list" where
  "Blowfish_Decrypt c inp =
     (let d = load_words Big (take 8 inp);
          (d0, d1) = blowfish_MainAlgorithm (bf_s c) (bf_pd c) (d ! 0, d ! 1)
      in store_words Big [d1] @ store_words Big [d0])"

section \<open>The main algorithm undoes itself under the reversed subkeys\<close>

text \<open>
  One iteration of the loop is two half rounds \<open>bf_half\<close>; what the final whitening leaves,
  with its halves exchanged, is \<open>bf_flip\<close>, and a half round of the decryption moves it one
  step back.
\<close>

fun bf_half :: "u32 list \<Rightarrow> u32 \<Rightarrow> u32 \<times> u32 \<Rightarrow> u32 \<times> u32" where
  "bf_half s k (a, b) = (b XOR blowfish_f s (a XOR k), a XOR k)"

fun bf_flip :: "u32 \<Rightarrow> u32 \<Rightarrow> u32 \<times> u32 \<Rightarrow> u32 \<times> u32" where
  "bf_flip p q (a, b) = (b XOR q, a XOR p)"

lemma blowfish_body_halves:
  "blowfish_body s p i d = bf_half s (p ! (i + 1)) (bf_half s (p ! i) d)"
  by (cases d) (simp add: blowfish_body_def Let_def)

lemma blowfish_MainAlgorithm_flip:
  "prod.swap (blowfish_MainAlgorithm s p d) = bf_flip (p ! 16) (p ! 17)
     (fold (blowfish_body s p) [0, 2, 4, 6, 8, 10, 12, 14] d)"
  by (simp add: blowfish_MainAlgorithm_def Let_def split: prod.split)

lemma bf_half_flip: "bf_half s q (bf_flip p q (bf_half s k x)) = bf_flip k p x"
  by (cases x) (simp add: xor.assoc xor.left_commute)

lemma bf_flip_flip: "prod.swap (bf_flip q p (bf_flip p q x)) = prod.swap x"
  by (cases x) (simp add: xor.assoc)

lemma blowfish_undo:
  assumes "length p = 18"
  shows "blowfish_MainAlgorithm s (rev p) (prod.swap (blowfish_MainAlgorithm s p d)) = prod.swap d"
proof -
  have "prod.swap (blowfish_MainAlgorithm s (rev p) (prod.swap (blowfish_MainAlgorithm s p d))) = d"
    unfolding blowfish_MainAlgorithm_flip using assms
    by (simp add: blowfish_body_halves rev_nth bf_half_flip, cases d, simp add: xor.assoc)
  then show ?thesis by (metis swap_swap)
qed

definition blowfish_keyed :: "blowfish \<Rightarrow> bool" where
  "blowfish_keyed c \<longleftrightarrow> length (bf_p c) = 18 \<and> bf_pd c = rev (bf_p c)"

lemma store_pair: "store_words Big [a] @ store_words Big [b] = store_words Big [a, b :: u32]"
  by (simp add: store_words_def)

lemma Blowfish_Encrypt_swap:
  "length b = 8 \<Longrightarrow> Blowfish_Encrypt c b =
     (let (x, y) = prod.swap (blowfish_MainAlgorithm (bf_s c) (bf_p c)
        (load_words Big b ! 0, load_words Big b ! Suc 0)) in store_words Big [x, y])"
  by (simp add: Blowfish_Encrypt_def Let_def store_pair prod.swap_def split: prod.split)

lemma Blowfish_Decrypt_swap:
  "length b = 8 \<Longrightarrow> Blowfish_Decrypt c b =
     (let (x, y) = prod.swap (blowfish_MainAlgorithm (bf_s c) (bf_pd c)
        (load_words Big b ! 0, load_words Big b ! Suc 0)) in store_words Big [x, y])"
  by (simp add: Blowfish_Decrypt_def Let_def store_pair prod.swap_def split: prod.split)

lemma length_Blowfish [simp]:
  "length (Blowfish_Encrypt c b) = 8" "length (Blowfish_Decrypt c b) = 8"
  by (simp_all add: Blowfish_Encrypt_def Blowfish_Decrypt_def bytes_simps Let_def split: prod.split)

lemma Blowfish_Decrypt_Encrypt:
  assumes "blowfish_keyed c" "length b = 8"
  shows "Blowfish_Decrypt c (Blowfish_Encrypt c b) = b"
proof -
  let ?d = "(load_words Big b ! 0, load_words Big b ! Suc 0 :: u32)"
  obtain x y where xy: "blowfish_MainAlgorithm (bf_s c) (bf_p c) ?d = (y, x)" by force
  have "blowfish_MainAlgorithm (bf_s c) (bf_pd c) (x, y) = prod.swap ?d"
    using blowfish_undo[of "bf_p c" "bf_s c" ?d] assms(1) xy by (simp add: blowfish_keyed_def)
  moreover have "Blowfish_Encrypt c b = store_words Big [x, y]"
    using Blowfish_Encrypt_swap[OF assms(2)] xy by simp
  ultimately show ?thesis
    using assms(2) by (simp add: Blowfish_Decrypt_swap bytes_simps load_pair)
qed

lemma Blowfish_Encrypt_Decrypt:
  assumes "blowfish_keyed c" "length b = 8"
  shows "Blowfish_Encrypt c (Blowfish_Decrypt c b) = b"
proof -
  let ?d = "(load_words Big b ! 0, load_words Big b ! Suc 0 :: u32)"
  obtain x y where xy: "blowfish_MainAlgorithm (bf_s c) (bf_pd c) ?d = (y, x)" by force
  have "blowfish_MainAlgorithm (bf_s c) (bf_p c) (x, y) = prod.swap ?d"
    using blowfish_undo[of "bf_pd c" "bf_s c" ?d] assms(1) xy by (simp add: blowfish_keyed_def)
  moreover have "Blowfish_Decrypt c b = store_words Big [x, y]"
    using Blowfish_Decrypt_swap[OF assms(2)] xy by simp
  ultimately show ?thesis
    using assms(2) by (simp add: Blowfish_Encrypt_swap bytes_simps load_pair)
qed

interpretation blowfish: block_cipher 8 Blowfish_Encrypt Blowfish_Decrypt blowfish_keyed
  by unfold_locales (simp_all add: Blowfish_Decrypt_Encrypt Blowfish_Encrypt_Decrypt)

section \<open>The key schedule establishes the invariant\<close>

text \<open>
  After the iterations up to \<open>i\<close>, the first \<open>i\<close> subkeys are the last \<open>i\<close> of
  \<^verbatim>\<open>m_pd\<close>, reversed.
\<close>

definition bf_mirrored :: "nat \<Rightarrow> u32 list \<Rightarrow> u32 list \<Rightarrow> bool" where
  "bf_mirrored n p pd \<longleftrightarrow> length p = 18 \<and> length pd = 18 \<and> (\<forall>j<n. pd ! (17 - j) = p ! j)"

lemma bf_mirrored_step:
  assumes "bf_mirrored n p pd" "n < 17" "blowfish_p_step s n (p, pd, d) = (p', pd', d')"
  shows "bf_mirrored (n + 2) p' pd'"
proof -
  obtain x y where xy: "blowfish_MainAlgorithm s p d = (x, y)" by force
  then have p': "p' = p[n := y, n + 1 := x]" and pd': "pd' = pd[17 - n := y, 16 - n := x]"
    using assms(3) by (auto simp: blowfish_p_step_def)
  have "pd' ! (17 - j) = p' ! j" if "j < n + 2" for j
  proof -
    have "j < n \<or> j = n \<or> j = n + 1" using that by linarith
    then show ?thesis
      using assms(1,2) unfolding p' pd' bf_mirrored_def
      by (elim disjE) (auto simp: nth_list_update)
  qed
  then show ?thesis using assms(1) unfolding bf_mirrored_def p' pd' by simp
qed

lemma bf_mirrored_rev: "bf_mirrored 18 p pd \<Longrightarrow> pd = rev p"
proof (rule nth_equalityI)
  assume m: "bf_mirrored 18 p pd"
  then show "length pd = length (rev p)" by (simp add: bf_mirrored_def)
  fix i assume "i < length pd"
  then have i: "i < 18" using m by (simp add: bf_mirrored_def)
  have "17 - i < 18 \<Longrightarrow> pd ! (17 - (17 - i)) = p ! (17 - i)"
    using m unfolding bf_mirrored_def by blast
  moreover have "17 - (17 - i) = i" using i by simp
  ultimately show "pd ! i = rev p ! i" using i m by (simp add: bf_mirrored_def rev_nth)
qed

lemma length_blowfish_mix_key [simp]: "length (blowfish_mix_key key p) = length p"
  unfolding blowfish_mix_key_def by (rule fold_keeps[where P = "\<lambda>q. length q = length p"]) auto

lemma blowfish_schedule_p_mirrored:
  assumes "length pd0 = 18" "blowfish_schedule_p key pd0 = (p, pd, d)"
  shows "bf_mirrored 18 p pd"
proof -
  let ?st = "\<lambda>n st. bf_mirrored n (fst st) (fst (snd st))"
  let ?init = "(blowfish_mix_key key blowfish_parray, pd0, 0, 0)"
  have step: "?st (n + 2) (blowfish_p_step s n st)" if "?st n st" "n < 17" for n st s
    using bf_mirrored_step[of n "fst st" "fst (snd st)" s "snd (snd st)"] that
    by (metis prod.collapse)
  have "?st (2 * k) (fold (blowfish_p_step blowfish_sbox) (map (\<lambda>i. 2 * i) [0..<k]) ?init)"
    if "k \<le> 9" for k
    using that
  proof (induction k)
    case 0
    then show ?case using assms(1) by (simp add: bf_mirrored_def)
  next
    case (Suc k)
    then have "2 * k < 17" by simp
    then show ?case using step Suc by simp
  qed
  from this[of 9] show ?thesis
    using assms(2) by (simp add: blowfish_schedule_p_def upt_rec)
qed

lemma Blowfish_SetKey_keyed:
  assumes "length (bf_pd c) = 18" "key \<noteq> []"
  shows "\<exists>k. Blowfish_SetKeyInternal key c = Some k \<and> blowfish_keyed k"
proof -
  obtain p pd d where st: "blowfish_schedule_p key (bf_pd c) = (p, pd, d)" by (metis prod_cases3)
  have "bf_mirrored 18 p pd" using assms(1) st by (rule blowfish_schedule_p_mirrored)
  then have "length p = 18" "pd = rev p"
    using bf_mirrored_rev by (auto simp: bf_mirrored_def)
  then show ?thesis
    using st assms(2) by (simp add: Blowfish_SetKeyInternal_def blowfish_keyed_def split: prod.split)
qed

text \<open>All table reads of \<^verbatim>\<open>f\<close> stay inside the 1024 words of \<^verbatim>\<open>m_s\<close>.\<close>

lemma blowfish_s_step_length:
  "length (fst (blowfish_s_step p i st)) = length (fst st)"
  by (simp add: blowfish_s_step_def Let_def split: prod.split)

lemma Blowfish_SetKey_boxes: "Blowfish_SetKeyInternal key c = Some k \<Longrightarrow> length (bf_s k) = 1024"
proof -
  assume k: "Blowfish_SetKeyInternal key c = Some k"
  have "length (fst (fold (blowfish_s_step p) is (blowfish_sbox, d))) = 1024" for p "is" d
    by (rule fold_keeps[where P = "\<lambda>st. length (fst st) = 1024"]) (simp_all add: blowfish_s_step_length)
  then show ?thesis
    using k by (auto simp: Blowfish_SetKeyInternal_def split: prod.splits if_splits) (metis fst_conv)
qed

end
