(* ===== verification/CAST.thy ===== *)
theory CAST
  imports Block_Cipher CAST_Tables
begin

text \<open>
  The round functions of \<^verbatim>\<open>impl/block/cast/cast.hh\<close> and the two ciphers over them,
  CAST-128 (\<^verbatim>\<open>cast5.cc\<close>) and CAST-256 (\<^verbatim>\<open>cast6.cc\<close>). A key longer than the local buffer it is
  copied to is \<open>None\<close>.
\<close>

section \<open>Round functions\<close>

definition cast_item :: "u32 \<Rightarrow> nat \<Rightarrow> u32" where
  "cast_item val x = cast_s ! x ! unat (GetByte val (3 - x))"

definition cast_f1 :: "u32 \<Rightarrow> u32 \<Rightarrow> byte \<Rightarrow> u32" where
  "cast_f1 x km kr =
     (let val = RotateLeft (km + x) (unat kr)
      in ((cast_item val 0 XOR cast_item val 1) - cast_item val 2) + cast_item val 3)"

definition cast_f2 :: "u32 \<Rightarrow> u32 \<Rightarrow> byte \<Rightarrow> u32" where
  "cast_f2 x km kr =
     (let val = RotateLeft (km XOR x) (unat kr)
      in ((cast_item val 0 - cast_item val 1) + cast_item val 2) XOR cast_item val 3)"

definition cast_f3 :: "u32 \<Rightarrow> u32 \<Rightarrow> byte \<Rightarrow> u32" where
  "cast_f3 x km kr =
     (let val = RotateLeft (km - x) (unat kr)
      in ((cast_item val 0 + cast_item val 1) XOR cast_item val 2) - cast_item val 3)"

section \<open>CAST-128\<close>

record cast5 =
  c5_km :: "u32 list"
  c5_kr :: "byte list"
  c5_longkey :: bool

definition cast5_sx :: "u32 list \<Rightarrow> nat \<Rightarrow> nat \<Rightarrow> u32" where
  "cast5_sx x a b = cast_s ! a ! unat (GetArrayByte x (b XOR 3))"

definition cast5_ComputeZSet :: "u32 list \<Rightarrow> u32 list" where
  "cast5_ComputeZSet x =
     (let sx = cast5_sx x;
          z = [x ! 0 XOR sx 4 13 XOR sx 5 15 XOR sx 6 12 XOR sx 7 14 XOR sx 6 8];
          sz = cast5_sx z;
          z = z @ [x ! 2 XOR sz 4 0 XOR sz 5 2 XOR sz 6 1 XOR sz 7 3 XOR sx 7 10];
          sz = cast5_sx z;
          z = z @ [x ! 3 XOR sz 4 7 XOR sz 5 6 XOR sz 6 5 XOR sz 7 4 XOR sx 4 9];
          sz = cast5_sx z
      in z @ [x ! 1 XOR sz 4 10 XOR sz 5 9 XOR sz 6 11 XOR sz 7 8 XOR sx 5 11])"

definition cast5_ComputeXSet :: "u32 list \<Rightarrow> u32 list" where
  "cast5_ComputeXSet z =
     (let sz = cast5_sx z;
          x = [z ! 2 XOR sz 4 5 XOR sz 5 7 XOR sz 6 4 XOR sz 7 6 XOR sz 6 0];
          sx = cast5_sx x;
          x = x @ [z ! 0 XOR sx 4 0 XOR sx 5 2 XOR sx 6 1 XOR sx 7 3 XOR sz 7 2];
          sx = cast5_sx x;
          x = x @ [z ! 1 XOR sx 4 7 XOR sx 5 6 XOR sx 6 5 XOR sx 7 4 XOR sz 4 1];
          sx = cast5_sx x
      in x @ [z ! 3 XOR sx 4 10 XOR sx 5 9 XOR sx 6 11 XOR sx 7 8 XOR sz 5 3])"

definition cast5_ComputeSubkeySetA :: "u32 list \<Rightarrow> nat \<Rightarrow> nat \<Rightarrow> nat \<Rightarrow> nat \<Rightarrow> u32 list" where
  "cast5_ComputeSubkeySetA z a b c d =
     (let sz = cast5_sx z
      in [sz 4 8 XOR sz 5 9 XOR sz 6 7 XOR sz 7 6 XOR sz 4 a,
          sz 4 10 XOR sz 5 11 XOR sz 6 5 XOR sz 7 4 XOR sz 5 b,
          sz 4 12 XOR sz 5 13 XOR sz 6 3 XOR sz 7 2 XOR sz 6 c,
          sz 4 14 XOR sz 5 15 XOR sz 6 1 XOR sz 7 0 XOR sz 7 d])"

definition cast5_ComputeSubkeySetB :: "u32 list \<Rightarrow> nat \<Rightarrow> nat \<Rightarrow> nat \<Rightarrow> nat \<Rightarrow> u32 list" where
  "cast5_ComputeSubkeySetB z a b c d =
     (let sz = cast5_sx z
      in [sz 4 3 XOR sz 5 2 XOR sz 6 12 XOR sz 7 13 XOR sz 4 a,
          sz 4 1 XOR sz 5 0 XOR sz 6 14 XOR sz 7 15 XOR sz 5 b,
          sz 4 7 XOR sz 5 6 XOR sz 6 8 XOR sz 7 9 XOR sz 6 c,
          sz 4 5 XOR sz 5 4 XOR sz 6 10 XOR sz 7 11 XOR sz 7 d])"

text \<open>One pass of the loop of \<^verbatim>\<open>ComputeSubkeys\<close>: sixteen subkeys and the next \<^verbatim>\<open>x\<close>.\<close>

definition cast5_subkey_pass :: "u32 list \<Rightarrow> u32 list \<times> u32 list" where
  "cast5_subkey_pass x =
     (let z = cast5_ComputeZSet x;
          sk0 = cast5_ComputeSubkeySetA z 2 6 9 12;
          x = cast5_ComputeXSet z;
          sk4 = cast5_ComputeSubkeySetB x 8 13 3 7;
          z = cast5_ComputeZSet x;
          sk8 = cast5_ComputeSubkeySetB z 9 12 2 6;
          x = cast5_ComputeXSet z;
          sk12 = cast5_ComputeSubkeySetA x 3 7 8 13
      in (sk0 @ sk4 @ sk8 @ sk12, x))"

definition cast5_ComputeSubkeys :: "byte list \<Rightarrow> u32 list \<times> byte list" where
  "cast5_ComputeSubkeys k =
     (let x = load_words Big (take 16 k);
          (lo, x) = cast5_subkey_pass x;
          (hi, x) = cast5_subkey_pass x
      in (lo, map (\<lambda>w. ucast (w AND 0x1f)) hi))"

text \<open>The key is copied to a buffer of 16 bytes: a longer one is \<open>None\<close>.\<close>

definition CAST5_SetKeyInternal :: "byte list \<Rightarrow> cast5 \<Rightarrow> cast5 option" where
  "CAST5_SetKeyInternal key c =
     (if 128 div 8 < length key then None
      else let buf = put_bytes 0 key (replicate (128 div 8) 0);
               (km, kr) = cast5_ComputeSubkeys buf
           in Some (c\<lparr>c5_km := km, c5_kr := kr, c5_longkey := (80 div 8 < length key)\<rparr>))"

text \<open>
  The bodies of the two loops: three rounds, each followed by \<^verbatim>\<open>std::swap(l, r)\<close>.
\<close>

type_synonym halves = "u32 \<times> u32"

fun cast5_step :: "(u32 \<Rightarrow> u32) \<Rightarrow> halves \<Rightarrow> halves" where
  "cast5_step f (l, r) = prod.swap (l XOR f r, r)"

definition cast5_fi :: "(u32 \<Rightarrow> u32 \<Rightarrow> byte \<Rightarrow> u32) \<Rightarrow> cast5 \<Rightarrow> nat \<Rightarrow> u32 \<Rightarrow> u32" where
  "cast5_fi f c i x = f x (c5_km c ! i) (c5_kr c ! i)"

definition cast5_enc_body :: "cast5 \<Rightarrow> nat \<Rightarrow> halves \<Rightarrow> halves" where
  "cast5_enc_body c i s =
     cast5_step (cast5_fi cast_f3 c (i + 2))
       (cast5_step (cast5_fi cast_f2 c (i + 1)) (cast5_step (cast5_fi cast_f1 c (i + 0)) s))"

definition cast5_dec_body :: "cast5 \<Rightarrow> nat \<Rightarrow> halves \<Rightarrow> halves" where
  "cast5_dec_body c i s =
     cast5_step (cast5_fi cast_f1 c (i - 2))
       (cast5_step (cast5_fi cast_f2 c (i - 1)) (cast5_step (cast5_fi cast_f3 c (i - 0)) s))"

definition CAST5_Encrypt :: "cast5 \<Rightarrow> byte list \<Rightarrow> byte list" where
  "CAST5_Encrypt c inp =
     (let l = load Big (take 4 inp);
          r = load Big (take 4 (drop 4 inp));
          (l, r) = fold (cast5_enc_body c)
             (if c5_longkey c then [0, 3, 6, 9, 12] else [0, 3, 6, 9]) (l, r);
          (l, r) = (if c5_longkey c then (l XOR cast5_fi cast_f1 c 15 r, r) else (r, l))
      in store Big l @ store Big r)"

definition CAST5_Decrypt :: "cast5 \<Rightarrow> byte list \<Rightarrow> byte list" where
  "CAST5_Decrypt c inp =
     (let l = load Big (take 4 inp);
          r = load Big (take 4 (drop 4 inp));
          (l, r) = (if c5_longkey c then (r, l XOR cast5_fi cast_f1 c 15 r) else (l, r));
          (l, r) = fold (cast5_dec_body c)
             (if c5_longkey c then [14, 11, 8, 5, 2] else [11, 8, 5, 2]) (l, r)
      in store Big r @ store Big l)"

lemma cast5_step_undo: "cast5_step f (prod.swap (cast5_step f s)) = prod.swap s"
  by (cases s) simp

lemma cast5_body_undo:
  "j = i + 2 \<Longrightarrow> cast5_dec_body c j (prod.swap (cast5_enc_body c i s)) = prod.swap s"
  "j = i + 2 \<Longrightarrow> cast5_enc_body c i (prod.swap (cast5_dec_body c j s)) = prod.swap s"
  by (simp_all add: cast5_dec_body_def cast5_enc_body_def cast5_step_undo)

definition cast5_enc_rounds :: "cast5 \<Rightarrow> halves \<Rightarrow> halves" where
  "cast5_enc_rounds c =
     fold (cast5_enc_body c) (if c5_longkey c then [0, 3, 6, 9, 12] else [0, 3, 6, 9])"

definition cast5_dec_rounds :: "cast5 \<Rightarrow> halves \<Rightarrow> halves" where
  "cast5_dec_rounds c =
     fold (cast5_dec_body c) (if c5_longkey c then [14, 11, 8, 5, 2] else [11, 8, 5, 2])"

lemma cast5_rounds_undo:
  "cast5_dec_rounds c (prod.swap (cast5_enc_rounds c s)) = prod.swap s"
  "cast5_enc_rounds c (prod.swap (cast5_dec_rounds c s)) = prod.swap s"
  by (simp_all add: cast5_dec_rounds_def cast5_enc_rounds_def cast5_body_undo)

lemma load_halves [simp]:
  "load E (take 4 (store E (x :: u32) @ store E (y :: u32))) = x"
  "load E (take 4 (drop 4 (store E (x :: u32) @ store E (y :: u32)))) = y"
  by (simp_all add: bytes_simps)

lemma store_halves:
  "length b = 8 \<Longrightarrow> store E (load E (take 4 b) :: u32) @ store E (load E (take 4 (drop 4 b)) :: u32) = b"
  using append_take_drop_id[of 4 b] by (simp add: bytes_simps)

lemma length_CAST5 [simp]:
  "length (CAST5_Encrypt c b) = 8" "length (CAST5_Decrypt c b) = 8"
  by (simp_all add: CAST5_Encrypt_def CAST5_Decrypt_def bytes_simps Let_def split: prod.split)

lemma CAST5_Decrypt_Encrypt:
  assumes "length b = 8"
  shows "CAST5_Decrypt c (CAST5_Encrypt c b) = b"
proof -
  let ?s = "(load Big (take 4 b), load Big (take 4 (drop 4 b)) :: u32)"
  obtain l r where e: "cast5_enc_rounds c ?s = (l, r)" by force
  have d: "cast5_dec_rounds c (r, l) = prod.swap ?s"
    using cast5_rounds_undo(1)[of c ?s] e by simp
  show ?thesis
    using assms e d store_halves[OF assms, of Big]
    unfolding CAST5_Encrypt_def CAST5_Decrypt_def cast5_enc_rounds_def cast5_dec_rounds_def Let_def
    by (cases "c5_longkey c") (simp_all add: bytes_simps)
qed

lemma CAST5_Encrypt_Decrypt:
  assumes "length b = 8"
  shows "CAST5_Encrypt c (CAST5_Decrypt c b) = b"
proof -
  let ?l = "load Big (take 4 b) :: u32" and ?r = "load Big (take 4 (drop 4 b)) :: u32"
  let ?s = "if c5_longkey c then (?r, ?l XOR cast5_fi cast_f1 c 15 ?r) else (?l, ?r)"
  obtain l r where d: "cast5_dec_rounds c ?s = (l, r)" by force
  have e: "cast5_enc_rounds c (r, l) = prod.swap ?s"
    using cast5_rounds_undo(2)[of c ?s] d by simp
  show ?thesis
    using assms e d store_halves[OF assms, of Big]
    unfolding CAST5_Encrypt_def CAST5_Decrypt_def cast5_enc_rounds_def cast5_dec_rounds_def Let_def
    by (cases "c5_longkey c") (simp_all add: bytes_simps)
qed

interpretation cast5: block_cipher 8 CAST5_Encrypt CAST5_Decrypt "\<lambda>_. True"
  by unfold_locales (simp_all add: CAST5_Decrypt_Encrypt CAST5_Encrypt_Decrypt)

text \<open>The rotation counts of the key schedule never reach the width of the word.\<close>

lemma and_1f_less: "unat (ucast (w AND 0x1f :: u32) :: byte) < 32"
proof -
  have m: "w AND 0x1f = take_bit 5 w" by (simp add: take_bit_eq_mask mask_eq_exp_minus_1)
  have "unat (take_bit 5 w) = take_bit 5 (unat w)" by (rule unsigned_take_bit_eq)
  moreover have "take_bit 5 (unat w) < 32" using take_bit_nat_less_exp[of 5 "unat w"] by simp
  ultimately have lt: "unat (w AND 0x1f) < 32" unfolding m by simp
  have "unat (ucast (w AND 0x1f) :: byte) = take_bit 8 (unat (w AND 0x1f))"
    by (simp add: unsigned_ucast_eq)
  also have "\<dots> = unat (w AND 0x1f)" using lt by (simp add: take_bit_nat_eq_self)
  finally show ?thesis using lt by simp
qed

lemma length_cast5_pass: "length (fst (cast5_subkey_pass x)) = 16"
  by (simp add: cast5_subkey_pass_def cast5_ComputeSubkeySetA_def cast5_ComputeSubkeySetB_def Let_def)

lemma CAST5_SetKey_ranges:
  "length key \<le> 16 \<Longrightarrow> \<exists>k. CAST5_SetKeyInternal key c = Some k \<and> length (c5_km k) = 16 \<and> length (c5_kr k) = 16 \<and>
     (\<forall>kr\<in>set (c5_kr k). unat kr < 32) \<and> (c5_longkey k \<longleftrightarrow> 10 < length key)"
  using length_cast5_pass
  by (auto simp: CAST5_SetKeyInternal_def cast5_ComputeSubkeys_def and_1f_less Let_def
      split: prod.split) (metis fst_conv)+

section \<open>CAST-256\<close>

record cast6 =
  c6_km :: "u32 list list"
  c6_kr :: "byte list list"

text \<open>
  The masks \<^verbatim>\<open>tm[j][i]\<close> and rotations \<^verbatim>\<open>tr[j][i]\<close> in the order the nested loop
  fills them: entry \<open>8 * i + j\<close> of the lists below.
\<close>

fun cast6_mask_seq :: "nat \<Rightarrow> u32 \<Rightarrow> byte \<Rightarrow> (u32 \<times> byte) list" where
  "cast6_mask_seq 0 cm cr = []"
| "cast6_mask_seq (Suc n) cm cr =
     (cm, cr) # cast6_mask_seq n (cm + 0x6ed9eba1) ((cr + 17) AND 0x1f)"

definition cast6_masks :: "(u32 \<times> byte) list" where
  "cast6_masks = cast6_mask_seq (24 * 8) 0x5a827999 19"

definition cast6_W :: "(u32 \<times> byte) list \<Rightarrow> nat \<Rightarrow> u32 list \<Rightarrow> u32 list" where
  "cast6_W ms i k =
     (let tm = (\<lambda>j. fst (ms ! (8 * i + j)));
          tr = (\<lambda>j. snd (ms ! (8 * i + j)));
          k = k[6 := k ! 6 XOR cast_f1 (k ! 7) (tm 0) (tr 0)];
          k = k[5 := k ! 5 XOR cast_f2 (k ! 6) (tm 1) (tr 1)];
          k = k[4 := k ! 4 XOR cast_f3 (k ! 5) (tm 2) (tr 2)];
          k = k[3 := k ! 3 XOR cast_f1 (k ! 4) (tm 3) (tr 3)];
          k = k[2 := k ! 2 XOR cast_f2 (k ! 3) (tm 4) (tr 4)];
          k = k[1 := k ! 1 XOR cast_f3 (k ! 2) (tm 5) (tr 5)];
          k = k[0 := k ! 0 XOR cast_f1 (k ! 1) (tm 6) (tr 6)]
      in k[7 := k ! 7 XOR cast_f2 (k ! 0) (tm 7) (tr 7)])"

fun cast6_key_states :: "(u32 \<times> byte) list \<Rightarrow> nat list \<Rightarrow> u32 list \<Rightarrow> u32 list list" where
  "cast6_key_states ms [] k = []"
| "cast6_key_states ms (i # is) k =
     (let k = cast6_W ms (2 * i + 1) (cast6_W ms (2 * i + 0) k) in k # cast6_key_states ms is k)"

text \<open>The key is copied to an array of eight words.\<close>

definition CAST6_SetKeyInternal :: "byte list \<Rightarrow> cast6 \<Rightarrow> cast6 option" where
  "CAST6_SetKeyInternal key c =
     (case Copy_array Big key (replicate 8 0) of None \<Rightarrow> None
      | Some keys \<Rightarrow>
        let ks = cast6_key_states cast6_masks [0..<12] keys
        in Some (c\<lparr>c6_km := map (\<lambda>j. map (\<lambda>k. k ! j) ks) [7, 5, 3, 1],
             c6_kr := map (\<lambda>j. map (\<lambda>k. ucast (k ! j AND 0x1f)) ks) [0, 2, 4, 6]\<rparr>))"

lemma CAST6_SetKeyInternal_accepts:
  "CAST6_SetKeyInternal key c \<noteq> None \<longleftrightarrow> 4 dvd length key \<and> length key \<le> 32"
  by (simp add: CAST6_SetKeyInternal_def Copy_array_def Let_def)

type_synonym quad = "u32 \<times> u32 \<times> u32 \<times> u32"

fun cast6_Q :: "cast6 \<Rightarrow> nat \<Rightarrow> quad \<Rightarrow> quad" where
  "cast6_Q k i (a, b, c, d) =
     (let c = c XOR cast_f1 d (c6_km k ! 0 ! i) (c6_kr k ! 0 ! i);
          b = b XOR cast_f2 c (c6_km k ! 1 ! i) (c6_kr k ! 1 ! i);
          a = a XOR cast_f3 b (c6_km k ! 2 ! i) (c6_kr k ! 2 ! i);
          d = d XOR cast_f1 a (c6_km k ! 3 ! i) (c6_kr k ! 3 ! i)
      in (a, b, c, d))"

fun cast6_Qbar :: "cast6 \<Rightarrow> nat \<Rightarrow> quad \<Rightarrow> quad" where
  "cast6_Qbar k i (a, b, c, d) =
     (let d = d XOR cast_f1 a (c6_km k ! 3 ! i) (c6_kr k ! 3 ! i);
          a = a XOR cast_f3 b (c6_km k ! 2 ! i) (c6_kr k ! 2 ! i);
          b = b XOR cast_f2 c (c6_km k ! 1 ! i) (c6_kr k ! 1 ! i);
          c = c XOR cast_f1 d (c6_km k ! 0 ! i) (c6_kr k ! 0 ! i)
      in (a, b, c, d))"

definition load_quad_tuple :: "byte list \<Rightarrow> quad" where
  "load_quad_tuple inp =
     (let data = load_words Big (take 16 inp) in (data ! 0, data ! 1, data ! 2, data ! 3))"

definition store_quad_tuple :: "quad \<Rightarrow> byte list" where
  "store_quad_tuple q = (let (a, b, c, d) = q in store_words Big [a, b, c, d])"

definition CAST6_Encrypt :: "cast6 \<Rightarrow> byte list \<Rightarrow> byte list" where
  "CAST6_Encrypt k inp =
     (let data = load_quad_tuple inp;
          data = fold (cast6_Q k) [0, 1, 2, 3, 4, 5] data;
          data = fold (cast6_Qbar k) [6, 7, 8, 9, 10, 11] data
      in store_quad_tuple data)"

definition CAST6_Decrypt :: "cast6 \<Rightarrow> byte list \<Rightarrow> byte list" where
  "CAST6_Decrypt k inp =
     (let data = load_quad_tuple inp;
          data = fold (cast6_Q k) [11, 10, 9, 8, 7, 6] data;
          data = fold (cast6_Qbar k) [5, 4, 3, 2, 1, 0] data
      in store_quad_tuple data)"

lemma cast6_Q_undo [simp]:
  "cast6_Qbar k i (cast6_Q k i s) = s" "cast6_Q k i (cast6_Qbar k i s) = s"
  by (cases s; simp add: Let_def)+

lemma load_store_quad_tuple [simp]: "load_quad_tuple (store_quad_tuple q) = q"
  by (cases q) (simp add: load_quad_tuple_def store_quad_tuple_def bytes_simps Let_def)

lemma store_load_quad_tuple [simp]:
  "length b = 16 \<Longrightarrow> store_quad_tuple (load_quad_tuple b) = b"
  by (simp add: load_quad_tuple_def store_quad_tuple_def load_quad Let_def)

lemma length_store_quad_tuple [simp]: "length (store_quad_tuple q) = 16"
  by (cases q) (simp add: store_quad_tuple_def bytes_simps)

lemma CAST6_Decrypt_Encrypt: "length b = 16 \<Longrightarrow> CAST6_Decrypt k (CAST6_Encrypt k b) = b"
  by (simp add: CAST6_Encrypt_def CAST6_Decrypt_def Let_def)

lemma CAST6_Encrypt_Decrypt: "length b = 16 \<Longrightarrow> CAST6_Encrypt k (CAST6_Decrypt k b) = b"
  by (simp add: CAST6_Encrypt_def CAST6_Decrypt_def Let_def)

lemma length_CAST6 [simp]:
  "length (CAST6_Encrypt k b) = 16" "length (CAST6_Decrypt k b) = 16"
  by (simp_all add: CAST6_Encrypt_def CAST6_Decrypt_def Let_def)

interpretation cast6: block_cipher 16 CAST6_Encrypt CAST6_Decrypt "\<lambda>_. True"
  by unfold_locales (simp_all add: CAST6_Decrypt_Encrypt CAST6_Encrypt_Decrypt)

end
