(* ===== verification/Hash.thy ===== *)
theory Hash
  imports Util
begin

text \<open>
  The class template \<^verbatim>\<open>Hash<T, Size, BufSize, BlkSize, E>\<close> of
  \<^verbatim>\<open>impl/hash/hash.hh\<close>. The width of the word type is the width of
  \<^verbatim>\<open>T\<close>; the virtual \<^verbatim>\<open>Transform\<close>, the block size and the byte orders are
  arguments. \<open>absorbed\<close> relates a context to the message it has been given, whatever the
  pieces were; \<open>md_hash\<close> is the contract of the algorithms that use the template's
  own \<^verbatim>\<open>Pad\<close>.
\<close>

record 'q hstate =
  m_hash :: "'q list"
  m_buf :: "byte list"
  m_len0 :: 'q
  m_len1 :: 'q

type_synonym 'w transform = "'w word list \<Rightarrow> byte list \<Rightarrow> 'w word list"

definition hash_Initialize :: "'w::len word hstate \<Rightarrow> 'w word hstate" where
  "hash_Initialize st = st\<lparr>m_len0 := 0, m_len1 := 0, m_buf := replicate (length (m_buf st)) 0\<rparr>"

text \<open>\<^verbatim>\<open>Reset\<close> of an algorithm: the initial chaining value, then \<^verbatim>\<open>Initialize\<close>.\<close>

definition hash_Reset :: "'w::len word list \<Rightarrow> 'w word hstate \<Rightarrow> 'w word hstate" where
  "hash_Reset iv st = hash_Initialize (st\<lparr>m_hash := iv\<rparr>)"

definition hash_Transform :: "'w::len transform \<Rightarrow> byte list \<Rightarrow> 'w word hstate \<Rightarrow> 'w word hstate" where
  "hash_Transform tr block st = st\<lparr>m_hash := tr (m_hash st) block\<rparr>"

definition hash_count :: "nat \<Rightarrow> 'w::len word hstate \<Rightarrow> 'w word hstate" where
  "hash_count len st =
     (let t = m_len0 st;
          st = st\<lparr>m_len0 := t + of_nat len\<rparr>
      in if m_len0 st < t then st\<lparr>m_len1 := m_len1 st + 1\<rparr> else st)"

definition hash_Update ::
    "'w::len transform \<Rightarrow> nat \<Rightarrow> byte list \<Rightarrow> 'w word hstate \<Rightarrow> 'w word hstate" where
  "hash_Update tr BlkSize data st =
     (let off = unat (m_len0 st) mod BlkSize;
          st = hash_count (length data) st;
          (st, data) =
            (if off \<noteq> 0
             then let i = min (BlkSize - off) (length data);
                      st = st\<lparr>m_buf := put_bytes off (take i data) (m_buf st)\<rparr>;
                      st = (if i + off = BlkSize then hash_Transform tr (m_buf st) st else st)
                  in (st, drop i data)
             else (st, data));
          st = fold (hash_Transform tr) (chunks BlkSize data) st
      in st\<lparr>m_buf := put_bytes 0 (remainder BlkSize data) (m_buf st)\<rparr>)"

definition hash_UpdateFast ::
    "'w::len transform \<Rightarrow> nat \<Rightarrow> byte list \<Rightarrow> 'w word hstate \<Rightarrow> 'w word hstate" where
  "hash_UpdateFast tr BlkSize data st =
     (let st = hash_count (length data) st
      in fold (hash_Transform tr) (chunks BlkSize data) st)"

text \<open>
  The length field of \<^verbatim>\<open>Pad\<close>: the two words of the bit count, most significant first
  exactly when the machine is big-endian, copied as one unit of \<^verbatim>\<open>sizeof(len)\<close> bytes.
\<close>

definition hash_len_field :: "endianness \<Rightarrow> endianness \<Rightarrow> 'w::len word hstate \<Rightarrow> byte list" where
  "hash_len_field host E st =
     (let hi = push_bit 3 (m_len1 st) OR drop_bit (LENGTH('w) - 3) (m_len0 st);
          lo = push_bit 3 (m_len0 st);
          len = (if GetEndianness host = GetEndianness Big then [hi, lo] else [lo, hi]);
          mem = concat (map (store host) len);
          sz = 2 * (LENGTH('w) div 8)
      in if host = E then mem else CopyBackwards mem sz sz 0)"

definition hash_Pad ::
    "endianness \<Rightarrow> 'w::len transform \<Rightarrow> nat \<Rightarrow> endianness \<Rightarrow> 'w word hstate \<Rightarrow> 'w word hstate" where
  "hash_Pad host tr BlkSize E st =
     (let trip = BlkSize - 2 * (LENGTH('w) div 8);
          noff = unat (m_len0 st) mod BlkSize;
          off = noff + 1;
          field = hash_len_field host E st;
          st = st\<lparr>m_buf := put_bytes noff [0x80] (m_buf st)\<rparr>;
          (st, off) =
            (if trip \<le> noff
             then let st = st\<lparr>m_buf := put_bytes off (replicate (BlkSize - off) 0) (m_buf st)\<rparr>
                  in (hash_Transform tr (m_buf st) st, 0)
             else (st, off));
          st = st\<lparr>m_buf := put_bytes off (replicate (trip - off) 0) (m_buf st)\<rparr>;
          st = st\<lparr>m_buf := put_bytes trip field (m_buf st)\<rparr>
      in hash_Transform tr (m_buf st) st)"

definition hash_GetDigest ::
    "endianness \<Rightarrow> ('w::len word hstate \<Rightarrow> 'w word hstate) \<Rightarrow> endianness \<Rightarrow> nat \<Rightarrow> bool \<Rightarrow>
       'w word hstate \<Rightarrow> byte list \<times> 'w word hstate" where
  "hash_GetDigest host Pad E len nopad st =
     (let st = (if nopad then st else Pad st)
      in (CopyCarefully_out host E (m_hash st) len (LENGTH('w) div 8), st))"

section \<open>What a context has absorbed\<close>

text \<open>\<open>absorbed_buf\<close> leaves out the high word of the counter, which only \<^verbatim>\<open>Pad\<close> reads.\<close>

definition absorbed_buf ::
    "'w::len transform \<Rightarrow> nat \<Rightarrow> 'w word list \<Rightarrow> byte list \<Rightarrow> 'w word hstate \<Rightarrow> bool" where
  "absorbed_buf tr BlkSize iv msg st \<longleftrightarrow>
     m_hash st = foldl tr iv (chunks BlkSize msg) \<and>
     length (m_buf st) = BlkSize \<and>
     take (length msg mod BlkSize) (m_buf st) = remainder BlkSize msg \<and>
     m_len0 st = of_nat (length msg)"

definition absorbed ::
    "'w::len transform \<Rightarrow> nat \<Rightarrow> 'w word list \<Rightarrow> byte list \<Rightarrow> 'w word hstate \<Rightarrow> bool" where
  "absorbed tr BlkSize iv msg st \<longleftrightarrow>
     absorbed_buf tr BlkSize iv msg st \<and> m_len1 st = of_nat (length msg div 2 ^ LENGTH('w))"

lemma absorbed_Reset:
  "length (m_buf st) = BlkSize \<Longrightarrow> 0 < BlkSize \<Longrightarrow> absorbed tr BlkSize iv [] (hash_Reset iv st)"
  by (simp add: absorbed_def absorbed_buf_def hash_Reset_def hash_Initialize_def)

lemma hash_count_simps [simp]:
  "m_hash (hash_count n st) = m_hash st" "m_buf (hash_count n st) = m_buf st"
  "m_len0 (hash_count n st) = m_len0 st + of_nat n"
  by (simp_all add: hash_count_def Let_def)

text \<open>The two-word byte counter is exact as long as one piece is shorter than the range of a word.\<close>

lemma add_div_carry:
  fixes m n M :: nat
  assumes "n < M"
  shows "(m + n) div M = (if (m + n) mod M < m mod M then Suc (m div M) else m div M)"
proof -
  have M: "0 < M" using assms by simp
  have r: "m mod M < M" using M by simp
  have md: "(m + n) mod M = (m mod M + n) mod M" by (simp add: mod_add_left_eq)
  have dv: "(m + n) div M = m div M + (m mod M + n) div M"
    using assms by (subst div_add1_eq) simp
  show ?thesis
  proof (cases "m mod M + n < M")
    case True
    then show ?thesis unfolding dv md by simp
  next
    case False
    then obtain y where y: "m mod M + n = M + y" using le_Suc_ex linorder_not_less by blast
    then have lt: "y < m mod M" "y < M" using r assms by linarith+
    have "(M + y) div M = Suc 0" "(M + y) mod M = y"
      using lt(2) M by (simp_all only: div_add_self1 mod_add_self1 div_less mod_less)
    then show ?thesis unfolding dv md y using lt(1) by simp
  qed
qed

lemma hash_count_carry:
  fixes st :: "'w::len word hstate"
  assumes "m_len0 st = of_nat m" "m_len1 st = of_nat (m div 2 ^ LENGTH('w))"
    and "n < 2 ^ LENGTH('w)"
  shows "m_len1 (hash_count n st) = of_nat ((m + n) div 2 ^ LENGTH('w))"
proof -
  have "(of_nat m + of_nat n :: 'w word) < of_nat m
      \<longleftrightarrow> (m + n) mod 2 ^ LENGTH('w) < m mod 2 ^ LENGTH('w)"
    unfolding of_nat_add[symmetric] word_less_nat_alt unat_of_nat ..
  then have "m_len1 (hash_count n st) = (if (m + n) mod 2 ^ LENGTH('w) < m mod 2 ^ LENGTH('w)
      then of_nat (m div 2 ^ LENGTH('w)) + 1 else of_nat (m div 2 ^ LENGTH('w)))"
    unfolding hash_count_def Let_def assms(1,2) 
    by (simp add: assms)
  also have "\<dots> = of_nat ((m + n) div 2 ^ LENGTH('w))"
    unfolding add_div_carry[OF assms(3), of m] by (simp split: if_split)
  finally show ?thesis .
qed

lemma fold_hash_Transform [simp]:
  "m_hash (fold (hash_Transform tr) bs st) = foldl tr (m_hash st) bs"
  "m_buf (fold (hash_Transform tr) bs st) = m_buf st"
  "m_len0 (fold (hash_Transform tr) bs st) = m_len0 st"
  "m_len1 (fold (hash_Transform tr) bs st) = m_len1 st"
  by (induction bs arbitrary: st) (simp_all add: hash_Transform_def)

lemma hash_Transform_simps [simp]:
  "m_hash (hash_Transform tr b st) = tr (m_hash st) b"
  "m_buf (hash_Transform tr b st) = m_buf st"
  "m_len0 (hash_Transform tr b st) = m_len0 st"
  "m_len1 (hash_Transform tr b st) = m_len1 st"
  by (simp_all add: hash_Transform_def)

lemma unat_length_mod:
  "n dvd 2 ^ LENGTH('w) \<Longrightarrow> unat (of_nat k :: 'w::len word) mod n = k mod n"
  by (simp add: unat_of_nat mod_mod_cancel)


section \<open>Updating\<close>

text \<open>What is left of the message in the buffer, followed by the new data, is cut anew.\<close>

lemma absorbed_extend:
  assumes abs: "absorbed_buf tr n iv msg st" and n: "0 < n"
    and hash: "m_hash st' = foldl tr (m_hash st) (chunks n (remainder n msg @ data))"
    and buf: "length (m_buf st') = n"
      "take (length (msg @ data) mod n) (m_buf st') = remainder n (remainder n msg @ data)"
    and count: "m_len0 st' = m_len0 st + of_nat (length data)"
  shows "absorbed_buf tr n iv (msg @ data) st'"
  using assms chunks_append[OF n, of msg data] remainder_append[OF n, of msg data]
  by (simp add: absorbed_buf_def)

lemma hash_Update_absorbed_buf:
  fixes st :: "'w::len word hstate"
  assumes abs: "absorbed_buf tr n iv msg st" and n: "0 < n" "n dvd 2 ^ LENGTH('w)"
  shows "absorbed_buf tr n iv (msg @ data) (hash_Update tr n data st)"
proof -
  let ?r = "remainder n msg" and ?off = "length msg mod n" and ?i = "min (n - length msg mod n) (length data)"
  have off: "unat (m_len0 st) mod n = ?off" and buf: "length (m_buf st) = n"
    and r: "take ?off (m_buf st) = ?r" "length ?r = ?off"
    using abs n by (simp_all add: absorbed_buf_def unat_length_mod)
  have lt: "?off < n" using n by simp
  show ?thesis
  proof (cases "?off = 0")
    case True
    then have "?r = []" using r by simp
    moreover have "length (msg @ data) mod n = length data mod n"
      using True by (metis add_0 length_append mod_add_left_eq)
    moreover have "length data mod n \<le> n" using n(1) by (simp add: less_imp_le)
    ultimately show ?thesis
      using abs n off buf True
      by (intro absorbed_extend) (simp_all add: hash_Update_def Let_def put_bytes_def)
  next
    case False
    have buf': "take (?off + ?i) (put_bytes ?off (take ?i data) (m_buf st)) = ?r @ take ?i data"
      using take_put_bytes[of ?off "m_buf st" "take ?i data"] buf lt r by simp
    have len': "length (put_bytes ?off (take ?i data) (m_buf st)) = n"
      using buf lt by simp
    show ?thesis
    proof (cases "?off + length data < n")
      case True
      then have i: "?i = length data" "?i + ?off \<noteq> n" by simp_all
      have md: "length (msg @ data) mod n = ?off + length data"
        using True by (simp add: mod_add_left_eq [of "length msg", symmetric])
      have "chunks n (?r @ data) = []" "remainder n (?r @ data) = ?r @ data"
        using True r by simp_all
      moreover have "chunks n ([] :: byte list) = []" "remainder n ([] :: byte list) = []" using n by simp_all
      ultimately show ?thesis
        using abs n off buf False i md buf' len'
        by (intro absorbed_extend) (simp_all add: hash_Update_def Let_def)
    next
      case ge: False
      then have i: "?i = n - ?off" "?i + ?off = n" using lt by simp_all
      have blk: "put_bytes ?off (take ?i data) (m_buf st) = ?r @ take ?i data"
        using buf' len' i by (metis add.commute order_refl take_all)
      have lb: "length (?r @ take ?i data) = n" using blk len' by simp
      have split: "?r @ data = (?r @ take ?i data) @ drop ?i data" by simp
      have ch: "chunks n (?r @ data) = (?r @ take ?i data) # chunks n (drop ?i data)"
        unfolding split by (rule chunks_block[OF n(1) lb])
      have rem: "remainder n (?r @ data) = remainder n (drop ?i data)"
        unfolding split by (rule remainder_block[OF n(1) lb])
      have md: "length (msg @ data) mod n = length (drop ?i data) mod n"
        using length_remainder[of n "?r @ data"] unfolding rem length_remainder
        by (simp add: mod_add_left_eq)
      obtain B where B: "?r @ take ?i data = B" "length B = n" using lb by auto
      have le: "length (remainder n (drop ?i data)) \<le> length B"
        using n(1) B(2) by (simp add: less_imp_le del: length_drop)
      have "length (put_bytes 0 (remainder n (drop ?i data)) B) = n"
        using le B(2) by simp
      moreover have "take (length (drop ?i data) mod n) (put_bytes 0 (remainder n (drop ?i data)) B)
          = remainder n (drop ?i data)"
        using take_put_bytes[of 0 B "remainder n (drop ?i data)"]
        by (simp only: length_remainder add_0 take_0 append_Nil zero_le)
      ultimately show ?thesis
        using n off False i(2) ch rem md blk B(1)
        by (intro absorbed_extend[OF abs])
          (simp_all add: hash_Update_def Let_def del: length_append length_drop length_put_bytes min_def)
    qed
  qed
qed

lemma hash_Update_len1 [simp]: "m_len1 (hash_Update tr n data st) = m_len1 (hash_count (length data) st)"
  by (simp add: hash_Update_def Let_def)

lemma hash_UpdateFast_len1 [simp]:
  "m_len1 (hash_UpdateFast tr n data st) = m_len1 (hash_count (length data) st)"
  by (simp add: hash_UpdateFast_def Let_def)

text \<open>One carry at most is counted, so a piece of as many bytes as the range of a word is not counted at all.\<close>

lemma hash_Update_whole_range:
  fixes st :: "'w::len word hstate"
  assumes "length data = 2 ^ LENGTH('w)"
  shows "m_len0 (hash_Update tr n data st) = m_len0 st" "m_len1 (hash_Update tr n data st) = m_len1 st"
proof -
  have z: "of_nat (length data) = (0 :: 'w word)" unfolding assms by simp
  have f: "m_len0 (fold (hash_Transform tr) bs s) = m_len0 s" for bs and s :: "'w word hstate"
    by (induction bs arbitrary: s) (simp_all add: hash_Transform_def)
  show "m_len0 (hash_Update tr n data st) = m_len0 st" using z by (simp add: hash_Update_def f hash_Transform_def Let_def)
  show "m_len1 (hash_Update tr n data st) = m_len1 st" using z by (simp add: hash_count_def Let_def)
qed

lemma hash_Update_absorbed:
  fixes st :: "'w::len word hstate"
  assumes "absorbed tr n iv msg st" "0 < n" "n dvd 2 ^ LENGTH('w)" "length data < 2 ^ LENGTH('w)"
  shows "absorbed tr n iv (msg @ data) (hash_Update tr n data st)"
  using assms hash_Update_absorbed_buf[of tr n iv msg st data]
    hash_count_carry[of st "length msg" "length data"]
  by (simp add: absorbed_def absorbed_buf_def)

lemma hash_UpdateFast_absorbed:
  fixes st :: "'w::len word hstate"
  assumes "absorbed tr n iv msg st" "0 < n" "n dvd length msg" "n dvd length data"
    and "length data < 2 ^ LENGTH('w)"
  shows "absorbed tr n iv (msg @ data) (hash_UpdateFast tr n data st)"
proof -
  have "length msg mod n = 0" "length data mod n = 0" using assms by auto
  moreover have "length (msg @ data) mod n = 0" using assms by auto
  moreover have "remainder n msg = []" "remainder n data = []"
    using calculation by (simp_all flip: length_0_conv)
  ultimately have "absorbed_buf tr n iv (msg @ data) (hash_UpdateFast tr n data st)"
    using assms
    by (intro absorbed_extend[where st = st])
      (simp_all add: hash_UpdateFast_def Let_def absorbed_def absorbed_buf_def)
  then show ?thesis
    using assms hash_count_carry[of st "length msg" "length data"]
    by (simp add: absorbed_def absorbed_buf_def)
qed

section \<open>Padding\<close>

text \<open>
  The reference: a one bit, zeros, and the length in bits as one number of twice the word's
  size in the byte order of the algorithm, modulo its range.
\<close>

definition nat_bytes :: "nat \<Rightarrow> nat \<Rightarrow> byte list" where
  "nat_bytes k x = map (\<lambda>i. of_nat (x div 2 ^ (8 * i))) [0..<k]"

definition md_length :: "endianness \<Rightarrow> nat \<Rightarrow> nat \<Rightarrow> byte list" where
  "md_length E k x = (case E of Little \<Rightarrow> nat_bytes k x | Big \<Rightarrow> rev (nat_bytes k x))"

definition md_pad :: "endianness \<Rightarrow> nat \<Rightarrow> nat \<Rightarrow> byte list \<Rightarrow> byte list" where
  "md_pad E n k msg =
     (let z = (n - (length msg + 1 + k) mod n) mod n
      in msg @ [0x80] @ replicate z 0 @ md_length E k (8 * length msg))"

lemma length_nat_bytes [simp]: "length (nat_bytes k x) = k"
  by (simp add: nat_bytes_def)

lemma length_md_length [simp]: "length (md_length E k x) = k"
  by (cases E) (simp_all add: md_length_def)

lemma nat_bytes_add: "nat_bytes (j + k) x = nat_bytes j x @ nat_bytes k (x div 2 ^ (8 * j))"
proof (rule nth_equalityI)
  fix i assume "i < length (nat_bytes (j + k) x)"
  then have i: "i < j + k" by simp
  show "nat_bytes (j + k) x ! i = (nat_bytes j x @ nat_bytes k (x div 2 ^ (8 * j))) ! i"
  proof (cases "i < j")
    case False
    then obtain d where "i = j + d" using le_Suc_ex linorder_not_less by blast
    then show ?thesis
      using i by (simp add: nat_bytes_def nth_append div_mult2_eq[symmetric] power_add[symmetric]
          distrib_left)
  qed (simp add: nat_bytes_def nth_append)
qed simp

lemma bit_of_nat_word: "bit (of_nat x :: 'w::len word) n \<longleftrightarrow> n < LENGTH('w) \<and> bit x n"
  by transfer (simp add: bit_take_bit_iff bit_of_nat_iff_bit)

lemma le_store_of_nat: "le_store (of_nat x :: 'w::len word) = nat_bytes (LENGTH('w) div 8) x"
proof (rule nth_equalityI)
  fix i assume "i < length (le_store (of_nat x :: 'w word))"
  then have i: "i < LENGTH('w) div 8" by (simp add: bytes_simps)
  have lt: "8 * i + r < LENGTH('w)" if "r < 8" for r using that i by linarith
  have "le_store (of_nat x :: 'w word) ! i = ucast (drop_bit (8 * i) (of_nat x :: 'w word))"
    using i by (rule nth_le_store)
  also have "\<dots> = (of_nat (drop_bit (8 * i) x) :: byte)"
  proof (rule bit_word_eqI)
    fix r assume "r < LENGTH(8)"
    then have "r < 8" by simp
    then show "bit (ucast (drop_bit (8 * i) (of_nat x :: 'w word)) :: byte) r
        = bit (of_nat (drop_bit (8 * i) x) :: byte) r"
      using lt[of r] by (simp add: bit_simps bit_of_nat_word)
  qed
  finally show "le_store (of_nat x :: 'w word) ! i = nat_bytes (LENGTH('w) div 8) x ! i"
    using i by (simp add: nat_bytes_def drop_bit_eq_div)
qed (simp add: bytes_simps)

text \<open>The two shifted counters are the two halves of the bit count.\<close>

lemma bit_count_high:
  assumes "3 < LENGTH('w)"
  shows "push_bit 3 (of_nat (L div 2 ^ LENGTH('w))) OR drop_bit (LENGTH('w) - 3) (of_nat L)
     = (of_nat (8 * L div 2 ^ LENGTH('w)) :: 'w::len word)"
proof (rule bit_word_eqI)
  fix i assume i: "i < LENGTH('w)"
  have 8: "8 * L div 2 ^ LENGTH('w) = drop_bit LENGTH('w) (push_bit 3 L)"
    by (simp add: drop_bit_eq_div push_bit_eq_mult mult.commute[of 8])
  have q: "L div 2 ^ LENGTH('w) = drop_bit LENGTH('w) L" by (simp add: drop_bit_eq_div)
  show "bit (push_bit 3 (of_nat (L div 2 ^ LENGTH('w))) OR drop_bit (LENGTH('w) - 3) (of_nat L) :: 'w word) i
      = bit (of_nat (8 * L div 2 ^ LENGTH('w)) :: 'w word) i"
  proof (cases "i < 3")
    case True
    then have "LENGTH('w) - 3 + i = LENGTH('w) + i - 3" "LENGTH('w) + i - 3 < LENGTH('w)"
      using assms by simp_all
    then show ?thesis unfolding 8 q using True i assms
      by (simp add: bit_simps bit_of_nat_word)
  next
    case False
    then have "LENGTH('w) + (i - 3) = LENGTH('w) + i - 3" by simp
    then show ?thesis unfolding 8 q using False i assms
      by (auto simp: bit_simps bit_of_nat_word)
  qed
qed

lemma bit_count_low:
  "push_bit 3 (of_nat L) = (of_nat (8 * L) :: 'w::len word)"
  by (simp add: push_bit_eq_mult mult.commute)

lemma hash_len_field_md:
  fixes st :: "'w::len word hstate"
  assumes "m_len0 st = of_nat L" "m_len1 st = of_nat (L div 2 ^ LENGTH('w))"
    and w: "3 < LENGTH('w)" "8 dvd LENGTH('w)"
  shows "hash_len_field host E st = md_length E (2 * (LENGTH('w) div 8)) (8 * L)"
proof -
  let ?k = "LENGTH('w) div 8"
  let ?lo = "of_nat (8 * L) :: 'w word" and ?hi = "of_nat (8 * L div 2 ^ LENGTH('w)) :: 'w word"
  have k: "0 < ?k" using w(2) by (rule bytes_of_word_pos)
  have "8 * ?k = LENGTH('w)" using w(2) by simp
  then have le: "le_store ?lo @ le_store ?hi = nat_bytes (2 * ?k) (8 * L)"
    using nat_bytes_add[of ?k ?k "8 * L"] by (simp only: le_store_of_nat mult_2)
  have be: "be_store ?hi @ be_store ?lo = rev (nat_bytes (2 * ?k) (8 * L))"
    by (simp only: be_store_def le[symmetric] rev_append)
  have rev: "CopyBackwards mem (2 * ?k) (2 * ?k) 0 = rev mem" if "length mem = 2 * ?k" for mem
    using CopyBackwards_eq[of "2 * ?k" "[mem]" "2 * ?k"] that k by simp
  obtain hi lo :: "'w word" where hl: "?hi = hi" "?lo = lo" by blast
  have cp: "hash_len_field host E st =
      (let mem = concat (map (store host) (if host = Big then [hi, lo] else [lo, hi]))
       in if host = E then mem else rev mem)"
    using bit_count_high[OF w(1), of L] bit_count_low[where 'w = 'w, of L]
    unfolding hash_len_field_def Let_def assms(1,2) hl
    by (cases host) (simp_all add: GetEndianness_def rev bytes_simps)
  note le = le[unfolded hl] and be = be[unfolded hl]
  show ?thesis
    unfolding cp Let_def using le be
    by (cases host; cases E) (simp_all add: md_length_def store_def)
qed

section \<open>What \<^verbatim>\<open>Pad\<close> transforms\<close>

lemma put_bytes_split:
  "take i buf = r \<Longrightarrow> i = length r \<Longrightarrow> put_bytes i xs buf = r @ xs @ drop (i + length xs) buf"
  by (simp add: put_bytes_def)

lemma put_bytes_last:
  assumes "take i buf = r" "i = length r" "length buf = i + length xs"
  shows "put_bytes i xs buf = r @ xs"
  using put_bytes_split[OF assms(1,2), of xs] assms(3) by simp

lemma hash_Pad_md:
  fixes st :: "'w::len word hstate"
  assumes abs: "absorbed tr n iv msg st" and n: "n dvd 2 ^ LENGTH('w)" "2 * (LENGTH('w) div 8) < n"
    and w: "3 < LENGTH('w)" "8 dvd LENGTH('w)"
  shows "m_hash (hash_Pad host tr n E st)
     = foldl tr iv (chunks n (md_pad E n (2 * (LENGTH('w) div 8)) msg))"
proof -
  define k where "k = 2 * (LENGTH('w) div 8)"
  define noff where "noff = length msg mod n"
  define field where "field = md_length E k (8 * length msg)"
  let ?r = "remainder n msg"
  have npos: "0 < n" and kn: "k < n" using n(2) by (simp_all add: k_def)
  have lt: "noff < n" using npos by (simp add: noff_def)
  have off: "unat (m_len0 st) mod n = noff" and buf: "length (m_buf st) = n"
    and r: "take noff (m_buf st) = ?r" "noff = length ?r" "length ?r < n"
    and hash: "m_hash st = foldl tr iv (chunks n msg)"
    using abs n npos by (simp_all add: absorbed_def absorbed_buf_def unat_length_mod noff_def)
  have fld: "hash_len_field host E st = field"
    using abs w by (simp add: absorbed_def absorbed_buf_def hash_len_field_md field_def k_def)
  have lf: "length field = k" by (simp add: field_def)
  define b0 where "b0 = put_bytes noff [0x80] (m_buf st)"
  have b0: "take (Suc noff) b0 = ?r @ [0x80]" "length b0 = n"
    using take_put_bytes[of noff "m_buf st" "[0x80]"] buf r by (simp_all add: b0_def)
  have z: "(n - (length msg + 1 + k) mod n) mod n
      = (if n - k \<le> noff then (n - Suc noff) + (n - k) else n - k - Suc noff)"
  proof -
    have "(length msg + 1 + k) mod n = (noff + 1 + k) mod n"
      by (simp only: noff_def mod_add_left_eq add.assoc)
    moreover have "noff < n" using r by simp
    ultimately show ?thesis
      using kn by (cases "noff + 1 + k < n"; cases "noff + 1 + k = n")
        (auto simp: le_mod_geq not_less)
  qed
  define rest where "rest = [0x80] @ replicate ((n - (length msg + 1 + k) mod n) mod n) 0 @ field"
  have pad: "chunks n (md_pad E n k msg) = chunks n msg @ chunks n (?r @ rest)"
    using chunks_append[OF npos, of msg rest] by (simp add: md_pad_def Let_def rest_def field_def)
  have last: "put_bytes (n - k) field b = z' @ field"
    if "take (n - k) b = z'" "length b = n" for b z' :: "byte list"
    using that lf kn by (intro put_bytes_last) auto
  show ?thesis
  proof (cases "n - k \<le> noff")
    case True
    let ?b1 = "?r @ [0x80] @ replicate (n - Suc noff) 0 :: byte list"
    let ?b2 = "replicate (n - k) 0 @ field"
    have b1: "put_bytes (Suc noff) (replicate (n - Suc noff) 0) b0 = ?b1"
      using put_bytes_last[OF b0(1), of "replicate (n - Suc noff) 0"] b0(2) r by simp
    have lb1: "length ?b1 = n"
      using lt unfolding length_append r(2)[symmetric] length_replicate list.size by linarith
    have "take (n - k) (put_bytes 0 (replicate (n - k) 0) ?b1) = replicate (n - k) 0"
      by (simp add: put_bytes_def)
    moreover have "length (put_bytes 0 (replicate (n - k) 0) ?b1) = length ?b1"
      by (rule length_put_bytes) (unfold lb1, simp)
    then have "length (put_bytes 0 (replicate (n - k) 0) ?b1) = n"
      using lb1 by (rule trans)
    ultimately have b2: "put_bytes (n - k) field (put_bytes 0 (replicate (n - k) 0) ?b1) = ?b2"
      by (rule last)
    have "?r @ rest = ?b1 @ ?b2"
      using z True by (simp add: rest_def replicate_add)
    moreover have "length ?b2 = n" using lf kn by simp
    moreover note lb1
    ultimately have "chunks n (?r @ rest) = [?b1, ?b2]"
      using npos chunks_block[of n ?b2 "[]"] by (simp add: chunks_block del: append.append_Cons append_assoc)
    then show ?thesis
      unfolding k_def[symmetric] pad using True hash b2
      by (simp add: hash_Pad_def Let_def off fld b0_def[symmetric] b1 flip: k_def)
  next
    case False
    let ?b1 = "?r @ [0x80] @ replicate (n - k - Suc noff) 0 :: byte list"
    have len: "length ?b1 = n - k" using r False by simp
    define b where "b = put_bytes (Suc noff) (replicate (n - k - Suc noff) 0) b0"
    have "Suc noff + length (replicate (n - k - Suc noff) (0 :: byte)) = n - k"
      using False by simp
    moreover have "Suc noff \<le> length b0" using lt b0(2) by simp
    ultimately have "take (n - k) b = (?r @ [0x80]) @ replicate (n - k - Suc noff) 0"
      using take_put_bytes[of "Suc noff" b0 "replicate (n - k - Suc noff) 0"]
      unfolding b_def b0(1) by (simp only:)
    then have "take (n - k) b = ?b1" by simp
    moreover have "length b = n" using b0 False kn r by (simp add: b_def)
    ultimately have b2: "put_bytes (n - k) field b = ?b1 @ field" by (rule last)
    have "?r @ rest = ?b1 @ field"
      using z False by (simp add: rest_def)
    moreover have "length (?b1 @ field) = n" using len lf kn by (simp del: append_assoc)
    ultimately have "chunks n (?r @ rest) = [?b1 @ field]"
      using npos chunks_block[of n "?b1 @ field" "[]"] by (simp del: append.append_Cons append_assoc)
    then show ?thesis
      unfolding k_def[symmetric] pad using False hash b2[unfolded b_def]
      by (simp add: hash_Pad_def Let_def off fld b0_def[symmetric] flip: k_def)
  qed
qed

lemma length_hash_Pad:
  fixes st :: "'w::len word hstate"
  assumes "length (m_buf st) = n" "2 * (LENGTH('w) div 8) < n"
    "m_len0 st = of_nat L" "m_len1 st = of_nat (L div 2 ^ LENGTH('w))" "3 < LENGTH('w)" "8 dvd LENGTH('w)"
  shows "length (m_buf (hash_Pad host tr n E st)) = n"
proof -
  obtain noff where noff: "unat (m_len0 st) mod n = noff" "noff < n"
    using assms(2) by (simp add: that)
  show ?thesis
    using assms(1,2) noff(2)
    by (simp add: hash_Pad_def Let_def hash_len_field_md[OF assms(3-6)] noff(1))
qed

section \<open>The contract of a hash\<close>

text \<open>
  What a client (a MAC, a key derivation, the plugin interface) may rely on: the digest is a
  function of the bytes given since the last \<^verbatim>\<open>Reset\<close>, however they were cut up.
  \<open>fits\<close> bounds one piece, \<open>ready\<close> is what holds of every allocated context.
\<close>

locale streaming_hash =
  fixes Reset :: "'s \<Rightarrow> 's"
    and Update :: "byte list \<Rightarrow> 's \<Rightarrow> 's"
    and Final :: "'s \<Rightarrow> byte list"
    and ready :: "'s \<Rightarrow> bool"
    and fits :: "byte list \<Rightarrow> bool"
    and absorbs :: "byte list \<Rightarrow> 's \<Rightarrow> bool"
    and digest :: "byte list \<Rightarrow> byte list"
  assumes absorbs_Reset: "ready s \<Longrightarrow> absorbs [] (Reset s)"
    and absorbs_Update: "absorbs msg s \<Longrightarrow> fits data \<Longrightarrow> absorbs (msg @ data) (Update data s)"
    and Final_digest: "absorbs msg s \<Longrightarrow> Final s = digest msg"
begin

lemma absorbs_fold:
  "absorbs msg s \<Longrightarrow> \<forall>p\<in>set ps. fits p \<Longrightarrow> absorbs (msg @ concat ps) (fold Update ps s)"
proof (induction ps arbitrary: msg s)
  case (Cons p ps)
  then have "absorbs ((msg @ p) @ concat ps) (fold Update ps (Update p s))"
    by (intro Cons.IH absorbs_Update) auto
  then show ?case by simp
qed simp

lemma stream_digest:
  "ready s \<Longrightarrow> \<forall>p\<in>set ps. fits p \<Longrightarrow> Final (fold Update ps (Reset s)) = digest (concat ps)"
  using absorbs_fold[OF absorbs_Reset, of s ps] by (simp add: Final_digest)

lemma stream_chunking:
  assumes "ready s" "ready t" "\<forall>p\<in>set ps. fits p" "\<forall>p\<in>set qs. fits p" "concat ps = concat qs"
  shows "Final (fold Update ps (Reset s)) = Final (fold Update qs (Reset t))"
  using assms by (simp add: stream_digest)

end

text \<open>The digest of the algorithms that use the template's \<^verbatim>\<open>Pad\<close>.\<close>

definition md_digest ::
    "'w::len transform \<Rightarrow> nat \<Rightarrow> endianness \<Rightarrow> 'w word list \<Rightarrow> nat \<Rightarrow> byte list \<Rightarrow> byte list" where
  "md_digest tr BlkSize E iv dsize msg =
     take dsize (store_words E (foldl tr iv
       (chunks BlkSize (md_pad E BlkSize (2 * (LENGTH('w) div 8)) msg))))"

locale md_hash =
  fixes host :: endianness
    and tr :: "'w::len transform"
    and BlkSize :: nat
    and E :: endianness
    and iv :: "'w word list"
    and dsize :: nat
  assumes word: "3 < LENGTH('w)" "8 dvd LENGTH('w)"
    and block: "BlkSize dvd 2 ^ LENGTH('w)" "2 * (LENGTH('w) div 8) < BlkSize"
    and length_tr: "length h = length iv \<Longrightarrow> length b = BlkSize \<Longrightarrow> length (tr h b) = length iv"
    and dsize: "dsize \<le> LENGTH('w) div 8 * length iv"
begin

lemma length_foldl_tr:
  "\<forall>b\<in>set bs. length b = BlkSize \<Longrightarrow> length h = length iv \<Longrightarrow> length (foldl tr h bs) = length iv"
  by (induction bs arbitrary: h) (simp_all add: length_tr)

lemma GetDigest_digest:
  assumes "absorbed tr BlkSize iv msg st"
  shows "fst (hash_GetDigest host (hash_Pad host tr BlkSize E) E dsize False st)
     = md_digest tr BlkSize E iv dsize msg"
proof -
  have "length (foldl tr iv (chunks BlkSize xs)) = length iv" for xs
    by (intro length_foldl_tr) (auto dest: chunks_sizes)
  then show ?thesis
    using assms word block dsize
    by (simp add: hash_GetDigest_def Let_def hash_Pad_md CopyCarefully_out_store
        md_digest_def store_words_def)
qed

end

sublocale md_hash \<subseteq> streaming_hash "hash_Reset iv" "hash_Update tr BlkSize"
    "\<lambda>st. fst (hash_GetDigest host (hash_Pad host tr BlkSize E) E dsize False st)"
    "\<lambda>st. length (m_buf st) = BlkSize" "\<lambda>data. length data < 2 ^ LENGTH('w)"
    "absorbed tr BlkSize iv" "md_digest tr BlkSize E iv dsize"
proof unfold_locales
  have "0 < BlkSize" using block(2) by simp
  then show "length (m_buf s) = BlkSize \<Longrightarrow> absorbed tr BlkSize iv [] (hash_Reset iv s)" for s
    by (rule absorbed_Reset[rotated])
  show "absorbed tr BlkSize iv (msg @ data) (hash_Update tr BlkSize data s)"
    if "absorbed tr BlkSize iv msg s" "length data < 2 ^ LENGTH('w)" for msg data s
    using that block \<open>0 < BlkSize\<close> by (intro hash_Update_absorbed)
qed (rule GetDigest_digest)

context md_hash
begin

lemma template_digest:
  assumes "length (m_buf st) = BlkSize" "\<forall>p\<in>set ps. length p < 2 ^ LENGTH('w)"
  shows "fst (hash_GetDigest host (hash_Pad host tr BlkSize E) E dsize False
       (fold (hash_Update tr BlkSize) ps (hash_Reset iv st))) = md_digest tr BlkSize E iv dsize (concat ps)"
  using assms by (rule stream_digest)

end

end
