(* ===== verification/SHA1.thy ===== *)
theory SHA1
  imports Hash
begin

text \<open>
  \<^verbatim>\<open>impl/hash/sha1\<close>: the template \<^verbatim>\<open>SHA<Rotate>\<close> with its forward and inverse
  transforms (SHA-1 is \<^verbatim>\<open>SHA<1>\<close>, SHA-0 is \<^verbatim>\<open>SHA<0>\<close>). The lemmas show that the
  circular buffer of 16 words computes the schedule of the standard and that the inverse
  transform, which reads the 80 words of that schedule, undoes the forward one.
\<close>

section \<open>The round functions\<close>

definition sha_ff :: "u32 \<Rightarrow> u32 \<Rightarrow> u32 \<Rightarrow> u32" where
  "sha_ff x y z = (z XOR (x AND (y XOR z))) + 0x5a827999"

definition sha_gg :: "u32 \<Rightarrow> u32 \<Rightarrow> u32 \<Rightarrow> u32" where
  "sha_gg x y z = (x XOR y XOR z) + 0x6ed9eba1"

definition sha_hh :: "u32 \<Rightarrow> u32 \<Rightarrow> u32 \<Rightarrow> u32" where
  "sha_hh x y z = (x AND y) + (z AND (x XOR y)) + 0x8f1bbcdc"

definition sha_ii :: "u32 \<Rightarrow> u32 \<Rightarrow> u32 \<Rightarrow> u32" where
  "sha_ii x y z = (x XOR y XOR z) + 0xca62c1d6"

definition SHA_iv :: "u32 list" where
  "SHA_iv = [0x67452301, 0xefcdab89, 0x98badcfe, 0x10325476, 0xc3d2e1f0]"

definition SHA_Reset :: "u32 hstate \<Rightarrow> u32 hstate" where
  "SHA_Reset st = hash_Reset SHA_iv st"

type_synonym sha_regs = "u32 \<times> u32 \<times> u32 \<times> u32 \<times> u32"

text \<open>
  \<^verbatim>\<open>OP(f, g, a, b, c, d, e)\<close>. Each line of the code names the registers one place
  further to the right than the line before (\<^verbatim>\<open>a,b,c,d,e\<close> then \<^verbatim>\<open>e,a,b,c,d\<close>), so the
  result is the tuple in the order the next line uses; after a multiple of five lines it is
  back in the original order. \<^verbatim>\<open>INVOP\<close> walks the names the other way.
\<close>

definition sha_OP :: "(u32 \<Rightarrow> u32 \<Rightarrow> u32 \<Rightarrow> u32) \<Rightarrow> u32 \<Rightarrow> sha_regs \<Rightarrow> sha_regs" where
  "sha_OP f g = (\<lambda>(a, b, c, d, e).
     let e = e + (RotateLeft a 5 + f b c d + g);
         b = RotateLeft b 30
     in (e, a, b, c, d))"

definition sha_INVOP :: "(u32 \<Rightarrow> u32 \<Rightarrow> u32 \<Rightarrow> u32) \<Rightarrow> u32 \<Rightarrow> sha_regs \<Rightarrow> sha_regs" where
  "sha_INVOP f g = (\<lambda>(e, a, b, c, d).
     let b = RotateRight b 30;
         e = e - (RotateLeft a 5 + f b c d + g)
     in (a, b, c, d, e))"

definition sha_EXPANSION :: "nat \<Rightarrow> u32 list \<Rightarrow> nat \<Rightarrow> u32 list" where
  "sha_EXPANSION Rotate blk i =
     (if Rotate \<noteq> 0
      then blk[i AND 15 := RotateLeft (blk ! ((i + 13) AND 15) XOR blk ! ((i + 8) AND 15) XOR
             blk ! ((i + 2) AND 15) XOR blk ! (i AND 15)) Rotate]
      else blk[i AND 15 := blk ! (i AND 15) XOR (blk ! ((i + 13) AND 15) XOR blk ! ((i + 8) AND 15) XOR
             blk ! ((i + 2) AND 15))])"

text \<open>\<^verbatim>\<open>OP(f, EXPANSION(i), ...)\<close>: the value of the assignment is the word just stored.\<close>

definition sha_OP_EXPANSION ::
    "nat \<Rightarrow> (u32 \<Rightarrow> u32 \<Rightarrow> u32 \<Rightarrow> u32) \<Rightarrow> nat \<Rightarrow> u32 list \<times> sha_regs \<Rightarrow> u32 list \<times> sha_regs" where
  "sha_OP_EXPANSION Rotate f i = (\<lambda>(blk, r).
     let blk = sha_EXPANSION Rotate blk i
     in (blk, sha_OP f (blk ! (i AND 15)) r))"

definition sha_load_regs :: "u32 list \<Rightarrow> sha_regs" where
  "sha_load_regs state = (state ! 0, state ! 1, state ! 2, state ! 3, state ! 4)"

definition sha_store_regs :: "sha_regs \<Rightarrow> u32 list" where
  "sha_store_regs = (\<lambda>(a, b, c, d, e). [a, b, c, d, e])"

definition SHA_ForwardTransform :: "nat \<Rightarrow> u32 list \<Rightarrow> u32 list \<Rightarrow> u32 list" where
  "SHA_ForwardTransform Rotate state block =
     (let blk = take 16 block;
          r = sha_load_regs state;
          r = fold (\<lambda>i. sha_OP sha_ff (blk ! i)) [0..<16] r;
          s = fold (sha_OP_EXPANSION Rotate sha_ff) [16..<20] (blk, r);
          s = fold (sha_OP_EXPANSION Rotate sha_gg) [20..<40] s;
          s = fold (sha_OP_EXPANSION Rotate sha_hh) [40..<60] s;
          s = fold (sha_OP_EXPANSION Rotate sha_ii) [60..<80] s
      in sha_store_regs (snd s))"

definition SHA_InverseTransform :: "u32 list \<Rightarrow> u32 list \<Rightarrow> u32 list" where
  "SHA_InverseTransform state blk =
     (let r = sha_load_regs state;
          r = fold (\<lambda>i. sha_INVOP sha_ii (blk ! i)) (rev [60..<80]) r;
          r = fold (\<lambda>i. sha_INVOP sha_hh (blk ! i)) (rev [40..<60]) r;
          r = fold (\<lambda>i. sha_INVOP sha_gg (blk ! i)) (rev [20..<40]) r;
          r = fold (\<lambda>i. sha_INVOP sha_ff (blk ! i)) (rev [0..<20]) r
      in sha_store_regs r)"

definition SHA_Transform :: "nat \<Rightarrow> 32 transform" where
  "SHA_Transform Rotate state block = map2 (+) state (SHA_ForwardTransform Rotate state (load_words Big block))"

section \<open>The schedule of the standard\<close>

fun sha_word :: "nat \<Rightarrow> u32 list \<Rightarrow> nat \<Rightarrow> u32" where
  "sha_word R ws t =
     (if t < 16 then ws ! t
      else RotateLeft (sha_word R ws (t - 3) XOR sha_word R ws (t - 8) XOR sha_word R ws (t - 14) XOR
             sha_word R ws (t - 16)) R)"

declare sha_word.simps [simp del]

definition sha_fun :: "nat \<Rightarrow> u32 \<Rightarrow> u32 \<Rightarrow> u32 \<Rightarrow> u32" where
  "sha_fun t = (if t < 20 then sha_ff else if t < 40 then sha_gg else if t < 60 then sha_hh else sha_ii)"

lemma RotateLeft_0 [simp]: "RotateLeft x 0 = (x :: 'a::len word)"
  by (rule bit_word_eqI) (auto simp: RotateLeft_def bit_simps dest: bit_imp_le_length)

lemma sha_EXPANSION_eq:
  "sha_EXPANSION R blk i = blk[i mod 16 := RotateLeft (blk ! ((i + 13) mod 16) XOR
     blk ! ((i + 8) mod 16) XOR blk ! ((i + 2) mod 16) XOR blk ! (i mod 16)) R]"
  unfolding sha_EXPANSION_def and_15 by (cases "R = 0") (simp_all add: ac_simps)

lemma sha_EXPANSION_word:
  assumes ring: "ring (sha_word R ws) i blk" and i: "16 \<le> i"
  shows "sha_EXPANSION R blk i = blk[i mod 16 := sha_word R ws i]"
proof -
  have "blk ! ((i + 13) mod 16) = sha_word R ws (i - 3)" using ring_prev[OF assms, of 13] by simp
  moreover have "blk ! ((i + 8) mod 16) = sha_word R ws (i - 8)" using ring_prev[OF assms, of 8] by simp
  moreover have "blk ! ((i + 2) mod 16) = sha_word R ws (i - 14)" using ring_prev[OF assms, of 2] by simp
  moreover have "blk ! (i mod 16) = sha_word R ws (i - 16)" using assms by (rule ring_this)
  moreover have "\<not> i < 16" using i by simp
  ultimately show ?thesis
    by (simp only: sha_EXPANSION_eq sha_word.simps[of R ws i] if_False)
qed

lemma sha_ring_step:
  assumes ring: "ring (sha_word R ws) i blk" and i: "16 \<le> i"
  shows "ring (sha_word R ws) (Suc i) (sha_EXPANSION R blk i)"
    and "sha_EXPANSION R blk i ! (i mod 16) = sha_word R ws i"
  using ring_update[OF ring] ring_length[OF ring] by (simp_all add: sha_EXPANSION_word[OF assms])

lemma sha_OP_EXPANSION_fold:
  assumes "ring (sha_word R ws) i blk" "16 \<le> i"
  shows "\<exists>blk'. fold (sha_OP_EXPANSION R f) [i..<i + n] (blk, r)
      = (blk', fold (\<lambda>t. sha_OP f (sha_word R ws t)) [i..<i + n] r)
    \<and> ring (sha_word R ws) (i + n) blk'"
proof (induction n)
  case 0
  then show ?case using assms by simp
next
  case (Suc n)
  then obtain blk' where blk': "fold (sha_OP_EXPANSION R f) [i..<i + n] (blk, r)
      = (blk', fold (\<lambda>t. sha_OP f (sha_word R ws t)) [i..<i + n] r)"
    and ring: "ring (sha_word R ws) (i + n) blk'" by blast
  show ?case
    using assms sha_ring_step[OF ring] blk'[unfolded sha_OP_EXPANSION_def Let_def]
    by (auto simp: sha_OP_EXPANSION_def Let_def and_15)
qed

lemma sha_OP_EXPANSION_phase:
  assumes "ring (sha_word R ws) i blk" "16 \<le> i" "i \<le> j"
    and "\<And>t. i \<le> t \<Longrightarrow> t < j \<Longrightarrow> sha_fun t = f"
  obtains blk' where "fold (sha_OP_EXPANSION R f) [i..<j] (blk, r)
      = (blk', fold (\<lambda>t. sha_OP (sha_fun t) (sha_word R ws t)) [i..<j] r)"
    and "ring (sha_word R ws) j blk'"
proof -
  have "fold (\<lambda>t. sha_OP f (sha_word R ws t)) [i..<j] r
      = fold (\<lambda>t. sha_OP (sha_fun t) (sha_word R ws t)) [i..<j] r"
    using assms(4) by (intro fold_cong) auto
  then show thesis
    using sha_OP_EXPANSION_fold[OF assms(1,2), of f "j - i" r] assms(3) that by auto
qed

text \<open>The forward transform runs the 80 steps of the standard.\<close>

lemma SHA_ForwardTransform_steps:
  assumes "16 \<le> length block"
  shows "SHA_ForwardTransform R state block = sha_store_regs
     (fold (\<lambda>t. sha_OP (sha_fun t) (sha_word R block t)) [0..<80] (sha_load_regs state))"
proof -
  let ?W = "sha_word R block" and ?step = "\<lambda>t. sha_OP (sha_fun t) (sha_word R block t)"
  have W: "?W t = take 16 block ! t" if "t < 16" for t
    using that assms by (simp add: sha_word.simps)
  then have r0: "ring ?W 16 (take 16 block)"
    using assms by (intro ring_init) simp_all
  have f0: "fold (\<lambda>i. sha_OP sha_ff (take 16 block ! i)) [0..<16] r = fold ?step [0..<16] r" for r
    by (intro fold_cong) (auto simp: W sha_fun_def)
  define r1 where "r1 = fold ?step [0..<16] (sha_load_regs state)"
  obtain b1 where b1: "fold (sha_OP_EXPANSION R sha_ff) [16..<20] (take 16 block, r1)
      = (b1, fold ?step [16..<20] r1)" "ring ?W 20 b1"
    using r0 by (rule sha_OP_EXPANSION_phase[where j = 20]) (simp_all add: sha_fun_def)
  define r2 where "r2 = fold ?step [16..<20] r1"
  obtain b2 where b2: "fold (sha_OP_EXPANSION R sha_gg) [20..<40] (b1, r2)
      = (b2, fold ?step [20..<40] r2)" "ring ?W 40 b2"
    using b1(2) by (rule sha_OP_EXPANSION_phase[where j = 40]) (simp_all add: sha_fun_def)
  define r3 where "r3 = fold ?step [20..<40] r2"
  obtain b3 where b3: "fold (sha_OP_EXPANSION R sha_hh) [40..<60] (b2, r3)
      = (b3, fold ?step [40..<60] r3)" "ring ?W 60 b3"
    using b2(2) by (rule sha_OP_EXPANSION_phase[where j = 60]) (simp_all add: sha_fun_def)
  define r4 where "r4 = fold ?step [40..<60] r3"
  obtain b4 where b4: "fold (sha_OP_EXPANSION R sha_ii) [60..<80] (b3, r4)
      = (b4, fold ?step [60..<80] r4)"
    using b3(2) by (rule sha_OP_EXPANSION_phase[where j = 80]) (simp_all add: sha_fun_def)
  have "SHA_ForwardTransform R state block = sha_store_regs (fold ?step [60..<80] r4)"
    unfolding SHA_ForwardTransform_def Let_def f0 r1_def[symmetric] b1(1) r2_def[symmetric] b2(1)
      r3_def[symmetric] b3(1) r4_def[symmetric] b4 by simp
  also have "fold ?step [60..<80] r4
      = fold ?step ([0..<16] @ [16..<20] @ [20..<40] @ [40..<60] @ [60..<80]) (sha_load_regs state)"
    by (simp only: r1_def r2_def r3_def r4_def fold_append o_apply)
  also have "[0..<16] @ [16..<20] @ [20..<40] @ [40..<60] @ [60..<80] = [0..<80]"
    by (simp add: upt_split del: upt_conv_Cons upt_rec_numeral)
  finally show ?thesis .
qed

section \<open>The inverse transform\<close>

lemma sha_INVOP_OP: "sha_INVOP f g (sha_OP f g r) = r"
  by (cases r) (simp add: sha_INVOP_def sha_OP_def Let_def)

lemma sha_OP_INVOP: "sha_OP f g (sha_INVOP f g r) = r"
  by (cases r) (simp add: sha_INVOP_def sha_OP_def Let_def)

lemma sha_load_store_regs [simp]: "sha_load_regs (sha_store_regs r) = r"
  by (cases r) (simp add: sha_load_regs_def sha_store_regs_def)

lemma sha_store_load_regs: "length st = 5 \<Longrightarrow> sha_store_regs (sha_load_regs st) = st"
  by (auto simp: sha_load_regs_def sha_store_regs_def numeral_eq_Suc length_Suc_conv)

lemma length_sha_store_regs [simp]: "length (sha_store_regs r) = 5"
  by (cases r) (simp add: sha_store_regs_def)

definition sha_schedule :: "nat \<Rightarrow> u32 list \<Rightarrow> u32 list" where
  "sha_schedule R block = map (sha_word R block) [0..<80]"

lemma SHA_InverseTransform_steps:
  "SHA_InverseTransform state (sha_schedule R block) = sha_store_regs
     (fold (\<lambda>t. sha_INVOP (sha_fun t) (sha_word R block t)) (rev [0..<80]) (sha_load_regs state))"
proof -
  let ?step = "\<lambda>t. sha_INVOP (sha_fun t) (sha_word R block t)"
  have phase: "fold (\<lambda>i. sha_INVOP f (sha_schedule R block ! i)) (rev [i..<j]) r = fold ?step (rev [i..<j]) r"
    if "j \<le> 80" "\<And>t. i \<le> t \<Longrightarrow> t < j \<Longrightarrow> sha_fun t = f" for f i j r
    using that by (intro fold_cong) (auto simp: sha_schedule_def)
  have "SHA_InverseTransform state (sha_schedule R block) = sha_store_regs
      (fold ?step (rev [60..<80] @ rev [40..<60] @ rev [20..<40] @ rev [0..<20]) (sha_load_regs state))"
    unfolding SHA_InverseTransform_def Let_def fold_append o_apply
    by (simp add: phase sha_fun_def del: upt_conv_Cons upt_rec_numeral)
  also have "rev [60..<80] @ rev [40..<60] @ rev [20..<40] @ rev [0..<20] = rev [0..<80]"
    unfolding rev_append[symmetric] by (simp add: upt_split del: upt_conv_Cons upt_rec_numeral)
  finally show ?thesis .
qed

lemma SHA_Inverse_Forward:
  assumes "16 \<le> length block" "length state = 5"
  shows "SHA_InverseTransform (SHA_ForwardTransform R state block) (sha_schedule R block) = state"
  unfolding SHA_InverseTransform_steps SHA_ForwardTransform_steps[OF assms(1)] sha_load_store_regs
  by (subst fold_undo[where P = "\<lambda>_. True"])
    (simp_all add: sha_INVOP_OP sha_store_load_regs assms(2))

lemma SHA_Forward_Inverse:
  assumes "16 \<le> length block" "length state = 5"
  shows "SHA_ForwardTransform R (SHA_InverseTransform state (sha_schedule R block)) block = state"
  unfolding SHA_InverseTransform_steps SHA_ForwardTransform_steps[OF assms(1)] sha_load_store_regs
  by (subst fold_undo[where P = "\<lambda>_. True" and xs = "rev [0..<80]", unfolded rev_rev_ident])
    (simp_all add: sha_OP_INVOP sha_store_load_regs assms(2))

section \<open>SHA-1 and SHA-0 as hashes\<close>

interpretation sha: md_hash host "SHA_Transform R" 64 Big SHA_iv 20 for host R
  by unfold_locales
    (auto simp: SHA_iv_def SHA_Transform_def SHA_ForwardTransform_def Let_def)

end
