(* ===== verification/SHA2.thy ===== *)
theory SHA2
  imports Hash
begin

text \<open>
  \<^verbatim>\<open>impl/hash/sha256\<close> and \<^verbatim>\<open>impl/hash/sha512\<close>: SHA-224, SHA-256, SHA-384, SHA-512
  and SHA-512/t. SHA-256 expands the block into an array of 64 words (its transforms are also
  the block cipher SHACAL-2), SHA-512 into a circular buffer of 16. The lemmas give both the
  schedule of the standard and the inverse of the forward transform.
\<close>

type_synonym 'w sha2_regs =
  "'w word \<times> 'w word \<times> 'w word \<times> 'w word \<times> 'w word \<times> 'w word \<times> 'w word \<times> 'w word"

definition sha2_load_regs :: "'w::len word list \<Rightarrow> 'w sha2_regs" where
  "sha2_load_regs st = (st ! 0, st ! 1, st ! 2, st ! 3, st ! 4, st ! 5, st ! 6, st ! 7)"

definition sha2_store_regs :: "'w::len sha2_regs \<Rightarrow> 'w word list" where
  "sha2_store_regs = (\<lambda>(a, b, c, d, e, f, g, h). [a, b, c, d, e, f, g, h])"

section \<open>SHA-256\<close>

definition sha256_S0 :: "u32 \<Rightarrow> u32" where
  "sha256_S0 x = RotateRight x 2 XOR RotateRight x 13 XOR RotateRight x 22"

definition sha256_S1 :: "u32 \<Rightarrow> u32" where
  "sha256_S1 x = RotateRight x 6 XOR RotateRight x 11 XOR RotateRight x 25"

definition sha256_s0 :: "u32 \<Rightarrow> u32" where
  "sha256_s0 x = RotateRight x 7 XOR RotateRight x 18 XOR drop_bit 3 x"

definition sha256_s1 :: "u32 \<Rightarrow> u32" where
  "sha256_s1 x = RotateRight x 17 XOR RotateRight x 19 XOR drop_bit 10 x"

text \<open>The table of \<^verbatim>\<open>k[]\<close>, in decimal; the source writes it in hexadecimal.\<close>

definition sha256_k :: "u32 list" where
  "sha256_k =
    [1116352408, 1899447441, 3049323471, 3921009573,
     961987163, 1508970993, 2453635748, 2870763221,
     3624381080, 310598401, 607225278, 1426881987,
     1925078388, 2162078206, 2614888103, 3248222580,
     3835390401, 4022224774, 264347078, 604807628,
     770255983, 1249150122, 1555081692, 1996064986,
     2554220882, 2821834349, 2952996808, 3210313671,
     3336571891, 3584528711, 113926993, 338241895,
     666307205, 773529912, 1294757372, 1396182291,
     1695183700, 1986661051, 2177026350, 2456956037,
     2730485921, 2820302411, 3259730800, 3345764771,
     3516065817, 3600352804, 4094571909, 275423344,
     430227734, 506948616, 659060556, 883997877,
     958139571, 1322822218, 1537002063, 1747873779,
     1955562222, 2024104815, 2227730452, 2361852424,
     2428436474, 2756734187, 3204031479, 3329325298]"


text \<open>
  \<^verbatim>\<open>ROUND(a, ..., h, k, blk)\<close>, with the tuple turned by one place as the next line
  names it; \<^verbatim>\<open>INVROUND\<close> turns it back.
\<close>

definition sha256_ROUND :: "u32 \<Rightarrow> u32 \<Rightarrow> 32 sha2_regs \<Rightarrow> 32 sha2_regs" where
  "sha256_ROUND k blk = (\<lambda>(a, b, c, d, e, f, g, h).
     let h = h + (sha256_S1 e + TernarySelection e f g + k + blk);
         d = d + h;
         h = h + (sha256_S0 a + TernaryMajority a b c)
     in (h, a, b, c, d, e, f, g))"

definition sha256_INVROUND :: "u32 \<Rightarrow> u32 \<Rightarrow> 32 sha2_regs \<Rightarrow> 32 sha2_regs" where
  "sha256_INVROUND k blk = (\<lambda>(h, a, b, c, d, e, f, g).
     let h = h - (sha256_S0 a + TernaryMajority a b c);
         d = d - h;
         h = h - (sha256_S1 e + TernarySelection e f g + k + blk)
     in (a, b, c, d, e, f, g, h))"

definition sha256_ROUND2 :: "u32 \<Rightarrow> nat \<Rightarrow> u32 list \<times> 32 sha2_regs \<Rightarrow> u32 list \<times> 32 sha2_regs" where
  "sha256_ROUND2 k i = (\<lambda>(blk, r).
     let blk = blk[i := sha256_s1 (blk ! (i - 2)) + blk ! (i - 7) + sha256_s0 (blk ! (i - 15)) + blk ! (i - 16)]
     in (blk, sha256_ROUND k (blk ! i) r))"

text \<open>The array of 64 words starts with the block; the other words are written before they are read.\<close>

definition SHA256_ForwardTransform :: "u32 list \<Rightarrow> u32 list \<Rightarrow> u32 list" where
  "SHA256_ForwardTransform state block =
     (let blk = put_bytes 0 (take 16 block) (replicate 64 0);
          r = sha2_load_regs state;
          r = fold (\<lambda>i. sha256_ROUND (sha256_k ! i) (blk ! i)) [0..<16] r;
          (blk, r) = fold (\<lambda>i. sha256_ROUND2 (sha256_k ! i) i) [16..<64] (blk, r)
      in sha2_store_regs r)"

definition SHA256_InverseTransform :: "u32 list \<Rightarrow> u32 list \<Rightarrow> u32 list" where
  "SHA256_InverseTransform state blk =
     sha2_store_regs (fold (\<lambda>i. sha256_INVROUND (sha256_k ! i) (blk ! i)) (rev [0..<64]) (sha2_load_regs state))"

definition SHA256_Transform :: "32 transform" where
  "SHA256_Transform state block = map2 (+) state (SHA256_ForwardTransform state (load_words Big block))"

definition SHA256_iv :: "u32 list" where
  "SHA256_iv = [0x6a09e667, 0xbb67ae85, 0x3c6ef372, 0xa54ff53a, 0x510e527f, 0x9b05688c, 0x1f83d9ab, 0x5be0cd19]"

definition SHA256_Reset :: "u32 hstate \<Rightarrow> u32 hstate" where
  "SHA256_Reset st = hash_Reset SHA256_iv st"

definition SHA224_iv :: "u32 list" where
  "SHA224_iv = [0xc1059ed8, 0x367cd507, 0x3070dd17, 0xf70e5939, 0xffc00b31, 0x68581511, 0x64f98fa7, 0xbefa4fa4]"

definition SHA224_Reset :: "u32 hstate \<Rightarrow> u32 hstate" where
  "SHA224_Reset st = hash_Reset SHA224_iv st"

section \<open>SHA-512\<close>

definition sha512_S0 :: "u64 \<Rightarrow> u64" where
  "sha512_S0 x = RotateRight x 28 XOR RotateRight x 34 XOR RotateRight x 39"

definition sha512_S1 :: "u64 \<Rightarrow> u64" where
  "sha512_S1 x = RotateRight x 14 XOR RotateRight x 18 XOR RotateRight x 41"

definition sha512_s0 :: "u64 \<Rightarrow> u64" where
  "sha512_s0 x = RotateRight x 1 XOR RotateRight x 8 XOR drop_bit 7 x"

definition sha512_s1 :: "u64 \<Rightarrow> u64" where
  "sha512_s1 x = RotateRight x 19 XOR RotateRight x 61 XOR drop_bit 6 x"

text \<open>The table of \<^verbatim>\<open>k[]\<close>, in decimal; the source writes it in hexadecimal.\<close>

definition sha512_k :: "u64 list" where
  "sha512_k =
    [4794697086780616226, 8158064640168781261,
     13096744586834688815, 16840607885511220156,
     4131703408338449720, 6480981068601479193,
     10538285296894168987, 12329834152419229976,
     15566598209576043074, 1334009975649890238,
     2608012711638119052, 6128411473006802146,
     8268148722764581231, 9286055187155687089,
     11230858885718282805, 13951009754708518548,
     16472876342353939154, 17275323862435702243,
     1135362057144423861, 2597628984639134821,
     3308224258029322869, 5365058923640841347,
     6679025012923562964, 8573033837759648693,
     10970295158949994411, 12119686244451234320,
     12683024718118986047, 13788192230050041572,
     14330467153632333762, 15395433587784984357,
     489312712824947311, 1452737877330783856,
     2861767655752347644, 3322285676063803686,
     5560940570517711597, 5996557281743188959,
     7280758554555802590, 8532644243296465576,
     9350256976987008742, 10552545826968843579,
     11727347734174303076, 12113106623233404929,
     14000437183269869457, 14369950271660146224,
     15101387698204529176, 15463397548674623760,
     17586052441742319658, 1182934255886127544,
     1847814050463011016, 2177327727835720531,
     2830643537854262169, 3796741975233480872,
     4115178125766777443, 5681478168544905931,
     6601373596472566643, 7507060721942968483,
     8399075790359081724, 8693463985226723168,
     9568029438360202098, 10144078919501101548,
     10430055236837252648, 11840083180663258601,
     13761210420658862357, 14299343276471374635,
     14566680578165727644, 15097957966210449927,
     16922976911328602910, 17689382322260857208,
     500013540394364858, 748580250866718886,
     1242879168328830382, 1977374033974150939,
     2944078676154940804, 3659926193048069267,
     4368137639120453308, 4836135668995329356,
     5532061633213252278, 6448918945643986474,
     6902733635092675308, 7801388544844847127]"


definition sha512_ROUND :: "u64 \<Rightarrow> u64 \<Rightarrow> 64 sha2_regs \<Rightarrow> 64 sha2_regs" where
  "sha512_ROUND k blk = (\<lambda>(a, b, c, d, e, f, g, h).
     let h = h + (sha512_S1 e + TernarySelection e f g + k + blk);
         d = d + h;
         h = h + (sha512_S0 a + TernaryMajority a b c)
     in (h, a, b, c, d, e, f, g))"

text \<open>The indices are taken modulo 16 by \<^verbatim>\<open>&15\<close>; a negative difference wraps.\<close>

definition sha512_ROUND2 :: "u64 \<Rightarrow> nat \<Rightarrow> u64 list \<times> 64 sha2_regs \<Rightarrow> u64 list \<times> 64 sha2_regs" where
  "sha512_ROUND2 k i = (\<lambda>(blk, r).
     let blk = blk[i := blk ! i + (sha512_s1 (blk ! ((i + 16 - 2) AND 15)) + blk ! ((i + 16 - 7) AND 15) +
                 sha512_s0 (blk ! ((i + 16 - 15) AND 15)))]
     in (blk, sha512_ROUND k (blk ! i) r))"

definition SHA512_Transform :: "64 transform" where
  "SHA512_Transform state block =
     (let r = sha2_load_regs state;
          blk = load_words Big block;
          r = fold (\<lambda>i. sha512_ROUND (sha512_k ! i) (blk ! i)) [0..<16] r;
          (blk, r) = fold (\<lambda>i. fold (\<lambda>j. sha512_ROUND2 (sha512_k ! (i + j)) j) [0..<16])
                       [16, 32, 48, 64] (blk, r)
      in map2 (+) state (sha2_store_regs r))"

definition SHA512_iv :: "u64 list" where
  "SHA512_iv = [0x6a09e667f3bcc908, 0xbb67ae8584caa73b, 0x3c6ef372fe94f82b, 0xa54ff53a5f1d36f1,
     0x510e527fade682d1, 0x9b05688c2b3e6c1f, 0x1f83d9abfb41bd6b, 0x5be0cd19137e2179]"

definition SHA512_Reset :: "u64 hstate \<Rightarrow> u64 hstate" where
  "SHA512_Reset st = hash_Reset SHA512_iv st"

definition SHA384_iv :: "u64 list" where
  "SHA384_iv = [0xcbbb9d5dc1059ed8, 0x629a292a367cd507, 0x9159015a3070dd17, 0x152fecd8f70e5939,
     0x67332667ffc00b31, 0x8eb44a8768581511, 0xdb0c2e0d64f98fa7, 0x47b5481dbefa4fa4]"

definition SHA384_Reset :: "u64 hstate \<Rightarrow> u64 hstate" where
  "SHA384_Reset st = hash_Reset SHA384_iv st"

text \<open>
  SHA-512/t computes its initial value by hashing its own name (\<^verbatim>\<open>snprintf\<close> with
  \<^verbatim>\<open>"SHA-512/%zu"\<close>).
\<close>

fun decimal :: "nat \<Rightarrow> byte list" where
  "decimal n = (if n < 10 then [of_nat (48 + n)] else decimal (n div 10) @ [of_nat (48 + n mod 10)])"

declare decimal.simps [simp del]

definition SHA512t_label :: "nat \<Rightarrow> byte list" where
  "SHA512t_label t = [0x53, 0x48, 0x41, 0x2d, 0x35, 0x31, 0x32, 0x2f] @ decimal (t * 8)"

definition SHA512t_Reset :: "endianness \<Rightarrow> nat \<Rightarrow> u64 hstate \<Rightarrow> u64 hstate" where
  "SHA512t_Reset host t st =
     (let st = hash_Initialize (st\<lparr>m_hash := map (\<lambda>w. w XOR 0xa5a5a5a5a5a5a5a5) SHA512_iv\<rparr>);
          st = hash_Update SHA512_Transform 128 (SHA512t_label t) st;
          st = hash_Pad host SHA512_Transform 128 Big st
      in hash_Initialize st)"

section \<open>The schedule of the standard\<close>

fun sha2_word :: "('w::len word \<Rightarrow> 'w word) \<Rightarrow> ('w word \<Rightarrow> 'w word) \<Rightarrow> 'w word list \<Rightarrow> nat \<Rightarrow> 'w word" where
  "sha2_word s0 s1 ws t =
     (if t < 16 then ws ! t
      else s1 (sha2_word s0 s1 ws (t - 2)) + sha2_word s0 s1 ws (t - 7) +
           s0 (sha2_word s0 s1 ws (t - 15)) + sha2_word s0 s1 ws (t - 16))"

declare sha2_word.simps [simp del]

abbreviation sha256_word :: "u32 list \<Rightarrow> nat \<Rightarrow> u32" where
  "sha256_word \<equiv> sha2_word sha256_s0 sha256_s1"

abbreviation sha512_word :: "u64 list \<Rightarrow> nat \<Rightarrow> u64" where
  "sha512_word \<equiv> sha2_word sha512_s0 sha512_s1"

lemma sha2_regs_cases:
  fixes r :: "'w sha2_regs"
  obtains a b c d e f g h where "r = (a, b, c, d, e, f, g, h)"
  by (cases r) (metis surj_pair)

lemma sha2_load_store_regs [simp]: "sha2_load_regs (sha2_store_regs r) = r"
  by (cases r rule: sha2_regs_cases) (simp add: sha2_load_regs_def sha2_store_regs_def)

lemma sha2_store_load_regs: "length st = 8 \<Longrightarrow> sha2_store_regs (sha2_load_regs st) = st"
  by (auto simp: sha2_load_regs_def sha2_store_regs_def numeral_eq_Suc length_Suc_conv)

lemma length_sha2_store_regs [simp]: "length (sha2_store_regs r) = 8"
  by (cases r rule: sha2_regs_cases) (simp add: sha2_store_regs_def)

section \<open>SHA-256 computes it, forwards and backwards\<close>

text \<open>The words below \<open>i\<close> of the array are those of the schedule.\<close>

definition sha256_filled :: "u32 list \<Rightarrow> nat \<Rightarrow> u32 list \<Rightarrow> bool" where
  "sha256_filled ws i blk \<longleftrightarrow> length blk = 64 \<and> (\<forall>t<i. blk ! t = sha256_word ws t)"

lemma sha256_ROUND2_word:
  assumes "sha256_filled ws i blk" "16 \<le> i" "i < 64"
  shows "sha256_ROUND2 k i (blk, r) = (blk[i := sha256_word ws i], sha256_ROUND k (sha256_word ws i) r)"
  using assms by (simp add: sha256_ROUND2_def Let_def sha256_filled_def sha2_word.simps[of _ _ _ i])

lemma sha256_filled_update:
  "sha256_filled ws i blk \<Longrightarrow> i < 64 \<Longrightarrow> sha256_filled ws (Suc i) (blk[i := sha256_word ws i])"
  by (auto simp: sha256_filled_def nth_list_update less_Suc_eq)

lemma sha256_ROUND2_fold:
  assumes "sha256_filled ws 16 blk"
  shows "16 + n \<le> 64 \<Longrightarrow> \<exists>blk'. fold (\<lambda>i. sha256_ROUND2 (sha256_k ! i) i) [16..<16 + n] (blk, r)
      = (blk', fold (\<lambda>t. sha256_ROUND (sha256_k ! t) (sha256_word ws t)) [16..<16 + n] r)
    \<and> sha256_filled ws (16 + n) blk'"
proof (induction n)
  case 0
  then show ?case using assms by simp
next
  case (Suc n)
  then obtain blk' where "fold (\<lambda>i. sha256_ROUND2 (sha256_k ! i) i) [16..<16 + n] (blk, r)
      = (blk', fold (\<lambda>t. sha256_ROUND (sha256_k ! t) (sha256_word ws t)) [16..<16 + n] r)"
    and filled: "sha256_filled ws (16 + n) blk'" by auto
  moreover have "[16..<16 + Suc n] = [16..<16 + n] @ [16 + n]"
    by (simp only: add_Suc_right upt_Suc) simp
  ultimately show ?case
    using Suc.prems sha256_filled_update[OF filled]
      sha256_ROUND2_word[OF filled, of "sha256_k ! (16 + n)"] by simp
qed

lemma SHA256_ForwardTransform_steps:
  assumes "16 \<le> length block"
  shows "SHA256_ForwardTransform state block = sha2_store_regs
     (fold (\<lambda>t. sha256_ROUND (sha256_k ! t) (sha256_word block t)) [0..<64] (sha2_load_regs state))"
proof -
  let ?step = "\<lambda>t. sha256_ROUND (sha256_k ! t) (sha256_word block t)"
  let ?b = "put_bytes 0 (take 16 block) (replicate 64 0)"
  have W: "?b ! t = sha256_word block t" if "t < 16" for t
    using that assms by (simp add: put_bytes_def nth_append sha2_word.simps)
  then have filled: "sha256_filled block 16 ?b"
    using assms by (simp add: sha256_filled_def)
  have f0: "fold (\<lambda>i. sha256_ROUND (sha256_k ! i) (?b ! i)) [0..<16] r = fold ?step [0..<16] r" for r
    by (intro fold_cong) (auto simp: W)
  obtain b' where "fold (\<lambda>i. sha256_ROUND2 (sha256_k ! i) i) [16..<64] (?b, fold ?step [0..<16] (sha2_load_regs state))
      = (b', fold ?step [16..<64] (fold ?step [0..<16] (sha2_load_regs state)))"
    using sha256_ROUND2_fold[OF filled, of 48 "fold ?step [0..<16] (sha2_load_regs state)"]
    by (simp del: upt_rec_numeral upt_conv_Cons) blast
  then have "SHA256_ForwardTransform state block
      = sha2_store_regs (fold ?step [16..<64] (fold ?step [0..<16] (sha2_load_regs state)))"
    unfolding SHA256_ForwardTransform_def Let_def f0 by simp
  also have "fold ?step [16..<64] (fold ?step [0..<16] r) = fold ?step ([0..<16] @ [16..<64]) r" for r
    by (simp only: fold_append o_apply)
  also have "[0..<16] @ [16..<64] = [0..<64]" by (rule upt_split) simp_all
  finally show ?thesis .
qed

definition sha256_schedule :: "u32 list \<Rightarrow> u32 list" where
  "sha256_schedule block = map (sha256_word block) [0..<64]"

lemma SHA256_InverseTransform_steps:
  "SHA256_InverseTransform state (sha256_schedule block) = sha2_store_regs
     (fold (\<lambda>t. sha256_INVROUND (sha256_k ! t) (sha256_word block t)) (rev [0..<64]) (sha2_load_regs state))"
  unfolding SHA256_InverseTransform_def
  by (intro arg_cong[where f = sha2_store_regs] fold_cong) (auto simp: sha256_schedule_def)

lemma sha256_INVROUND_ROUND: "sha256_INVROUND k w (sha256_ROUND k w r) = r"
  by (cases r rule: sha2_regs_cases) (simp add: sha256_INVROUND_def sha256_ROUND_def Let_def)

lemma sha256_ROUND_INVROUND: "sha256_ROUND k w (sha256_INVROUND k w r) = r"
  by (cases r rule: sha2_regs_cases) (simp add: sha256_INVROUND_def sha256_ROUND_def Let_def)

lemma SHA256_Inverse_Forward:
  assumes "16 \<le> length block" "length state = 8"
  shows "SHA256_InverseTransform (SHA256_ForwardTransform state block) (sha256_schedule block) = state"
  unfolding SHA256_InverseTransform_steps SHA256_ForwardTransform_steps[OF assms(1)] sha2_load_store_regs
  by (subst fold_undo[where P = "\<lambda>_. True"])
    (simp_all add: sha256_INVROUND_ROUND sha2_store_load_regs assms(2))

lemma SHA256_Forward_Inverse:
  assumes "16 \<le> length block" "length state = 8"
  shows "SHA256_ForwardTransform (SHA256_InverseTransform state (sha256_schedule block)) block = state"
  unfolding SHA256_InverseTransform_steps SHA256_ForwardTransform_steps[OF assms(1)] sha2_load_store_regs
  by (subst fold_undo[where P = "\<lambda>_. True" and xs = "rev [0..<64]", unfolded rev_rev_ident])
    (simp_all add: sha256_ROUND_INVROUND sha2_store_load_regs assms(2))

section \<open>SHA-512 computes it in its circular buffer\<close>

lemma sha512_ROUND2_word:
  assumes ring: "ring (sha512_word ws) t blk" and t: "16 \<le> t" and j: "j = t mod 16"
  shows "sha512_ROUND2 k j (blk, r) = (blk[j := sha512_word ws t], sha512_ROUND k (sha512_word ws t) r)"
proof -
  have idx: "(j + 16 - m) AND 15 = (t + (16 - m)) mod 16" if "m < 16" for m
  proof -
    have "j + 16 - m = j + (16 - m)" using that by simp
    then show ?thesis unfolding and_15 j by (simp only: mod_add_left_eq)
  qed
  have "blk ! ((j + 16 - 2) AND 15) = sha512_word ws (t - 2)"
    using ring_prev[OF ring t, of 14] idx[of 2] by simp
  moreover have "blk ! ((j + 16 - 7) AND 15) = sha512_word ws (t - 7)"
    using ring_prev[OF ring t, of 9] idx[of 7] by simp
  moreover have "blk ! ((j + 16 - 15) AND 15) = sha512_word ws (t - 15)"
    using ring_prev[OF ring t, of 1] idx[of 15] by simp
  moreover have "blk ! j = sha512_word ws (t - 16)" using ring_this[OF ring t] j by simp
  moreover have "j < length blk" using j ring_length[OF ring] by simp
  moreover have "\<not> t < 16" using t by simp
  ultimately show ?thesis
    by (simp only: sha512_ROUND2_def Let_def case_prod_conv sha2_word.simps[of _ _ _ t] if_False
        nth_list_update_eq add.commute add.left_commute)
qed

lemma sha512_ROUND2_fold:
  assumes "ring (sha512_word ws) i blk" "16 \<le> i" "16 dvd i"
  shows "n \<le> 16 \<Longrightarrow> \<exists>blk'. fold (\<lambda>j. sha512_ROUND2 (sha512_k ! (i + j)) j) [0..<n] (blk, r)
      = (blk', fold (\<lambda>t. sha512_ROUND (sha512_k ! t) (sha512_word ws t)) [i..<i + n] r)
    \<and> ring (sha512_word ws) (i + n) blk'"
proof (induction n)
  case 0
  then show ?case using assms by simp
next
  case (Suc n)
  then obtain blk' where blk': "fold (\<lambda>j. sha512_ROUND2 (sha512_k ! (i + j)) j) [0..<n] (blk, r)
      = (blk', fold (\<lambda>t. sha512_ROUND (sha512_k ! t) (sha512_word ws t)) [i..<i + n] r)"
    and ring: "ring (sha512_word ws) (i + n) blk'" by auto
  have "n = (i + n) mod 16" using assms(3) Suc.prems by (auto elim!: dvdE)
  with ring_update[OF ring] sha512_ROUND2_word[OF ring, of n] blk' assms(2)
  show ?case by simp
qed

lemma SHA512_Transform_steps:
  assumes "length block = 128"
  shows "SHA512_Transform state block = map2 (+) state (sha2_store_regs
     (fold (\<lambda>t. sha512_ROUND (sha512_k ! t) (sha512_word (load_words Big block) t)) [0..<80]
       (sha2_load_regs state)))"
proof -
  let ?ws = "load_words Big block :: u64 list"
  let ?step = "\<lambda>t. sha512_ROUND (sha512_k ! t) (sha512_word ?ws t)"
  let ?outer = "\<lambda>i. fold (\<lambda>j. sha512_ROUND2 (sha512_k ! (i + j)) j) [0..<16]"
  have len: "length ?ws = 16" using assms by (simp add: bytes_simps)
  have ring: "ring (sha512_word ?ws) 16 ?ws"
    using len by (intro ring_init) (simp_all add: sha2_word.simps)
  have f0: "fold (\<lambda>i. sha512_ROUND (sha512_k ! i) (?ws ! i)) [0..<16] r = fold ?step [0..<16] r" for r
    by (intro fold_cong) (auto simp: sha2_word.simps)
  have outer: "\<exists>blk'. ?outer i (blk, r) = (blk', fold ?step [i..<i + 16] r) \<and> ring (sha512_word ?ws) (i + 16) blk'"
    if "ring (sha512_word ?ws) i blk" "16 \<le> i" "16 dvd i" for i blk r
    using sha512_ROUND2_fold[OF that, of 16] by simp
  define r0 where "r0 = fold ?step [0..<16] (sha2_load_regs state)"
  obtain b1 where b1: "?outer 16 (?ws, r0) = (b1, fold ?step [16..<32] r0)" "ring (sha512_word ?ws) 32 b1"
    using outer[OF ring, of r0] by auto
  define r1 where "r1 = fold ?step [16..<32] r0"
  obtain b2 where b2: "?outer 32 (b1, r1) = (b2, fold ?step [32..<48] r1)" "ring (sha512_word ?ws) 48 b2"
    using outer[OF b1(2), of r1] by auto
  define r2 where "r2 = fold ?step [32..<48] r1"
  obtain b3 where b3: "?outer 48 (b2, r2) = (b3, fold ?step [48..<64] r2)" "ring (sha512_word ?ws) 64 b3"
    using outer[OF b2(2), of r2] by auto
  define r3 where "r3 = fold ?step [48..<64] r2"
  obtain b4 where b4: "?outer 64 (b3, r3) = (b4, fold ?step [64..<80] r3)"
    using outer[OF b3(2), of r3] by auto
  have "fold ?outer [16, 32, 48, 64] (?ws, r0) = (b4, fold ?step [64..<80] r3)"
    by (simp only: fold_simps b1(1) r1_def[symmetric] b2(1) r2_def[symmetric] b3(1) r3_def[symmetric] b4)
  then have "SHA512_Transform state block = map2 (+) state (sha2_store_regs (fold ?step [64..<80] r3))"
    unfolding SHA512_Transform_def Let_def f0 r0_def[symmetric] by simp
  also have "fold ?step [64..<80] r3
      = fold ?step ([0..<16] @ [16..<32] @ [32..<48] @ [48..<64] @ [64..<80]) (sha2_load_regs state)"
    by (simp only: r0_def r1_def r2_def r3_def fold_append o_apply)
  also have "[0..<16] @ [16..<32] @ [32..<48] @ [48..<64] @ [64..<80] = [0..<80]"
    by (simp add: upt_split del: upt_conv_Cons upt_rec_numeral)
  finally show ?thesis .
qed

section \<open>The five hashes\<close>

lemma length_SHA512_Transform: "length st = 8 \<Longrightarrow> length (SHA512_Transform st b) = 8"
  by (simp add: SHA512_Transform_def Let_def split_beta)

interpretation sha256: md_hash host SHA256_Transform 64 Big SHA256_iv 32 for host
  by unfold_locales
    (auto simp: SHA256_iv_def SHA256_Transform_def SHA256_ForwardTransform_def Let_def split_beta)

interpretation sha224: md_hash host SHA256_Transform 64 Big SHA224_iv 28 for host
  by unfold_locales
    (auto simp: SHA224_iv_def SHA256_Transform_def SHA256_ForwardTransform_def Let_def split_beta)

interpretation sha512: md_hash host SHA512_Transform 128 Big SHA512_iv 64 for host
  by unfold_locales (simp_all add: SHA512_iv_def length_SHA512_Transform)

interpretation sha384: md_hash host SHA512_Transform 128 Big SHA384_iv 48 for host
  by unfold_locales (simp_all add: SHA384_iv_def length_SHA512_Transform)

text \<open>The initial value of SHA-512/t, as the standard defines it.\<close>

definition SHA512t_iv :: "nat \<Rightarrow> u64 list" where
  "SHA512t_iv t = foldl SHA512_Transform (map (\<lambda>w. w XOR 0xa5a5a5a5a5a5a5a5) SHA512_iv)
     (chunks 128 (md_pad Big 128 16 (SHA512t_label t)))"

lemma length_decimal: "length (decimal n) \<le> Suc n"
proof (induction n rule: decimal.induct)
  case (1 n)
  show ?case
  proof (cases "n < 10")
    case False
    then have "n div 10 + 2 \<le> Suc n" by linarith
    then show ?thesis using 1 False by (subst decimal.simps) simp
  qed (simp add: decimal.simps)
qed

lemma SHA512t_Reset_iv:
  assumes "length (m_buf st) = 128" "t \<le> 64"
  shows "SHA512t_Reset host t st = hash_Reset (SHA512t_iv t) st"
proof -
  let ?iv = "map (\<lambda>w. w XOR 0xa5a5a5a5a5a5a5a5) SHA512_iv"
  define st1 where "st1 = hash_Update SHA512_Transform 128 (SHA512t_label t) (hash_Reset ?iv st)"
  have len: "length (SHA512t_label t) < 2 ^ LENGTH(64)"
    using length_decimal[of "t * 8"] assms(2) by (simp add: SHA512t_label_def)
  have abs: "absorbed SHA512_Transform 128 ?iv (SHA512t_label t) st1"
    using hash_Update_absorbed[where msg = "[]", OF absorbed_Reset[of st 128]] assms(1) len
    by (simp add: st1_def)
  have "m_hash (hash_Pad host SHA512_Transform 128 Big st1) = SHA512t_iv t"
    using hash_Pad_md[OF abs, of host Big] by (simp add: SHA512t_iv_def)
  moreover have "length (m_buf (hash_Pad host SHA512_Transform 128 Big st1)) = 128"
    by (rule length_hash_Pad) (use abs in \<open>simp_all add: absorbed_def absorbed_buf_def\<close>)
  ultimately show ?thesis
    using assms(1)
    by (simp add: SHA512t_Reset_def Let_def hash_Reset_def[symmetric] st1_def[symmetric])
      (simp add: hash_Reset_def hash_Initialize_def)
qed

lemma length_foldl_SHA512: "length iv = 8 \<Longrightarrow> length (foldl SHA512_Transform iv bs) = 8"
  by (induction bs arbitrary: iv) (simp_all add: length_SHA512_Transform)

interpretation sha512t: md_hash host SHA512_Transform 128 Big "SHA512t_iv t" "min t 64" for host t
  by unfold_locales
    (simp_all add: SHA512t_iv_def length_foldl_SHA512 length_SHA512_Transform SHA512_iv_def)

end
