(* ===== verification/SHACAL.thy ===== *)
theory SHACAL
  imports Block_Cipher SHA1 SHA2
begin

text \<open>
  \<^verbatim>\<open>impl/block/shacal\<close>: the compression functions of SHA-1 and SHA-256 as block
  ciphers. The key schedule fills the whole array of expanded words, which the inverse
  transform needs; the forward transforms expand the first sixteen again. A key longer than
  the 64 bytes of the buffer it is copied to is not modelled.
\<close>

record shacal =
  m_words :: "u32 list"

definition shacalkeysz :: "nat list" where
  "shacalkeysz = [1..<129]"

text \<open>The sizes \<^verbatim>\<open>DREW_BLOCK_KEYSIZE_LIST\<close> reports for the two ciphers.\<close>

definition shacal1info2_keysizes :: "nat list" where
  "shacal1info2_keysizes = take (512 div 8) shacalkeysz"

definition shacal2info2_keysizes :: "nat list" where
  "shacal2info2_keysizes = take (length shacalkeysz) shacalkeysz"

section \<open>SHACAL-1\<close>

definition SHACAL1_SetKeyInternal :: "byte list \<Rightarrow> shacal \<Rightarrow> shacal" where
  "SHACAL1_SetKeyInternal key c =
     (let buf = replicate 64 0;
          buf = put_bytes 0 key buf;
          w = put_bytes 0 (load_words Big buf) (m_words c);
          w = fold (\<lambda>i w. w[i := RotateLeft (w ! (i - 3) XOR w ! (i - 8) XOR w ! (i - 14) XOR w ! (i - 16)) 1])
                [16..<80] w
      in c\<lparr>m_words := w\<rparr>)"

definition SHACAL1_Encrypt :: "shacal \<Rightarrow> byte list \<Rightarrow> byte list" where
  "SHACAL1_Encrypt c b = store_words Big (SHA_ForwardTransform 1 (load_words Big b) (m_words c))"

definition SHACAL1_Decrypt :: "shacal \<Rightarrow> byte list \<Rightarrow> byte list" where
  "SHACAL1_Decrypt c b = store_words Big (SHA_InverseTransform (load_words Big b) (m_words c))"

section \<open>SHACAL-2\<close>

definition SHACAL2_SetKeyInternal :: "byte list \<Rightarrow> shacal \<Rightarrow> shacal" where
  "SHACAL2_SetKeyInternal key c =
     (let buf = replicate 64 0;
          buf = put_bytes 0 key buf;
          w = put_bytes 0 (load_words Big buf) (m_words c);
          w = fold (\<lambda>i w. w[i := sha256_s1 (w ! (i - 2)) + w ! (i - 7) + sha256_s0 (w ! (i - 15)) + w ! (i - 16)])
                [16..<64] w
      in c\<lparr>m_words := w\<rparr>)"

definition SHACAL2_Encrypt :: "shacal \<Rightarrow> byte list \<Rightarrow> byte list" where
  "SHACAL2_Encrypt c b = store_words Big (SHA256_ForwardTransform (load_words Big b) (m_words c))"

definition SHACAL2_Decrypt :: "shacal \<Rightarrow> byte list \<Rightarrow> byte list" where
  "SHACAL2_Decrypt c b = store_words Big (SHA256_InverseTransform (load_words Big b) (m_words c))"

section \<open>The key schedules\<close>

text \<open>An array filled from left to right, each word from the ones before it.\<close>

lemma fill_schedule:
  assumes "length w = N" "16 \<le> N" "\<And>t. t < 16 \<Longrightarrow> w ! t = W t"
    and step: "\<And>i w. 16 \<le> i \<Longrightarrow> i < N \<Longrightarrow> (\<And>t. t < i \<Longrightarrow> w ! t = W t) \<Longrightarrow> f i w = W i"
  shows "fold (\<lambda>i w. w[i := f i w]) [16..<N] w = map W [0..<N]"
proof -
  have "length (fold (\<lambda>i w. w[i := f i w]) [16..<16 + n] w) = N
      \<and> (\<forall>t<16 + n. fold (\<lambda>i w. w[i := f i w]) [16..<16 + n] w ! t = W t)" if "16 + n \<le> N" for n
    using that
  proof (induction n)
    case (Suc n)
    let ?w = "fold (\<lambda>i w. w[i := f i w]) [16..<16 + n] w"
    have IH: "length ?w = N" "\<forall>t<16 + n. ?w ! t = W t" using Suc by auto
    have "f (16 + n) ?w = W (16 + n)" using IH Suc.prems by (intro step) auto
    moreover have "[16..<16 + Suc n] = [16..<16 + n] @ [16 + n]"
      by (simp only: add_Suc_right upt_Suc) simp
    ultimately show ?case
      using IH Suc.prems by (auto simp: nth_list_update less_Suc_eq)
  qed (use assms in auto)
  from this[of "N - 16"] show ?thesis using assms(2) by (intro nth_equalityI) auto
qed

lemma length_put_front: "length xs \<le> length ys \<Longrightarrow> length (put_bytes 0 xs ys) = length ys"
  by simp

definition shacal_key_words :: "byte list \<Rightarrow> u32 list" where
  "shacal_key_words key = load_words Big (key @ replicate (64 - length key) 0)"

lemma put_key: "length key \<le> 64 \<Longrightarrow> put_bytes 0 key (replicate 64 0) = key @ replicate (64 - length key) 0"
  by (simp add: put_bytes_def)

lemma length_shacal_key_words: "length key \<le> 64 \<Longrightarrow> length (shacal_key_words key) = 16"
  by (simp add: shacal_key_words_def bytes_simps)

lemma SHACAL1_SetKeyInternal_schedule:
  assumes "length key \<le> 64" "length (m_words c) = 80"
  shows "m_words (SHACAL1_SetKeyInternal key c) = sha_schedule 1 (shacal_key_words key)"
proof -
  let ?ws = "shacal_key_words key"
  have "fold (\<lambda>i w. w[i := RotateLeft (w ! (i - 3) XOR w ! (i - 8) XOR w ! (i - 14) XOR w ! (i - 16)) 1])
      [16..<80] (put_bytes 0 ?ws (m_words c)) = map (sha_word 1 ?ws) [0..<80]"
  proof (rule fill_schedule)
    show "length (put_bytes 0 ?ws (m_words c)) = 80"
      using assms length_shacal_key_words[OF assms(1)] by simp
    show "put_bytes 0 ?ws (m_words c) ! t = sha_word 1 ?ws t" if "t < 16" for t
      using that length_shacal_key_words[OF assms(1)] by (simp add: put_bytes_def nth_append sha_word.simps)
    show "RotateLeft (w ! (i - 3) XOR w ! (i - 8) XOR w ! (i - 14) XOR w ! (i - 16)) 1 = sha_word 1 ?ws i"
      if i: "16 \<le> i" "i < 80" and prev: "\<And>t. t < i \<Longrightarrow> w ! t = sha_word 1 ?ws t" for i and w :: "u32 list"
    proof -
      have "w ! (i - m) = sha_word 1 ?ws (i - m)" if "0 < m" for m
        by (rule prev) (rule diff_less[OF that], use i in linarith)
      moreover have "\<not> i < 16" using i by simp
      ultimately show ?thesis
        by (simp only: sha_word.simps[of 1 ?ws i] if_False zero_less_numeral)
    qed
  qed simp
  then show ?thesis
    unfolding SHACAL1_SetKeyInternal_def Let_def sha_schedule_def put_key[OF assms(1)]
      shacal_key_words_def[symmetric] by (simp del: upt_rec_numeral)
qed

lemma SHACAL2_SetKeyInternal_schedule:
  assumes "length key \<le> 64" "length (m_words c) = 64"
  shows "m_words (SHACAL2_SetKeyInternal key c) = sha256_schedule (shacal_key_words key)"
proof -
  let ?ws = "shacal_key_words key"
  have "fold (\<lambda>i w. w[i := sha256_s1 (w ! (i - 2)) + w ! (i - 7) + sha256_s0 (w ! (i - 15)) + w ! (i - 16)])
      [16..<64] (put_bytes 0 ?ws (m_words c)) = map (sha256_word ?ws) [0..<64]"
  proof (rule fill_schedule)
    show "length (put_bytes 0 ?ws (m_words c)) = 64"
      using assms length_shacal_key_words[OF assms(1)] by simp
    show "put_bytes 0 ?ws (m_words c) ! t = sha256_word ?ws t" if "t < 16" for t
      using that length_shacal_key_words[OF assms(1)] by (simp add: put_bytes_def nth_append sha2_word.simps)
    show "sha256_s1 (w ! (i - 2)) + w ! (i - 7) + sha256_s0 (w ! (i - 15)) + w ! (i - 16) = sha256_word ?ws i"
      if i: "16 \<le> i" "i < 64" and prev: "\<And>t. t < i \<Longrightarrow> w ! t = sha256_word ?ws t" for i and w :: "u32 list"
    proof -
      have "w ! (i - m) = sha256_word ?ws (i - m)" if "0 < m" for m
        by (rule prev) (rule diff_less[OF that], use i in linarith)
      moreover have "\<not> i < 16" using i by simp
      ultimately show ?thesis
        by (simp only: sha2_word.simps[of _ _ ?ws i] if_False zero_less_numeral)
    qed
  qed simp
  then show ?thesis
    unfolding SHACAL2_SetKeyInternal_def Let_def sha256_schedule_def put_key[OF assms(1)]
      shacal_key_words_def[symmetric] by (simp del: upt_rec_numeral)
qed

section \<open>The contract\<close>

text \<open>A keyed context holds the schedule of its own first sixteen words.\<close>

definition SHACAL1_keyed :: "shacal \<Rightarrow> bool" where
  "SHACAL1_keyed c \<longleftrightarrow> m_words c = sha_schedule 1 (m_words c)"

definition SHACAL2_keyed :: "shacal \<Rightarrow> bool" where
  "SHACAL2_keyed c \<longleftrightarrow> m_words c = sha256_schedule (m_words c)"

lemma sha_word_cong: "(\<And>t. t < 16 \<Longrightarrow> ws ! t = ws' ! t) \<Longrightarrow> sha_word R ws i = sha_word R ws' i"
proof (induction R ws i rule: sha_word.induct)
  case (1 R ws t)
  then show ?case by (cases "t < 16") (simp_all add: sha_word.simps[of R _ t])
qed

lemma sha2_word_cong: "(\<And>t. t < 16 \<Longrightarrow> ws ! t = ws' ! t) \<Longrightarrow> sha2_word s0 s1 ws i = sha2_word s0 s1 ws' i"
proof (induction s0 s1 ws i rule: sha2_word.induct)
  case (1 s0 s1 ws t)
  then show ?case by (cases "t < 16") (simp_all add: sha2_word.simps[of _ _ _ t])
qed

lemma sha_schedule_idem: "sha_schedule R (sha_schedule R ws) = sha_schedule R ws"
  unfolding sha_schedule_def
  by (intro map_cong refl sha_word_cong) (simp add: sha_word.simps del: upt_rec_numeral)

lemma sha256_schedule_idem: "sha256_schedule (sha256_schedule ws) = sha256_schedule ws"
  unfolding sha256_schedule_def
  by (intro map_cong refl sha2_word_cong) (simp add: sha2_word.simps del: upt_rec_numeral)

lemma SHACAL1_SetKey_keyed:
  "length key \<le> 64 \<Longrightarrow> length (m_words c) = 80 \<Longrightarrow> SHACAL1_keyed (SHACAL1_SetKeyInternal key c)"
  by (simp add: SHACAL1_keyed_def SHACAL1_SetKeyInternal_schedule sha_schedule_idem)

lemma SHACAL2_SetKey_keyed:
  "length key \<le> 64 \<Longrightarrow> length (m_words c) = 64 \<Longrightarrow> SHACAL2_keyed (SHACAL2_SetKeyInternal key c)"
  by (simp add: SHACAL2_keyed_def SHACAL2_SetKeyInternal_schedule sha256_schedule_idem)

lemma length_SHA_Forward [simp]: "length (SHA_ForwardTransform R st blk) = 5"
  by (simp add: SHA_ForwardTransform_def Let_def)

lemma length_SHA_Inverse [simp]: "length (SHA_InverseTransform st blk) = 5"
  by (simp add: SHA_InverseTransform_def Let_def)

lemma length_SHA256_Forward [simp]: "length (SHA256_ForwardTransform st blk) = 8"
  by (simp add: SHA256_ForwardTransform_def Let_def split_beta)

lemma length_SHA256_Inverse [simp]: "length (SHA256_InverseTransform st blk) = 8"
  by (simp add: SHA256_InverseTransform_def)

lemma SHACAL1_keyed_length: "SHACAL1_keyed c \<Longrightarrow> length (m_words c) = 80"
  by (metis SHACAL1_keyed_def length_map length_upt minus_nat.diff_0 sha_schedule_def)

lemma SHACAL2_keyed_length: "SHACAL2_keyed c \<Longrightarrow> length (m_words c) = 64"
  by (metis SHACAL2_keyed_def length_map length_upt minus_nat.diff_0 sha256_schedule_def)

lemma SHACAL1_Decrypt_Encrypt:
  assumes "SHACAL1_keyed c" "length b = 20"
  shows "SHACAL1_Decrypt c (SHACAL1_Encrypt c b) = b" and "SHACAL1_Encrypt c (SHACAL1_Decrypt c b) = b"
  using assms(2) SHACAL1_keyed_length[OF assms(1)]
    SHA_Inverse_Forward[of "m_words c" "load_words Big b" 1] SHA_Forward_Inverse[of "m_words c" "load_words Big b" 1]
  by (simp_all add: SHACAL1_Decrypt_def SHACAL1_Encrypt_def bytes_simps
      assms(1)[unfolded SHACAL1_keyed_def One_nat_def, symmetric])

lemma SHACAL2_Decrypt_Encrypt:
  assumes "SHACAL2_keyed c" "length b = 32"
  shows "SHACAL2_Decrypt c (SHACAL2_Encrypt c b) = b" and "SHACAL2_Encrypt c (SHACAL2_Decrypt c b) = b"
  using assms(2) SHACAL2_keyed_length[OF assms(1)]
    SHA256_Inverse_Forward[of "m_words c" "load_words Big b"] SHA256_Forward_Inverse[of "m_words c" "load_words Big b"]
  by (simp_all add: SHACAL2_Decrypt_def SHACAL2_Encrypt_def bytes_simps
      assms(1)[unfolded SHACAL2_keyed_def, symmetric])

interpretation shacal1: block_cipher 20 SHACAL1_Encrypt SHACAL1_Decrypt SHACAL1_keyed
  by unfold_locales
    (simp_all add: SHACAL1_Decrypt_Encrypt, simp_all add: SHACAL1_Encrypt_def SHACAL1_Decrypt_def bytes_simps)

interpretation shacal2: block_cipher 32 SHACAL2_Encrypt SHACAL2_Decrypt SHACAL2_keyed
  by unfold_locales
    (simp_all add: SHACAL2_Decrypt_Encrypt, simp_all add: SHACAL2_Encrypt_def SHACAL2_Decrypt_def bytes_simps)

text \<open>The hashes are these ciphers in Davies-Meyer mode, the message block as the key.\<close>

lemma SHA_Forward_cong:
  "16 \<le> length b \<Longrightarrow> 16 \<le> length b' \<Longrightarrow> (\<And>t. t < 16 \<Longrightarrow> b ! t = b' ! t) \<Longrightarrow>
   SHA_ForwardTransform R st b = SHA_ForwardTransform R st b'"
  using sha_word_cong[of b b' R] by (simp add: SHA_ForwardTransform_steps)

lemma SHA256_Forward_cong:
  "16 \<le> length b \<Longrightarrow> 16 \<le> length b' \<Longrightarrow> (\<And>t. t < 16 \<Longrightarrow> b ! t = b' ! t) \<Longrightarrow>
   SHA256_ForwardTransform st b = SHA256_ForwardTransform st b'"
  using sha2_word_cong[of b b' sha256_s0 sha256_s1] by (simp add: SHA256_ForwardTransform_steps)

lemma SHA1_davies_meyer:
  assumes "length key = 64" "length (m_words c) = 80" "length st = 5"
  shows "SHA_Transform 1 st key
     = map2 (+) st (load_words Big (SHACAL1_Encrypt (SHACAL1_SetKeyInternal key c) (store_words Big st)))"
proof -
  have "SHA_ForwardTransform 1 st (sha_schedule 1 (shacal_key_words key))
      = SHA_ForwardTransform 1 st (shacal_key_words key)"
    using assms(1) length_shacal_key_words[of key]
    by (intro SHA_Forward_cong) (simp_all add: sha_schedule_def sha_word.simps del: upt_rec_numeral)
  then show ?thesis
    using assms SHACAL1_SetKeyInternal_schedule[of key c]
    by (simp add: SHA_Transform_def SHACAL1_Encrypt_def shacal_key_words_def bytes_simps)
qed

lemma SHA256_davies_meyer:
  assumes "length key = 64" "length (m_words c) = 64" "length st = 8"
  shows "SHA256_Transform st key
     = map2 (+) st (load_words Big (SHACAL2_Encrypt (SHACAL2_SetKeyInternal key c) (store_words Big st)))"
proof -
  have "SHA256_ForwardTransform st (sha256_schedule (shacal_key_words key))
      = SHA256_ForwardTransform st (shacal_key_words key)"
    using assms(1) length_shacal_key_words[of key]
    by (intro SHA256_Forward_cong) (simp_all add: sha256_schedule_def sha2_word.simps del: upt_rec_numeral)
  then show ?thesis
    using assms SHACAL2_SetKeyInternal_schedule[of key c]
    by (simp add: SHA256_Transform_def SHACAL2_Encrypt_def shacal_key_words_def bytes_simps)
qed

end
