(* ===== verification/MD2.thy ===== *)
theory MD2
  imports Hash
begin

text \<open>
  \<^verbatim>\<open>impl/hash/md2\<close>. The 64 bytes of \<^verbatim>\<open>m_hash\<close> are the 48 bytes of the digest
  buffer and the 16 of the checksum. \<^verbatim>\<open>Transform\<close> reads its block through a function of
  the current state, because \<^verbatim>\<open>Pad\<close> passes it the checksum in place. The lemmas show that
  this aliasing is harmless and that the result is the algorithm of RFC 1319, which computes
  the checksum first and appends it.
\<close>

definition MD2_sbox :: "byte list" where
  "MD2_sbox =
    [41, 46, 67, 201, 162, 216, 124, 1, 61, 54, 84, 161, 236, 240, 6, 19,
     98, 167, 5, 243, 192, 199, 115, 140, 152, 147, 43, 217, 188, 76, 130, 202,
     30, 155, 87, 60, 253, 212, 224, 22, 103, 66, 111, 24, 138, 23, 229, 18,
     190, 78, 196, 214, 218, 158, 222, 73, 160, 251, 245, 142, 187, 47, 238, 122,
     169, 104, 121, 145, 21, 178, 7, 63, 148, 194, 16, 137, 11, 34, 95, 33,
     128, 127, 93, 154, 90, 144, 50, 39, 53, 62, 204, 231, 191, 247, 151, 3,
     255, 25, 48, 179, 72, 165, 181, 209, 215, 94, 146, 42, 172, 86, 170, 198,
     79, 184, 56, 210, 150, 164, 125, 182, 118, 252, 107, 226, 156, 116, 4, 241,
     69, 157, 112, 89, 100, 113, 135, 32, 134, 91, 207, 101, 230, 45, 168, 2,
     27, 96, 37, 173, 174, 176, 185, 246, 28, 70, 97, 105, 52, 64, 126, 15,
     85, 71, 163, 35, 221, 81, 175, 58, 195, 92, 249, 206, 186, 197, 234, 38,
     44, 83, 13, 110, 133, 40, 132, 9, 211, 223, 205, 244, 65, 129, 77, 82,
     106, 220, 55, 200, 108, 193, 171, 250, 36, 225, 123, 8, 12, 189, 177, 74,
     120, 136, 149, 139, 227, 99, 232, 109, 233, 203, 213, 254, 59, 0, 29, 57,
     242, 239, 183, 14, 102, 88, 208, 228, 166, 119, 114, 248, 235, 117, 75, 10,
     49, 68, 80, 180, 143, 237, 31, 26, 219, 153, 141, 51, 159, 17, 131, 20]"


lemma length_MD2_sbox: "length MD2_sbox = 256"
  by (simp add: MD2_sbox_def)

section \<open>The transform\<close>

definition MD2_mix ::
    "(byte list \<Rightarrow> nat \<Rightarrow> byte) \<Rightarrow> nat \<Rightarrow> byte list \<times> byte \<Rightarrow> byte list \<times> byte" where
  "MD2_mix block i = (\<lambda>(state, l).
     let b = block state i;
         state = state[i + 16 := b];
         state = state[i + 32 := b XOR state ! i];
         l = state ! (48 + i) XOR MD2_sbox ! unat (block state i XOR l);
         state = state[48 + i := l]
     in (state, l))"

definition MD2_pass :: "byte list \<times> byte \<Rightarrow> byte list \<times> byte" where
  "MD2_pass = fold (\<lambda>j (state, t).
     let t = state ! j XOR MD2_sbox ! unat t; state = state[j := t] in (state, t)) [0..<48]"

definition MD2_passes :: "byte list \<Rightarrow> byte list" where
  "MD2_passes state =
     fst (fold (\<lambda>i s. let (state, t) = MD2_pass s in (state, t + of_nat i)) [0..<18] (state, 0))"

definition MD2_Transform_from :: "(byte list \<Rightarrow> nat \<Rightarrow> byte) \<Rightarrow> byte list \<Rightarrow> byte list" where
  "MD2_Transform_from block state =
     MD2_passes (fst (fold (MD2_mix block) [0..<16] (state, state ! (48 + 15))))"

definition MD2_Transform :: "8 transform" where
  "MD2_Transform state block = MD2_Transform_from (\<lambda>_ i. block ! i) state"

text \<open>\<^verbatim>\<open>Transform(m_hash, m_hash + 48)\<close>.\<close>

definition MD2_Transform_csum :: "byte list \<Rightarrow> byte list" where
  "MD2_Transform_csum state = MD2_Transform_from (\<lambda>state i. state ! (48 + i)) state"

section \<open>The hash\<close>

definition MD2_iv :: "byte list" where
  "MD2_iv = replicate 64 0"

definition MD2_Reset :: "byte hstate \<Rightarrow> byte hstate" where
  "MD2_Reset st = hash_Reset MD2_iv st"

text \<open>
  The second \<^verbatim>\<open>Update\<close> is given a pointer into the state, so the transform it calls on
  the data reads the state itself.
\<close>

definition MD2_Pad :: "byte hstate \<Rightarrow> byte hstate" where
  "MD2_Pad st =
     (let off = unat (m_len0 st AND 15);
          val = 16 - off;
          st = hash_Update MD2_Transform 16 (replicate val (of_nat val)) st
      in hash_Update (\<lambda>h _. MD2_Transform_csum h) 16 (drop 48 (m_hash st)) st)"

definition MD2_GetDigest :: "nat \<Rightarrow> bool \<Rightarrow> byte hstate \<Rightarrow> byte list \<times> byte hstate" where
  "MD2_GetDigest len nopad st =
     (let st = (if nopad then st else MD2_Pad st) in (take len (m_hash st), st))"

section \<open>RFC 1319\<close>

fun md2_checksum :: "byte \<Rightarrow> byte list \<Rightarrow> byte list \<Rightarrow> byte list" where
  "md2_checksum l (c # cs) (b # bs) = (let c = c XOR MD2_sbox ! unat (b XOR l) in c # md2_checksum c cs bs)"
| "md2_checksum l _ _ = []"

definition md2_compress :: "byte list \<Rightarrow> byte list \<Rightarrow> byte list" where
  "md2_compress X b = take 16 (MD2_passes (X @ b @ xor_bytes b X))"

definition md2_pad :: "byte list \<Rightarrow> byte list" where
  "md2_pad msg = (let v = 16 - length msg mod 16 in msg @ replicate v (of_nat v))"

definition md2_digest :: "nat \<Rightarrow> byte list \<Rightarrow> byte list" where
  "md2_digest len msg =
     (let p = md2_pad msg;
          C = foldl (\<lambda>C b. md2_checksum (last C) C b) (replicate 16 0) (chunks 16 p)
      in take len (foldl md2_compress (replicate 16 0) (chunks 16 (p @ C))))"

section \<open>The first loop\<close>

text \<open>Where the checksum is after \<open>n\<close> bytes of the block.\<close>

lemma length_md2_checksum [simp]: "length (md2_checksum l C b) = min (length C) (length b)"
  by (induction l C b rule: md2_checksum.induct) (simp_all add: Let_def)

lemma md2_checksum_nth:
  "i < length C \<Longrightarrow> i < length b \<Longrightarrow> md2_checksum l C b ! i
     = C ! i XOR MD2_sbox ! unat (b ! i XOR (if i = 0 then l else md2_checksum l C b ! (i - 1)))"
proof (induction l C b arbitrary: i rule: md2_checksum.induct)
  case (1 l c cs b bs)
  show ?case
  proof (cases i)
    case (Suc j)
    then show ?thesis using 1 by (cases j) (simp_all add: Let_def)
  qed (simp add: Let_def)
qed simp_all

definition md2_mixed :: "byte list \<Rightarrow> byte list \<Rightarrow> nat \<Rightarrow> byte list \<times> byte \<Rightarrow> bool" where
  "md2_mixed st b n = (\<lambda>(s, l).
     let cs = md2_checksum (st ! 63) (drop 48 st) b
     in length s = 64 \<and> (\<forall>j<16. s ! j = st ! j) \<and>
        (\<forall>j<n. s ! (16 + j) = b ! j \<and> s ! (32 + j) = b ! j XOR st ! j \<and> s ! (48 + j) = cs ! j) \<and>
        (\<forall>j. n \<le> j \<longrightarrow> j < 16 \<longrightarrow> s ! (48 + j) = st ! (48 + j)) \<and>
        l = (if n = 0 then st ! 63 else cs ! (n - 1)))"

lemma md2_mixed_step:
  assumes inv: "md2_mixed st b n s" and n: "n < 16" and len: "length st = 64" "length b = 16"
    and block: "\<And>s. (\<And>j. n \<le> j \<Longrightarrow> j < 16 \<Longrightarrow> s ! (48 + j) = st ! (48 + j)) \<Longrightarrow> block s n = b ! n"
  shows "md2_mixed st b (Suc n) (MD2_mix block n s)"
proof -
  obtain x l where s: "s = (x, l)" by (cases s)
  define cs where "cs = md2_checksum (st ! 63) (drop 48 st) b"
  have inv': "length x = 64" "\<forall>j<16. x ! j = st ! j"
    "\<forall>j<n. x ! (16 + j) = b ! j \<and> x ! (32 + j) = b ! j XOR st ! j \<and> x ! (48 + j) = cs ! j"
    "\<forall>j. n \<le> j \<longrightarrow> j < 16 \<longrightarrow> x ! (48 + j) = st ! (48 + j)"
    "l = (if n = 0 then st ! 63 else cs ! (n - 1))"
    using inv by (simp_all add: md2_mixed_def s Let_def cs_def)
  have b1: "block x n = b ! n" using inv'(4) by (intro block) simp
  have b2: "block (x[n + 16 := v, n + 32 := w]) n = b ! n" for v w
    using inv'(1,4) n by (intro block) simp
  have cs: "cs ! n = st ! (48 + n) XOR MD2_sbox ! unat (b ! n XOR l)"
    using n len inv'(5) md2_checksum_nth[of n "drop 48 st" b "st ! 63"] by (simp add: cs_def)
  show ?thesis
    using inv'(1-4) n
    by (auto simp: md2_mixed_def MD2_mix_def s Let_def b1 b2 cs cs_def[symmetric] nth_list_update less_Suc_eq)
qed

lemma md2_mixed_fold:
  assumes len: "length st = 64" "length b = 16"
    and block: "\<And>s n. n < 16 \<Longrightarrow> (\<And>j. n \<le> j \<Longrightarrow> j < 16 \<Longrightarrow> s ! (48 + j) = st ! (48 + j)) \<Longrightarrow>
      block s n = b ! n"
  shows "n \<le> 16 \<Longrightarrow> md2_mixed st b n (fold (MD2_mix block) [0..<n] (st, st ! 63))"
proof (induction n)
  case 0
  then show ?case using len by (simp add: md2_mixed_def)
next
  case (Suc n)
  then have "md2_mixed st b (Suc n) (MD2_mix block n (fold (MD2_mix block) [0..<n] (st, st ! 63)))"
    by (intro md2_mixed_step[OF _ _ len] block) simp_all
  then show ?case by simp
qed

lemma md2_mixed_16:
  assumes inv: "md2_mixed st b 16 (s, l)" and len: "length st = 64" "length b = 16"
  shows "s = take 16 st @ b @ xor_bytes b (take 16 st) @ md2_checksum (st ! 63) (drop 48 st) b"
proof (rule nth_equalityI)
  show "length s = length (take 16 st @ b @ xor_bytes b (take 16 st) @ md2_checksum (st ! 63) (drop 48 st) b)"
    using inv len by (simp add: md2_mixed_def Let_def)
  fix i assume "i < length s"
  then have i: "i < 64" using inv by (simp add: md2_mixed_def Let_def)
  have parts: "\<forall>j<16. s ! j = st ! j" "\<forall>j<16. s ! (16 + j) = b ! j"
    "\<forall>j<16. s ! (32 + j) = b ! j XOR st ! j"
    "\<forall>j<16. s ! (48 + j) = md2_checksum (st ! 63) (drop 48 st) b ! j"
    using inv by (simp_all add: md2_mixed_def Let_def)
  define cs where "cs = md2_checksum (st ! 63) (drop 48 st) b"
  have lens: "length (take 16 st) = 16" "length b = 16" "length (xor_bytes b (take 16 st)) = 16"
    "length cs = 16"
    using len by (simp_all add: cs_def)
  consider "i < 16" | "16 \<le> i" "i < 32" | "32 \<le> i" "i < 48" | "48 \<le> i" by linarith
  then show "s ! i = (take 16 st @ b @ xor_bytes b (take 16 st) @ md2_checksum (st ! 63) (drop 48 st) b) ! i"
  proof cases
    case 2
    then obtain j where "i = 16 + j" "j < 16" using le_Suc_ex by fastforce
    then show ?thesis using parts lens by (simp add: nth_append)
  next
    case 3
    then obtain j where "i = 32 + j" "j < 16" using le_Suc_ex by fastforce
    then show ?thesis using parts lens len by (simp add: nth_append)
  next
    case 4
    then obtain j where "i = 48 + j" "j < 16" using i le_Suc_ex by fastforce
    then show ?thesis using parts(4) lens by (simp add: nth_append cs_def[symmetric])
  qed (use parts len in \<open>simp add: nth_append\<close>)
qed

section \<open>The passes leave the checksum alone\<close>

lemma MD2_pass_append:
  assumes "length X = 48"
  obtains X' t' where "MD2_pass (X, t) = (X', t')" "length X' = 48" "MD2_pass (X @ C, t) = (X' @ C, t')"
proof -
  let ?f = "\<lambda>j (state, t). let t = state ! j XOR MD2_sbox ! unat t; state = state[j := t] in (state, t)"
  have "\<exists>X' t'. fold ?f js (X, t) = (X', t') \<and> length X' = 48 \<and> fold ?f js (X @ C, t) = (X' @ C, t')"
    if "\<forall>j\<in>set js. j < 48" for js
    using that assms
    by (induction js arbitrary: X t) (auto simp: Let_def nth_append list_update_append)
  then show thesis using that unfolding MD2_pass_def by (metis (no_types, lifting) atLeastLessThan_iff set_upt)
qed

lemma MD2_passes_append:
  assumes "length X = 48"
  shows "MD2_passes (X @ C) = MD2_passes X @ C" and "length (MD2_passes X) = 48"
proof -
  let ?g = "\<lambda>i s. let (state, t) = MD2_pass s in (state, t + of_nat i)"
  have "\<exists>X' t'. fold ?g ks (X, t) = (X', t') \<and> length X' = 48 \<and> fold ?g ks (X @ C, t) = (X' @ C, t')" for ks t
    using assms
  proof (induction ks arbitrary: X t)
    case (Cons k ks)
    obtain X1 t1 where "MD2_pass (X, t) = (X1, t1)" "length X1 = 48" "MD2_pass (X @ C, t) = (X1 @ C, t1)"
      using Cons.prems by (rule MD2_pass_append)
    then show ?case using Cons.IH[of X1] by simp
  qed simp
  from this[of "[0..<18]" 0] show "MD2_passes (X @ C) = MD2_passes X @ C" "length (MD2_passes X) = 48"
    unfolding MD2_passes_def by auto
qed

lemma MD2_Transform_from_rfc:
  assumes len: "length X = 48" "length C = 16" "length b = 16"
    and block: "\<And>s n. n < 16 \<Longrightarrow> (\<And>j. n \<le> j \<Longrightarrow> j < 16 \<Longrightarrow> s ! (48 + j) = C ! j) \<Longrightarrow> block s n = b ! n"
  shows "MD2_Transform_from block (X @ C)
     = MD2_passes (take 16 X @ b @ xor_bytes b (take 16 X)) @ md2_checksum (last C) C b"
proof -
  let ?st = "X @ C"
  obtain s l where sl: "fold (MD2_mix block) [0..<16] (?st, ?st ! 63) = (s, l)" by fastforce
  have "md2_mixed ?st b 16 (s, l)"
    unfolding sl[symmetric] using len by (intro md2_mixed_fold block) (simp_all add: nth_append)
  then have "s = take 16 ?st @ b @ xor_bytes b (take 16 ?st) @ md2_checksum (?st ! 63) (drop 48 ?st) b"
    using len by (intro md2_mixed_16) simp_all
  moreover have "?st ! 63 = last C"
    using len by (cases C) (auto simp: nth_append last_conv_nth)
  ultimately have "s = (take 16 X @ b @ xor_bytes b (take 16 X)) @ md2_checksum (last C) C b"
    using len by simp
  moreover have "length (take 16 X @ b @ xor_bytes b (take 16 X)) = 48" using len by simp
  ultimately have "MD2_passes s = MD2_passes (take 16 X @ b @ xor_bytes b (take 16 X)) @ md2_checksum (last C) C b"
    using MD2_passes_append(1) by metis
  then show ?thesis using sl by (simp add: MD2_Transform_from_def)
qed

lemma MD2_Transform_rfc:
  assumes "length X = 48" "length C = 16" "length b = 16"
  shows "MD2_Transform (X @ C) b
     = MD2_passes (take 16 X @ b @ xor_bytes b (take 16 X)) @ md2_checksum (last C) C b"
  unfolding MD2_Transform_def using assms by (intro MD2_Transform_from_rfc) simp_all

text \<open>Reading the checksum while it is being replaced is the same as reading a copy of it.\<close>

lemma MD2_Transform_csum_copy:
  assumes "length st = 64"
  shows "MD2_Transform_csum st = MD2_Transform st (drop 48 st)"
proof -
  obtain X C where st: "st = X @ C" "length X = 48" "length C = 16"
    using assms by (intro that[of "take 48 st" "drop 48 st"]) simp_all
  have "MD2_Transform_csum st = MD2_passes (take 16 X @ C @ xor_bytes C (take 16 X)) @ md2_checksum (last C) C C"
    unfolding MD2_Transform_csum_def st(1) using st by (intro MD2_Transform_from_rfc) simp_all
  then show ?thesis using st MD2_Transform_rfc[of X C C] by simp
qed

section \<open>The digest\<close>

lemma md2_checksum_fold_length:
  "length C = 16 \<Longrightarrow> \<forall>b\<in>set bs. length b = 16 \<Longrightarrow>
   length (foldl (\<lambda>C b. md2_checksum (last C) C b) C bs) = 16"
  by (induction bs arbitrary: C) simp_all

lemma MD2_Transform_fold:
  assumes "length X = 48" "length C = 16" "\<forall>b\<in>set bs. length b = 16"
  shows "\<exists>X'. length X' = 48 \<and> take 16 X' = foldl md2_compress (take 16 X) bs \<and>
    foldl MD2_Transform (X @ C) bs = X' @ foldl (\<lambda>C b. md2_checksum (last C) C b) C bs"
  using assms
proof (induction bs arbitrary: X C)
  case (Cons b bs)
  let ?X = "MD2_passes (take 16 X @ b @ xor_bytes b (take 16 X))"
  have step: "MD2_Transform (X @ C) b = ?X @ md2_checksum (last C) C b"
    using Cons.prems by (intro MD2_Transform_rfc) simp_all
  have X: "length ?X = 48" using Cons.prems by (intro MD2_passes_append(2)) simp
  have C: "length (md2_checksum (last C) C b) = 16" using Cons.prems by simp
  have "take 16 ?X = md2_compress (take 16 X) b" by (simp add: md2_compress_def)
  with Cons.IH[OF X C] Cons.prems(3) show ?case by (simp add: step)
qed simp

lemma length_MD2_fold:
  assumes "length h = 64" "\<forall>b\<in>set bs. length b = 16"
  shows "length (foldl MD2_Transform h bs) = 64"
proof -
  have C: "length (drop 48 h) = 16" and X: "length (take 48 h) = 48" using assms by simp_all
  show ?thesis
    using MD2_Transform_fold[OF X C assms(2)] md2_checksum_fold_length[OF C assms(2)] by auto
qed

lemma byte_and_15: "unat ((of_nat n :: byte) AND 15) = n mod 16"
proof -
  have "(of_nat n :: byte) AND 15 = take_bit 4 (of_nat n)"
    using take_bit_eq_mask[of 4 "of_nat n :: byte"] by (simp add: mask_eq_exp_minus_1)
  then have "unat ((of_nat n :: byte) AND 15) = take_bit 4 (unat (of_nat n :: byte))"
    by (simp only: unsigned_take_bit_eq)
  then show ?thesis
    by (simp add: unat_of_nat take_bit_eq_mod mod_mod_cancel)
qed

lemma dvd_length_md2_pad: "16 dvd length (md2_pad msg)"
proof -
  have "length msg = 16 * (length msg div 16) + length msg mod 16" by simp
  moreover have "length msg mod 16 < 16" by simp
  ultimately have "length msg + (16 - length msg mod 16) = 16 * (length msg div 16) + 16" by linarith
  then show ?thesis by (simp add: md2_pad_def Let_def)
qed

lemma MD2_Pad_digest:
  assumes "absorbed_buf MD2_Transform 16 MD2_iv msg st" "len \<le> 16"
  shows "take len (m_hash (MD2_Pad st)) = md2_digest len msg"
proof -
  define p where "p = md2_pad msg"
  define st1 where "st1 = hash_Update MD2_Transform 16
    (replicate (16 - length msg mod 16) (of_nat (16 - length msg mod 16))) st"
  have dvd: "16 dvd length p" by (simp add: p_def dvd_length_md2_pad)
  have abs: "absorbed_buf MD2_Transform 16 MD2_iv p st1"
    using hash_Update_absorbed_buf[OF assms(1)] by (simp add: st1_def p_def md2_pad_def Let_def)
  let ?bs = "chunks 16 p"
  have sizes: "\<forall>b\<in>set ?bs. length b = 16" by (auto dest: chunks_sizes)
  have hash: "m_hash st1 = foldl MD2_Transform MD2_iv ?bs"
    and off: "unat (m_len0 st1) mod 16 = 0"
    using abs dvd by (simp_all add: absorbed_buf_def unat_length_mod)
  have iv: "MD2_iv = replicate 48 0 @ replicate 16 0"
    by (simp add: MD2_iv_def flip: replicate_add)
  let ?C = "foldl (\<lambda>C b. md2_checksum (last C) C b) (replicate 16 0) ?bs"
  obtain X where X: "length X = 48" "take 16 X = foldl md2_compress (replicate 16 0) ?bs"
    "m_hash st1 = X @ ?C"
    using MD2_Transform_fold[of "replicate 48 0" "replicate 16 0" ?bs] sizes unfolding hash iv by auto
  have C: "length ?C = 16" by (rule md2_checksum_fold_length[OF _ sizes]) simp
  have lenh: "length (m_hash st1) = 64" using X C by simp
  have m0: "unat (m_len0 st AND 15) = length msg mod 16"
    using assms(1) by (simp only: absorbed_buf_def byte_and_15)
  have "MD2_Pad st = hash_Update (\<lambda>h _. MD2_Transform_csum h) 16 ?C st1"
    unfolding MD2_Pad_def Let_def m0 st1_def[symmetric] using X by simp
  also have "m_hash \<dots> = MD2_Transform_csum (m_hash st1)"
    using C off chunks_block[of 16 ?C "[]"] by (simp add: hash_Update_def Let_def)
  also have "\<dots> = MD2_Transform (X @ ?C) ?C"
    using MD2_Transform_csum_copy[OF lenh] X by simp
  also have "\<dots> = MD2_passes (take 16 X @ ?C @ xor_bytes ?C (take 16 X)) @ md2_checksum (last ?C) ?C ?C"
    using X C by (intro MD2_Transform_rfc)
  finally have "take len (m_hash (MD2_Pad st)) = take len (md2_compress (take 16 X) ?C)"
    using assms(2) MD2_passes_append(2)[of "take 16 X @ ?C @ xor_bytes ?C (take 16 X)"] X(1) C
    by (simp add: md2_compress_def)
  moreover have "chunks 16 (p @ ?C) = ?bs @ [?C]"
  proof -
    have "remainder 16 p = []" using dvd by (simp flip: length_0_conv)
    then show ?thesis
      using C chunks_append[of 16 p ?C] chunks_block[of 16 ?C "[]"] by simp
  qed
  ultimately show ?thesis
    using X(2) by (simp add: md2_digest_def Let_def p_def)
qed

interpretation md2: streaming_hash MD2_Reset "hash_Update MD2_Transform 16"
    "\<lambda>st. fst (MD2_GetDigest 16 False st)" "\<lambda>st. length (m_buf st) = 16" "\<lambda>_. True"
    "absorbed_buf MD2_Transform 16 MD2_iv" "md2_digest 16"
proof unfold_locales
  show "absorbed_buf MD2_Transform 16 MD2_iv [] (MD2_Reset s)" if "length (m_buf s) = 16" for s
    using that absorbed_Reset[of s 16 MD2_Transform MD2_iv] by (simp add: MD2_Reset_def absorbed_def)
  show "absorbed_buf MD2_Transform 16 MD2_iv (msg @ data) (hash_Update MD2_Transform 16 data s)"
    if "absorbed_buf MD2_Transform 16 MD2_iv msg s" for msg data s
    using that by (intro hash_Update_absorbed_buf) simp_all
  show "fst (MD2_GetDigest 16 False s) = md2_digest 16 msg"
    if "absorbed_buf MD2_Transform 16 MD2_iv msg s" for msg s
    using MD2_Pad_digest[OF that] by (simp add: MD2_GetDigest_def Let_def)
qed

end
