(* ===== verification/MD4_MD5.thy ===== *)
theory MD4_MD5
  imports Hash
begin

text \<open>
  \<^verbatim>\<open>impl/hash/md4\<close> and \<^verbatim>\<open>impl/hash/md5\<close>. Each line of the two
  \<^verbatim>\<open>Transform\<close> functions names the four registers one place further to the right than
  the line before, so an operation returns the tuple in the order the next line uses; sixteen
  lines bring it back. The lemmas show that the unrolled lines are the loops of the two
  standards, with the word order as a formula of the step number and the standards' boolean
  functions.
\<close>

type_synonym md_regs = "u32 \<times> u32 \<times> u32 \<times> u32"

definition md_load_regs :: "u32 list \<Rightarrow> md_regs" where
  "md_load_regs state = (state ! 0, state ! 1, state ! 2, state ! 3)"

definition md_add_regs :: "u32 list \<Rightarrow> md_regs \<Rightarrow> u32 list" where
  "md_add_regs state = (\<lambda>(a, b, c, d). [state ! 0 + a, state ! 1 + b, state ! 2 + c, state ! 3 + d])"

section \<open>MD4\<close>

definition MD4_iv :: "u32 list" where
  "MD4_iv = [0x67452301, 0xefcdab89, 0x98badcfe, 0x10325476]"

definition MD4_Reset :: "u32 hstate \<Rightarrow> u32 hstate" where
  "MD4_Reset st = hash_Reset MD4_iv st"

definition MD4_F :: "u32 \<Rightarrow> u32 \<Rightarrow> u32 \<Rightarrow> u32" where
  "MD4_F x y z = z XOR (x AND (y XOR z))"

definition MD4_G :: "u32 \<Rightarrow> u32 \<Rightarrow> u32 \<Rightarrow> u32" where
  "MD4_G x y z = (x AND y) OR (z AND (x OR y))"

definition MD4_H :: "u32 \<Rightarrow> u32 \<Rightarrow> u32 \<Rightarrow> u32" where
  "MD4_H x y z = x XOR y XOR z"

definition MD4_OP ::
    "(u32 \<Rightarrow> u32 \<Rightarrow> u32 \<Rightarrow> u32) \<Rightarrow> u32 \<Rightarrow> u32 list \<Rightarrow> nat \<times> nat \<Rightarrow> md_regs \<Rightarrow> md_regs" where
  "MD4_OP f x blk = (\<lambda>(k, s) (a, b, c, d).
     let a = RotateLeft (a + f b c d + blk ! k + x) s in (d, a, b, c))"

definition MD4_FF_rows :: "(nat \<times> nat) list" where
  "MD4_FF_rows =
  [(0, 3), (1, 7), (2, 11), (3, 19),
   (4, 3), (5, 7), (6, 11), (7, 19),
   (8, 3), (9, 7), (10, 11), (11, 19),
   (12, 3), (13, 7), (14, 11), (15, 19)]"

definition MD4_GG_rows :: "(nat \<times> nat) list" where
  "MD4_GG_rows =
  [(0, 3), (4, 5), (8, 9), (12, 13),
   (1, 3), (5, 5), (9, 9), (13, 13),
   (2, 3), (6, 5), (10, 9), (14, 13),
   (3, 3), (7, 5), (11, 9), (15, 13)]"

definition MD4_HH_rows :: "(nat \<times> nat) list" where
  "MD4_HH_rows =
  [(0, 3), (8, 9), (4, 11), (12, 15),
   (2, 3), (10, 9), (6, 11), (14, 15),
   (1, 3), (9, 9), (5, 11), (13, 15),
   (3, 3), (11, 9), (7, 11), (15, 15)]"

definition MD4_Transform :: "32 transform" where
  "MD4_Transform state block =
     (let blk = load_words Little block;
          r = md_load_regs state;
          r = fold (MD4_OP MD4_F 0 blk) MD4_FF_rows r;
          r = fold (MD4_OP MD4_G 0x5a827999 blk) MD4_GG_rows r;
          r = fold (MD4_OP MD4_H 0x6ed9eba1 blk) MD4_HH_rows r
      in md_add_regs state r)"

section \<open>MD5\<close>

definition MD5_iv :: "u32 list" where
  "MD5_iv = [0x67452301, 0xefcdab89, 0x98badcfe, 0x10325476]"

definition MD5_Reset :: "u32 hstate \<Rightarrow> u32 hstate" where
  "MD5_Reset st = hash_Reset MD5_iv st"

definition MD5_F :: "u32 \<Rightarrow> u32 \<Rightarrow> u32 \<Rightarrow> u32" where
  "MD5_F x y z = z XOR (x AND (y XOR z))"

definition MD5_G :: "u32 \<Rightarrow> u32 \<Rightarrow> u32 \<Rightarrow> u32" where
  "MD5_G x y z = MD5_F z x y"

definition MD5_H :: "u32 \<Rightarrow> u32 \<Rightarrow> u32 \<Rightarrow> u32" where
  "MD5_H x y z = x XOR y XOR z"

definition MD5_I :: "u32 \<Rightarrow> u32 \<Rightarrow> u32 \<Rightarrow> u32" where
  "MD5_I x y z = y XOR (x OR NOT z)"

definition MD5_op ::
    "(u32 \<Rightarrow> u32 \<Rightarrow> u32 \<Rightarrow> u32) \<Rightarrow> u32 list \<Rightarrow> nat \<times> nat \<times> u32 \<Rightarrow> md_regs \<Rightarrow> md_regs" where
  "MD5_op func blk = (\<lambda>(k, s, i) (a, b, c, d).
     let a = b + RotateLeft (a + func b c d + blk ! k + i) s in (d, a, b, c))"

definition MD5_FF_rows :: "(nat \<times> nat \<times> u32) list" where
  "MD5_FF_rows =
  [(0, 7, 0xd76aa478), (1, 12, 0xe8c7b756), (2, 17, 0x242070db), (3, 22, 0xc1bdceee),
   (4, 7, 0xf57c0faf), (5, 12, 0x4787c62a), (6, 17, 0xa8304613), (7, 22, 0xfd469501),
   (8, 7, 0x698098d8), (9, 12, 0x8b44f7af), (10, 17, 0xffff5bb1), (11, 22, 0x895cd7be),
   (12, 7, 0x6b901122), (13, 12, 0xfd987193), (14, 17, 0xa679438e), (15, 22, 0x49b40821)]"

definition MD5_GG_rows :: "(nat \<times> nat \<times> u32) list" where
  "MD5_GG_rows =
  [(1, 5, 0xf61e2562), (6, 9, 0xc040b340), (11, 14, 0x265e5a51), (0, 20, 0xe9b6c7aa),
   (5, 5, 0xd62f105d), (10, 9, 0x02441453), (15, 14, 0xd8a1e681), (4, 20, 0xe7d3fbc8),
   (9, 5, 0x21e1cde6), (14, 9, 0xc33707d6), (3, 14, 0xf4d50d87), (8, 20, 0x455a14ed),
   (13, 5, 0xa9e3e905), (2, 9, 0xfcefa3f8), (7, 14, 0x676f02d9), (12, 20, 0x8d2a4c8a)]"

definition MD5_HH_rows :: "(nat \<times> nat \<times> u32) list" where
  "MD5_HH_rows =
  [(5, 4, 0xfffa3942), (8, 11, 0x8771f681), (11, 16, 0x6d9d6122), (14, 23, 0xfde5380c),
   (1, 4, 0xa4beea44), (4, 11, 0x4bdecfa9), (7, 16, 0xf6bb4b60), (10, 23, 0xbebfbc70),
   (13, 4, 0x289b7ec6), (0, 11, 0xeaa127fa), (3, 16, 0xd4ef3085), (6, 23, 0x04881d05),
   (9, 4, 0xd9d4d039), (12, 11, 0xe6db99e5), (15, 16, 0x1fa27cf8), (2, 23, 0xc4ac5665)]"

definition MD5_II_rows :: "(nat \<times> nat \<times> u32) list" where
  "MD5_II_rows =
  [(0, 6, 0xf4292244), (7, 10, 0x432aff97), (14, 15, 0xab9423a7), (5, 21, 0xfc93a039),
   (12, 6, 0x655b59c3), (3, 10, 0x8f0ccc92), (10, 15, 0xffeff47d), (1, 21, 0x85845dd1),
   (8, 6, 0x6fa87e4f), (15, 10, 0xfe2ce6e0), (6, 15, 0xa3014314), (13, 21, 0x4e0811a1),
   (4, 6, 0xf7537e82), (11, 10, 0xbd3af235), (2, 15, 0x2ad7d2bb), (9, 21, 0xeb86d391)]"

definition MD5_Transform :: "32 transform" where
  "MD5_Transform state block =
     (let blk = load_words Little block;
          r = md_load_regs state;
          r = fold (MD5_op MD5_F blk) MD5_FF_rows r;
          r = fold (MD5_op MD5_G blk) MD5_GG_rows r;
          r = fold (MD5_op MD5_H blk) MD5_HH_rows r;
          r = fold (MD5_op MD5_I blk) MD5_II_rows r
      in md_add_regs state r)"

section \<open>The standards' loops\<close>

text \<open>
  RFC 1320 and RFC 1321: \<open>F\<close> selects, \<open>G\<close> is the majority in MD4 and a selection by
  its last argument in MD5, and step \<open>t\<close> of a round reads word \<open>idx t\<close> and rotates
  by \<open>rot ! (t mod 4)\<close>.
\<close>

definition md_select :: "u32 \<Rightarrow> u32 \<Rightarrow> u32 \<Rightarrow> u32" where
  "md_select x y z = (x AND y) OR (NOT x AND z)"

definition md_majority :: "u32 \<Rightarrow> u32 \<Rightarrow> u32 \<Rightarrow> u32" where
  "md_majority x y z = (x AND y) OR (x AND z) OR (y AND z)"

definition MD4_round ::
    "(u32 \<Rightarrow> u32 \<Rightarrow> u32 \<Rightarrow> u32) \<Rightarrow> (nat \<Rightarrow> nat) \<Rightarrow> nat list \<Rightarrow> u32 \<Rightarrow> u32 list \<Rightarrow> md_regs \<Rightarrow> md_regs" where
  "MD4_round f idx rot x X = fold (\<lambda>t (a, b, c, d).
     (d, word_rotl (rot ! (t mod 4)) (a + f b c d + X ! idx t + x), b, c)) [0..<16]"

definition MD5_round ::
    "(u32 \<Rightarrow> u32 \<Rightarrow> u32 \<Rightarrow> u32) \<Rightarrow> (nat \<Rightarrow> nat) \<Rightarrow> nat list \<Rightarrow> u32 list \<Rightarrow> u32 list \<Rightarrow> md_regs \<Rightarrow> md_regs" where
  "MD5_round f idx rot T X = fold (\<lambda>t (a, b, c, d).
     (d, b + word_rotl (rot ! (t mod 4)) (a + f b c d + X ! idx t + T ! t), b, c)) [0..<16]"

definition rev4 :: "nat \<Rightarrow> nat" where
  "rev4 t = 8 * (t mod 2) + 4 * (t div 2 mod 2) + 2 * (t div 4 mod 2) + t div 8"

definition MD4_compress :: "32 transform" where
  "MD4_compress state block =
     (let X = load_words Little block;
          r = (state ! 0, state ! 1, state ! 2, state ! 3);
          r = MD4_round md_select (\<lambda>t. t) [3, 7, 11, 19] 0 X r;
          r = MD4_round md_majority (\<lambda>t. 4 * (t mod 4) + t div 4) [3, 5, 9, 13] 0x5a827999 X r;
          (a, b, c, d) = MD4_round (\<lambda>x y z. x XOR y XOR z) rev4 [3, 9, 11, 15] 0x6ed9eba1 X r
      in [state ! 0 + a, state ! 1 + b, state ! 2 + c, state ! 3 + d])"

definition MD5_compress :: "(nat \<Rightarrow> u32) \<Rightarrow> 32 transform" where
  "MD5_compress T state block =
     (let X = load_words Little block;
          r = (state ! 0, state ! 1, state ! 2, state ! 3);
          r = MD5_round md_select (\<lambda>t. t) [7, 12, 17, 22] (map T [0..<16]) X r;
          r = MD5_round (\<lambda>x y z. md_select z x y) (\<lambda>t. (1 + 5 * t) mod 16) [5, 9, 14, 20]
                (map T [16..<32]) X r;
          r = MD5_round (\<lambda>x y z. x XOR y XOR z) (\<lambda>t. (5 + 3 * t) mod 16) [4, 11, 16, 23]
                (map T [32..<48]) X r;
          (a, b, c, d) = MD5_round (\<lambda>x y z. y XOR (x OR NOT z)) (\<lambda>t. 7 * t mod 16) [6, 10, 15, 21]
                (map T [48..<64]) X r
      in [state ! 0 + a, state ! 1 + b, state ! 2 + c, state ! 3 + d])"

definition MD5_constants :: "u32 list" where
  "MD5_constants = map (\<lambda>(k, s, i). i) (MD5_FF_rows @ MD5_GG_rows @ MD5_HH_rows @ MD5_II_rows)"

lemma MD4_F_select: "MD4_F = md_select"
  by (intro ext bit_word_eqI) (auto simp: MD4_F_def md_select_def bit_simps)

lemma MD4_G_majority: "MD4_G = md_majority"
  by (intro ext bit_word_eqI) (auto simp: MD4_G_def md_majority_def bit_simps)

lemma MD5_F_select: "MD5_F = md_select"
  by (intro ext bit_word_eqI) (auto simp: MD5_F_def md_select_def bit_simps)

lemma rot_less: "\<forall>s\<in>set rot. s < 32 \<Longrightarrow> length rot = 4 \<Longrightarrow> rot ! (t mod 4) < (32 :: nat)"
  by auto

lemma MD4_rows:
  assumes rows: "rows = map (\<lambda>t. (idx t, rot ! (t mod 4))) [0..<16]"
    and rot: "\<forall>s\<in>set rot. s < 32" "length rot = 4"
  shows "fold (MD4_OP f x blk) rows r = MD4_round f idx rot x blk r"
  unfolding MD4_round_def rows fold_map
  using rot_less[OF rot]
  by (intro fold_cong) (auto simp: MD4_OP_def RotateLeft_word_rotl Let_def fun_eq_iff)

lemma MD5_rows:
  assumes rows: "rows = map (\<lambda>t. (idx t, rot ! (t mod 4), T ! t)) [0..<16]"
    and rot: "\<forall>s\<in>set rot. s < 32" "length rot = 4"
  shows "fold (MD5_op f blk) rows r = MD5_round f idx rot T blk r"
  unfolding MD5_round_def rows fold_map
  using rot_less[OF rot]
  by (intro fold_cong) (auto simp: MD5_op_def RotateLeft_word_rotl Let_def fun_eq_iff)

lemma MD4_rows_eqs:
  "MD4_FF_rows = map (\<lambda>t. (t, [3, 7, 11, 19] ! (t mod 4))) [0..<16]"
  "MD4_GG_rows = map (\<lambda>t. (4 * (t mod 4) + t div 4, [3, 5, 9, 13] ! (t mod 4))) [0..<16]"
  "MD4_HH_rows = map (\<lambda>t. (rev4 t, [3, 9, 11, 15] ! (t mod 4))) [0..<16]"
  by code_simp+

lemma MD5_rows_eqs:
  "MD5_FF_rows = map (\<lambda>t. (t, [7, 12, 17, 22] ! (t mod 4), map (nth MD5_constants) [0..<16] ! t)) [0..<16]"
  "MD5_GG_rows = map (\<lambda>t. ((1 + 5 * t) mod 16, [5, 9, 14, 20] ! (t mod 4),
     map (nth MD5_constants) [16..<32] ! t)) [0..<16]"
  "MD5_HH_rows = map (\<lambda>t. ((5 + 3 * t) mod 16, [4, 11, 16, 23] ! (t mod 4),
     map (nth MD5_constants) [32..<48] ! t)) [0..<16]"
  "MD5_II_rows = map (\<lambda>t. (7 * t mod 16, [6, 10, 15, 21] ! (t mod 4),
     map (nth MD5_constants) [48..<64] ! t)) [0..<16]"
  by code_simp+

lemma MD4_Transform_compress: "MD4_Transform = MD4_compress"
  by (intro ext)
    (simp add: MD4_Transform_def MD4_compress_def Let_def md_load_regs_def md_add_regs_def
      MD4_rows[OF MD4_rows_eqs(1)] MD4_rows[OF MD4_rows_eqs(2)] MD4_rows[OF MD4_rows_eqs(3)]
      MD4_F_select MD4_G_majority MD4_H_def[abs_def])

lemma MD5_Transform_compress: "MD5_Transform = MD5_compress (nth MD5_constants)"
proof -
  have G: "MD5_G = (\<lambda>x y z. md_select z x y)" by (simp add: MD5_G_def MD5_F_select fun_eq_iff)
  show ?thesis
    by (intro ext)
      (simp add: MD5_Transform_def MD5_compress_def Let_def md_load_regs_def md_add_regs_def
        MD5_rows[OF MD5_rows_eqs(1)] MD5_rows[OF MD5_rows_eqs(2)] MD5_rows[OF MD5_rows_eqs(3)]
        MD5_rows[OF MD5_rows_eqs(4)] MD5_F_select G MD5_H_def[abs_def] MD5_I_def[abs_def] del: upt_rec_numeral)
qed

section \<open>The two hashes\<close>

lemma length_md_add_regs [simp]: "length (md_add_regs st r) = 4"
  by (cases r) (simp add: md_add_regs_def)

interpretation md4: md_hash host MD4_Transform 64 Little MD4_iv 16 for host
  by unfold_locales (auto simp: MD4_iv_def MD4_Transform_def Let_def)

interpretation md5: md_hash host MD5_Transform 64 Little MD5_iv 16 for host
  by unfold_locales (auto simp: MD5_iv_def MD5_Transform_def Let_def)

end
