(* ===== verification/RIPEMD.thy ===== *)
theory RIPEMD
  imports Hash
begin

text \<open>
  \<^verbatim>\<open>impl/hash/ripe160\<close>: RIPEMD-128, RIPEMD-160, RIPEMD-256 and RIPEMD-320. The
  loops of each \<^verbatim>\<open>Transform\<close> run the two lines together; the lemmas separate them,
  show that the four tables are the powers of one permutation, and that the register swaps of
  the two wide functions are the exchanges of the published definition. The additive constants
  are the integer parts of square and cube roots of primes.
\<close>

section \<open>The steps\<close>

definition rmd_ff :: "u32 \<Rightarrow> u32 \<Rightarrow> u32 \<Rightarrow> u32" where
  "rmd_ff x y z = x XOR y XOR z"

definition rmd_gg :: "u32 \<Rightarrow> u32 \<Rightarrow> u32 \<Rightarrow> u32" where
  "rmd_gg x y z = (x AND y) OR (NOT x AND z)"

definition rmd_hh :: "u32 \<Rightarrow> u32 \<Rightarrow> u32 \<Rightarrow> u32" where
  "rmd_hh x y z = (x OR NOT y) XOR z"

definition rmd_ii :: "u32 \<Rightarrow> u32 \<Rightarrow> u32 \<Rightarrow> u32" where
  "rmd_ii x y z = (x AND z) OR (NOT z AND y)"

definition rmd_jj :: "u32 \<Rightarrow> u32 \<Rightarrow> u32 \<Rightarrow> u32" where
  "rmd_jj x y z = x XOR (y OR NOT z)"

definition rmd_r :: "nat list" where
  "rmd_r =
    [0, 1, 2, 3, 4, 5, 6, 7, 8, 9, 10, 11, 12, 13, 14, 15,
     7, 4, 13, 1, 10, 6, 15, 3, 12, 0, 9, 5, 2, 14, 11, 8,
     3, 10, 14, 4, 9, 15, 8, 1, 2, 7, 0, 6, 13, 11, 5, 12,
     1, 9, 11, 10, 0, 8, 12, 4, 13, 3, 7, 15, 14, 5, 6, 2,
     4, 0, 5, 9, 7, 12, 2, 10, 14, 1, 3, 8, 11, 6, 15, 13]"


definition rmd_rp :: "nat list" where
  "rmd_rp =
    [5, 14, 7, 0, 9, 2, 11, 4, 13, 6, 15, 8, 1, 10, 3, 12,
     6, 11, 3, 7, 0, 13, 5, 10, 14, 15, 8, 12, 4, 9, 1, 2,
     15, 5, 1, 3, 7, 14, 6, 9, 11, 8, 12, 2, 10, 0, 4, 13,
     8, 6, 4, 1, 3, 11, 15, 0, 5, 12, 2, 13, 9, 7, 10, 14,
     12, 15, 10, 4, 1, 5, 8, 7, 6, 2, 13, 14, 0, 3, 9, 11]"


definition rmd_s :: "nat list" where
  "rmd_s =
    [11, 14, 15, 12, 5, 8, 7, 9, 11, 13, 14, 15, 6, 7, 9, 8,
     7, 6, 8, 13, 11, 9, 7, 15, 7, 12, 15, 9, 11, 7, 13, 12,
     11, 13, 6, 7, 14, 9, 13, 15, 14, 8, 13, 6, 5, 12, 7, 5,
     11, 12, 14, 15, 14, 15, 9, 8, 9, 14, 5, 6, 8, 6, 5, 12,
     9, 15, 5, 11, 6, 8, 13, 12, 5, 12, 13, 14, 11, 8, 5, 6]"


definition rmd_sp :: "nat list" where
  "rmd_sp =
    [8, 9, 9, 11, 13, 15, 15, 5, 7, 7, 8, 11, 14, 14, 12, 6,
     9, 13, 15, 7, 12, 8, 9, 11, 7, 7, 12, 7, 6, 15, 13, 11,
     9, 7, 15, 11, 8, 6, 6, 14, 12, 13, 5, 14, 13, 13, 7, 5,
     15, 5, 8, 11, 14, 14, 6, 14, 6, 9, 12, 9, 12, 5, 15, 8,
     8, 5, 12, 9, 12, 5, 14, 6, 8, 13, 6, 5, 15, 13, 11, 11]"


type_synonym rmd_regs = "u32 \<times> u32 \<times> u32 \<times> u32 \<times> u32"
type_synonym rmd_sregs = "u32 \<times> u32 \<times> u32 \<times> u32"
type_synonym rmd_bool = "u32 \<Rightarrow> u32 \<Rightarrow> u32 \<Rightarrow> u32"

definition rmd_OP :: "u32 list \<Rightarrow> nat \<Rightarrow> rmd_bool \<Rightarrow> nat list \<Rightarrow> nat list \<Rightarrow> u32 \<Rightarrow> rmd_regs \<Rightarrow> rmd_regs" where
  "rmd_OP blk i f r s k = (\<lambda>(a, b, c, d, e).
     let t = RotateLeft (a + f b c d + blk ! (r ! i) + k) (s ! i) + e
     in (e, t, b, RotateLeft c 10, d))"

definition rmd_SOP :: "u32 list \<Rightarrow> nat \<Rightarrow> rmd_bool \<Rightarrow> nat list \<Rightarrow> nat list \<Rightarrow> u32 \<Rightarrow> rmd_sregs \<Rightarrow> rmd_sregs" where
  "rmd_SOP blk i f r s k = (\<lambda>(a, b, c, d).
     let t = RotateLeft (a + f b c d + blk ! (r ! i) + k) (s ! i)
     in (d, t, b, c))"

text \<open>One of the loops: both lines, sixteen steps.\<close>

definition rmd_loop :: "u32 list \<Rightarrow> nat \<Rightarrow> nat \<Rightarrow> rmd_bool \<times> u32 \<Rightarrow> rmd_bool \<times> u32 \<Rightarrow>
    rmd_regs \<times> rmd_regs \<Rightarrow> rmd_regs \<times> rmd_regs" where
  "rmd_loop blk lo hi = (\<lambda>(f, k) (f', k'). fold (\<lambda>i (x, y).
     (rmd_OP blk i f rmd_r rmd_s k x, rmd_OP blk i f' rmd_rp rmd_sp k' y)) [lo..<hi])"

definition rmd_sloop :: "u32 list \<Rightarrow> nat \<Rightarrow> nat \<Rightarrow> rmd_bool \<times> u32 \<Rightarrow> rmd_bool \<times> u32 \<Rightarrow>
    rmd_sregs \<times> rmd_sregs \<Rightarrow> rmd_sregs \<times> rmd_sregs" where
  "rmd_sloop blk lo hi = (\<lambda>(f, k) (f', k'). fold (\<lambda>i (x, y).
     (rmd_SOP blk i f rmd_r rmd_s k x, rmd_SOP blk i f' rmd_rp rmd_sp k' y)) [lo..<hi])"

section \<open>RIPEMD-160 and RIPEMD-128\<close>

definition RIPEMD160_iv :: "u32 list" where
  "RIPEMD160_iv = [0x67452301, 0xefcdab89, 0x98badcfe, 0x10325476, 0xc3d2e1f0]"

definition RIPEMD160_Reset :: "u32 hstate \<Rightarrow> u32 hstate" where
  "RIPEMD160_Reset st = hash_Reset RIPEMD160_iv st"

definition RIPEMD160_Transform :: "32 transform" where
  "RIPEMD160_Transform state block =
     (let a = state ! 0; b = state ! 1; c = state ! 2; d = state ! 3; e = state ! 4;
          blk = load_words Little block;
          p = ((a, b, c, d, e), (a, b, c, d, e));
          p = rmd_loop blk 0 16 (rmd_ff, 0x00000000) (rmd_jj, 0x50a28be6) p;
          p = rmd_loop blk 16 32 (rmd_gg, 0x5a827999) (rmd_ii, 0x5c4dd124) p;
          p = rmd_loop blk 32 48 (rmd_hh, 0x6ed9eba1) (rmd_hh, 0x6d703ef3) p;
          p = rmd_loop blk 48 64 (rmd_ii, 0x8f1bbcdc) (rmd_gg, 0x7a6d76e9) p;
          ((a, b, c, d, e), (aa, bb, cc, dd, ee)) =
            rmd_loop blk 64 80 (rmd_jj, 0xa953fd4e) (rmd_ff, 0x00000000) p
      in [state ! 1 + c + dd, state ! 2 + d + ee, state ! 3 + e + aa, state ! 4 + a + bb,
          state ! 0 + b + cc])"

definition RIPEMD128_iv :: "u32 list" where
  "RIPEMD128_iv = [0x67452301, 0xefcdab89, 0x98badcfe, 0x10325476]"

definition RIPEMD128_Reset :: "u32 hstate \<Rightarrow> u32 hstate" where
  "RIPEMD128_Reset st = hash_Reset RIPEMD128_iv st"

definition RIPEMD128_Transform :: "32 transform" where
  "RIPEMD128_Transform state block =
     (let a = state ! 0; b = state ! 1; c = state ! 2; d = state ! 3;
          blk = load_words Little block;
          p = ((a, b, c, d), (a, b, c, d));
          p = rmd_sloop blk 0 16 (rmd_ff, 0x00000000) (rmd_ii, 0x50a28be6) p;
          p = rmd_sloop blk 16 32 (rmd_gg, 0x5a827999) (rmd_hh, 0x5c4dd124) p;
          p = rmd_sloop blk 32 48 (rmd_hh, 0x6ed9eba1) (rmd_gg, 0x6d703ef3) p;
          ((a, b, c, d), (aa, bb, cc, dd)) =
            rmd_sloop blk 48 64 (rmd_ii, 0x8f1bbcdc) (rmd_ff, 0x00000000) p
      in [state ! 1 + c + dd, state ! 2 + d + aa, state ! 3 + a + bb, state ! 0 + b + cc])"

section \<open>RIPEMD-320 and RIPEMD-256\<close>

definition RIPEMD320_iv :: "u32 list" where
  "RIPEMD320_iv =
    [0x67452301, 0xefcdab89, 0x98badcfe, 0x10325476, 0xc3d2e1f0,
     0x76543210, 0xfedcba98, 0x89abcdef, 0x01234567, 0x3c2d1e0f]"

definition RIPEMD320_Reset :: "u32 hstate \<Rightarrow> u32 hstate" where
  "RIPEMD320_Reset st = hash_Reset RIPEMD320_iv st"

definition RIPEMD320_Transform :: "32 transform" where
  "RIPEMD320_Transform state block =
     (let blk = load_words Little block;
          p = ((state ! 0, state ! 1, state ! 2, state ! 3, state ! 4),
               (state ! 5, state ! 6, state ! 7, state ! 8, state ! 9));
          ((a, b, c, d, e), (aa, bb, cc, dd, ee)) =
            rmd_loop blk 0 16 (rmd_ff, 0x00000000) (rmd_jj, 0x50a28be6) p;
          p = ((a, bb, c, d, e), (aa, b, cc, dd, ee));
          ((a, b, c, d, e), (aa, bb, cc, dd, ee)) =
            rmd_loop blk 16 32 (rmd_gg, 0x5a827999) (rmd_ii, 0x5c4dd124) p;
          p = ((a, b, c, dd, e), (aa, bb, cc, d, ee));
          ((a, b, c, d, e), (aa, bb, cc, dd, ee)) =
            rmd_loop blk 32 48 (rmd_hh, 0x6ed9eba1) (rmd_hh, 0x6d703ef3) p;
          p = ((aa, b, c, d, e), (a, bb, cc, dd, ee));
          ((a, b, c, d, e), (aa, bb, cc, dd, ee)) =
            rmd_loop blk 48 64 (rmd_ii, 0x8f1bbcdc) (rmd_gg, 0x7a6d76e9) p;
          p = ((a, b, cc, d, e), (aa, bb, c, dd, ee));
          ((a, b, c, d, e), (aa, bb, cc, dd, ee)) =
            rmd_loop blk 64 80 (rmd_jj, 0xa953fd4e) (rmd_ff, 0x00000000) p
      in [state ! 0 + a, state ! 1 + b, state ! 2 + c, state ! 3 + d, state ! 4 + ee,
          state ! 5 + aa, state ! 6 + bb, state ! 7 + cc, state ! 8 + dd, state ! 9 + e])"

definition RIPEMD256_iv :: "u32 list" where
  "RIPEMD256_iv =
    [0x67452301, 0xefcdab89, 0x98badcfe, 0x10325476,
     0x76543210, 0xfedcba98, 0x89abcdef, 0x01234567]"

definition RIPEMD256_Reset :: "u32 hstate \<Rightarrow> u32 hstate" where
  "RIPEMD256_Reset st = hash_Reset RIPEMD256_iv st"

definition RIPEMD256_Transform :: "32 transform" where
  "RIPEMD256_Transform state block =
     (let blk = load_words Little block;
          p = ((state ! 0, state ! 1, state ! 2, state ! 3),
               (state ! 4, state ! 5, state ! 6, state ! 7));
          ((a, b, c, d), (aa, bb, cc, dd)) =
            rmd_sloop blk 0 16 (rmd_ff, 0x00000000) (rmd_ii, 0x50a28be6) p;
          p = ((aa, b, c, d), (a, bb, cc, dd));
          ((a, b, c, d), (aa, bb, cc, dd)) =
            rmd_sloop blk 16 32 (rmd_gg, 0x5a827999) (rmd_hh, 0x5c4dd124) p;
          p = ((a, bb, c, d), (aa, b, cc, dd));
          ((a, b, c, d), (aa, bb, cc, dd)) =
            rmd_sloop blk 32 48 (rmd_hh, 0x6ed9eba1) (rmd_gg, 0x6d703ef3) p;
          p = ((a, b, cc, d), (aa, bb, c, dd));
          ((a, b, c, d), (aa, bb, cc, dd)) =
            rmd_sloop blk 48 64 (rmd_ii, 0x8f1bbcdc) (rmd_ff, 0x00000000) p
      in [state ! 0 + a, state ! 1 + b, state ! 2 + c, state ! 3 + dd,
          state ! 4 + aa, state ! 5 + bb, state ! 6 + cc, state ! 7 + d])"

section \<open>The published definition\<close>

text \<open>
  Step \<open>j\<close> of the left line reads the word \<open>\<rho> ^ (j div 16) (j mod 16)\<close>, the right line
  starts each round from \<open>\<pi> i = 9 i + 5\<close>; the rotation depends on the round and on the
  word read, the same in both lines.
\<close>

definition rmd_rho :: "nat \<Rightarrow> nat" where
  "rmd_rho i = [7, 4, 13, 1, 10, 6, 15, 3, 12, 0, 9, 5, 2, 14, 11, 8] ! i"

definition rmd_left :: "nat \<Rightarrow> nat" where
  "rmd_left j = (rmd_rho ^^ (j div 16)) (j mod 16)"

definition rmd_right :: "nat \<Rightarrow> nat" where
  "rmd_right j = (rmd_rho ^^ (j div 16)) ((9 * (j mod 16) + 5) mod 16)"

definition rmd_shift :: "nat \<Rightarrow> nat \<Rightarrow> nat" where
  "rmd_shift n w =
    [[11, 14, 15, 12, 5, 8, 7, 9, 11, 13, 14, 15, 6, 7, 9, 8],
     [12, 13, 11, 15, 6, 9, 9, 7, 12, 15, 11, 13, 7, 8, 7, 7],
     [13, 15, 14, 11, 7, 7, 6, 8, 13, 14, 13, 12, 5, 5, 6, 9],
     [14, 11, 12, 14, 8, 6, 5, 5, 15, 12, 15, 14, 9, 9, 8, 6],
     [15, 12, 13, 13, 9, 5, 8, 6, 14, 11, 12, 11, 8, 6, 5, 5]] ! n ! w"

definition rmd_bools :: "rmd_bool list" where
  "rmd_bools = [rmd_ff, rmd_gg, rmd_hh, rmd_ii, rmd_jj]"

definition rmd_K :: "u32 list" where
  "rmd_K = [0, 0x5a827999, 0x6ed9eba1, 0x8f1bbcdc, 0xa953fd4e]"

definition rmd_KP :: "u32 list" where
  "rmd_KP = [0x50a28be6, 0x5c4dd124, 0x6d703ef3, 0x7a6d76e9]"

definition rmd_round :: "u32 list \<Rightarrow> (nat \<Rightarrow> nat) \<Rightarrow> nat \<Rightarrow> rmd_bool \<Rightarrow> u32 \<Rightarrow> rmd_regs \<Rightarrow> rmd_regs" where
  "rmd_round X idx n f K = fold (\<lambda>j (a, b, c, d, e).
     (e, word_rotl (rmd_shift n (idx j)) (a + f b c d + X ! idx j + K) + e, b, word_rotl 10 c, d))
     [16 * n..<16 * n + 16]"

definition rmd_sround :: "u32 list \<Rightarrow> (nat \<Rightarrow> nat) \<Rightarrow> nat \<Rightarrow> rmd_bool \<Rightarrow> u32 \<Rightarrow> rmd_sregs \<Rightarrow> rmd_sregs" where
  "rmd_sround X idx n f K = fold (\<lambda>j (a, b, c, d).
     (d, word_rotl (rmd_shift n (idx j)) (a + f b c d + X ! idx j + K), b, c)) [16 * n..<16 * n + 16]"

definition RIPEMD160_compress :: "32 transform" where
  "RIPEMD160_compress h block =
     (let X = load_words Little block;
          r = (h ! 0, h ! 1, h ! 2, h ! 3, h ! 4);
          (a, b, c, d, e) = fold (\<lambda>n. rmd_round X rmd_left n (rmd_bools ! n) (rmd_K ! n)) [0..<5] r;
          (a', b', c', d', e') =
            fold (\<lambda>n. rmd_round X rmd_right n (rmd_bools ! (4 - n)) ((rmd_KP @ [0]) ! n)) [0..<5] r
      in [h ! 1 + c + d', h ! 2 + d + e', h ! 3 + e + a', h ! 4 + a + b', h ! 0 + b + c'])"

definition RIPEMD128_compress :: "32 transform" where
  "RIPEMD128_compress h block =
     (let X = load_words Little block;
          r = (h ! 0, h ! 1, h ! 2, h ! 3);
          (a, b, c, d) = fold (\<lambda>n. rmd_sround X rmd_left n (rmd_bools ! n) (rmd_K ! n)) [0..<4] r;
          (a', b', c', d') =
            fold (\<lambda>n. rmd_sround X rmd_right n (rmd_bools ! (3 - n)) ((take 3 rmd_KP @ [0]) ! n)) [0..<4] r
      in [h ! 1 + c + d', h ! 2 + d + a', h ! 3 + a + b', h ! 0 + b + c'])"

text \<open>The wide functions exchange one register between the lines after each round.\<close>

definition rmd_exchange :: "nat \<Rightarrow> rmd_regs \<times> rmd_regs \<Rightarrow> rmd_regs \<times> rmd_regs" where
  "rmd_exchange n = (\<lambda>((a, b, c, d, e), (a', b', c', d', e')).
     if n = 0 then ((a, b', c, d, e), (a', b, c', d', e'))
     else if n = 1 then ((a, b, c, d', e), (a', b', c', d, e'))
     else if n = 2 then ((a', b, c, d, e), (a, b', c', d', e'))
     else if n = 3 then ((a, b, c', d, e), (a', b', c, d', e'))
     else ((a, b, c, d, e'), (a', b', c', d', e)))"

definition rmd_sexchange :: "nat \<Rightarrow> rmd_sregs \<times> rmd_sregs \<Rightarrow> rmd_sregs \<times> rmd_sregs" where
  "rmd_sexchange n = (\<lambda>((a, b, c, d), (a', b', c', d')).
     if n = 0 then ((a', b, c, d), (a, b', c', d'))
     else if n = 1 then ((a, b', c, d), (a', b, c', d'))
     else if n = 2 then ((a, b, c', d), (a', b', c, d'))
     else ((a, b, c, d'), (a', b', c', d)))"

definition RIPEMD320_compress :: "32 transform" where
  "RIPEMD320_compress h block =
     (let X = load_words Little block;
          ((a, b, c, d, e), (a', b', c', d', e')) = fold (\<lambda>n (x, y). rmd_exchange n
            (rmd_round X rmd_left n (rmd_bools ! n) (rmd_K ! n) x,
             rmd_round X rmd_right n (rmd_bools ! (4 - n)) ((rmd_KP @ [0]) ! n) y)) [0..<5]
            ((h ! 0, h ! 1, h ! 2, h ! 3, h ! 4), (h ! 5, h ! 6, h ! 7, h ! 8, h ! 9))
      in map2 (+) (map (nth h) [0..<10]) [a, b, c, d, e, a', b', c', d', e'])"

definition RIPEMD256_compress :: "32 transform" where
  "RIPEMD256_compress h block =
     (let X = load_words Little block;
          ((a, b, c, d), (a', b', c', d')) = fold (\<lambda>n (x, y). rmd_sexchange n
            (rmd_sround X rmd_left n (rmd_bools ! n) (rmd_K ! n) x,
             rmd_sround X rmd_right n (rmd_bools ! (3 - n)) ((take 3 rmd_KP @ [0]) ! n) y)) [0..<4]
            ((h ! 0, h ! 1, h ! 2, h ! 3), (h ! 4, h ! 5, h ! 6, h ! 7))
      in map2 (+) (map (nth h) [0..<8]) [a, b, c, d, a', b', c', d'])"

section \<open>The code computes it\<close>

lemma rmd_tables:
  "rmd_r = map rmd_left [0..<80]"
  "rmd_rp = map rmd_right [0..<80]"
  "rmd_s = map (\<lambda>j. rmd_shift (j div 16) (rmd_left j)) [0..<80]"
  "rmd_sp = map (\<lambda>j. rmd_shift (j div 16) (rmd_right j)) [0..<80]"
  by code_simp+

lemma rmd_shifts: "\<forall>s\<in>set rmd_s. s < 32" "\<forall>s\<in>set rmd_sp. s < 32"
  by code_simp+

text \<open>The constants are the integer parts of \<open>2 ^ 30\<close> times a square or a cube root.\<close>

lemma rmd_K_square_roots:
  "list_all2 (\<lambda>K p. unat K ^ 2 \<le> p * 2 ^ 60 \<and> p * 2 ^ 60 < (unat K + 1) ^ 2) (tl rmd_K) [2, 3, 5, 7 :: nat]"
  by (simp add: rmd_K_def)

lemma rmd_KP_cube_roots:
  "list_all2 (\<lambda>K p. unat K ^ 3 \<le> p * 2 ^ 90 \<and> p * 2 ^ 90 < (unat K + 1) ^ 3) rmd_KP [2, 3, 5, 7 :: nat]"
  by (simp add: rmd_KP_def)

lemma fold_pair: "fold (\<lambda>i (x, y). (F i x, G i y)) xs (x, y) = (fold F xs x, fold G xs y)"
  by (induction xs arbitrary: x y) simp_all

lemma rmd_row:
  assumes "i \<in> set [16 * n..<16 * n + 16]" "n < 5"
  shows "rmd_r ! i = rmd_left i" "rmd_rp ! i = rmd_right i"
    and "RotateLeft (w :: u32) (rmd_s ! i) = word_rotl (rmd_shift n (rmd_left i)) w"
    and "RotateLeft w (rmd_sp ! i) = word_rotl (rmd_shift n (rmd_right i)) w"
proof -
  have i: "i < 80" "i div 16 = n" using assms by auto
  then have "rmd_s ! i = rmd_shift n (rmd_left i)" "rmd_sp ! i = rmd_shift n (rmd_right i)"
    by (simp_all add: rmd_tables(3,4) del: upt_rec_numeral)
  moreover have "rmd_s ! i \<in> set rmd_s" "rmd_sp ! i \<in> set rmd_sp"
    by (intro nth_mem; use i(1) in \<open>simp add: rmd_tables(3,4) del: upt_rec_numeral\<close>)+
  ultimately have "rmd_shift n (rmd_left i) < 32" "rmd_shift n (rmd_right i) < 32"
    "rmd_s ! i = rmd_shift n (rmd_left i)" "rmd_sp ! i = rmd_shift n (rmd_right i)"
    using rmd_shifts by auto
  then show "RotateLeft w (rmd_s ! i) = word_rotl (rmd_shift n (rmd_left i)) w"
    "RotateLeft w (rmd_sp ! i) = word_rotl (rmd_shift n (rmd_right i)) w"
    by (simp_all add: RotateLeft_word_rotl)
  show "rmd_r ! i = rmd_left i" "rmd_rp ! i = rmd_right i"
    using i(1) by (simp_all add: rmd_tables(1,2) del: upt_rec_numeral)
qed

lemma rmd_loop_rounds:
  assumes "lo = 16 * n" "hi = 16 * n + 16" "n < 5"
  shows "rmd_loop blk lo hi (f, k) (f', k') p =
     (rmd_round blk rmd_left n f k (fst p), rmd_round blk rmd_right n f' k' (snd p))"
    and "rmd_sloop blk lo hi (f, k) (f', k') q =
     (rmd_sround blk rmd_left n f k (fst q), rmd_sround blk rmd_right n f' k' (snd q))"
proof -
  note row = rmd_row[OF _ assms(3)]
  have rot: "RotateLeft w 10 = word_rotl 10 w" for w :: u32 by (simp add: RotateLeft_word_rotl)
  show "rmd_loop blk lo hi (f, k) (f', k') p =
     (rmd_round blk rmd_left n f k (fst p), rmd_round blk rmd_right n f' k' (snd p))"
    unfolding rmd_loop_def rmd_round_def assms(1,2) prod.case fold_pair[of _ _ _ "fst p" "snd p", unfolded prod.collapse]
    by (intro arg_cong2[of _ _ _ _ Pair] fold_cong)
      (auto simp: rmd_OP_def row rot Let_def fun_eq_iff simp del: set_upt)
  show "rmd_sloop blk lo hi (f, k) (f', k') q =
     (rmd_sround blk rmd_left n f k (fst q), rmd_sround blk rmd_right n f' k' (snd q))"
    unfolding rmd_sloop_def rmd_sround_def assms(1,2) prod.case fold_pair[of _ _ _ "fst q" "snd q", unfolded prod.collapse]
    by (intro arg_cong2[of _ _ _ _ Pair] fold_cong)
      (auto simp: rmd_SOP_def row rot Let_def fun_eq_iff simp del: set_upt)
qed

lemma upt_5: "[0..<5] = [0, 1, 2, 3, 4 :: nat]" and upt_4: "[0..<4] = [0, 1, 2, 3 :: nat]"
  and upt_10: "[0..<10] = [0, 1, 2, 3, 4, 5, 6, 7, 8, 9 :: nat]" and upt_8: "[0..<8] = [0, 1, 2, 3, 4, 5, 6, 7 :: nat]"
  by (simp_all add: upt_rec)

lemmas rmd_loops =
  rmd_loop_rounds(1)[of 0 0 16] rmd_loop_rounds(1)[of 16 1 32] rmd_loop_rounds(1)[of 32 2 48]
  rmd_loop_rounds(1)[of 48 3 64] rmd_loop_rounds(1)[of 64 4 80]

lemmas rmd_sloops =
  rmd_loop_rounds(2)[of 0 0 16] rmd_loop_rounds(2)[of 16 1 32] rmd_loop_rounds(2)[of 32 2 48]
  rmd_loop_rounds(2)[of 48 3 64]

lemma RIPEMD160_Transform_compress: "RIPEMD160_Transform = RIPEMD160_compress"
  by (intro ext)
    (simp add: RIPEMD160_Transform_def RIPEMD160_compress_def Let_def rmd_loops upt_5 rmd_bools_def rmd_K_def
      rmd_KP_def split_beta)

lemma RIPEMD128_Transform_compress: "RIPEMD128_Transform = RIPEMD128_compress"
  by (intro ext)
    (simp add: RIPEMD128_Transform_def RIPEMD128_compress_def Let_def rmd_sloops upt_4 rmd_bools_def rmd_K_def
      rmd_KP_def split_beta)

lemma rmd_pair_cases:
  obtains a b c d e a' b' c' d' e' where "(p :: rmd_regs \<times> rmd_regs) = ((a, b, c, d, e), (a', b', c', d', e'))"
  by (cases p) auto

lemma rmd_spair_cases:
  obtains a b c d a' b' c' d' where "(p :: rmd_sregs \<times> rmd_sregs) = ((a, b, c, d), (a', b', c', d'))"
  by (cases p) auto

lemma RIPEMD320_Transform_compress: "RIPEMD320_Transform = RIPEMD320_compress"
proof (intro ext)
  fix h :: "u32 list" and block :: "byte list"
  let ?X = "load_words Little block :: u32 list"
  obtain a0 b0 c0 d0 e0 a0' b0' c0' d0' e0' where r0:
    "rmd_loop ?X 0 16 (rmd_ff, 0x00000000) (rmd_jj, 0x50a28be6)
      ((h ! 0, h ! 1, h ! 2, h ! 3, h ! 4), (h ! 5, h ! 6, h ! 7, h ! 8, h ! 9))
      = ((a0, b0, c0, d0, e0), (a0', b0', c0', d0', e0'))" by (rule rmd_pair_cases)
  obtain a1 b1 c1 d1 e1 a1' b1' c1' d1' e1' where r1:
    "rmd_loop ?X 16 32 (rmd_gg, 0x5a827999) (rmd_ii, 0x5c4dd124)
      ((a0, b0', c0, d0, e0), (a0', b0, c0', d0', e0'))
      = ((a1, b1, c1, d1, e1), (a1', b1', c1', d1', e1'))" by (rule rmd_pair_cases)
  obtain a2 b2 c2 d2 e2 a2' b2' c2' d2' e2' where r2:
    "rmd_loop ?X 32 48 (rmd_hh, 0x6ed9eba1) (rmd_hh, 0x6d703ef3)
      ((a1, b1, c1, d1', e1), (a1', b1', c1', d1, e1'))
      = ((a2, b2, c2, d2, e2), (a2', b2', c2', d2', e2'))" by (rule rmd_pair_cases)
  obtain a3 b3 c3 d3 e3 a3' b3' c3' d3' e3' where r3:
    "rmd_loop ?X 48 64 (rmd_ii, 0x8f1bbcdc) (rmd_gg, 0x7a6d76e9)
      ((a2', b2, c2, d2, e2), (a2, b2', c2', d2', e2'))
      = ((a3, b3, c3, d3, e3), (a3', b3', c3', d3', e3'))" by (rule rmd_pair_cases)
  obtain a4 b4 c4 d4 e4 a4' b4' c4' d4' e4' where r4:
    "rmd_loop ?X 64 80 (rmd_jj, 0xa953fd4e) (rmd_ff, 0x00000000)
      ((a3, b3, c3', d3, e3), (a3', b3', c3, d3', e3'))
      = ((a4, b4, c4, d4, e4), (a4', b4', c4', d4', e4'))" by (rule rmd_pair_cases)
  note rs = r0 r1 r2 r3 r4
  show "RIPEMD320_Transform h block = RIPEMD320_compress h block"
    using rs[simplified rmd_loops, simplified]
    by (simp add: RIPEMD320_Transform_def RIPEMD320_compress_def Let_def rmd_loops upt_5 rmd_bools_def rmd_K_def rmd_KP_def
        rmd_exchange_def upt_10 del: upt_rec_numeral)
qed

lemma RIPEMD256_Transform_compress: "RIPEMD256_Transform = RIPEMD256_compress"
proof (intro ext)
  fix h :: "u32 list" and block :: "byte list"
  let ?X = "load_words Little block :: u32 list"
  obtain a0 b0 c0 d0 a0' b0' c0' d0' where r0:
    "rmd_sloop ?X 0 16 (rmd_ff, 0x00000000) (rmd_ii, 0x50a28be6)
      ((h ! 0, h ! 1, h ! 2, h ! 3), (h ! 4, h ! 5, h ! 6, h ! 7))
      = ((a0, b0, c0, d0), (a0', b0', c0', d0'))" by (rule rmd_spair_cases)
  obtain a1 b1 c1 d1 a1' b1' c1' d1' where r1:
    "rmd_sloop ?X 16 32 (rmd_gg, 0x5a827999) (rmd_hh, 0x5c4dd124)
      ((a0', b0, c0, d0), (a0, b0', c0', d0'))
      = ((a1, b1, c1, d1), (a1', b1', c1', d1'))" by (rule rmd_spair_cases)
  obtain a2 b2 c2 d2 a2' b2' c2' d2' where r2:
    "rmd_sloop ?X 32 48 (rmd_hh, 0x6ed9eba1) (rmd_gg, 0x6d703ef3)
      ((a1, b1', c1, d1), (a1', b1, c1', d1'))
      = ((a2, b2, c2, d2), (a2', b2', c2', d2'))" by (rule rmd_spair_cases)
  obtain a3 b3 c3 d3 a3' b3' c3' d3' where r3:
    "rmd_sloop ?X 48 64 (rmd_ii, 0x8f1bbcdc) (rmd_ff, 0x00000000)
      ((a2, b2, c2', d2), (a2', b2', c2, d2'))
      = ((a3, b3, c3, d3), (a3', b3', c3', d3'))" by (rule rmd_spair_cases)
  note rs = r0 r1 r2 r3
  show "RIPEMD256_Transform h block = RIPEMD256_compress h block"
    using rs[simplified rmd_sloops, simplified]
    by (simp add: RIPEMD256_Transform_def RIPEMD256_compress_def Let_def rmd_sloops upt_4 rmd_bools_def rmd_K_def rmd_KP_def
        rmd_sexchange_def upt_8 del: upt_rec_numeral)
qed

section \<open>The four hashes\<close>

lemma length_RIPEMD_Transform [simp]:
  "length (RIPEMD160_Transform h b) = 5" "length (RIPEMD128_Transform h b) = 4"
  "length (RIPEMD320_Transform h b) = 10" "length (RIPEMD256_Transform h b) = 8"
  unfolding RIPEMD160_Transform_compress RIPEMD128_Transform_compress RIPEMD320_Transform_compress
    RIPEMD256_Transform_compress RIPEMD160_compress_def RIPEMD128_compress_def RIPEMD320_compress_def
    RIPEMD256_compress_def Let_def
  by (simp_all add: split_beta del: upt_rec_numeral)

interpretation rmd160: md_hash host RIPEMD160_Transform 64 Little RIPEMD160_iv 20 for host
  by unfold_locales (auto simp: RIPEMD160_iv_def)

interpretation rmd128: md_hash host RIPEMD128_Transform 64 Little RIPEMD128_iv 16 for host
  by unfold_locales (auto simp: RIPEMD128_iv_def)

interpretation rmd320: md_hash host RIPEMD320_Transform 64 Little RIPEMD320_iv 40 for host
  by unfold_locales (auto simp: RIPEMD320_iv_def)

interpretation rmd256: md_hash host RIPEMD256_Transform 64 Little RIPEMD256_iv 32 for host
  by unfold_locales (auto simp: RIPEMD256_iv_def)

end
