(* ===== verification/Keystream.thy ===== *)
theory Keystream
  imports Drew_Prelude
begin

text \<open>
  \<^verbatim>\<open>CopyAndXor\<close> and \<^verbatim>\<open>CopyAndXorAligned\<close> of \<^verbatim>\<open>include/util.hh\<close>: how every
  stream cipher (and the counter mode) turns a generator of whole buffers into the encryption
  of pieces of any length. The generator's \<^verbatim>\<open>FillBuffer\<close> is an argument. The locale
  \<open>keystream\<close> is what a generator has to promise and what its clients then get: the
  output is the data combined with one stream of bytes, of which each call continues where
  the last one stopped.
\<close>

section \<open>The two operations\<close>

type_synonym 's fill = "'s \<Rightarrow> byte list \<times> 's"

function xor_blocks ::
    "'s fill \<Rightarrow> nat \<Rightarrow> byte list \<Rightarrow> byte list \<Rightarrow> 's \<Rightarrow> byte list \<times> byte list \<times> byte list \<times> 's" where
  "xor_blocks fill bufsz data mbuf obj =
     (if bufsz \<le> length data \<and> 0 < bufsz
      then let (mbuf, obj) = fill obj;
               out = xor_bytes mbuf (take bufsz data);
               (outs, rest, mbuf, obj) = xor_blocks fill bufsz (drop bufsz data) mbuf obj
           in (out @ outs, rest, mbuf, obj)
      else ([], data, mbuf, obj))"
  by pat_completeness auto
termination
  by (relation "measure (\<lambda>(fill, bufsz, data, mbuf, obj). length data)") auto

declare xor_blocks.simps [simp del]

lemma xor_blocks_inv:
  assumes "\<And>m s. P m s \<Longrightarrow> P (fst (fill s)) (snd (fill s))" and "0 < bufsz"
  shows "P m s \<Longrightarrow> xor_blocks fill bufsz data m s = (out, rest, m', s') \<Longrightarrow> P m' s' \<and> length rest < bufsz"
proof (induction "length data" arbitrary: data m s out rule: less_induct)
  case less
  show ?case
  proof (cases "bufsz \<le> length data")
    case True
    obtain m1 s1 where f: "fill s = (m1, s1)" by (cases "fill s")
    have P: "P m1 s1" using assms(1)[OF less.prems(1)] f by simp
    obtain outs where rec: "xor_blocks fill bufsz (drop bufsz data) m1 s1 = (outs, rest, m', s')"
      using less.prems(2) True assms(2) f
      by (subst (asm) xor_blocks.simps) (auto simp: split: prod.splits)
    show ?thesis by (rule less.hyps[OF _ P rec]) (use True assms(2) in simp)
  next
    case False
    then show ?thesis using less.prems xor_blocks.simps[of fill bufsz data m s] by simp
  qed
qed

text \<open>The buffer, the number \<^verbatim>\<open>bufrem\<close> of unused bytes at its end, and the generator.\<close>

record 's xor_state =
  mbuf :: "byte list"
  bufrem :: nat
  obj :: 's

definition CopyAndXor ::
    "'s fill \<Rightarrow> nat \<Rightarrow> byte list \<Rightarrow> 's xor_state \<Rightarrow> byte list \<times> 's xor_state" where
  "CopyAndXor fill bufsz data st =
     (let boff = (bufsz - bufrem st) mod bufsz;
          (out1, data, boff) =
            (if bufrem st \<noteq> 0
             then let b = min (bufrem st) (length data);
                      out = xor_bytes (take b (drop boff (mbuf st))) (take b data);
                      boff = boff + b;
                      boff = (if boff = bufsz then 0 else boff)
                  in (out, drop b data, boff)
             else ([], data, boff));
          (out2, data, mbuf, obj) = xor_blocks fill bufsz data (mbuf st) (obj st);
          (out3, mbuf, obj, boff) =
            (if data \<noteq> []
             then let (mbuf, obj) = fill obj
                  in (xor_bytes (take (length data) mbuf) data, mbuf, obj, length data)
             else ([], mbuf, obj, boff))
      in (out1 @ out2 @ out3,
          \<lparr>mbuf = mbuf, bufrem = (bufsz - boff) mod bufsz, obj = obj\<rparr>))"

text \<open>
  \<open>fillA\<close> is \<^verbatim>\<open>FillBufferAligned\<close>. The length is a multiple of the buffer size, by the
  contract the source states; \<^verbatim>\<open>bufrem\<close> is neither read nor written.
\<close>

definition CopyAndXorAligned ::
    "'s fill \<Rightarrow> nat \<Rightarrow> byte list \<Rightarrow> byte list \<times> 's \<Rightarrow> byte list \<times> byte list \<times> 's" where
  "CopyAndXorAligned fillA bufsz data =
     (\<lambda>(mbuf, obj). fold (\<lambda>inp (out, mbuf, obj).
        let (mbuf, obj) = fillA obj in (out @ xor_bytes inp mbuf, mbuf, obj)) (chunks bufsz data) ([], mbuf, obj))"

section \<open>The stream of a generator\<close>

primrec fill_state :: "'s fill \<Rightarrow> nat \<Rightarrow> 's \<Rightarrow> 's" where
  "fill_state fill 0 s = s"
| "fill_state fill (Suc n) s = fill_state fill n (snd (fill s))"

definition block_byte :: "'s fill \<Rightarrow> nat \<Rightarrow> 's \<Rightarrow> nat \<Rightarrow> byte" where
  "block_byte fill bufsz s i = fst (fill (fill_state fill (i div bufsz) s)) ! (i mod bufsz)"

text \<open>Byte \<open>i\<close> of what a state still has to give: the pending bytes, then the generator's blocks.\<close>

definition keystream_byte :: "'s fill \<Rightarrow> nat \<Rightarrow> 's xor_state \<Rightarrow> nat \<Rightarrow> byte" where
  "keystream_byte fill bufsz st i =
     (if i < bufrem st then mbuf st ! (bufsz - bufrem st + i)
      else block_byte fill bufsz (obj st) (i - bufrem st))"

lemma fill_state_add: "fill_state fill (m + n) s = fill_state fill m (fill_state fill n s)"
  by (induction n arbitrary: s) simp_all

lemma fill_state_Suc: "fill_state fill (Suc n) s = snd (fill (fill_state fill n s))"
  using fill_state_add[of fill 1 n s] by simp

lemma block_byte_first: "i < bufsz \<Longrightarrow> block_byte fill bufsz s i = fst (fill s) ! i"
  by (simp add: block_byte_def)

lemma block_byte_later:
  "0 < bufsz \<Longrightarrow> block_byte fill bufsz s (bufsz * k + i) = block_byte fill bufsz (fill_state fill k s) i"
  by (simp add: block_byte_def fill_state_add[symmetric] add.commute)

locale keystream =
  fixes fill :: "'s fill" and bufsz :: nat and ok :: "'s \<Rightarrow> bool"
  assumes bufsz: "0 < bufsz"
    and length_fill: "ok s \<Longrightarrow> length (fst (fill s)) = bufsz"
    and ok_fill: "ok s \<Longrightarrow> ok (snd (fill s))"
begin

lemma ok_fill_state: "ok s \<Longrightarrow> ok (fill_state fill n s)"
  by (induction n arbitrary: s) (simp_all add: ok_fill)

text \<open>
  A state the operations leave behind, and every state with an empty buffer. A full buffer
  (\<open>bufrem = bufsz\<close>) is only possible before the first call.
\<close>

definition good :: "'s xor_state \<Rightarrow> bool" where
  "good st \<longleftrightarrow> ok (obj st) \<and> length (mbuf st) = bufsz \<and> bufrem st \<le> bufsz"

lemma xor_blocks_stream:
  assumes "ok s" "length m = bufsz"
  obtains out m' where
    "xor_blocks fill bufsz data m s
       = (out, drop (bufsz * (length data div bufsz)) data, m', fill_state fill (length data div bufsz) s)"
    "length out = bufsz * (length data div bufsz)" "length m' = bufsz"
    "\<And>i. i < length out \<Longrightarrow> out ! i = block_byte fill bufsz s i XOR data ! i"
  using assms
proof (induction "length data div bufsz" arbitrary: data m s thesis)
  case 0
  then have "length data < bufsz" using bufsz by (simp add: div_eq_0_iff)
  then show ?case using 0 by (intro "0.prems"(1)[of "[]" m]) (subst xor_blocks.simps, simp_all)
next
  case (Suc k)
  have ge: "bufsz \<le> length data"
  proof (rule ccontr)
    assume "\<not> bufsz \<le> length data"
    then show False using Suc(2) by simp
  qed
  have k: "k = length (drop bufsz data) div bufsz"
    using Suc(2) ge bufsz by (simp add: le_div_geq)
  obtain m1 s1 where f: "fill s = (m1, s1)" by (cases "fill s")
  have ok1: "ok s1" and len1: "length m1 = bufsz"
    using ok_fill[OF Suc.prems(2)] length_fill[OF Suc.prems(2)] f by simp_all
  obtain out m' where rec: "xor_blocks fill bufsz (drop bufsz data) m1 s1
      = (out, drop (bufsz * k) (drop bufsz data), m', fill_state fill k s1)"
    "length out = bufsz * k" "length m' = bufsz"
    "\<And>i. i < length out \<Longrightarrow> out ! i = block_byte fill bufsz s1 i XOR drop bufsz data ! i"
    using Suc.hyps(1)[OF k _ ok1 len1] unfolding k[symmetric] by blast
  have s1: "block_byte fill bufsz s1 i = block_byte fill bufsz s (bufsz + i)" for i
    using block_byte_later[OF bufsz, of fill s 1 i] f by simp
  show ?case
  proof (rule Suc.prems(1)[of "xor_bytes m1 (take bufsz data) @ out" m'])
    show "xor_blocks fill bufsz data m s = (xor_bytes m1 (take bufsz data) @ out,
        drop (bufsz * (length data div bufsz)) data, m', fill_state fill (length data div bufsz) s)"
      using ge bufsz f rec(1) by (subst xor_blocks.simps) (simp add: Suc(2)[symmetric] add.commute)
    show "length (xor_bytes m1 (take bufsz data) @ out) = bufsz * (length data div bufsz)"
      using ge len1 rec(2) by (simp add: Suc(2)[symmetric])
    show "length m' = bufsz" by (rule rec(3))
    show "(xor_bytes m1 (take bufsz data) @ out) ! i = block_byte fill bufsz s i XOR data ! i"
      if "i < length (xor_bytes m1 (take bufsz data) @ out)" for i
    proof (cases "i < bufsz")
      case True
      then show ?thesis using ge len1 f by (simp add: nth_append block_byte_first)
    next
      case False
      then show ?thesis
        using that ge len1 rec(4)[of "i - bufsz"] s1[of "i - bufsz"] by (simp add: nth_append)
    qed
  qed
qed

lemma pending_part:
  assumes "good st" and data: "length data < bufrem st" "bufrem st = bufsz \<Longrightarrow> data \<noteq> []"
  shows "CopyAndXor fill bufsz data st
     = (xor_bytes (take (length data) (drop (bufsz - bufrem st) (mbuf st))) data,
        st\<lparr>bufrem := bufrem st - length data\<rparr>)"
proof -
  have le: "bufrem st \<le> bufsz" using assms(1) by (simp add: good_def)
  obtain d where d: "bufsz - bufrem st = d" "d + bufrem st = bufsz" using le by simp
  have boff: "(bufsz - bufrem st) mod bufsz = d" using d data(1) by simp
  have neq: "d + length data \<noteq> bufsz" and short: "length data < bufsz" using d data(1) by simp_all
  have last: "(bufsz - (d + length data)) mod bufsz = bufrem st - length data"
  proof (cases "d + length data = 0")
    case True
    then show ?thesis using d data(2) by simp
  next
    case False
    then have "bufsz - (d + length data) = bufrem st - length data" "bufrem st - length data < bufsz"
      using d data(1) by linarith+
    then show ?thesis by simp
  qed
  have blocks: "xor_blocks fill bufsz [] m s = ([], [], m, s)" for m s
    using bufsz by (subst xor_blocks.simps) simp
  show ?thesis
    unfolding CopyAndXor_def Let_def boff using data(1) neq last blocks d
    by (cases st) (simp add: min_def)
qed

lemma pending_all:
  assumes "good st" and data: "bufrem st \<le> length data"
  shows "(if bufrem st \<noteq> 0
        then let b = min (bufrem st) (length data);
                 out = xor_bytes (take b (drop ((bufsz - bufrem st) mod bufsz) (mbuf st))) (take b data);
                 boff = (bufsz - bufrem st) mod bufsz + b;
                 boff = (if boff = bufsz then 0 else boff)
             in (out, drop b data, boff)
        else ([], data, (bufsz - bufrem st) mod bufsz))
     = (xor_bytes (drop (bufsz - bufrem st) (mbuf st)) (take (bufrem st) data), drop (bufrem st) data, 0)"
proof -
  have le: "bufrem st \<le> bufsz" and len: "length (mbuf st) = bufsz" using assms(1) by (simp_all add: good_def)
  have b: "min (bufrem st) (length data) = bufrem st" using data by simp
  consider "bufrem st = 0" | "bufrem st = bufsz" | "0 < bufrem st" "bufrem st < bufsz" using le by linarith
  then show ?thesis
  proof cases
    case 1
    then show ?thesis using len by (simp add: xor_bytes_def)
  next
    case 2
    then show ?thesis unfolding b Let_def using len bufsz by simp
  next
    case 3
    then have m: "(bufsz - bufrem st) mod bufsz = bufsz - bufrem st" by simp
    show ?thesis unfolding b Let_def m using 3 len by simp
  qed
qed

text \<open>What the calls of the generator contribute: whole blocks, then the front of one more.\<close>

lemma blocks_part:
  assumes ok: "ok s" and len: "length m = bufsz"
  obtains out m' where
    "(let (out2, data, mbuf, obj) = xor_blocks fill bufsz d m s;
          (out3, mbuf, obj, boff) =
            (if data \<noteq> []
             then let (mbuf, obj) = fill obj
                  in (xor_bytes (take (length data) mbuf) data, mbuf, obj, length data)
             else ([], mbuf, obj, 0))
      in (out2 @ out3, mbuf, obj, boff))
     = (out, m', fill_state fill ((length d + (bufsz - 1)) div bufsz) s, length d mod bufsz)"
    "length out = length d" "length m' = bufsz"
    "\<And>i. i < length d \<Longrightarrow> out ! i = block_byte fill bufsz s i XOR d ! i"
    "length d mod bufsz \<noteq> 0 \<Longrightarrow> m' = fst (fill (fill_state fill (length d div bufsz) s))"
proof -
  define k l where "k = length d div bufsz" and "l = length d mod bufsz"
  have d: "length d = bufsz * k + l" and l: "l < bufsz" using bufsz by (simp_all add: k_def l_def)
  obtain out2 m1 where blk: "xor_blocks fill bufsz d m s = (out2, drop (bufsz * k) d, m1, fill_state fill k s)"
    "length out2 = bufsz * k" "length m1 = bufsz"
    "\<And>i. i < length out2 \<Longrightarrow> out2 ! i = block_byte fill bufsz s i XOR d ! i"
    by (rule xor_blocks_stream[OF ok len, of d]) (rule that[unfolded k_def])
  define rest where "rest = drop (bufsz * k) d"
  have lrest: "length rest = l" using d by (simp add: rest_def)
  show thesis
  proof (cases "l = 0")
    case True
    then have "rest = []" using lrest by simp
    moreover have "(length d + (bufsz - 1)) div bufsz = k"
      unfolding round_up_div[OF bufsz] using True by (simp add: k_def l_def)
    ultimately show thesis
      using that[of out2 m1] blk True d unfolding rest_def[symmetric] l_def[symmetric] by simp
  next
    case False
    then have nonnil: "rest \<noteq> []" using lrest by auto
    obtain m2 s2 where f: "fill (fill_state fill k s) = (m2, s2)" by (cases "fill (fill_state fill k s)")
    have m2: "length m2 = bufsz" using length_fill[OF ok_fill_state[OF ok], of k] f by simp
    have s2: "s2 = fill_state fill ((length d + (bufsz - 1)) div bufsz) s"
      unfolding round_up_div[OF bufsz]
      using f fill_state_add[of fill 1 k s] False by (simp add: k_def l_def)
    define out3 where "out3 = xor_bytes (take l m2) rest"
    have o3: "length out3 = l" using m2 l lrest by (simp add: out3_def)
    have nth: "(out2 @ out3) ! i = block_byte fill bufsz s i XOR d ! i" if i: "i < length d" for i
    proof (cases "i < length out2")
      case True
      then show ?thesis using blk(4) by (simp add: nth_append)
    next
      case ge: False
      then obtain j where j: "i = bufsz * k + j" "j < l"
        using i blk(2) d le_Suc_ex[of "bufsz * k" i] by auto
      have "block_byte fill bufsz s i = m2 ! j"
        using j l f block_byte_later[OF bufsz, of fill s k j] by (simp add: block_byte_first)
      then show ?thesis
        using j blk(2) l m2 lrest d by (simp add: nth_append out3_def rest_def)
    qed
    have len: "length (out2 @ out3) = length d" using blk(2) o3 d by simp
    show thesis
      by (rule that[of "out2 @ out3" m2])
        (use blk(1) f s2 m2 nth nonnil lrest len in
          \<open>simp_all add: rest_def[symmetric] out3_def[symmetric] l_def[symmetric] k_def[symmetric]\<close>)
  qed
qed

lemma beyond_part:
  assumes good: "good st" and data: "bufrem st \<le> length data"
  obtains out1 out2 m' where
    "CopyAndXor fill bufsz data st = (out1 @ out2,
       \<lparr>mbuf = m', bufrem = (bufsz - (length data - bufrem st) mod bufsz) mod bufsz,
        obj = fill_state fill ((length data - bufrem st + (bufsz - 1)) div bufsz) (obj st)\<rparr>)"
    "length out1 = bufrem st" "length out2 = length data - bufrem st" "length m' = bufsz"
    "\<And>i. i < bufrem st \<Longrightarrow> out1 ! i = mbuf st ! (bufsz - bufrem st + i) XOR data ! i"
    "\<And>i. i < length data - bufrem st \<Longrightarrow>
       out2 ! i = block_byte fill bufsz (obj st) i XOR data ! (bufrem st + i)"
    "(length data - bufrem st) mod bufsz \<noteq> 0 \<Longrightarrow>
       m' = fst (fill (fill_state fill ((length data - bufrem st) div bufsz) (obj st)))"
proof -
  have le: "bufrem st \<le> bufsz" and lenm: "length (mbuf st) = bufsz" and ok: "ok (obj st)"
    using good by (simp_all add: good_def)
  let ?out1 = "xor_bytes (drop (bufsz - bufrem st) (mbuf st)) (take (bufrem st) data)"
  obtain out2 m' where out2: "(let (out2, data, mbuf, obj) = xor_blocks fill bufsz (drop (bufrem st) data) (mbuf st) (obj st);
          (out3, mbuf, obj, boff) =
            (if data \<noteq> []
             then let (mbuf, obj) = fill obj
                  in (xor_bytes (take (length data) mbuf) data, mbuf, obj, length data)
             else ([], mbuf, obj, 0))
      in (out2 @ out3, mbuf, obj, boff))
     = (out2, m', fill_state fill ((length (drop (bufrem st) data) + (bufsz - 1)) div bufsz) (obj st),
        length (drop (bufrem st) data) mod bufsz)"
    "length out2 = length (drop (bufrem st) data)" "length m' = bufsz"
    "\<And>i. i < length (drop (bufrem st) data) \<Longrightarrow>
       out2 ! i = block_byte fill bufsz (obj st) i XOR drop (bufrem st) data ! i"
    "length (drop (bufrem st) data) mod bufsz \<noteq> 0 \<Longrightarrow>
       m' = fst (fill (fill_state fill (length (drop (bufrem st) data) div bufsz) (obj st)))"
    by (rule blocks_part[OF ok lenm, of "drop (bufrem st) data"]) (rule that)
  have "CopyAndXor fill bufsz data st = (?out1 @ out2,
       \<lparr>mbuf = m', bufrem = (bufsz - length (drop (bufrem st) data) mod bufsz) mod bufsz,
        obj = fill_state fill ((length (drop (bufrem st) data) + (bufsz - 1)) div bufsz) (obj st)\<rparr>)"
  proof -
    obtain o2 d2 m2 s2 where blk: "xor_blocks fill bufsz (drop (bufrem st) data) (mbuf st) (obj st) = (o2, d2, m2, s2)"
      by (metis prod_cases4)
    obtain m3 s3 where f: "fill s2 = (m3, s3)" by fastforce
    show ?thesis
      using out2(1) unfolding CopyAndXor_def Let_def
      unfolding pending_all[OF good data, unfolded Let_def] blk
      by (cases "d2 = []") (auto simp: f blk)
  qed
  from this[unfolded length_drop] show thesis
    by (rule that[of ?out1 out2 m']) (use le lenm data out2 in simp_all)
qed

text \<open>
  The contract of \<^verbatim>\<open>CopyAndXor\<close>. The side condition is needed: with a completely
  full buffer an empty piece leaves \<open>bufrem = 0\<close>, which throws the buffer away.
\<close>

lemma CopyAndXor_stream:
  assumes good: "good st" and nonempty: "bufrem st = bufsz \<Longrightarrow> data \<noteq> []"
    and run: "CopyAndXor fill bufsz data st = (out, st')"
  shows "length out = length data"
    and "\<And>i. i < length data \<Longrightarrow> out ! i = keystream_byte fill bufsz st i XOR data ! i"
    and "good st'" and "bufrem st' < bufsz"
    and "\<And>i. keystream_byte fill bufsz st' i = keystream_byte fill bufsz st (length data + i)"
proof -
  have le: "bufrem st \<le> bufsz" and lenm: "length (mbuf st) = bufsz" and ok: "ok (obj st)"
    using good by (simp_all add: good_def)
  have "length out = length data \<and>
    (\<forall>i<length data. out ! i = keystream_byte fill bufsz st i XOR data ! i) \<and>
    good st' \<and> bufrem st' < bufsz \<and>
    (\<forall>i. keystream_byte fill bufsz st' i = keystream_byte fill bufsz st (length data + i))"
  proof (cases "length data < bufrem st")
    case True
    have st': "st' = st\<lparr>bufrem := bufrem st - length data\<rparr>"
      and out: "out = xor_bytes (take (length data) (drop (bufsz - bufrem st) (mbuf st))) data"
      using pending_part[OF good True nonempty] run by simp_all
    have "bufrem st' < bufsz"
      using True le nonempty st' by (cases "bufrem st = bufsz") auto
    moreover have "bufsz - (bufrem st - length data) + i = bufsz - bufrem st + (length data + i)" for i
      using True le by simp
    ultimately show ?thesis
      using True le lenm ok st' out by (auto simp: good_def keystream_byte_def add.commute)
  next
    case False
    then have ge: "bufrem st \<le> length data" by simp
    define n where "n = length data - bufrem st"
    define l where "l = n mod bufsz"
    have l: "l < bufsz" "n mod bufsz = l" using bufsz by (simp_all add: l_def)
    obtain out1 out2 m' where eq: "out = out1 @ out2"
      "st' = \<lparr>mbuf = m', bufrem = (bufsz - l) mod bufsz,
         obj = fill_state fill ((n + (bufsz - 1)) div bufsz) (obj st)\<rparr>"
      and len: "length out1 = bufrem st" "length out2 = n" "length m' = bufsz"
      and o1: "\<And>i. i < bufrem st \<Longrightarrow> out1 ! i = mbuf st ! (bufsz - bufrem st + i) XOR data ! i"
      and o2: "\<And>i. i < n \<Longrightarrow> out2 ! i = block_byte fill bufsz (obj st) i XOR data ! (bufrem st + i)"
      and m': "l \<noteq> 0 \<Longrightarrow> m' = fst (fill (fill_state fill (n div bufsz) (obj st)))"
      by (rule beyond_part[OF good ge, unfolded n_def[symmetric] l_def[symmetric]])
        (rule that, use run in auto)
    have data: "length data = bufrem st + n" using ge by (simp add: n_def)
    have out: "out ! i = keystream_byte fill bufsz st i XOR data ! i" if i: "i < length data" for i
    proof (cases "i < bufrem st")
      case True
      then show ?thesis using eq(1) len(1) o1 by (simp add: nth_append keystream_byte_def)
    next
      case ge: False
      then obtain j where j: "i = bufrem st + j" by (metis add_diff_inverse)
      then show ?thesis using eq(1) len(1) o2[of j] i data by (simp add: nth_append keystream_byte_def)
    qed
    have later: "keystream_byte fill bufsz st' i = block_byte fill bufsz (obj st) (n + i)" for i
    proof (cases "l = 0")
      case True
      then have "n = bufsz * (n div bufsz)" using l mult_div_mod_eq[of bufsz n] by simp
      moreover have "(n + (bufsz - 1)) div bufsz = n div bufsz"
        unfolding round_up_div[OF bufsz] using True l by simp
      ultimately show ?thesis
        using True eq(2) block_byte_later[OF bufsz, of fill "obj st" "n div bufsz" i]
        by (simp add: keystream_byte_def)
    next
      case False
      have n: "n = bufsz * (n div bufsz) + l" using l mult_div_mod_eq[of bufsz n] by simp
      have rem: "bufrem st' = bufsz - l" using False eq(2) l by simp
      have objs: "obj st' = fill_state fill (Suc (n div bufsz)) (obj st)"
        using eq(2) False l unfolding round_up_div[OF bufsz] by simp
      show ?thesis
      proof (cases "i < bufsz - l")
        case True
        then have "l + i < bufsz" by simp
        moreover have "n + i = bufsz * (n div bufsz) + (l + i)" using n by simp
        ultimately have "block_byte fill bufsz (obj st) (n + i) = m' ! (l + i)"
          using block_byte_later[OF bufsz, of fill "obj st" "n div bufsz" "l + i"] m'[OF False]
          by (simp only: block_byte_first)
        then show ?thesis using True rem eq(2) l by (simp add: keystream_byte_def)
      next
        case ge: False
        then obtain j where j: "i = (bufsz - l) + j" by (metis add_diff_inverse)
        have "bufsz * Suc (n div bufsz) + j = bufsz * (n div bufsz) + l + i" using j l by simp
        also have "\<dots> = n + i" using n by simp
        finally have "block_byte fill bufsz (obj st) (n + i) = block_byte fill bufsz (obj st') j"
          using block_byte_later[OF bufsz, of fill "obj st" "Suc (n div bufsz)" j] objs by (simp only:)
        then show ?thesis using j rem by (simp add: keystream_byte_def)
      qed
    qed
    have "good st'" using eq(2) len(3) ok_fill_state[OF ok] bufsz by (simp add: good_def less_imp_le)
    moreover have "bufrem st' < bufsz" using eq(2) bufsz by simp
    moreover have "keystream_byte fill bufsz st (length data + i) = block_byte fill bufsz (obj st) (n + i)" for i
      using data by (simp add: keystream_byte_def)
    ultimately show ?thesis using out later eq(1) len data by simp
  qed
  then show "length out = length data"
    and "\<And>i. i < length data \<Longrightarrow> out ! i = keystream_byte fill bufsz st i XOR data ! i"
    and "good st'" and "bufrem st' < bufsz"
    and "\<And>i. keystream_byte fill bufsz st' i = keystream_byte fill bufsz st (length data + i)"
    by auto
qed

text \<open>Its consequences: pieces do not matter, and the operation is its own inverse.\<close>

lemma CopyAndXor_append:
  assumes "good st" and "bufrem st = bufsz \<Longrightarrow> a \<noteq> []"
    and "CopyAndXor fill bufsz a st = (out1, st1)" "CopyAndXor fill bufsz b st1 = (out2, st2)"
    and "CopyAndXor fill bufsz (a @ b) st = (out, st')"
  shows "out = out1 @ out2"
    and "keystream_byte fill bufsz st' = keystream_byte fill bufsz st2"
proof -
  note A = CopyAndXor_stream[OF assms(1-3)]
  have nb: "bufrem st1 = bufsz \<Longrightarrow> b \<noteq> []" using A(4) by simp
  note B = CopyAndXor_stream[OF A(3) nb assms(4)]
  have nab: "bufrem st = bufsz \<Longrightarrow> a @ b \<noteq> []" using assms(2) by simp
  note AB = CopyAndXor_stream[OF assms(1) nab assms(5)]
  show "out = out1 @ out2"
  proof (rule nth_equalityI)
    show "length out = length (out1 @ out2)" using A(1) B(1) AB(1) by simp
    show "out ! i = (out1 @ out2) ! i" if "i < length out" for i
    proof (cases "i < length a")
      case True
      then show ?thesis using A(1,2) AB(1,2) that by (simp add: nth_append)
    next
      case False
      then obtain j where j: "i = length a + j" by (metis add_diff_inverse)
      then show ?thesis using A(1) B(1) B(2)[of j] A(5)[of j] AB(1,2) that by (simp add: nth_append)
    qed
  qed
  show "keystream_byte fill bufsz st' = keystream_byte fill bufsz st2"
    using A(5) B(5) AB(5) by (simp add: fun_eq_iff add.assoc)
qed

lemma CopyAndXor_twice:
  assumes "good st" and "bufrem st = bufsz \<Longrightarrow> data \<noteq> []"
    and "CopyAndXor fill bufsz data st = (out, st1)" "CopyAndXor fill bufsz out st = (data', st2)"
  shows "data' = data" and "keystream_byte fill bufsz st2 = keystream_byte fill bufsz st1"
proof -
  note A = CopyAndXor_stream[OF assms(1-3)]
  have no: "bufrem st = bufsz \<Longrightarrow> out \<noteq> []" using A(1) assms(2) by auto
  note B = CopyAndXor_stream[OF assms(1) no assms(4)]
  show "data' = data" using A(1,2) B(1,2) by (intro nth_equalityI) (simp_all flip: xor.assoc)
  show "keystream_byte fill bufsz st2 = keystream_byte fill bufsz st1"
    using A(1,5) B(5) by (simp add: fun_eq_iff)
qed

end

text \<open>The aligned variant, on whole blocks, gives the generator's blocks and nothing pending.\<close>

lemma CopyAndXorAligned_fold:
  "fold (\<lambda>inp (out, mbuf, obj). let (mbuf, obj) = fillA obj in (out @ xor_bytes inp mbuf, mbuf, obj))
     bs (out, m, s)
   = (out @ concat (map (\<lambda>k. xor_bytes (bs ! k) (fst (fillA (fill_state fillA k s)))) [0..<length bs]),
      (if bs = [] then m else fst (fillA (fill_state fillA (length bs - 1) s))),
      fill_state fillA (length bs) s)"
proof (induction bs arbitrary: out m s)
  case (Cons b bs)
  obtain m1 s1 where f: "fillA s = (m1, s1)" by fastforce
  have "[0..<length (b # bs)] = 0 # map Suc [0..<length bs]"
    by (simp add: map_Suc_upt upt_conv_Cons del: upt_Suc)
  moreover have "bs \<noteq> [] \<Longrightarrow> fill_state fillA (length bs - Suc 0) s1 = fill_state fillA (length bs) s"
    using f by (cases bs) simp_all
  ultimately show ?case using f Cons by (simp add: o_def)
qed simp

lemma CopyAndXorAligned_blocks:
  "CopyAndXorAligned fillA bufsz data (m, s) =
     (let bs = chunks bufsz data in
      (concat (map (\<lambda>k. xor_bytes (bs ! k) (fst (fillA (fill_state fillA k s)))) [0..<length bs]),
       (if bs = [] then m else fst (fillA (fill_state fillA (length bs - 1) s))),
       fill_state fillA (length bs) s))"
  using CopyAndXorAligned_fold[of fillA "chunks bufsz data" "[]" m s]
  by (simp add: CopyAndXorAligned_def Let_def)

context keystream
begin

lemma fill_state_agree:
  assumes "ok s" and agree: "\<And>s. ok s \<Longrightarrow> fillA s = fill s"
  shows "fill_state fillA n s = fill_state fill n s"
  using assms(1) by (induction n arbitrary: s) (simp_all add: agree ok_fill)

lemma CopyAndXorAligned_stream:
  assumes ok: "ok s" and agree: "\<And>s. ok s \<Longrightarrow> fillA s = fill s" and dvd: "bufsz dvd length data"
  shows "fst (CopyAndXorAligned fillA bufsz data (m, s))
     = map (\<lambda>i. data ! i XOR block_byte fill bufsz s i) [0..<length data]"
proof -
  let ?bs = "chunks bufsz data"
  define outs where "outs = map (\<lambda>k. xor_bytes (?bs ! k) (fst (fillA (fill_state fillA k s)))) [0..<length ?bs]"
  have n: "bufsz * length ?bs = length data" using dvd bufsz by (simp add: length_chunks)
  have fills: "fst (fillA (fill_state fillA k s)) = fst (fill (fill_state fill k s))" for k
    using fill_state_agree[OF ok agree, of k] agree[OF ok_fill_state[OF ok]] by simp
  have lens: "length (?bs ! k) = bufsz" "length (fst (fill (fill_state fill k s))) = bufsz"
    if "k < length ?bs" for k
    using that chunks_sizes[of "?bs ! k" bufsz data] length_fill[OF ok_fill_state[OF ok]] by simp_all
  have sizes: "\<forall>b\<in>set outs. length b = bufsz"
    using lens by (auto simp: outs_def fills)
  have total: "length (concat outs) = length data"
    using length_concat_blocks[OF sizes] n by (simp add: outs_def)
  have "concat outs ! i = data ! i XOR block_byte fill bufsz s i" if i: "i < length data" for i
  proof -
    have k: "i div bufsz < length ?bs" and r: "i mod bufsz < bufsz"
      using i n bufsz by (simp_all add: less_mult_imp_div_less mult.commute)
    have "concat outs ! i = outs ! (i div bufsz) ! (i mod bufsz)"
      using sizes i n by (intro nth_concat_blocks) (simp_all add: outs_def)
    also have "\<dots> = ?bs ! (i div bufsz) ! (i mod bufsz) XOR block_byte fill bufsz s i"
      using k r lens[OF k] by (simp add: outs_def fills block_byte_def)
    also have "?bs ! (i div bufsz) ! (i mod bufsz) = data ! i"
    proof -
      have "i div bufsz < length data div bufsz" using k bufsz by (simp add: length_chunks)
      moreover have "bufsz * (i div bufsz) \<le> length data"
        using i mult_div_mod_eq[of bufsz i] by linarith
      ultimately show ?thesis using r by (simp add: nth_chunks)
    qed
    finally show ?thesis .
  qed
  then show ?thesis
    using total unfolding CopyAndXorAligned_blocks Let_def outs_def[symmetric]
    by (intro nth_equalityI) simp_all
qed

end

section \<open>Ciphers\<close>

text \<open>
  A cipher object holds a generator, its buffer and the number of bytes pending in it
  (\<open>xs\<close> reads them), and its encryption is one call of \<^verbatim>\<open>CopyAndXor\<close> on them, or code that
  amounts to one; \<open>alloc\<close> is what else a context needs.
\<close>

locale stream_cipher = keystream +
  fixes enc :: "byte list \<Rightarrow> 'c \<Rightarrow> byte list \<times> 'c"
    and xs :: "'c \<Rightarrow> 'a xor_state"
    and alloc :: "'c \<Rightarrow> bool"
    and ready :: "'c \<Rightarrow> bool"
  assumes enc_out: "ready c \<Longrightarrow> fst (enc data c) = fst (CopyAndXor fill bufsz data (xs c))"
    and enc_state: "ready c \<Longrightarrow> xs (snd (enc data c)) = snd (CopyAndXor fill bufsz data (xs c))"
    and enc_alloc: "ready c \<Longrightarrow> alloc (snd (enc data c))"
    and ready: "ready c \<longleftrightarrow> alloc c \<and> ok (obj (xs c)) \<and> length (mbuf (xs c)) = bufsz \<and> bufrem (xs c) < bufsz"
begin

lemma ready_good: "ready c \<Longrightarrow> good (xs c)"
  by (simp add: ready good_def)

lemma ready_bufrem: "ready c \<Longrightarrow> bufrem (xs c) = bufsz \<Longrightarrow> data \<noteq> []"
  by (simp add: ready)

lemma Encrypt_ready:
  assumes "ready c"
  shows "ready (snd (enc data c))"
  using CopyAndXor_stream(3,4)[OF ready_good ready_bufrem surjective_pairing, OF assms assms]
  by (simp add: ready[of "snd (enc data c)"] enc_state[OF assms] enc_alloc[OF assms] good_def)

lemma Encrypt_stream:
  assumes "ready c"
  shows "fst (enc data c) = map (\<lambda>i. keystream_byte fill bufsz (xs c) i XOR data ! i) [0..<length data]"
  using CopyAndXor_stream(1,2)[OF ready_good ready_bufrem surjective_pairing, OF assms assms]
  by (intro nth_equalityI) (simp_all add: enc_out[OF assms])

lemma Encrypt_append:
  assumes "ready c"
  shows "fst (enc (a @ b) c) = fst (enc a c) @ fst (enc b (snd (enc a c)))"
  using CopyAndXor_append(1)[OF ready_good ready_bufrem surjective_pairing surjective_pairing
      surjective_pairing, OF assms assms]
  by (simp add: enc_out[OF assms] enc_out[OF Encrypt_ready[OF assms]] enc_state[OF assms])

lemma Encrypt_twice:
  assumes "ready c"
  shows "fst (enc (fst (enc data c)) c) = data"
  using CopyAndXor_twice(1)[OF ready_good ready_bufrem surjective_pairing surjective_pairing, OF assms assms]
  by (simp add: enc_out[OF assms])

text \<open>The aligned operation starts with a new block, whatever is pending.\<close>

lemma Aligned_Encrypt:
  assumes "ready c" "bufrem (xs c) = 0" "\<And>s. ok s \<Longrightarrow> fillA s = fill s" "bufsz dvd length data"
  shows "fst (CopyAndXorAligned fillA bufsz data (mbuf (xs c), obj (xs c))) = fst (enc data c)"
proof -
  have "ok (obj (xs c))" using assms(1) by (simp add: ready)
  from CopyAndXorAligned_stream[OF this assms(3,4)] show ?thesis
    unfolding Encrypt_stream[OF assms(1)] using assms(2) by (simp add: keystream_byte_def xor.commute)
qed

end

end
