(* ===== verification/RC4.thy ===== *)
theory RC4
  imports Keystream "HOL-Library.Multiset"
begin

text \<open>
  \<^verbatim>\<open>impl/stream/rc4\<close>: the generator \<^verbatim>\<open>RC4Keystream<unsigned>\<close>, whose permutation
  and indices are 32-bit words of which only the low bytes are used as indices, and the cipher
  \<^verbatim>\<open>RC4\<close>, which fills its buffer with \<^verbatim>\<open>GetValue\<close> when it is keyed and with
  \<^verbatim>\<open>FillBuffer\<close> afterwards. The lemmas relate it to the textbook algorithm on bytes.
\<close>

section \<open>The generator\<close>

record rc4_ks =
  ks_s :: "u32 list"
  ks_i :: u32
  ks_j :: u32

definition swap :: "nat \<Rightarrow> nat \<Rightarrow> 'a list \<Rightarrow> 'a list" where
  "swap a b xs = xs[a := xs ! b, b := xs ! a]"

definition u8 :: "u32 \<Rightarrow> nat" where
  "u8 x = unat (ucast x :: byte)"

definition RC4Keystream_Reset :: "rc4_ks \<Rightarrow> rc4_ks" where
  "RC4Keystream_Reset k = k\<lparr>ks_s := map of_nat [0..<256], ks_i := 0, ks_j := 0\<rparr>"

text \<open>The loop's \<^verbatim>\<open>j\<close> is a local variable; the members \<^verbatim>\<open>i\<close> and \<^verbatim>\<open>j\<close> stay 0.\<close>

text \<open>\<^verbatim>\<open>key\<close> is what is readable at the pointer: a length of 0 is a division by zero, and a
  longer one than that reads past it, both \<open>None\<close>.\<close>

definition RC4Keystream_SetKey :: "byte list \<Rightarrow> nat \<Rightarrow> rc4_ks \<Rightarrow> rc4_ks option" where
  "RC4Keystream_SetKey key sz k =
     (if sz = 0 \<or> length key < min sz 256 then None
      else let k = RC4Keystream_Reset k;
               (s, j) = fold (\<lambda>i (s, j). let j = j + (s ! i + ucast (key ! (i mod sz))) in (swap i (u8 j) s, j))
                          [0..<256] (ks_s k, 0)
           in Some (k\<lparr>ks_s := s\<rparr>))"

definition RC4Keystream_GetValue :: "rc4_ks \<Rightarrow> u32 \<times> rc4_ks" where
  "RC4Keystream_GetValue k =
     (let i = ks_i k + 1;
          j = ks_j k + ks_s k ! u8 i;
          s = swap (u8 i) (u8 j) (ks_s k)
      in (s ! u8 (s ! u8 i + s ! u8 j), k\<lparr>ks_s := s, ks_i := i, ks_j := j\<rparr>))"

definition RC4Keystream_FillBuffer :: "rc4_ks \<Rightarrow> byte list \<times> rc4_ks" where
  "RC4Keystream_FillBuffer k =
     fold (\<lambda>i (buf, k).
        let j = ks_j k + ks_s k ! i;
            s = swap i (u8 j) (ks_s k)
        in (buf @ [ucast (s ! u8 (s ! i + s ! u8 j))], k\<lparr>ks_s := s, ks_j := j\<rparr>)) [0..<256] ([], k)"

definition RC4Keystream_FillBufferAligned :: "rc4_ks \<Rightarrow> byte list \<times> rc4_ks" where
  "RC4Keystream_FillBufferAligned k = RC4Keystream_FillBuffer k"

section \<open>The cipher\<close>

record rc4 =
  rc_ks :: rc4_ks
  rc_drop :: nat
  rc_key :: "byte list"
  rc_buf :: "byte list"
  rc_nbytes :: nat
  rc_sz :: nat

definition RC4_Reset :: "rc4 \<Rightarrow> rc4 option" where
  "RC4_Reset c =
     (case RC4Keystream_SetKey (rc_key c) (rc_sz c) (RC4Keystream_Reset (rc_ks c)) of None \<Rightarrow> None
      | Some ks \<Rightarrow>
        let ks = fold (\<lambda>_ ks. snd (RC4Keystream_GetValue ks)) [0..<rc_drop c] ks;
            (buf, n, ks) = fold (\<lambda>i (buf, n, ks).
                let (v, ks) = RC4Keystream_GetValue ks in (buf[i := ucast v], n + 1, ks))
              [rc_drop c AND 0xff..<256] (rc_buf c, 0, ks)
        in Some (c\<lparr>rc_ks := ks, rc_buf := buf, rc_nbytes := n\<rparr>))"

text \<open>A key that does not fit the 256 bytes of \<^verbatim>\<open>m_key\<close> is \<open>None\<close>.\<close>

definition RC4_SetKey :: "byte list \<Rightarrow> rc4 \<Rightarrow> rc4 option" where
  "RC4_SetKey key c =
     (if length (rc_key c) < length key then None
      else RC4_Reset (c\<lparr>rc_key := put_bytes 0 key (rc_key c), rc_sz := length key\<rparr>))"

definition RC4_SetNonce :: "byte list \<Rightarrow> rc4 \<Rightarrow> rc4" where
  "RC4_SetNonce iv c = c"

definition RC4_GetKeySize :: "rc4 \<Rightarrow> nat" where
  "RC4_GetKeySize c = rc_sz c"

definition RC4_Encrypt :: "byte list \<Rightarrow> rc4 \<Rightarrow> byte list \<times> rc4" where
  "RC4_Encrypt data c =
     (let (out, st) = CopyAndXor RC4Keystream_FillBuffer 256 data
            \<lparr>mbuf = rc_buf c, bufrem = rc_nbytes c, obj = rc_ks c\<rparr>
      in (out, c\<lparr>rc_buf := mbuf st, rc_nbytes := bufrem st, rc_ks := obj st\<rparr>))"

definition RC4_Decrypt :: "byte list \<Rightarrow> rc4 \<Rightarrow> byte list \<times> rc4" where
  "RC4_Decrypt data c = RC4_Encrypt data c"

definition RC4_EncryptFast :: "byte list \<Rightarrow> rc4 \<Rightarrow> byte list \<times> rc4" where
  "RC4_EncryptFast data c =
     (let (out, buf, ks) = CopyAndXorAligned RC4Keystream_FillBufferAligned 256 data (rc_buf c, rc_ks c)
      in (out, c\<lparr>rc_buf := buf, rc_ks := ks\<rparr>))"

definition RC4_DecryptFast :: "byte list \<Rightarrow> rc4 \<Rightarrow> byte list \<times> rc4" where
  "RC4_DecryptFast data c = RC4_EncryptFast data c"

section \<open>The permutation\<close>

definition rc4_perm :: "rc4_ks \<Rightarrow> bool" where
  "rc4_perm k \<longleftrightarrow> mset (ks_s k) = mset (map of_nat [0..<256])"

lemma rc4_perm_length: "rc4_perm k \<Longrightarrow> length (ks_s k) = 256"
  unfolding rc4_perm_def by (drule mset_eq_length) simp

lemma u8_less [simp]: "u8 x < 256"
  by (simp add: u8_def)

lemma length_swap [simp]: "length (swap a b xs) = length xs"
  by (simp add: swap_def)

lemma mset_swap_eq: "a < length xs \<Longrightarrow> b < length xs \<Longrightarrow> mset (swap a b xs) = mset xs"
  using mset_swap[of b xs a] by (simp add: swap_def)

lemma GetValue_perm: "rc4_perm k \<Longrightarrow> rc4_perm (snd (RC4Keystream_GetValue k))"
  using rc4_perm_length[of k] by (simp add: rc4_perm_def RC4Keystream_GetValue_def Let_def mset_swap_eq)

lemma Reset_perm: "rc4_perm (RC4Keystream_Reset k)"
  by (simp add: rc4_perm_def RC4Keystream_Reset_def)

lemma SetKey_perm: "RC4Keystream_SetKey key sz k = Some k' \<Longrightarrow> rc4_perm k'"
proof -
  assume k': "RC4Keystream_SetKey key sz k = Some k'"
  let ?f = "\<lambda>i (s, j). let j = j + (s ! i + ucast (key ! (i mod sz))) in (swap i (u8 j) s, j)"
  let ?P = "\<lambda>(s :: u32 list, j :: u32). mset s = mset (map of_nat [0..<256])"
  have len: "mset (s :: u32 list) = mset (map of_nat [0..<256]) \<Longrightarrow> length s = 256" for s
    by (drule mset_eq_length) simp
  have "?P (fold ?f [0..<256] (ks_s (RC4Keystream_Reset k), 0))"
  proof (rule fold_keeps[where P = ?P])
    fix i s assume "i \<in> set [0..<256]" "?P s"
    moreover obtain x j where "s = (x, j)" by fastforce
    ultimately show "?P (?f i s)" using len[of x] by (simp add: Let_def mset_swap_eq)
  qed (simp add: RC4Keystream_Reset_def)
  then show ?thesis
    using k' by (auto simp: RC4Keystream_SetKey_def Let_def rc4_perm_def split: prod.splits if_splits)
qed

text \<open>One step of \<^verbatim>\<open>FillBuffer\<close> is \<^verbatim>\<open>GetValue\<close> at a given index.\<close>

primrec rc4_values :: "nat \<Rightarrow> rc4_ks \<Rightarrow> byte list \<times> rc4_ks" where
  "rc4_values 0 k = ([], k)"
| "rc4_values (Suc n) k =
     (let (bs, k) = rc4_values n k; (v, k) = RC4Keystream_GetValue k in (bs @ [ucast v], k))"

lemma rc4_values_perm: "rc4_perm k \<Longrightarrow> rc4_perm (snd (rc4_values n k))"
proof (induction n)
  case (Suc n)
  then show ?case using GetValue_perm[of "snd (rc4_values n k)"]
    by (simp add: split_beta Let_def)
qed simp

lemma length_rc4_values [simp]: "length (fst (rc4_values n k)) = n"
  by (induction n) (simp_all add: split_beta Let_def)

lemma rc4_values_i: "ks_i (snd (rc4_values n k)) = ks_i k + of_nat n"
  by (induction n) (simp_all add: split_beta Let_def RC4Keystream_GetValue_def)

lemma u8_mod: "u8 x = unat x mod 256"
  by (simp add: u8_def unsigned_ucast_eq take_bit_eq_mod)

lemma u8_index:
  assumes "n < 256"
  shows "u8 (255 + of_nat n + 1) = n"
proof -
  have "(255 + of_nat n + 1 :: u32) = of_nat (256 + n)" by simp
  moreover have "unat (of_nat (256 + n) :: u32) = 256 + n"
    using assms by (simp add: unat_of_nat del: of_nat_add)
  ultimately show ?thesis using assms by (simp only: u8_mod) simp
qed

lemma FillBuffer_values:
  "RC4Keystream_FillBuffer k =
     (let (bs, k') = rc4_values 256 (k\<lparr>ks_i := 255\<rparr>) in (bs, k'\<lparr>ks_i := ks_i k\<rparr>))"
proof -
  let ?f = "\<lambda>i (buf, k).
        let j = ks_j k + ks_s k ! i;
            s = swap i (u8 j) (ks_s k)
        in (buf @ [ucast (s ! u8 (s ! i + s ! u8 j))], k\<lparr>ks_s := s, ks_j := j\<rparr>)"
  have "n \<le> 256 \<Longrightarrow> fold ?f [0..<n] ([], k)
      = (let (bs, k') = rc4_values n (k\<lparr>ks_i := 255\<rparr>) in (bs, k'\<lparr>ks_i := ks_i k\<rparr>))" for n
  proof (induction n)
    case (Suc n)
    obtain bs k' where v: "rc4_values n (k\<lparr>ks_i := 255\<rparr>) = (bs, k')" by fastforce
    have i: "ks_i k' = 255 + of_nat n" using rc4_values_i[of n "k\<lparr>ks_i := 255\<rparr>"] v by simp
    have "u8 (ks_i k' + 1) = n" unfolding i using Suc.prems by (intro u8_index) simp
    then show ?case using Suc v by (simp add: RC4Keystream_GetValue_def Let_def)
  qed simp
  from this[of 256] show ?thesis unfolding RC4Keystream_FillBuffer_def by simp
qed

section \<open>The textbook algorithm\<close>

text \<open>Key scheduling and generation on bytes, with every index a byte.\<close>

definition ksa :: "byte list \<Rightarrow> byte list" where
  "ksa key = fst (fold (\<lambda>i (S, j). let j = j + S ! i + key ! (i mod length key) in (swap i (unat j) S, j))
     [0..<256] (map of_nat [0..<256], 0))"

definition prga :: "byte list \<times> byte \<times> byte \<Rightarrow> byte \<times> byte list \<times> byte \<times> byte" where
  "prga = (\<lambda>(S, i, j). let i = i + 1; j = j + S ! unat i; S = swap (unat i) (unat j) S
     in (S ! unat (S ! unat i + S ! unat j), S, i, j))"

primrec prga_bytes :: "nat \<Rightarrow> byte list \<times> byte \<times> byte \<Rightarrow> byte list \<times> byte list \<times> byte \<times> byte" where
  "prga_bytes 0 p = ([], p)"
| "prga_bytes (Suc n) p = (let (bs, p) = prga_bytes n p; (b, p) = prga p in (bs @ [b], p))"

definition rc4_stream :: "byte list \<Rightarrow> nat \<Rightarrow> byte list" where
  "rc4_stream key n = fst (prga_bytes n (ksa key, 0, 0))"

definition rc4_abs :: "rc4_ks \<Rightarrow> byte list \<times> byte \<times> byte \<Rightarrow> bool" where
  "rc4_abs k = (\<lambda>(S, i, j). ks_s k = map ucast S \<and> length S = 256 \<and> ucast (ks_i k) = i \<and> ucast (ks_j k) = j)"

lemma map_swap: "a < length xs \<Longrightarrow> b < length xs \<Longrightarrow> map f (swap a b xs) = swap a b (map f xs)"
  by (simp add: swap_def map_update)

lemma low_byte_add: "ucast (x + y :: u32) = (ucast x + ucast y :: byte)"
proof -
  have m: "unat (ucast z :: byte) = unat z mod 256" for z :: u32
    by (simp add: unsigned_ucast_eq take_bit_eq_mod)
  have "unat (x + y) mod 256 = (unat x + unat y) mod 256"
    by (simp add: unat_word_ariths mod_mod_cancel)
  then show ?thesis
    unfolding word_unat_eq_iff unat_word_ariths m by (simp add: mod_add_eq)
qed

lemma low_byte_up [simp]: "ucast (ucast (x :: byte) :: u32) = (x :: byte)"
  by (rule bit_word_eqI) (simp add: bit_simps)

lemma GetValue_prga:
  assumes "rc4_abs k p"
  shows "rc4_abs (snd (RC4Keystream_GetValue k)) (snd (prga p))"
    and "ucast (fst (RC4Keystream_GetValue k)) = fst (prga p)"
proof -
  obtain S i j where p: "p = (S, i, j)" by (cases p)
  have k: "ks_s k = map ucast S" "length S = 256" "ucast (ks_i k) = i" "ucast (ks_j k) = j"
    using assms by (simp_all add: rc4_abs_def p)
  define i' j' S' where "i' = i + 1" and "j' = j + S ! unat i'" and "S' = swap (unat i') (unat j') S"
  have i': "u8 (ks_i k + 1) = unat i'" and ui: "ucast (ks_i k + 1) = i'"
    by (simp_all add: u8_def low_byte_add k(3) i'_def)
  have uj: "ucast (ks_j k + ks_s k ! unat i') = j'"
    using k byte_index[of i'] by (simp add: low_byte_add j'_def)
  have s': "swap (unat i') (unat j') (ks_s k) = map ucast S'"
    using k by (simp add: map_swap S'_def)
  have lS: "length S' = 256" using k by (simp add: S'_def)
  have get: "RC4Keystream_GetValue k
      = (map ucast S' ! u8 (map ucast S' ! unat i' + map ucast S' ! unat j'),
         k\<lparr>ks_s := map ucast S', ks_i := ks_i k + 1, ks_j := ks_j k + ks_s k ! unat i'\<rparr>)"
    unfolding RC4Keystream_GetValue_def Let_def i' u8_def[of "ks_j k + ks_s k ! unat i'"] uj s' ..
  have pr: "prga p = (S' ! unat (S' ! unat i' + S' ! unat j'), S', i', j')"
    by (simp add: prga_def p Let_def i'_def j'_def S'_def)
  show "rc4_abs (snd (RC4Keystream_GetValue k)) (snd (prga p))"
    unfolding get pr using lS ui uj by (simp add: rc4_abs_def)
  have "u8 (map ucast S' ! unat i' + map ucast S' ! unat j') = unat (S' ! unat i' + S' ! unat j')"
    using lS by (simp add: u8_def low_byte_add)
  then show "ucast (fst (RC4Keystream_GetValue k)) = fst (prga p)"
    unfolding get pr using lS by simp
qed

lemma values_prga:
  assumes "rc4_abs k p"
  shows "fst (rc4_values n k) = fst (prga_bytes n p)"
    and "rc4_abs (snd (rc4_values n k)) (snd (prga_bytes n p))"
proof -
  have "fst (rc4_values n k) = fst (prga_bytes n p) \<and> rc4_abs (snd (rc4_values n k)) (snd (prga_bytes n p))"
  proof (induction n)
    case 0
    then show ?case using assms by simp
  next
    case (Suc n)
    then show ?case
      using GetValue_prga[of "snd (rc4_values n k)" "snd (prga_bytes n p)"]
      by (simp add: split_beta Let_def)
  qed
  then show "fst (rc4_values n k) = fst (prga_bytes n p)"
    and "rc4_abs (snd (rc4_values n k)) (snd (prga_bytes n p))" by simp_all
qed

lemma SetKey_ksa:
  assumes "take sz keybuf = key" "length key = sz" "0 < sz"
  shows "\<exists>k'. RC4Keystream_SetKey keybuf sz k = Some k' \<and> rc4_abs k' (ksa key, 0, 0)"
proof -
  let ?f = "\<lambda>i (s :: u32 list, j). let j = j + (s ! i + ucast (keybuf ! (i mod sz))) in (swap i (u8 j) s, j)"
  let ?g = "\<lambda>i (S :: byte list, j). let j = j + S ! i + key ! (i mod length key) in (swap i (unat j) S, j)"
  let ?init = "map of_nat [0..<256]"
  have key: "keybuf ! (i mod sz) = key ! (i mod length key)" for i
    using assms by (metis mod_less_divisor nth_take)
  have init: "(?init :: u32 list) = map ucast (?init :: byte list)"
  proof (rule nth_equalityI)
    fix i assume "i < length (?init :: u32 list)"
    then have i: "i < 256" by simp
    have "unat (of_nat i :: u32) = unat (ucast (of_nat i :: byte) :: u32)"
      using i by (simp add: unat_of_nat unsigned_ucast_eq take_bit_eq_mod)
    then show "(?init :: u32 list) ! i = map ucast (?init :: byte list) ! i"
      using i by (simp add: word_unat_eq_iff)
  qed simp
  have "n \<le> 256 \<Longrightarrow> \<exists>S J. fold ?f [0..<n] (?init, 0) = (map ucast S, J) \<and> length S = 256 \<and>
      fold ?g [0..<n] (?init, 0) = (S, ucast J)" for n
  proof (induction n)
    case 0
    show ?case using init by (intro exI[of _ ?init] exI[of _ 0]) simp
  next
    case (Suc n)
    then obtain S J where IH: "fold ?f [0..<n] (?init, 0) = (map ucast S, J)" "length S = 256"
      "fold ?g [0..<n] (?init, 0) = (S, ucast J)" by auto
    have n: "n < 256" using Suc.prems by simp
    let ?J = "J + (map ucast S ! n + ucast (keybuf ! (n mod sz)))"
    have J: "ucast ?J = ucast J + S ! n + key ! (n mod length key)"
      using n IH(2) key[of n] by (simp add: low_byte_add add.assoc)
    have "fold ?f [0..<Suc n] (?init, 0) = (map ucast (swap n (u8 ?J) S), ?J)"
      using IH(1,2) n by (simp add: Let_def map_swap)
    moreover have "fold ?g [0..<Suc n] (?init, 0) = (swap n (u8 ?J) S, ucast ?J)"
      using IH(3) J by (simp add: Let_def u8_def)
    ultimately show ?case using IH(2) by (intro exI[of _ "swap n (u8 ?J) S"] exI[of _ ?J]) simp
  qed
  from this[of 256] obtain S J where "fold ?f [0..<256] (?init, 0) = (map ucast S, J)" "length S = 256"
    "fold ?g [0..<256] (?init, 0) = (S, ucast J)" by auto
  moreover have "\<not> (sz = 0 \<or> length keybuf < min sz 256)" using assms by auto
  ultimately show ?thesis
    unfolding RC4Keystream_SetKey_def RC4Keystream_Reset_def Let_def[of "k\<lparr>ks_s := ?init, ks_i := 0, ks_j := 0\<rparr>"]
    by (simp add: rc4_abs_def ksa_def)
qed

section \<open>The cipher\<close>

lemma FillBuffer_perm: "rc4_perm k \<Longrightarrow> rc4_perm (snd (RC4Keystream_FillBuffer k))"
  using rc4_values_perm[of "k\<lparr>ks_i := 255\<rparr>" 256]
  by (simp add: FillBuffer_values rc4_perm_def split_beta Let_def)

interpretation rc4: keystream RC4Keystream_FillBuffer 256 rc4_perm
  by unfold_locales (simp_all add: FillBuffer_perm, simp add: FillBuffer_values split_beta Let_def)

lemma rc4_values_add:
  "rc4_values (m + n) k = (let (a, k) = rc4_values m k; (b, k) = rc4_values n k in (a @ b, k))"
  by (induction n) (simp_all add: split_beta Let_def)

lemma drop_loop: "fold (\<lambda>_ ks. snd (RC4Keystream_GetValue ks)) [0..<d] k = snd (rc4_values d k)"
  by (induction d) (simp_all add: split_beta Let_def)

lemma buffer_loop:
  "a + n \<le> length buf \<Longrightarrow>
   fold (\<lambda>i (buf, m, ks). let (v, ks) = RC4Keystream_GetValue ks in (buf[i := ucast v], m + 1, ks))
     [a..<a + n] (buf, m, k)
   = (put_bytes a (fst (rc4_values n k)) buf, m + n, snd (rc4_values n k))"
proof (induction n)
  case (Suc n)
  obtain bs k1 where v: "rc4_values n k = (bs, k1)" by fastforce
  then have "length bs = n" using length_rc4_values[of n k] by simp
  then have "(put_bytes a bs buf)[a + n := x] = put_bytes a (bs @ [x]) buf" for x
    using Suc.prems
    by (simp add: put_bytes_def list_update_append Cons_nth_drop_Suc[symmetric] flip: append_assoc)
  then show ?case using Suc v by (simp add: split_beta Let_def)
qed simp

definition rc4_xor_state :: "rc4 \<Rightarrow> rc4_ks xor_state" where
  "rc4_xor_state c = \<lparr>mbuf = rc_buf c, bufrem = rc_nbytes c, obj = rc_ks c\<rparr>"

text \<open>A context whose arrays have their declared sizes, and one that has been keyed.\<close>

definition rc4_alloc :: "rc4 \<Rightarrow> bool" where
  "rc4_alloc c \<longleftrightarrow> length (rc_key c) = 256 \<and> length (rc_buf c) = 256"

definition rc4_keyed :: "rc4 \<Rightarrow> bool" where
  "rc4_keyed c \<longleftrightarrow> rc4_perm (rc_ks c) \<and> length (rc_buf c) = 256 \<and> rc_nbytes c \<le> 256"

lemma rc4_keyed_good: "rc4_keyed c \<longleftrightarrow> rc4.good (rc4_xor_state c)"
  by (simp add: rc4_keyed_def rc4.good_def rc4_xor_state_def)

lemma nat_and_255: "n AND 255 = n mod (256 :: nat)"
  using take_bit_eq_mask[of 8 n] by (simp add: take_bit_eq_mod mask_eq_exp_minus_1)

lemma RC4_SetKey_state:
  assumes "rc4_alloc c" "key \<noteq> []" "length key \<le> 256"
  defines "k \<equiv> the (RC4Keystream_SetKey (put_bytes 0 key (rc_key c)) (length key) (RC4Keystream_Reset (rc_ks c)))"
  defines "d \<equiv> rc_drop c" and "n \<equiv> 256 - rc_drop c mod 256"
  shows "RC4_SetKey key c = Some (c\<lparr>rc_key := put_bytes 0 key (rc_key c), rc_sz := length key,
      rc_buf := put_bytes (d mod 256) (fst (rc4_values n (snd (rc4_values d k)))) (rc_buf c),
      rc_nbytes := n, rc_ks := snd (rc4_values (d + n) k)\<rparr>)"
    and "rc4_abs k (ksa key, 0, 0)" "rc4_perm k"
proof -
  have "take (length key) (put_bytes 0 key (rc_key c)) = key" by (simp add: put_bytes_def)
  then have "\<exists>k'. RC4Keystream_SetKey (put_bytes 0 key (rc_key c)) (length key) (RC4Keystream_Reset (rc_ks c)) = Some k' \<and>
      rc4_abs k' (ksa key, 0, 0)"
    using assms(2) by (intro SetKey_ksa) simp_all
  then have k: "RC4Keystream_SetKey (put_bytes 0 key (rc_key c)) (length key) (RC4Keystream_Reset (rc_ks c)) = Some k"
    and abs: "rc4_abs k (ksa key, 0, 0)" by (auto simp: k_def)
  show "rc4_abs k (ksa key, 0, 0)" by (rule abs)
  show "rc4_perm k" by (rule SetKey_perm[OF k])
  have "d mod 256 + n = 256" by (simp add: d_def n_def)
  then show "RC4_SetKey key c = Some (c\<lparr>rc_key := put_bytes 0 key (rc_key c), rc_sz := length key,
      rc_buf := put_bytes (d mod 256) (fst (rc4_values n (snd (rc4_values d k)))) (rc_buf c),
      rc_nbytes := n, rc_ks := snd (rc4_values (d + n) k)\<rparr>)"
    using assms(1,3) buffer_loop[of "d mod 256" n "rc_buf c" 0 "snd (rc4_values d k)"]
    by (simp add: RC4_SetKey_def RC4_Reset_def k drop_loop nat_and_255 d_def[symmetric]
        rc4_alloc_def rc4_values_add split_beta Let_def)
qed

lemma RC4_SetKey_keyed:
  assumes "rc4_alloc c" "key \<noteq> []" "length key \<le> 256"
  shows "\<exists>c'. RC4_SetKey key c = Some c' \<and> rc4_keyed c'"
proof -
  have "rc_drop c mod 256 + (256 - rc_drop c mod 256) = 256" by simp
  then show ?thesis
    using assms(1) RC4_SetKey_state(3)[OF assms]
    by (simp add: RC4_SetKey_state(1)[OF assms] rc4_keyed_def rc4_values_perm rc4_alloc_def)
qed

lemma RC4_SetKey_stream:
  assumes "rc4_alloc c" "key \<noteq> []" "length key \<le> 256"
    and i: "i < 256 - rc_drop c mod 256" "rc_drop c + i < N"
  shows "keystream_byte RC4Keystream_FillBuffer 256 (rc4_xor_state (the (RC4_SetKey key c))) i
     = rc4_stream key N ! (rc_drop c + i)"
proof -
  define k where "k = the (RC4Keystream_SetKey (put_bytes 0 key (rc_key c)) (length key) (RC4Keystream_Reset (rc_ks c)))"
  define d n where "d = rc_drop c" and "n = 256 - rc_drop c mod 256"
  note st = RC4_SetKey_state[OF assms(1-3), folded k_def d_def n_def]
  have dn: "256 - n = d mod 256" "d mod 256 + n = 256" by (simp_all add: d_def n_def)
  have "keystream_byte RC4Keystream_FillBuffer 256 (rc4_xor_state (the (RC4_SetKey key c))) i
      = put_bytes (d mod 256) (fst (rc4_values n (snd (rc4_values d k)))) (rc_buf c) ! (d mod 256 + i)"
    using i(1) dn(1) unfolding n_def[symmetric] by (simp add: st(1) keystream_byte_def rc4_xor_state_def)
  also have "\<dots> = fst (rc4_values n (snd (rc4_values d k))) ! i"
    using i(1) dn(2) assms(1) unfolding n_def[symmetric] rc4_alloc_def
    by (simp add: put_bytes_def nth_append)
  also have "\<dots> = fst (rc4_values (d + n) k) ! (d + i)"
    by (simp add: rc4_values_add split_beta Let_def nth_append)
  also have "\<dots> = fst (rc4_values N k) ! (d + i)"
  proof -
    have prefix: "fst (rc4_values m k) ! x = fst (rc4_values (m + y) k) ! x" if "x < m" for m x y
      using that by (simp add: rc4_values_add split_beta Let_def nth_append)
    have "d + i < d + n" "d + i < N" using i by (simp_all add: n_def d_def)
    then show ?thesis
      using prefix[of "d + i" "d + n" N] prefix[of "d + i" N "d + n"] by (simp add: add.commute)
  qed
  finally show ?thesis
    using values_prga(1)[OF st(2), of N] by (simp add: rc4_stream_def d_def)
qed

lemma RC4_Encrypt_eq:
  "RC4_Encrypt data c =
     (fst (CopyAndXor RC4Keystream_FillBuffer 256 data (rc4_xor_state c)),
      c\<lparr>rc_buf := mbuf (snd (CopyAndXor RC4Keystream_FillBuffer 256 data (rc4_xor_state c))),
        rc_nbytes := bufrem (snd (CopyAndXor RC4Keystream_FillBuffer 256 data (rc4_xor_state c))),
        rc_ks := obj (snd (CopyAndXor RC4Keystream_FillBuffer 256 data (rc4_xor_state c)))\<rparr>)"
  by (simp add: RC4_Encrypt_def rc4_xor_state_def split_beta Let_def)

lemma rc4_xor_state_Encrypt:
  "rc4_xor_state (snd (RC4_Encrypt data c)) = snd (CopyAndXor RC4Keystream_FillBuffer 256 data (rc4_xor_state c))"
  by (simp add: RC4_Encrypt_eq) (simp add: rc4_xor_state_def)

lemma RC4_Encrypt_nothing: "fst (RC4_Encrypt [] c) = []"
  by (simp add: RC4_Encrypt_def CopyAndXor_def xor_blocks.simps xor_bytes_def Let_def split: prod.split)

lemma RC4_Encrypt_textbook:
  assumes "rc4_alloc c" "key \<noteq> []" "length key \<le> 256"
    and data: "length data \<le> 256 - rc_drop c mod 256"
  shows "\<exists>c'. RC4_SetKey key c = Some c' \<and>
     fst (RC4_Encrypt data c') = xor_bytes (drop (rc_drop c) (rc4_stream key (rc_drop c + length data))) data"
proof (cases "data = []")
  case True
  then show ?thesis using RC4_SetKey_keyed[OF assms(1-3)] RC4_Encrypt_nothing by (auto simp: xor_bytes_def)
next
  case False
  let ?st = "rc4_xor_state (the (RC4_SetKey key c))" and ?N = "rc_drop c + length data"
  obtain out st' where run: "CopyAndXor RC4Keystream_FillBuffer 256 data ?st = (out, st')" by fastforce
  obtain c' where c': "RC4_SetKey key c = Some c'" "rc4_keyed c'" using RC4_SetKey_keyed[OF assms(1-3)] by blast
  then have good: "rc4.good ?st" by (simp add: rc4_keyed_good)
  note out = rc4.CopyAndXor_stream(1,2)[OF good _ run, OF False]
  have len: "length (rc4_stream key N) = N" for N
  proof -
    have "length (fst (prga_bytes N p)) = N" for p by (induction N) (simp_all add: split_beta Let_def)
    then show ?thesis by (simp add: rc4_stream_def)
  qed
  have "out = xor_bytes (drop (rc_drop c) (rc4_stream key ?N)) data"
  proof (rule nth_equalityI)
    show "length out = length (xor_bytes (drop (rc_drop c) (rc4_stream key ?N)) data)"
      using out(1) len by simp
    show "out ! i = xor_bytes (drop (rc_drop c) (rc4_stream key ?N)) data ! i" if "i < length out" for i
      using out that data RC4_SetKey_stream[OF assms(1-3), of i ?N] len by simp
  qed
  then show ?thesis using run c'(1) by (intro exI[of _ c']) (simp add: RC4_Encrypt_eq)
qed

lemma RC4_SetKey_refused: "key = [] \<or> length (rc_key c) < length key \<Longrightarrow> RC4_SetKey key c = None"
  by (auto simp: RC4_SetKey_def RC4_Reset_def RC4Keystream_SetKey_def)

lemma RC4_Decrypt_Encrypt:
  assumes "rc4_keyed c" "data \<noteq> []"
  shows "fst (RC4_Decrypt (fst (RC4_Encrypt data c)) c) = data"
proof -
  obtain out st1 where run: "CopyAndXor RC4Keystream_FillBuffer 256 data (rc4_xor_state c) = (out, st1)" by fastforce
  obtain data' st2 where run2: "CopyAndXor RC4Keystream_FillBuffer 256 out (rc4_xor_state c) = (data', st2)" by fastforce
  have "data' = data"
    using rc4.CopyAndXor_twice(1)[OF _ _ run run2] assms by (simp add: rc4_keyed_good)
  then show ?thesis using run run2 by (simp add: RC4_Decrypt_def RC4_Encrypt_eq)
qed

lemma RC4_Encrypt_append:
  assumes "rc4_keyed c" "a \<noteq> []"
  shows "fst (RC4_Encrypt (a @ b) c) = fst (RC4_Encrypt a c) @ fst (RC4_Encrypt b (snd (RC4_Encrypt a c)))"
proof -
  obtain out1 st1 where run1: "CopyAndXor RC4Keystream_FillBuffer 256 a (rc4_xor_state c) = (out1, st1)" by fastforce
  obtain out2 st2 where run2: "CopyAndXor RC4Keystream_FillBuffer 256 b st1 = (out2, st2)" by fastforce
  obtain out st where run: "CopyAndXor RC4Keystream_FillBuffer 256 (a @ b) (rc4_xor_state c) = (out, st)" by fastforce
  have "out = out1 @ out2"
    using rc4.CopyAndXor_append(1)[OF _ _ run1 run2 run] assms by (simp add: rc4_keyed_good)
  moreover have "rc4_xor_state (snd (RC4_Encrypt a c)) = st1"
    using rc4_xor_state_Encrypt[of a c] run1 by simp
  ultimately show ?thesis
    using run run1 run2 by (simp add: RC4_Encrypt_eq[of "a @ b"] RC4_Encrypt_eq[of b]) (simp add: RC4_Encrypt_eq)
qed

end
