(* ===== verification/Salsa20.thy ===== *)
theory Salsa20
  imports Keystream Util
begin

text \<open>
  \<^verbatim>\<open>impl/stream/salsa20\<close>: the portable generator \<^verbatim>\<open>Salsa20Keystream\<close> and the cipher
  \<^verbatim>\<open>Salsa20\<close>. The generator written in assembly is not modelled. The lemmas show that
  the unrolled lines of \<^verbatim>\<open>DoHash\<close> are the double rounds of the specification and that the
  stream is the sequence of its blocks, block \<open>n\<close> with the counter \<open>n\<close>.
\<close>

section \<open>The generator\<close>

record salsa_ks =
  sk_keysz :: nat
  sk_nrounds :: nat
  sk_state :: "u32 list"
  sk_ctr :: u64

definition Salsa20Keystream_Reset :: "salsa_ks \<Rightarrow> salsa_ks" where
  "Salsa20Keystream_Reset k = k\<lparr>sk_ctr := 0\<rparr>"

definition Salsa20Keystream_SetRounds :: "nat \<Rightarrow> salsa_ks \<Rightarrow> salsa_ks" where
  "Salsa20Keystream_SetRounds rounds k = k\<lparr>sk_nrounds := rounds\<rparr>"

definition Salsa20Keystream_SetKey :: "byte list \<Rightarrow> salsa_ks \<Rightarrow> salsa_ks" where
  "Salsa20Keystream_SetKey key k =
     (let st = put_bytes 1 (load_words Little (take 16 key)) (sk_state k);
          st = (if length key = 16
                then put_bytes 11 (load_words Little (take 16 key)) st
                else put_bytes 11 (load_words Little (take 16 (drop 16 key))) st)
      in k\<lparr>sk_keysz := length key, sk_state := st\<rparr>)"

definition Salsa20Keystream_SetNonce :: "byte list \<Rightarrow> salsa_ks \<Rightarrow> salsa_ks" where
  "Salsa20Keystream_SetNonce iv k =
     (let st = put_bytes 6 (load_words Little iv) (sk_state k);
          st = st[0 := 0x61707865];
          st = st[5 := (if sk_keysz k = 16 then 0x3120646e else 0x3320646e)];
          st = st[10 := (if sk_keysz k = 16 then 0x79622d36 else 0x79622d32)];
          st = st[15 := 0x6b206574]
      in k\<lparr>sk_state := st\<rparr>)"

text \<open>One line \<^verbatim>\<open>cur.buf[a] ^= RotateLeft(cur.buf[b] + cur.buf[c], r)\<close>, and the lines of the loop.\<close>

definition salsa_line :: "nat \<times> nat \<times> nat \<times> nat \<Rightarrow> u32 list \<Rightarrow> u32 list" where
  "salsa_line = (\<lambda>(a, b, c, r) x. x[a := x ! a XOR RotateLeft (x ! b + x ! c) r])"

definition salsa_lines :: "(nat \<times> nat \<times> nat \<times> nat) list" where
  "salsa_lines =
    [(4, 0, 12, 7), (8, 4, 0, 9), (12, 8, 4, 13), (0, 12, 8, 18),
     (9, 5, 1, 7), (13, 9, 5, 9), (1, 13, 9, 13), (5, 1, 13, 18),
     (14, 10, 6, 7), (2, 14, 10, 9), (6, 2, 14, 13), (10, 6, 2, 18),
     (3, 15, 11, 7), (7, 3, 15, 9), (11, 7, 3, 13), (15, 11, 7, 18),
     (1, 0, 3, 7), (2, 1, 0, 9), (3, 2, 1, 13), (0, 3, 2, 18),
     (6, 5, 4, 7), (7, 6, 5, 9), (4, 7, 6, 13), (5, 4, 7, 18),
     (11, 10, 9, 7), (8, 11, 10, 9), (9, 8, 11, 13), (10, 9, 8, 18),
     (12, 15, 14, 7), (13, 12, 15, 9), (14, 13, 12, 13), (15, 14, 13, 18)]"

definition Salsa20Keystream_DoHash :: "salsa_ks \<Rightarrow> u32 list" where
  "Salsa20Keystream_DoHash k =
     (let st = sk_state k;
          cur = take 16 st;
          cur = fold (\<lambda>_ cur. fold salsa_line salsa_lines cur) [0..<sk_nrounds k] cur
      in fold (\<lambda>i cur. cur[i := cur ! i + st ! i]) [0..<16] cur)"

definition Salsa20Keystream_FillBuffer :: "salsa_ks \<Rightarrow> byte list \<times> salsa_ks" where
  "Salsa20Keystream_FillBuffer k =
     (let k = k\<lparr>sk_state := (sk_state k)[8 := ucast (sk_ctr k), 9 := ucast (drop_bit 32 (sk_ctr k))]\<rparr>;
          cur = Salsa20Keystream_DoHash k
      in (store_words Little cur, k\<lparr>sk_ctr := sk_ctr k + 1\<rparr>))"

text \<open>The aligned variant hashes straight into the buffer on a little-endian machine.\<close>

definition Salsa20Keystream_FillBufferAligned :: "endianness \<Rightarrow> salsa_ks \<Rightarrow> byte list \<times> salsa_ks" where
  "Salsa20Keystream_FillBufferAligned host k =
     (let k = k\<lparr>sk_state := (sk_state k)[8 := ucast (sk_ctr k), 9 := ucast (drop_bit 32 (sk_ctr k))]\<rparr>;
          cur = Salsa20Keystream_DoHash k;
          buf = (if GetEndianness Little = GetEndianness host then concat (map (store host) cur)
                 else Copy_out host Little cur 64)
      in (buf, k\<lparr>sk_ctr := sk_ctr k + 1\<rparr>))"

section \<open>The cipher\<close>

record salsa20 =
  sa_ks :: salsa_ks
  sa_buf :: "byte list"
  sa_nbytes :: nat

definition Salsa20_Reset :: "salsa20 \<Rightarrow> salsa20" where
  "Salsa20_Reset c = c\<lparr>sa_ks := Salsa20Keystream_Reset (sa_ks c), sa_nbytes := 0\<rparr>"

definition Salsa20_SetKey :: "byte list \<Rightarrow> salsa20 \<Rightarrow> salsa20" where
  "Salsa20_SetKey key c =
     c\<lparr>sa_ks := Salsa20Keystream_SetKey key (Salsa20Keystream_Reset (sa_ks c)), sa_nbytes := 0\<rparr>"

definition Salsa20_SetNonce :: "byte list \<Rightarrow> salsa20 \<Rightarrow> salsa20" where
  "Salsa20_SetNonce iv c = c\<lparr>sa_ks := Salsa20Keystream_SetNonce iv (sa_ks c)\<rparr>"

definition Salsa20_Encrypt :: "byte list \<Rightarrow> salsa20 \<Rightarrow> byte list \<times> salsa20" where
  "Salsa20_Encrypt data c =
     (let (out, st) = CopyAndXor Salsa20Keystream_FillBuffer 64 data
            \<lparr>mbuf = sa_buf c, bufrem = sa_nbytes c, obj = sa_ks c\<rparr>
      in (out, c\<lparr>sa_buf := mbuf st, sa_nbytes := bufrem st, sa_ks := obj st\<rparr>))"

definition Salsa20_Decrypt :: "byte list \<Rightarrow> salsa20 \<Rightarrow> byte list \<times> salsa20" where
  "Salsa20_Decrypt data c = Salsa20_Encrypt data c"

definition Salsa20_EncryptFast :: "endianness \<Rightarrow> byte list \<Rightarrow> salsa20 \<Rightarrow> byte list \<times> salsa20" where
  "Salsa20_EncryptFast host data c =
     (let (out, buf, ks) = CopyAndXorAligned (Salsa20Keystream_FillBufferAligned host) 64 data (sa_buf c, sa_ks c)
      in (out, c\<lparr>sa_buf := buf, sa_ks := ks\<rparr>))"

section \<open>The specification\<close>

definition quarterround :: "u32 \<times> u32 \<times> u32 \<times> u32 \<Rightarrow> u32 \<times> u32 \<times> u32 \<times> u32" where
  "quarterround = (\<lambda>(y0, y1, y2, y3).
     let z1 = y1 XOR word_rotl 7 (y0 + y3);
         z2 = y2 XOR word_rotl 9 (z1 + y0);
         z3 = y3 XOR word_rotl 13 (z2 + z1);
         z0 = y0 XOR word_rotl 18 (z3 + z2)
     in (z0, z1, z2, z3))"

definition quarterround_at :: "nat \<times> nat \<times> nat \<times> nat \<Rightarrow> u32 list \<Rightarrow> u32 list" where
  "quarterround_at = (\<lambda>(a, b, c, d) x.
     let (z0, z1, z2, z3) = quarterround (x ! a, x ! b, x ! c, x ! d)
     in x[a := z0, b := z1, c := z2, d := z3])"

definition salsa_columns :: "(nat \<times> nat \<times> nat \<times> nat) list" where
  "salsa_columns = [(0, 4, 8, 12), (5, 9, 13, 1), (10, 14, 2, 6), (15, 3, 7, 11)]"

definition salsa_rows :: "(nat \<times> nat \<times> nat \<times> nat) list" where
  "salsa_rows = [(0, 1, 2, 3), (5, 6, 7, 4), (10, 11, 8, 9), (15, 12, 13, 14)]"

definition doubleround :: "u32 list \<Rightarrow> u32 list" where
  "doubleround x = fold quarterround_at salsa_rows (fold quarterround_at salsa_columns x)"

definition salsa_core :: "nat \<Rightarrow> u32 list \<Rightarrow> byte list" where
  "salsa_core n x = store_words Little (map2 (+) ((doubleround ^^ n) x) x)"

text \<open>The input block for a key of 16 or 32 bytes, a nonce of 8 and a block counter.\<close>

definition salsa_input :: "byte list \<Rightarrow> byte list \<Rightarrow> u64 \<Rightarrow> u32 list" where
  "salsa_input key iv ctr =
     (let k0 = load_words Little (take 16 key);
          k1 = (if length key = 16 then k0 else load_words Little (drop 16 key));
          c = (if length key = 16 then [0x61707865, 0x3120646e, 0x79622d36, 0x6b206574]
               else [0x61707865, 0x3320646e, 0x79622d32, 0x6b206574])
      in [c ! 0] @ k0 @ [c ! 1] @ load_words Little iv @ [ucast ctr, ucast (drop_bit 32 ctr)] @
         [c ! 2] @ k1 @ [c ! 3])"

definition salsa_stream :: "nat \<Rightarrow> byte list \<Rightarrow> byte list \<Rightarrow> nat \<Rightarrow> byte" where
  "salsa_stream n key iv i = salsa_core n (salsa_input key iv (of_nat (i div 64))) ! (i mod 64)"

section \<open>The lines are the double round\<close>

definition quarter_lines :: "nat \<times> nat \<times> nat \<times> nat \<Rightarrow> (nat \<times> nat \<times> nat \<times> nat) list" where
  "quarter_lines = (\<lambda>(a, b, c, d). [(b, a, d, 7), (c, b, a, 9), (d, c, b, 13), (a, d, c, 18)])"

lemma salsa_lines_quarters: "salsa_lines = concat (map quarter_lines (salsa_columns @ salsa_rows))"
  by (simp add: salsa_lines_def quarter_lines_def salsa_columns_def salsa_rows_def)

lemma quarter_lines_at:
  assumes "distinct [a, b, c, d]" "a < length x" "b < length x" "c < length x" "d < length x"
  shows "fold salsa_line (quarter_lines (a, b, c, d)) x = quarterround_at (a, b, c, d) x"
  using assms
  by (simp add: quarter_lines_def salsa_line_def quarterround_at_def quarterround_def Let_def
      RotateLeft_word_rotl list_update_swap)

lemma length_quarterround_at [simp]: "length (quarterround_at q x) = length x"
  by (simp add: quarterround_at_def split_beta Let_def)

lemma fold_lines_quarters:
  assumes "\<forall>q\<in>set qs. case q of (a, b, c, d) \<Rightarrow> distinct [a, b, c, d] \<and> a < 16 \<and> b < 16 \<and> c < 16 \<and> d < 16"
    and "length x = 16"
  shows "fold salsa_line (concat (map quarter_lines qs)) x = fold quarterround_at qs x"
  using assms
proof (induction qs arbitrary: x)
  case (Cons q qs)
  obtain a b c d where q: "q = (a, b, c, d)" by (cases q)
  have "fold salsa_line (quarter_lines q) x = quarterround_at q x"
    unfolding q by (rule quarter_lines_at) (use Cons.prems q in auto)
  then show ?case using Cons by simp
qed simp

lemma salsa_lines_doubleround:
  assumes "length x = 16"
  shows "fold salsa_line salsa_lines x = doubleround x"
  unfolding salsa_lines_quarters using assms
  by (subst fold_lines_quarters) (simp_all add: salsa_columns_def salsa_rows_def doubleround_def)

lemma length_fold_quarters [simp]: "length (fold quarterround_at qs x) = length x"
  by (induction qs arbitrary: x) simp_all

lemma length_doubleround [simp]: "length (doubleround x) = length x"
  by (simp add: doubleround_def)

lemma length_doublerounds [simp]: "length ((doubleround ^^ n) x) = length x"
  by (induction n) simp_all

lemma fold_doubleround:
  "length x = 16 \<Longrightarrow> fold (\<lambda>_ cur. fold salsa_line salsa_lines cur) [0..<n] x = (doubleround ^^ n) x"
  by (induction n) (simp_all add: salsa_lines_doubleround)

lemma DoHash_core:
  assumes "length (sk_state k) = 16"
  shows "store_words Little (Salsa20Keystream_DoHash k) = salsa_core (sk_nrounds k) (sk_state k)"
  using assms fold_add_words[of "(doubleround ^^ sk_nrounds k) (sk_state k)" "sk_state k" 16]
  by (simp add: Salsa20Keystream_DoHash_def Let_def fold_doubleround salsa_core_def del: upt_rec_numeral)

section \<open>The stream\<close>

definition salsa_ok :: "salsa_ks \<Rightarrow> bool" where
  "salsa_ok k \<longleftrightarrow> length (sk_state k) = 16"

definition salsa_at :: "u32 list \<Rightarrow> u64 \<Rightarrow> u32 list" where
  "salsa_at st ctr = st[8 := ucast ctr, 9 := ucast (drop_bit 32 ctr)]"

lemma FillBuffer_core:
  assumes "salsa_ok k"
  shows "Salsa20Keystream_FillBuffer k =
    (salsa_core (sk_nrounds k) (salsa_at (sk_state k) (sk_ctr k)),
     k\<lparr>sk_state := salsa_at (sk_state k) (sk_ctr k), sk_ctr := sk_ctr k + 1\<rparr>)"
  using assms DoHash_core[of "k\<lparr>sk_state := salsa_at (sk_state k) (sk_ctr k)\<rparr>"]
  by (simp add: Salsa20Keystream_FillBuffer_def Let_def salsa_ok_def salsa_at_def)

lemma length_salsa_core: "length x = 16 \<Longrightarrow> length (salsa_core n x) = 64"
  by (simp add: salsa_core_def bytes_simps)

lemma length_salsa_at [simp]: "length (salsa_at st ctr) = length st"
  by (simp add: salsa_at_def)

lemma salsa_at_again [simp]: "salsa_at (salsa_at st c) c' = salsa_at st c'"
  by (simp add: salsa_at_def list_update_swap)

interpretation salsa: keystream Salsa20Keystream_FillBuffer 64 salsa_ok
  by unfold_locales (simp_all add: FillBuffer_core length_salsa_core salsa_ok_def)

lemma salsa_fill_state:
  "salsa_ok k \<Longrightarrow> \<exists>st. fill_state Salsa20Keystream_FillBuffer n k = k\<lparr>sk_state := st, sk_ctr := sk_ctr k + of_nat n\<rparr>
     \<and> length st = 16 \<and> (\<forall>c. salsa_at st c = salsa_at (sk_state k) c)"
proof (induction n arbitrary: k)
  case 0
  then show ?case by (intro exI[of _ "sk_state k"]) (simp add: salsa_ok_def)
next
  case (Suc n)
  let ?k = "snd (Salsa20Keystream_FillBuffer k)"
  have k: "?k = k\<lparr>sk_state := salsa_at (sk_state k) (sk_ctr k), sk_ctr := sk_ctr k + 1\<rparr>"
    using Suc.prems by (simp add: FillBuffer_core)
  have "salsa_ok ?k" using Suc.prems unfolding k by (simp add: salsa_ok_def)
  from Suc.IH[OF this] show ?case unfolding fill_state.simps k by (auto simp: add.assoc)
qed

text \<open>Block \<open>n\<close> of a generator is the core at its counter plus \<open>n\<close>.\<close>

lemma salsa_block_byte:
  assumes "salsa_ok k"
  shows "block_byte Salsa20Keystream_FillBuffer 64 k i
     = salsa_core (sk_nrounds k) (salsa_at (sk_state k) (sk_ctr k + of_nat (i div 64))) ! (i mod 64)"
proof -
  obtain st where st: "fill_state Salsa20Keystream_FillBuffer (i div 64) k
      = k\<lparr>sk_state := st, sk_ctr := sk_ctr k + of_nat (i div 64)\<rparr>"
    "length st = 16" "\<forall>c. salsa_at st c = salsa_at (sk_state k) c"
    using salsa_fill_state[OF assms] by blast
  then show ?thesis by (simp add: block_byte_def FillBuffer_core salsa_ok_def)
qed

definition salsa_xor_state :: "salsa20 \<Rightarrow> salsa_ks xor_state" where
  "salsa_xor_state c = \<lparr>mbuf = sa_buf c, bufrem = sa_nbytes c, obj = sa_ks c\<rparr>"

definition salsa_alloc :: "salsa20 \<Rightarrow> bool" where
  "salsa_alloc c \<longleftrightarrow> length (sa_buf c) = 64 \<and> length (sk_state (sa_ks c)) = 16"

definition salsa_ready :: "salsa20 \<Rightarrow> bool" where
  "salsa_ready c \<longleftrightarrow> salsa_alloc c \<and> sa_nbytes c < 64"

lemma Salsa20_Encrypt_eq:
  "Salsa20_Encrypt data c =
     (let r = CopyAndXor Salsa20Keystream_FillBuffer 64 data (salsa_xor_state c) in
      (fst r, c\<lparr>sa_buf := mbuf (snd r), sa_nbytes := bufrem (snd r), sa_ks := obj (snd r)\<rparr>))"
  by (simp add: Salsa20_Encrypt_def salsa_xor_state_def split_beta Let_def)

interpretation salsa_cipher: stream_cipher Salsa20Keystream_FillBuffer 64 salsa_ok Salsa20_Encrypt
    salsa_xor_state "\<lambda>_. True" salsa_ready
proof unfold_locales
  show "fst (Salsa20_Encrypt data c) = fst (CopyAndXor Salsa20Keystream_FillBuffer 64 data (salsa_xor_state c))"
    for data c by (simp add: Salsa20_Encrypt_eq Let_def)
  show "salsa_xor_state (snd (Salsa20_Encrypt data c))
      = snd (CopyAndXor Salsa20Keystream_FillBuffer 64 data (salsa_xor_state c))" for data c
    by (simp add: Salsa20_Encrypt_eq Let_def) (simp add: salsa_xor_state_def)
  show "salsa_ready c = (True \<and> salsa_ok (obj (salsa_xor_state c)) \<and> length (mbuf (salsa_xor_state c)) = 64 \<and>
      bufrem (salsa_xor_state c) < 64)" for c
    by (auto simp: salsa_ready_def salsa_alloc_def salsa_xor_state_def salsa_ok_def)
qed simp

section \<open>Keying\<close>

lemma put_words: "length xs = n \<Longrightarrow> off + n \<le> length st \<Longrightarrow> j < length st \<Longrightarrow>
  put_bytes off xs st ! j = (if off \<le> j \<and> j < off + n then xs ! (j - off) else st ! j)"
  by (auto simp: put_bytes_def nth_append)

lemma salsa_input_state:
  assumes "length (sk_state k) = 16" "length key = 16 \<or> length key = 32" "length iv = 8"
  shows "salsa_at (sk_state (Salsa20Keystream_SetNonce iv (Salsa20Keystream_SetKey key k))) ctr
     = salsa_input key iv ctr"
proof -
  let ?k0 = "load_words Little (take 16 key) :: u32 list"
  let ?k1 = "load_words Little (take 16 (drop 16 key)) :: u32 list"
  obtain s0 s1 s2 s3 s4 s5 s6 s7 s8 s9 s10 s11 s12 s13 s14 s15 where
    st: "sk_state k = [s0, s1, s2, s3, s4, s5, s6, s7, s8, s9, s10, s11, s12, s13, s14, s15]"
    using assms(1) by (auto simp: numeral_eq_Suc length_Suc_conv)
  have "length ?k0 = 4" "length (load_words Little iv :: u32 list) = 2"
    using assms(2,3) by (auto simp: bytes_simps)
  then obtain a b c d n0 n1 where k0: "?k0 = [a, b, c, d]" and iv: "load_words Little iv = [n0, n1 :: u32]"
    by (auto simp: numeral_eq_Suc length_Suc_conv)
  show ?thesis
  proof (cases "length key = 16")
    case True
    then show ?thesis
      using k0 by (simp add: Salsa20Keystream_SetNonce_def Salsa20Keystream_SetKey_def Let_def st iv
          put_bytes_def salsa_at_def salsa_input_def)
  next
    case False
    then have len: "length key = 32" using assms(2) by simp
    then have "length ?k1 = 4" by (simp add: bytes_simps)
    then obtain a' b' c' d' where k1: "?k1 = [a', b', c', d']"
      by (auto simp: numeral_eq_Suc length_Suc_conv)
    show ?thesis
      using k0 k1 len by (simp add: Salsa20Keystream_SetNonce_def Salsa20Keystream_SetKey_def Let_def st iv
          put_bytes_def salsa_at_def salsa_input_def)
  qed
qed

lemma Salsa20_keyed:
  assumes "salsa_alloc c" "length key = 16 \<or> length key = 32" "length iv = 8"
  defines "c' \<equiv> Salsa20_SetNonce iv (Salsa20_SetKey key c)"
  shows "salsa_ready c'"
    and "keystream_byte Salsa20Keystream_FillBuffer 64 (salsa_xor_state c') i
       = salsa_stream (sk_nrounds (sa_ks c)) key iv i"
proof -
  let ?k = "Salsa20Keystream_Reset (sa_ks c)"
  let ?k' = "Salsa20Keystream_SetNonce iv (Salsa20Keystream_SetKey key ?k)"
  have c': "c' = c\<lparr>sa_ks := ?k', sa_nbytes := 0\<rparr>"
    by (simp add: c'_def Salsa20_SetNonce_def Salsa20_SetKey_def)
  have k: "length (sk_state ?k) = 16" using assms(1) by (simp add: Salsa20Keystream_Reset_def salsa_alloc_def)
  have at: "salsa_at (sk_state ?k') ctr = salsa_input key iv ctr" for ctr
    by (rule salsa_input_state[OF k assms(2,3)])
  have "length (salsa_input key iv 0) = 16"
  proof -
    have "length (load_words Little (take 16 key) :: u32 list) = 4"
      "length key = 32 \<Longrightarrow> length (load_words Little (drop 16 key) :: u32 list) = 4"
      "length (load_words Little iv :: u32 list) = 2"
      using assms(2,3) by (auto simp: bytes_simps)
    then show ?thesis using assms(2) by (auto simp: salsa_input_def Let_def)
  qed
  then have ok: "salsa_ok ?k'" using at[of 0] by (metis length_salsa_at salsa_ok_def)
  then show "salsa_ready c'" using assms(1) by (simp add: c' salsa_ready_def salsa_alloc_def salsa_ok_def)
  have "sk_nrounds ?k' = sk_nrounds (sa_ks c)" "sk_ctr ?k' = 0"
    by (simp_all add: Salsa20Keystream_SetNonce_def Salsa20Keystream_SetKey_def Salsa20Keystream_Reset_def Let_def)
  then show "keystream_byte Salsa20Keystream_FillBuffer 64 (salsa_xor_state c') i
      = salsa_stream (sk_nrounds (sa_ks c)) key iv i"
    using salsa_block_byte[OF ok] by (simp add: c' keystream_byte_def salsa_xor_state_def salsa_stream_def at)
qed

lemma Salsa20_Encrypt_stream:
  assumes "salsa_alloc c" "length key = 16 \<or> length key = 32" "length iv = 8"
  shows "fst (Salsa20_Encrypt data (Salsa20_SetNonce iv (Salsa20_SetKey key c)))
     = map (\<lambda>i. salsa_stream (sk_nrounds (sa_ks c)) key iv i XOR data ! i) [0..<length data]"
  using salsa_cipher.Encrypt_stream[OF Salsa20_keyed(1)[OF assms]] by (simp add: Salsa20_keyed(2)[OF assms])

section \<open>The aligned operation\<close>

lemma FillBufferAligned_eq:
  assumes "salsa_ok k"
  shows "Salsa20Keystream_FillBufferAligned host k = Salsa20Keystream_FillBuffer k"
proof -
  let ?k = "k\<lparr>sk_state := (sk_state k)[8 := ucast (sk_ctr k), 9 := ucast (drop_bit 32 (sk_ctr k))]\<rparr>"
  have "length (store_words Little (Salsa20Keystream_DoHash ?k)) = 64"
    using DoHash_core[of ?k] assms by (simp add: salsa_ok_def length_salsa_core)
  then have "length (Salsa20Keystream_DoHash ?k) = 16" by (simp add: bytes_simps)
  then have "Copy_out host Little (Salsa20Keystream_DoHash ?k) 64 = store_words Little (Salsa20Keystream_DoHash ?k)"
    by (intro Copy_out_store_words) simp_all
  then show ?thesis
    by (cases host)
      (simp_all add: Salsa20Keystream_FillBufferAligned_def Salsa20Keystream_FillBuffer_def Let_def
        GetEndianness_def store_words_def)
qed

lemma Salsa20_EncryptFast_eq:
  assumes "salsa_ready c" "sa_nbytes c = 0" "64 dvd length data"
  shows "fst (Salsa20_EncryptFast host data c) = fst (Salsa20_Encrypt data c)"
  using salsa_cipher.Aligned_Encrypt[OF assms(1) _ FillBufferAligned_eq assms(3)] assms(2)
  by (simp add: Salsa20_EncryptFast_def salsa_xor_state_def split_beta)

end
