(* ===== verification/ChaCha.thy ===== *)
theory ChaCha
  imports Keystream Util
begin

text \<open>
  \<^verbatim>\<open>impl/stream/chacha\<close>: the portable generator \<^verbatim>\<open>ChaChaKeystream\<close> and the cipher
  \<^verbatim>\<open>ChaCha\<close>. The generator written in assembly is not modelled. The lemmas show that
  the quarter rounds of \<^verbatim>\<open>DoHash\<close> are the column and diagonal rounds on the matrix of
  words, and that the stream is the sequence of its blocks; with a nonce of 12 bytes only the
  low half of the counter takes part, so that the stream repeats after \<open>2 ^ 32\<close> blocks.
\<close>

section \<open>The generator\<close>

record chacha_ks =
  ck_keysz :: nat
  ck_noncesz :: nat
  ck_nrounds :: nat
  ck_state :: "u32 list"
  ck_ctr :: u64

definition ChaChaKeystream_Reset :: "chacha_ks \<Rightarrow> chacha_ks" where
  "ChaChaKeystream_Reset k = k\<lparr>ck_ctr := 0\<rparr>"

definition ChaChaKeystream_SetRounds :: "nat \<Rightarrow> chacha_ks \<Rightarrow> chacha_ks" where
  "ChaChaKeystream_SetRounds rounds k = k\<lparr>ck_nrounds := rounds\<rparr>"

definition ChaChaKeystream_SetKey :: "byte list \<Rightarrow> chacha_ks \<Rightarrow> chacha_ks" where
  "ChaChaKeystream_SetKey key k =
     (let st = put_bytes 4 (load_words Little key) (ck_state k);
          st = (if length key = 16 then put_bytes 8 (load_words Little (take 16 key)) st else st)
      in k\<lparr>ck_keysz := length key, ck_state := st\<rparr>)"

definition ChaChaKeystream_SetNonce :: "byte list \<Rightarrow> chacha_ks \<Rightarrow> chacha_ks" where
  "ChaChaKeystream_SetNonce iv k =
     (let offset = (if length iv = 12 then 13 else 14);
          st = put_bytes offset (load_words Little iv) (ck_state k);
          st = st[0 := 0x61707865];
          st = st[1 := (if ck_keysz k = 16 then 0x3120646e else 0x3320646e)];
          st = st[2 := (if ck_keysz k = 16 then 0x79622d36 else 0x79622d32)];
          st = st[3 := 0x6b206574]
      in k\<lparr>ck_noncesz := length iv, ck_state := st\<rparr>)"

definition ChaChaKeystream_QuarterRound :: "nat \<times> nat \<times> nat \<times> nat \<Rightarrow> u32 list \<Rightarrow> u32 list" where
  "ChaChaKeystream_QuarterRound = (\<lambda>(a, b, c, d) cur.
     let cur = cur[a := cur ! a + cur ! b];
         cur = cur[d := RotateLeft (cur ! a XOR cur ! d) 16];
         cur = cur[c := cur ! c + cur ! d];
         cur = cur[b := RotateLeft (cur ! b XOR cur ! c) 12];
         cur = cur[a := cur ! a + cur ! b];
         cur = cur[d := RotateLeft (cur ! a XOR cur ! d) 8];
         cur = cur[c := cur ! c + cur ! d];
         cur = cur[b := RotateLeft (cur ! b XOR cur ! c) 7]
     in cur)"

definition chacha_quarters :: "(nat \<times> nat \<times> nat \<times> nat) list" where
  "chacha_quarters =
    [(0, 4, 8, 12), (1, 5, 9, 13), (2, 6, 10, 14), (3, 7, 11, 15),
     (0, 5, 10, 15), (1, 6, 11, 12), (2, 7, 8, 13), (3, 4, 9, 14)]"

definition ChaChaKeystream_DoHash :: "chacha_ks \<Rightarrow> u32 list" where
  "ChaChaKeystream_DoHash k =
     (let st = ck_state k;
          cur = take 16 st;
          cur = fold (\<lambda>_ cur. fold ChaChaKeystream_QuarterRound chacha_quarters cur) [0..<ck_nrounds k] cur
      in fold (\<lambda>i cur. cur[i := cur ! i + st ! i]) [0..<16] cur)"

definition chacha_set_ctr :: "chacha_ks \<Rightarrow> chacha_ks" where
  "chacha_set_ctr k =
     (let st = (ck_state k)[12 := ucast (ck_ctr k)];
          st = (if ck_noncesz k = 8 then st[13 := ucast (drop_bit 32 (ck_ctr k))] else st)
      in k\<lparr>ck_state := st\<rparr>)"

definition ChaChaKeystream_FillBuffer :: "chacha_ks \<Rightarrow> byte list \<times> chacha_ks" where
  "ChaChaKeystream_FillBuffer k =
     (let k = chacha_set_ctr k;
          cur = ChaChaKeystream_DoHash k;
          k = k\<lparr>ck_ctr := ck_ctr k + 1\<rparr>
      in (store_words Little cur, k))"

definition ChaChaKeystream_FillBufferAligned :: "endianness \<Rightarrow> chacha_ks \<Rightarrow> byte list \<times> chacha_ks" where
  "ChaChaKeystream_FillBufferAligned host k =
     (let k = chacha_set_ctr k;
          cur = ChaChaKeystream_DoHash k;
          buf = (if GetEndianness Little = GetEndianness host then concat (map (store host) cur)
                 else Copy_out host Little cur 64)
      in (buf, k\<lparr>ck_ctr := ck_ctr k + 1\<rparr>))"

section \<open>The cipher\<close>

record chacha =
  ch_ks :: chacha_ks
  ch_buf :: "byte list"
  ch_nbytes :: nat

definition ChaCha_init :: "nat \<Rightarrow> chacha \<Rightarrow> chacha" where
  "ChaCha_init nrounds c =
     c\<lparr>ch_ks := ChaChaKeystream_SetRounds nrounds ((ChaChaKeystream_Reset (ch_ks c))\<lparr>ck_ctr := 0\<rparr>)\<rparr>"

definition ChaCha_Reset :: "chacha \<Rightarrow> chacha" where
  "ChaCha_Reset c = c\<lparr>ch_ks := ChaChaKeystream_Reset (ch_ks c), ch_nbytes := 0\<rparr>"

definition ChaCha_SetKey :: "byte list \<Rightarrow> chacha \<Rightarrow> chacha" where
  "ChaCha_SetKey key c =
     c\<lparr>ch_ks := ChaChaKeystream_SetKey key (ChaChaKeystream_Reset (ch_ks c)), ch_nbytes := 0\<rparr>"

definition ChaCha_SetNonce :: "byte list \<Rightarrow> chacha \<Rightarrow> chacha" where
  "ChaCha_SetNonce iv c = c\<lparr>ch_ks := ChaChaKeystream_SetNonce iv (ch_ks c)\<rparr>"

definition ChaCha_Encrypt :: "byte list \<Rightarrow> chacha \<Rightarrow> byte list \<times> chacha" where
  "ChaCha_Encrypt data c =
     (let (out, st) = CopyAndXor ChaChaKeystream_FillBuffer 64 data
            \<lparr>mbuf = ch_buf c, bufrem = ch_nbytes c, obj = ch_ks c\<rparr>
      in (out, c\<lparr>ch_buf := mbuf st, ch_nbytes := bufrem st, ch_ks := obj st\<rparr>))"

definition ChaCha_Decrypt :: "byte list \<Rightarrow> chacha \<Rightarrow> byte list \<times> chacha" where
  "ChaCha_Decrypt data c = ChaCha_Encrypt data c"

definition ChaCha_EncryptFast :: "endianness \<Rightarrow> byte list \<Rightarrow> chacha \<Rightarrow> byte list \<times> chacha" where
  "ChaCha_EncryptFast host data c =
     (let (out, buf, ks) = CopyAndXorAligned (ChaChaKeystream_FillBufferAligned host) 64 data (ch_buf c, ch_ks c)
      in (out, c\<lparr>ch_buf := buf, ch_ks := ks\<rparr>))"

section \<open>The specification\<close>

text \<open>
  The state is a four by four matrix of words. A column round applies the quarter round to its
  four columns at once; a diagonal round rotates row \<open>i\<close> left by \<open>i\<close>, applies a column
  round and rotates the rows back.
\<close>

definition chacha_quarter :: "u32 \<times> u32 \<times> u32 \<times> u32 \<Rightarrow> u32 \<times> u32 \<times> u32 \<times> u32" where
  "chacha_quarter = (\<lambda>(a, b, c, d).
     let a1 = a + b; d1 = word_rotl 16 (d XOR a1);
         c1 = c + d1; b1 = word_rotl 12 (b XOR c1);
         a2 = a1 + b1; d2 = word_rotl 8 (d1 XOR a2);
         c2 = c1 + d2; b2 = word_rotl 7 (b1 XOR c2)
     in (a2, b2, c2, d2))"

definition chacha_columns :: "u32 list \<Rightarrow> u32 list" where
  "chacha_columns x =
     (let q = map (\<lambda>i. chacha_quarter (x ! i, x ! (4 + i), x ! (8 + i), x ! (12 + i))) [0..<4]
      in map (\<lambda>(a, b, c, d). a) q @ map (\<lambda>(a, b, c, d). b) q @
         map (\<lambda>(a, b, c, d). c) q @ map (\<lambda>(a, b, c, d). d) q)"

definition rotate_rows :: "(nat \<Rightarrow> nat) \<Rightarrow> u32 list \<Rightarrow> u32 list" where
  "rotate_rows f x = concat (map (\<lambda>i. rotate (f i) (take 4 (drop (4 * i) x))) [0..<4])"

definition chacha_doubleround :: "u32 list \<Rightarrow> u32 list" where
  "chacha_doubleround x =
     rotate_rows (\<lambda>i. 4 - i) (chacha_columns (rotate_rows (\<lambda>i. i) (chacha_columns x)))"

definition chacha_core :: "nat \<Rightarrow> u32 list \<Rightarrow> byte list" where
  "chacha_core n x = store_words Little (map2 (+) ((chacha_doubleround ^^ n) x) x)"

definition chacha_input :: "byte list \<Rightarrow> byte list \<Rightarrow> u64 \<Rightarrow> u32 list" where
  "chacha_input key iv ctr =
     (if length key = 16 then [0x61707865, 0x3120646e, 0x79622d36, 0x6b206574]
      else [0x61707865, 0x3320646e, 0x79622d32, 0x6b206574]) @
     load_words Little key @ (if length key = 16 then load_words Little key else []) @
     (if length iv = 12 then [ucast ctr] else [ucast ctr, ucast (drop_bit 32 ctr)]) @
     load_words Little iv"

definition chacha_stream :: "nat \<Rightarrow> byte list \<Rightarrow> byte list \<Rightarrow> nat \<Rightarrow> byte" where
  "chacha_stream n key iv i = chacha_core n (chacha_input key iv (of_nat (i div 64))) ! (i mod 64)"

section \<open>The quarter rounds are the double round\<close>

lemma list_update_four:
  assumes "distinct [a, b, c, d]" "a < length x" "b < length x" "c < length x" "d < length x"
  shows "x[a := A, d := D, c := C, b := B, a := A', d := D', c := C', b := B'] = x[a := A', b := B', c := C', d := D']"
proof (rule nth_equalityI)
  fix i assume "i < length (x[a := A, d := D, c := C, b := B, a := A', d := D', c := C', b := B'])"
  then show "x[a := A, d := D, c := C, b := B, a := A', d := D', c := C', b := B'] ! i
      = x[a := A', b := B', c := C', d := D'] ! i"
    using assms by (auto simp: nth_list_update)
qed simp

lemma QuarterRound_quarter:
  assumes "distinct [a, b, c, d]" "a < length x" "b < length x" "c < length x" "d < length x"
  shows "ChaChaKeystream_QuarterRound (a, b, c, d) x =
    (let (a', b', c', d') = chacha_quarter (x ! a, x ! b, x ! c, x ! d) in x[a := a', b := b', c := c', d := d'])"
  using assms
  by (simp add: ChaChaKeystream_QuarterRound_def chacha_quarter_def Let_def RotateLeft_word_rotl
      xor.commute list_update_four)

lemma length_QuarterRound [simp]: "length (ChaChaKeystream_QuarterRound q x) = length x"
  by (cases q) (simp add: ChaChaKeystream_QuarterRound_def Let_def)

lemma length_chacha_columns [simp]: "length (chacha_columns x) = 16"
  by (simp add: chacha_columns_def Let_def)

lemma chacha_quarters_doubleround:
  assumes "length x = 16"
  shows "fold ChaChaKeystream_QuarterRound chacha_quarters x = chacha_doubleround x"
proof -
  obtain x0 x1 x2 x3 x4 x5 x6 x7 x8 x9 x10 x11 x12 x13 x14 x15 where
    x: "x = [x0, x1, x2, x3, x4, x5, x6, x7, x8, x9, x10, x11, x12, x13, x14, x15]"
    using assms by (auto simp: numeral_eq_Suc length_Suc_conv)
  obtain a0 b0 c0 d0 where q0: "chacha_quarter (x0, x4, x8, x12) = (a0, b0, c0, d0)" by (metis surj_pair)
  obtain a1 b1 c1 d1 where q1: "chacha_quarter (x1, x5, x9, x13) = (a1, b1, c1, d1)" by (metis surj_pair)
  obtain a2 b2 c2 d2 where q2: "chacha_quarter (x2, x6, x10, x14) = (a2, b2, c2, d2)" by (metis surj_pair)
  obtain a3 b3 c3 d3 where q3: "chacha_quarter (x3, x7, x11, x15) = (a3, b3, c3, d3)" by (metis surj_pair)
  obtain e0 f0 g0 h0 where r0: "chacha_quarter (a0, b1, c2, d3) = (e0, f0, g0, h0)" by (metis surj_pair)
  obtain e1 f1 g1 h1 where r1: "chacha_quarter (a1, b2, c3, d0) = (e1, f1, g1, h1)" by (metis surj_pair)
  obtain e2 f2 g2 h2 where r2: "chacha_quarter (a2, b3, c0, d1) = (e2, f2, g2, h2)" by (metis surj_pair)
  obtain e3 f3 g3 h3 where r3: "chacha_quarter (a3, b0, c1, d2) = (e3, f3, g3, h3)" by (metis surj_pair)
  note qs = q0 q1 q2 q3 r0 r1 r2 r3
  have "fold ChaChaKeystream_QuarterRound chacha_quarters x =
     [e0, e1, e2, e3, f3, f0, f1, f2, g2, g3, g0, g1, h1, h2, h3, h0]"
    by (simp add: chacha_quarters_def x QuarterRound_quarter qs)
  moreover have "chacha_columns x = [a0, a1, a2, a3, b0, b1, b2, b3, c0, c1, c2, c3, d0, d1, d2, d3]"
    by (simp add: chacha_columns_def x qs upt_rec)
  ultimately show ?thesis
    by (simp add: chacha_doubleround_def rotate_rows_def chacha_columns_def qs upt_rec
        rotate_def numeral_eq_Suc)
qed

lemma length_chacha_doubleround [simp]: "length x = 16 \<Longrightarrow> length (chacha_doubleround x) = 16"
  using chacha_quarters_doubleround[of x]
  by (auto simp: chacha_quarters_def dest: arg_cong[of _ _ length])

lemma length_chacha_doublerounds [simp]: "length x = 16 \<Longrightarrow> length ((chacha_doubleround ^^ n) x) = 16"
  by (induction n) simp_all

lemma fold_chacha_doubleround:
  "length x = 16 \<Longrightarrow>
   fold (\<lambda>_ cur. fold ChaChaKeystream_QuarterRound chacha_quarters cur) [0..<n] x = (chacha_doubleround ^^ n) x"
  by (induction n) (simp_all add: chacha_quarters_doubleround)

lemma ChaCha_DoHash_core:
  assumes "length (ck_state k) = 16"
  shows "store_words Little (ChaChaKeystream_DoHash k) = chacha_core (ck_nrounds k) (ck_state k)"
  using assms fold_add_words[of "(chacha_doubleround ^^ ck_nrounds k) (ck_state k)" "ck_state k" 16]
  by (simp add: ChaChaKeystream_DoHash_def Let_def fold_chacha_doubleround chacha_core_def del: upt_rec_numeral)

lemma length_chacha_core: "length x = 16 \<Longrightarrow> length (chacha_core n x) = 64"
  by (simp add: chacha_core_def bytes_simps)

section \<open>The stream\<close>

definition chacha_ok :: "chacha_ks \<Rightarrow> bool" where
  "chacha_ok k \<longleftrightarrow> length (ck_state k) = 16"

text \<open>The state with a counter in place.\<close>

definition chacha_at :: "chacha_ks \<Rightarrow> u64 \<Rightarrow> u32 list" where
  "chacha_at k ctr = ck_state (chacha_set_ctr (k\<lparr>ck_ctr := ctr\<rparr>))"

lemma length_chacha_at [simp]: "length (chacha_at k ctr) = length (ck_state k)"
  by (simp add: chacha_at_def chacha_set_ctr_def Let_def)

lemma chacha_at_again [simp]:
  "chacha_at (k\<lparr>ck_state := chacha_at k c\<rparr>) c'' = chacha_at k c''"
  "chacha_at (k\<lparr>ck_ctr := c'\<rparr>) c'' = chacha_at k c''"
  "chacha_at (k\<lparr>ck_ctr := c', ck_state := st\<rparr>) c'' = chacha_at (k\<lparr>ck_state := st\<rparr>) c''"
  by (simp_all add: chacha_at_def chacha_set_ctr_def Let_def list_update_swap)

lemma ChaCha_FillBuffer_core:
  assumes "chacha_ok k"
  shows "ChaChaKeystream_FillBuffer k =
    (chacha_core (ck_nrounds k) (chacha_at k (ck_ctr k)),
     k\<lparr>ck_state := chacha_at k (ck_ctr k), ck_ctr := ck_ctr k + 1\<rparr>)"
proof -
  have set: "chacha_set_ctr k = k\<lparr>ck_state := chacha_at k (ck_ctr k)\<rparr>"
    by (simp add: chacha_at_def chacha_set_ctr_def Let_def)
  show ?thesis
    using assms ChaCha_DoHash_core[of "chacha_set_ctr k"]
    by (simp add: ChaChaKeystream_FillBuffer_def Let_def set chacha_ok_def)
qed

interpretation chacha: keystream ChaChaKeystream_FillBuffer 64 chacha_ok
  by unfold_locales (simp_all add: ChaCha_FillBuffer_core length_chacha_core chacha_ok_def)

definition chacha_xor_state :: "chacha \<Rightarrow> chacha_ks xor_state" where
  "chacha_xor_state c = \<lparr>mbuf = ch_buf c, bufrem = ch_nbytes c, obj = ch_ks c\<rparr>"

definition chacha_alloc :: "chacha \<Rightarrow> bool" where
  "chacha_alloc c \<longleftrightarrow> length (ch_buf c) = 64 \<and> length (ck_state (ch_ks c)) = 16"

definition chacha_ready :: "chacha \<Rightarrow> bool" where
  "chacha_ready c \<longleftrightarrow> chacha_alloc c \<and> ch_nbytes c < 64"

lemma ChaCha_Encrypt_eq:
  "ChaCha_Encrypt data c =
     (let r = CopyAndXor ChaChaKeystream_FillBuffer 64 data (chacha_xor_state c) in
      (fst r, c\<lparr>ch_buf := mbuf (snd r), ch_nbytes := bufrem (snd r), ch_ks := obj (snd r)\<rparr>))"
  by (simp add: ChaCha_Encrypt_def chacha_xor_state_def split_beta Let_def)

interpretation chacha_cipher: stream_cipher ChaChaKeystream_FillBuffer 64 chacha_ok ChaCha_Encrypt
    chacha_xor_state "\<lambda>_. True" chacha_ready
proof unfold_locales
  show "fst (ChaCha_Encrypt data c) = fst (CopyAndXor ChaChaKeystream_FillBuffer 64 data (chacha_xor_state c))"
    for data c by (simp add: ChaCha_Encrypt_eq Let_def)
  show "chacha_xor_state (snd (ChaCha_Encrypt data c))
      = snd (CopyAndXor ChaChaKeystream_FillBuffer 64 data (chacha_xor_state c))" for data c
    by (simp add: ChaCha_Encrypt_eq Let_def) (simp add: chacha_xor_state_def)
  show "chacha_ready c = (True \<and> chacha_ok (obj (chacha_xor_state c)) \<and> length (mbuf (chacha_xor_state c)) = 64 \<and>
      bufrem (chacha_xor_state c) < 64)" for c
    by (auto simp: chacha_ready_def chacha_alloc_def chacha_xor_state_def chacha_ok_def)
qed simp

lemma chacha_fill_state:
  "chacha_ok k \<Longrightarrow> \<exists>st. fill_state ChaChaKeystream_FillBuffer n k = k\<lparr>ck_state := st, ck_ctr := ck_ctr k + of_nat n\<rparr>
     \<and> length st = 16 \<and> (\<forall>d. chacha_at (k\<lparr>ck_state := st\<rparr>) d = chacha_at k d)"
proof (induction n arbitrary: k)
  case 0
  then show ?case by (intro exI[of _ "ck_state k"]) (simp add: chacha_ok_def)
next
  case (Suc n)
  let ?k = "snd (ChaChaKeystream_FillBuffer k)"
  have k: "?k = k\<lparr>ck_state := chacha_at k (ck_ctr k), ck_ctr := ck_ctr k + 1\<rparr>"
    using Suc.prems by (simp add: ChaCha_FillBuffer_core)
  have "chacha_ok ?k" using Suc.prems unfolding k by (simp add: chacha_ok_def)
  from Suc.IH[OF this] show ?case unfolding fill_state.simps k by (auto simp: add.assoc)
qed

lemma chacha_block_byte:
  assumes "chacha_ok k"
  shows "block_byte ChaChaKeystream_FillBuffer 64 k i
     = chacha_core (ck_nrounds k) (chacha_at k (ck_ctr k + of_nat (i div 64))) ! (i mod 64)"
proof -
  obtain st where st: "fill_state ChaChaKeystream_FillBuffer (i div 64) k
      = k\<lparr>ck_state := st, ck_ctr := ck_ctr k + of_nat (i div 64)\<rparr>"
    "length st = 16" "\<forall>d. chacha_at (k\<lparr>ck_state := st\<rparr>) d = chacha_at k d"
    using chacha_fill_state[OF assms] by blast
  then show ?thesis by (simp add: block_byte_def ChaCha_FillBuffer_core chacha_ok_def)
qed

section \<open>Keying\<close>

lemma chacha_input_state:
  assumes "length (ck_state k) = 16" "length key = 16 \<or> length key = 32" "length iv = 8 \<or> length iv = 12"
  shows "chacha_at (ChaChaKeystream_SetNonce iv (ChaChaKeystream_SetKey key k)) ctr = chacha_input key iv ctr"
proof -
  obtain s0 s1 s2 s3 s4 s5 s6 s7 s8 s9 s10 s11 s12 s13 s14 s15 where
    st: "ck_state k = [s0, s1, s2, s3, s4, s5, s6, s7, s8, s9, s10, s11, s12, s13, s14, s15]"
    using assms(1) by (auto simp: numeral_eq_Suc length_Suc_conv)
  note defs = ChaChaKeystream_SetNonce_def ChaChaKeystream_SetKey_def Let_def st put_bytes_def
    chacha_at_def chacha_set_ctr_def chacha_input_def
  have "length (load_words Little iv :: u32 list) = (if length iv = 12 then 3 else 2)"
    "length (load_words Little key :: u32 list) = (if length key = 16 then 4 else 8)"
    using assms(2,3) by (auto simp: bytes_simps)
  then consider
      (k16) a b c d where "length key = 16" "load_words Little key = [a, b, c, d :: u32]"
    | (k32) a b c d a' b' c' d' where "length key = 32"
      "load_words Little key = [a, b, c, d, a', b', c', d' :: u32]"
    using assms(2) by (auto simp: numeral_eq_Suc length_Suc_conv)
  note key_cases = this
  consider (n8) p q where "length iv = 8" "load_words Little iv = [p, q :: u32]"
    | (n12) p q r where "length iv = 12" "load_words Little iv = [p, q, r :: u32]"
    using assms(3) \<open>length (load_words Little iv :: u32 list) = _\<close>
    by (auto simp: numeral_eq_Suc length_Suc_conv)
  then show ?thesis
    by cases (cases rule: key_cases; simp add: defs)+
qed

lemma length_chacha_input:
  "length key = 16 \<or> length key = 32 \<Longrightarrow> length iv = 8 \<or> length iv = 12 \<Longrightarrow>
   length (chacha_input key iv ctr) = 16"
  by (auto simp: chacha_input_def bytes_simps)

lemma ChaCha_keyed:
  assumes "chacha_alloc c" "length key = 16 \<or> length key = 32" "length iv = 8 \<or> length iv = 12"
  defines "c' \<equiv> ChaCha_SetNonce iv (ChaCha_SetKey key c)"
  shows "chacha_ready c'"
    and "keystream_byte ChaChaKeystream_FillBuffer 64 (chacha_xor_state c') i
       = chacha_stream (ck_nrounds (ch_ks c)) key iv i"
proof -
  let ?k = "ChaChaKeystream_Reset (ch_ks c)"
  let ?k' = "ChaChaKeystream_SetNonce iv (ChaChaKeystream_SetKey key ?k)"
  have c': "c' = c\<lparr>ch_ks := ?k', ch_nbytes := 0\<rparr>"
    by (simp add: c'_def ChaCha_SetNonce_def ChaCha_SetKey_def)
  have k: "length (ck_state ?k) = 16" using assms(1) by (simp add: ChaChaKeystream_Reset_def chacha_alloc_def)
  have at: "chacha_at ?k' ctr = chacha_input key iv ctr" for ctr
    by (rule chacha_input_state[OF k assms(2,3)])
  have ok: "chacha_ok ?k'"
    using at[of 0] length_chacha_input[OF assms(2,3)] by (metis length_chacha_at chacha_ok_def)
  then show "chacha_ready c'" using assms(1) by (simp add: c' chacha_ready_def chacha_alloc_def chacha_ok_def)
  have "ck_nrounds ?k' = ck_nrounds (ch_ks c)" "ck_ctr ?k' = 0"
    by (simp_all add: ChaChaKeystream_SetNonce_def ChaChaKeystream_SetKey_def ChaChaKeystream_Reset_def Let_def)
  then show "keystream_byte ChaChaKeystream_FillBuffer 64 (chacha_xor_state c') i
      = chacha_stream (ck_nrounds (ch_ks c)) key iv i"
    using chacha_block_byte[OF ok] by (simp add: c' keystream_byte_def chacha_xor_state_def chacha_stream_def at)
qed

lemma ChaCha_Encrypt_stream:
  assumes "chacha_alloc c" "length key = 16 \<or> length key = 32" "length iv = 8 \<or> length iv = 12"
  shows "fst (ChaCha_Encrypt data (ChaCha_SetNonce iv (ChaCha_SetKey key c)))
     = map (\<lambda>i. chacha_stream (ck_nrounds (ch_ks c)) key iv i XOR data ! i) [0..<length data]"
  using chacha_cipher.Encrypt_stream[OF ChaCha_keyed(1)[OF assms]] by (simp add: ChaCha_keyed(2)[OF assms])

text \<open>The period with a nonce of 12 bytes.\<close>

lemma chacha_stream_repeats:
  assumes "length iv = 12"
  shows "chacha_stream n key iv (i + 64 * 2 ^ 32) = chacha_stream n key iv i"
proof -
  have "chacha_input key iv (of_nat ((i + 64 * 2 ^ 32) div 64)) = chacha_input key iv (of_nat (i div 64))"
  proof -
    have "ucast (of_nat m :: u64) = (of_nat m :: u32)" for m
      by (rule bit_word_eqI) (auto simp: bit_simps)
    moreover have "(i + 64 * 2 ^ 32) div 64 = i div 64 + 2 ^ 32" by simp
    ultimately show ?thesis using assms by (simp only: chacha_input_def) simp
  qed
  moreover have "(i + 64 * 2 ^ 32) mod 64 = i mod 64" by (rule mod_mult_self2)
  ultimately show ?thesis unfolding chacha_stream_def by (simp only:)
qed

section \<open>The aligned operation\<close>

lemma ChaCha_FillBufferAligned_eq:
  assumes "chacha_ok k"
  shows "ChaChaKeystream_FillBufferAligned host k = ChaChaKeystream_FillBuffer k"
proof -
  let ?k = "chacha_set_ctr k"
  have "length (ck_state ?k) = 16" using assms by (simp add: chacha_set_ctr_def chacha_ok_def Let_def)
  then have "length (store_words Little (ChaChaKeystream_DoHash ?k)) = 64"
    using ChaCha_DoHash_core[of ?k] by (simp add: length_chacha_core)
  then have "length (ChaChaKeystream_DoHash ?k) = 16" by (simp add: bytes_simps)
  then have "Copy_out host Little (ChaChaKeystream_DoHash ?k) 64 = store_words Little (ChaChaKeystream_DoHash ?k)"
    by (intro Copy_out_store_words) simp_all
  then show ?thesis
    by (cases host)
      (simp_all add: ChaChaKeystream_FillBufferAligned_def ChaChaKeystream_FillBuffer_def Let_def
        GetEndianness_def store_words_def)
qed

lemma ChaCha_EncryptFast_eq:
  assumes "chacha_ready c" "ch_nbytes c = 0" "64 dvd length data"
  shows "fst (ChaCha_EncryptFast host data c) = fst (ChaCha_Encrypt data c)"
  using chacha_cipher.Aligned_Encrypt[OF assms(1) _ ChaCha_FillBufferAligned_eq assms(3)] assms(2)
  by (simp add: ChaCha_EncryptFast_def chacha_xor_state_def split_beta)

end
