(* ===== verification/CBC.thy ===== *)
theory CBC
  imports Block_Plugin
begin

text \<open>
  \<^verbatim>\<open>impl/mode/cbc.c\<close>. The data is in a memory, a list of bytes, and the operations are
  given the offsets of the output and of the input, so that a call in place (the two equal) is
  covered: decryption saves the ciphertext block in \<^verbatim>\<open>buf2\<close> for this case. The context's own
  buffers are separate allocations and are lists of their own. The final operations return a length
  through an \<^verbatim>\<open>int\<close>, \<open>int_of_size\<close>.
\<close>

record cbc =
  cbc_algo :: "block_algo option"
  cbc_buf :: "byte list"
  cbc_buf2 :: "byte list"
  cbc_iv :: "byte list"
  cbc_blksize :: nat
  cbc_fast :: bool

section \<open>Setting up\<close>

definition cbc_init :: cbc where
  "cbc_init = \<lparr>cbc_algo = None, cbc_buf = [], cbc_buf2 = [], cbc_iv = [], cbc_blksize = 0, cbc_fast = False\<rparr>"

text \<open>\<open>m1\<close>, \<open>m2\<close> and \<open>m3\<close> are what the three allocations return.\<close>

definition cbc_setblock ::
    "byte list option \<Rightarrow> byte list option \<Rightarrow> byte list option \<Rightarrow> block_algo option \<Rightarrow> cbc \<Rightarrow> int \<times> cbc" where
  "cbc_setblock m1 m2 m3 algoctx c =
     (case algoctx of None \<Rightarrow> (- DREW_ERR_INVALID, c)
      | Some a \<Rightarrow>
        let c = c\<lparr>cbc_algo := Some a, cbc_blksize := ba_blksize a\<rparr> in
        (case m1 of None \<Rightarrow> (- ENOMEM, c\<lparr>cbc_buf := []\<rparr>) | Some b1 \<Rightarrow>
         let c = c\<lparr>cbc_buf := b1\<rparr> in
         (case m2 of None \<Rightarrow> (- ENOMEM, c\<lparr>cbc_buf2 := []\<rparr>) | Some b2 \<Rightarrow>
          let c = c\<lparr>cbc_buf2 := b2\<rparr> in
          (case m3 of None \<Rightarrow> (- ENOMEM, c\<lparr>cbc_iv := []\<rparr>) | Some b3 \<Rightarrow>
           let c = c\<lparr>cbc_iv := b3\<rparr> in
           (0, if cbc_blksize c = 16 then c\<lparr>cbc_fast := True\<rparr> else c)))))"

definition cbc_setiv :: "byte list \<Rightarrow> cbc \<Rightarrow> int \<times> cbc" where
  "cbc_setiv iv c =
     (if cbc_blksize c \<noteq> length iv then (- DREW_ERR_INVALID, c)
      else (0, c\<lparr>cbc_buf := put_bytes 0 iv (cbc_buf c), cbc_iv := put_bytes 0 iv (cbc_iv c)\<rparr>))"

definition cbc_reset :: "cbc \<Rightarrow> int \<times> cbc" where
  "cbc_reset c =
     (let (res, c) = cbc_setiv (take (cbc_blksize c) (cbc_iv c)) c
      in if res \<noteq> 0 then (res, c) else (0, c))"

definition cbc_resync :: "cbc \<Rightarrow> int" where
  "cbc_resync c = - DREW_ERR_NOT_IMPL"

definition cbc_setdata :: "byte list \<Rightarrow> cbc \<Rightarrow> int" where
  "cbc_setdata data c = - DREW_ERR_NOT_ALLOWED"

section \<open>Encryption and decryption\<close>

definition cbc_encrypt_step :: "cbc \<Rightarrow> (nat \<Rightarrow> byte list \<Rightarrow> byte list \<Rightarrow> byte list) \<Rightarrow> nat \<Rightarrow> nat \<Rightarrow> nat \<Rightarrow>
    byte list \<times> byte list \<Rightarrow> byte list \<times> byte list" where
  "cbc_encrypt_step c xor2 outp inp k = (\<lambda>(mem, buf).
     let bs = cbc_blksize c;
         buf = xor2 bs buf (slice (inp + bs * k) bs mem);
         buf = ba_encrypt (the (cbc_algo c)) buf
     in (put_bytes (outp + bs * k) buf mem, buf))"

definition cbc_encrypt :: "nat \<Rightarrow> nat \<Rightarrow> nat \<Rightarrow> byte list \<Rightarrow> cbc \<Rightarrow> int \<times> byte list \<times> cbc" where
  "cbc_encrypt outp inp len mem c =
     (let bs = cbc_blksize c
      in if len mod bs \<noteq> 0 then (- DREW_ERR_INVALID, mem, c)
         else let (mem, buf) = fold (cbc_encrypt_step c (\<lambda>n a b. xor_buffers2 a b n) outp inp)
                    [0..<len div bs] (mem, cbc_buf c)
              in (0, mem, c\<lparr>cbc_buf := buf\<rparr>))"

definition cbc_encryptfast :: "nat \<Rightarrow> nat \<Rightarrow> nat \<Rightarrow> byte list \<Rightarrow> cbc \<Rightarrow> int \<times> byte list \<times> cbc" where
  "cbc_encryptfast outp inp len mem c =
     (let bs = cbc_blksize c;
          (mem, buf) = fold (cbc_encrypt_step c (\<lambda>n a b. xor_aligned2 a b n) outp inp)
            [0..<len div bs] (mem, cbc_buf c)
      in (0, mem, c\<lparr>cbc_buf := buf\<rparr>))"

definition cbc_decrypt_step :: "cbc \<Rightarrow> nat \<Rightarrow> nat \<Rightarrow> nat \<Rightarrow>
    byte list \<times> byte list \<times> byte list \<Rightarrow> byte list \<times> byte list \<times> byte list" where
  "cbc_decrypt_step c outp inp k = (\<lambda>(mem, buf, buf2).
     let bs = cbc_blksize c;
         outp = outp + bs * k;
         inp = inp + bs * k;
         buf2 = put_bytes 0 (slice inp bs mem) buf2;
         mem = put_bytes outp (ba_decrypt (the (cbc_algo c)) (slice inp bs mem)) mem;
         mem = put_bytes outp (xor_buffers2 (slice outp bs mem) buf bs) mem;
         buf = put_bytes 0 (slice 0 bs buf2) buf
     in (mem, buf, buf2))"

definition cbc_decrypt_loop :: "nat \<Rightarrow> nat \<Rightarrow> nat \<Rightarrow> byte list \<Rightarrow> cbc \<Rightarrow> int \<times> byte list \<times> cbc" where
  "cbc_decrypt_loop outp inp len mem c =
     (let (mem, buf, buf2) = fold (cbc_decrypt_step c outp inp) [0..<len div cbc_blksize c]
            (mem, cbc_buf c, cbc_buf2 c)
      in (0, mem, c\<lparr>cbc_buf := buf, cbc_buf2 := buf2\<rparr>))"

definition cbc_decrypt :: "nat \<Rightarrow> nat \<Rightarrow> nat \<Rightarrow> byte list \<Rightarrow> cbc \<Rightarrow> int \<times> byte list \<times> cbc" where
  "cbc_decrypt outp inp len mem c =
     (if len mod cbc_blksize c \<noteq> 0 then (- DREW_ERR_INVALID, mem, c)
      else cbc_decrypt_loop outp inp len mem c)"

definition cbc_decryptfast :: "nat \<Rightarrow> nat \<Rightarrow> nat \<Rightarrow> byte list \<Rightarrow> cbc \<Rightarrow> int \<times> byte list \<times> cbc" where
  "cbc_decryptfast outp inp len mem c = cbc_decrypt_loop outp inp len mem c"

text \<open>The final operations return the length, whatever the operation they call returned.\<close>

definition cbc_encryptfinal :: "nat \<Rightarrow> nat \<Rightarrow> nat \<Rightarrow> byte list \<Rightarrow> cbc \<Rightarrow> int \<times> byte list \<times> cbc" where
  "cbc_encryptfinal outp inp inlen mem c =
     (let (_, mem, c) = cbc_encrypt outp inp inlen mem c in (int_of_size inlen, mem, c))"

definition cbc_decryptfinal :: "nat \<Rightarrow> nat \<Rightarrow> nat \<Rightarrow> byte list \<Rightarrow> cbc \<Rightarrow> int \<times> byte list \<times> cbc" where
  "cbc_decryptfinal outp inp inlen mem c =
     (let (_, mem, c) = cbc_decrypt outp inp inlen mem c in (int_of_size inlen, mem, c))"

section \<open>The mode\<close>

fun cbc_enc :: "(byte list \<Rightarrow> byte list) \<Rightarrow> byte list \<Rightarrow> byte list list \<Rightarrow> byte list list" where
  "cbc_enc E v [] = []"
| "cbc_enc E v (p # ps) = (let x = E (xor_bytes v p) in x # cbc_enc E x ps)"

fun cbc_dec :: "(byte list \<Rightarrow> byte list) \<Rightarrow> byte list \<Rightarrow> byte list list \<Rightarrow> byte list list" where
  "cbc_dec D v [] = []"
| "cbc_dec D v (x # xs) = xor_bytes (D x) v # cbc_dec D x xs"

lemma length_cbc_enc [simp]: "length (cbc_enc E v ps) = length ps"
  by (induction E v ps rule: cbc_enc.induct) (simp_all add: Let_def)

lemma length_cbc_dec [simp]: "length (cbc_dec D v xs) = length xs"
  by (induction D v xs rule: cbc_dec.induct) simp_all

lemma cbc_enc_append: "cbc_enc E v (ps @ qs) = (let xs = cbc_enc E v ps in xs @ cbc_enc E (last (v # xs)) qs)"
  by (induction E v ps rule: cbc_enc.induct) (simp_all add: Let_def)

lemma cbc_dec_append: "cbc_dec D v (xs @ ys) = cbc_dec D v xs @ cbc_dec D (last (v # xs)) ys"
  by (induction D v xs rule: cbc_dec.induct) simp_all

lemma cbc_dec_enc:
  assumes "\<And>b. length b = n \<Longrightarrow> length (E b) = n \<and> D (E b) = b"
  shows "length v = n \<Longrightarrow> \<forall>p\<in>set ps. length p = n \<Longrightarrow> cbc_dec D v (cbc_enc E v ps) = ps"
proof (induction ps arbitrary: v)
  case (Cons p ps)
  have x: "length (E (xor_bytes v p)) = n" "D (E (xor_bytes v p)) = xor_bytes v p"
    using assms[of "xor_bytes v p"] Cons.prems by simp_all
  moreover have "xor_bytes (xor_bytes v p) v = p"
    using xor_bytes_twice[of p v] Cons.prems by (simp add: xor_bytes_commute)
  ultimately show ?case using Cons by (simp add: Let_def)
qed simp

section \<open>The loops\<close>

definition no_overlap :: "nat \<Rightarrow> nat \<Rightarrow> nat \<Rightarrow> nat \<Rightarrow> bool" where
  "no_overlap outp inp len n \<longleftrightarrow> outp + len \<le> n \<and> inp + len \<le> n \<and>
     (outp = inp \<or> outp + len \<le> inp \<or> inp + len \<le> outp)"

text \<open>The input block \<open>k\<close> is still there after \<open>k\<close> blocks have been written.\<close>

lemma slice_input_later:
  assumes "no_overlap outp inp (bs * n) (length mem)" "k < n" "length xs = bs * k"
  shows "slice (inp + bs * k) bs (put_bytes outp xs mem) = slice (inp + bs * k) bs mem"
proof (rule slice_put_disjoint)
  have le: "bs * k + bs \<le> bs * n" using assms(2) mult_le_mono2[of "Suc k" n bs] by simp
  then show "outp + length xs \<le> length mem" using assms by (simp add: no_overlap_def)
  show "outp + length xs \<le> inp + bs * k \<or> inp + bs * k + bs \<le> outp"
    using assms le by (auto simp: no_overlap_def)
qed

lemma take_Suc_slice: "take (Suc k) (map f [0..<n]) = take k (map f [0..<n]) @ (if k < n then [f k] else [])"
  by (simp add: take_Suc_conv_app_nth take_map)

lemma cbc_enc_last: "k < length ps \<Longrightarrow> cbc_enc E v (take (Suc k) ps)
   = (let xs = cbc_enc E v (take k ps) in xs @ [E (xor_bytes (last (v # xs)) (ps ! k))])"
  by (simp add: take_Suc_conv_app_nth cbc_enc_append Let_def)

lemma cbc_dec_last: "k < length xs \<Longrightarrow> cbc_dec D v (take (Suc k) xs)
   = cbc_dec D v (take k xs) @ [xor_bytes (D (xs ! k)) (last (v # take k xs))]"
  by (simp add: take_Suc_conv_app_nth cbc_dec_append)

lemma cbc_enc_sizes:
  "(\<And>b. length b = n \<Longrightarrow> length (E b) = n) \<Longrightarrow> length v = n \<Longrightarrow> \<forall>p\<in>set ps. length p = n \<Longrightarrow>
   \<forall>x\<in>set (cbc_enc E v ps). length x = n"
proof (induction ps arbitrary: v)
  case (Cons p ps)
  then have "length (E (xor_bytes v p)) = n" by simp
  with Cons.IH[OF Cons.prems(1) this] Cons.prems(3) show ?case by (simp add: Let_def)
qed simp

lemma cbc_dec_sizes:
  "(\<And>b. length b = n \<Longrightarrow> length (D b) = n) \<Longrightarrow> length v = n \<Longrightarrow> \<forall>p\<in>set xs. length p = n \<Longrightarrow>
   \<forall>x\<in>set (cbc_dec D v xs). length x = n"
proof (induction xs arbitrary: v)
  case (Cons x xs)
  then have "length x = n" "\<forall>p\<in>set xs. length p = n" by simp_all
  from Cons.IH[OF Cons.prems(1) this] Cons.prems(1,2) \<open>length x = n\<close> show ?case by simp
qed simp

lemma last_sizes: "length v = n \<Longrightarrow> \<forall>x\<in>set xs. length x = n \<Longrightarrow> length (last (v # xs)) = n"
  by (cases xs rule: rev_cases) simp_all

definition cbc_blocks :: "nat \<Rightarrow> nat \<Rightarrow> nat \<Rightarrow> byte list \<Rightarrow> byte list list" where
  "cbc_blocks inp bs n mem = map (\<lambda>k. slice (inp + bs * k) bs mem) [0..<n]"

lemma length_cbc_blocks [simp]: "length (cbc_blocks inp bs n mem) = n"
  by (simp add: cbc_blocks_def)

lemma cbc_blocks_sizes: "inp + bs * n \<le> length mem \<Longrightarrow> \<forall>p\<in>set (cbc_blocks inp bs n mem). length p = bs"
proof -
  assume a: "inp + bs * n \<le> length mem"
  have "bs * k + bs \<le> bs * n" if "k < n" for k
    using that mult_le_mono2[of "Suc k" n bs] by simp
  then show ?thesis using a by (fastforce simp: cbc_blocks_def min_def)
qed

lemma cbc_encrypt_fold:
  assumes c: "cbc_algo c = Some a" "good_algo a" "cbc_blksize c = ba_blksize a"
    and buf: "length buf = ba_blksize a"
    and xor2: "\<And>x y. length x = ba_blksize a \<Longrightarrow> length y = ba_blksize a \<Longrightarrow>
      xor2 (ba_blksize a) x y = xor_bytes x y"
    and no: "no_overlap outp inp (ba_blksize a * n) (length mem)"
  shows "m \<le> n \<Longrightarrow> fold (cbc_encrypt_step c xor2 outp inp) [0..<m] (mem, buf)
     = (let xs = cbc_enc (ba_encrypt a) buf (take m (cbc_blocks inp (ba_blksize a) n mem))
        in (put_bytes outp (concat xs) mem, last (buf # xs)))"
proof (induction m)
  case (Suc m)
  let ?bs = "ba_blksize a" and ?E = "ba_encrypt a"
  let ?P = "cbc_blocks inp ?bs n mem"
  let ?xs = "cbc_enc ?E buf (take m ?P)"
  let ?b = "?E (xor_bytes (last (buf # ?xs)) (?P ! m))"
  have sizes: "\<forall>p\<in>set ?P. length p = ?bs"
    using no by (intro cbc_blocks_sizes) (simp add: no_overlap_def)
  have Pm: "?P ! m = slice (inp + ?bs * m) ?bs mem" "length (?P ! m) = ?bs"
    using Suc.prems sizes by (auto simp: cbc_blocks_def)
  have xs: "\<forall>x\<in>set ?xs. length x = ?bs"
    by (rule cbc_enc_sizes[OF good_algo_length[OF c(2)] buf]) (use sizes in \<open>auto dest: in_set_takeD\<close>)
  have len: "length (concat ?xs) = ?bs * m" using length_concat_blocks[OF xs] Suc.prems by simp
  have lenb: "length ?b = ?bs"
    using last_sizes[OF buf xs] Pm(2) by (intro good_algo_length[OF c(2)]) simp
  have inp: "slice (inp + ?bs * m) ?bs (put_bytes outp (concat ?xs) mem) = ?P ! m"
    unfolding Pm using no Suc.prems len by (intro slice_input_later) auto
  have fit: "outp + ?bs * m + ?bs \<le> length mem"
    using no Suc.prems mult_le_mono2[of "Suc m" n ?bs] by (simp add: no_overlap_def)
  have "fold (cbc_encrypt_step c xor2 outp inp) [0..<Suc m] (mem, buf)
      = cbc_encrypt_step c xor2 outp inp m (put_bytes outp (concat ?xs) mem, last (buf # ?xs))"
    using Suc by (simp add: Let_def)
  also have "\<dots> = (put_bytes (outp + ?bs * m) ?b (put_bytes outp (concat ?xs) mem), ?b)"
    using c inp last_sizes[OF buf xs] Pm(2) by (simp add: cbc_encrypt_step_def Let_def xor2)
  also have "\<dots> = (put_bytes outp (concat (?xs @ [?b])) mem, ?b)"
    using put_bytes_adjacent[of outp "concat ?xs" ?b mem] len lenb fit by simp
  finally show ?case
    using Suc.prems by (simp add: cbc_enc_last Let_def)
qed simp

lemma put_bytes_all: "length xs = length buf \<Longrightarrow> put_bytes 0 xs buf = xs"
  by (simp add: put_bytes_def)

lemma slice_all: "length xs = n \<Longrightarrow> slice 0 n xs = xs"
  by (simp add: slice_def)

lemma cbc_decrypt_fold:
  assumes c: "cbc_algo c = Some a" "good_algo a" "cbc_blksize c = ba_blksize a"
    and buf: "length buf = ba_blksize a" "length buf2 = ba_blksize a"
    and no: "no_overlap outp inp (ba_blksize a * n) (length mem)"
  defines "P \<equiv> cbc_blocks inp (ba_blksize a) n mem"
  shows "m \<le> n \<Longrightarrow> fold (cbc_decrypt_step c outp inp) [0..<m] (mem, buf, buf2)
     = (put_bytes outp (concat (cbc_dec (ba_decrypt a) buf (take m P))) mem,
        last (buf # take m P), last (buf2 # take m P))"
proof (induction m)
  case (Suc m)
  let ?bs = "ba_blksize a" and ?D = "ba_decrypt a"
  let ?v = "last (buf # take m P)" and ?v2 = "last (buf2 # take m P)"
  let ?xs = "cbc_dec ?D buf (take m P)"
  let ?b = "xor_bytes (?D (P ! m)) ?v"
  have lenD: "\<And>b. length b = ?bs \<Longrightarrow> length (?D b) = ?bs" using c(2) by (simp add: good_algo_def)
  have sizes: "\<forall>p\<in>set P. length p = ?bs"
    unfolding P_def using no by (intro cbc_blocks_sizes) (simp add: no_overlap_def)
  then have pre: "\<forall>p\<in>set (take m P). length p = ?bs" by (auto dest: in_set_takeD)
  have lenP: "length P = n" by (simp add: P_def)
  have Pm: "P ! m = slice (inp + ?bs * m) ?bs mem" "length (P ! m) = ?bs"
    using Suc.prems sizes lenP by (auto simp: P_def cbc_blocks_def)
  have len: "length (concat ?xs) = ?bs * m"
    using length_concat_blocks[OF cbc_dec_sizes[OF lenD buf(1) pre]] Suc.prems lenP by simp
  have v: "length ?v = ?bs" "length ?v2 = ?bs" by (rule last_sizes[OF _ pre]; rule buf)+
  have lenb: "length (?D (P ! m)) = ?bs" "length ?b = ?bs" using lenD Pm(2) v by simp_all
  have inp: "slice (inp + ?bs * m) ?bs (put_bytes outp (concat ?xs) mem) = P ! m"
    unfolding Pm using no Suc.prems len by (intro slice_input_later) auto
  have fit: "outp + ?bs * m + ?bs \<le> length mem"
    using no Suc.prems mult_le_mono2[of "Suc m" n ?bs] by (simp add: no_overlap_def)
  let ?M = "put_bytes outp (concat ?xs) mem"
  have lenM: "length ?M = length mem" using len fit by simp
  have "fold (cbc_decrypt_step c outp inp) [0..<Suc m] (mem, buf, buf2)
      = cbc_decrypt_step c outp inp m (?M, ?v, ?v2)"
    using Suc by simp
  also have "\<dots> = (put_bytes (outp + ?bs * m) ?b ?M, P ! m, P ! m)"
    using c inp v Pm(2) lenb lenM fit
    by (simp add: cbc_decrypt_step_def Let_def put_bytes_all slice_all slice_put_same xor_buffers2_block
        put_bytes_again)
  also have "\<dots> = (put_bytes outp (concat (?xs @ [?b])) mem, P ! m, P ! m)"
    using put_bytes_adjacent[of outp "concat ?xs" ?b mem] len lenb fit by simp
  finally show ?case
    using Suc.prems lenP by (simp add: cbc_dec_append take_Suc_conv_app_nth)
qed simp

section \<open>The operations\<close>

text \<open>A context after \<^verbatim>\<open>setblock\<close> and \<^verbatim>\<open>setiv\<close>.\<close>

definition cbc_ready :: "cbc \<Rightarrow> block_algo \<Rightarrow> bool" where
  "cbc_ready c a \<longleftrightarrow> cbc_algo c = Some a \<and> good_algo a \<and> cbc_blksize c = ba_blksize a \<and>
     length (cbc_buf c) = ba_blksize a \<and> length (cbc_buf2 c) = ba_blksize a \<and>
     length (cbc_iv c) = ba_blksize a \<and> (cbc_fast c \<longrightarrow> ba_blksize a = 16)"

lemma cbc_setup:
  assumes "good_algo a" "length b1 = ba_blksize a" "length b2 = ba_blksize a" "length b3 = ba_blksize a"
    and "length iv = ba_blksize a"
  shows "\<exists>c'. cbc_setiv iv (snd (cbc_setblock (Some b1) (Some b2) (Some b3) (Some a) cbc_init)) = (0, c')
     \<and> cbc_ready c' a \<and> cbc_buf c' = iv \<and> cbc_iv c' = iv"
  using assms by (auto simp: cbc_setiv_def cbc_setblock_def cbc_init_def cbc_ready_def put_bytes_all Let_def)

lemma cbc_encrypt_mode:
  assumes c: "cbc_ready c a" and n: "len = ba_blksize a * n" and no: "no_overlap outp inp len (length mem)"
  shows "cbc_encrypt outp inp len mem c =
     (let xs = cbc_enc (ba_encrypt a) (cbc_buf c) (cbc_blocks inp (ba_blksize a) n mem)
      in (0, put_bytes outp (concat xs) mem, c\<lparr>cbc_buf := last (cbc_buf c # xs)\<rparr>))"
proof -
  have pos: "0 < ba_blksize a" using c by (simp add: cbc_ready_def good_algo_def)
  then show ?thesis
    using cbc_encrypt_fold[of c a "cbc_buf c" "\<lambda>n a b. xor_buffers2 a b n" outp inp n mem n] c no n
    by (simp add: cbc_encrypt_def cbc_ready_def xor_buffers2_block Let_def)
qed

lemma cbc_encryptfast_mode:
  assumes c: "cbc_ready c a" and n: "len = ba_blksize a * n" and no: "no_overlap outp inp len (length mem)"
    and sz: "ba_blksize a = 16"
  shows "cbc_encryptfast outp inp len mem c = cbc_encrypt outp inp len mem c"
proof -
  have "cbc_encryptfast outp inp len mem c =
     (let xs = cbc_enc (ba_encrypt a) (cbc_buf c) (cbc_blocks inp (ba_blksize a) n mem)
      in (0, put_bytes outp (concat xs) mem, c\<lparr>cbc_buf := last (cbc_buf c # xs)\<rparr>))"
    using cbc_encrypt_fold[of c a "cbc_buf c" "\<lambda>n a b. xor_aligned2 a b n" outp inp n mem n] c no n sz
    by (simp add: cbc_encryptfast_def cbc_ready_def xor_aligned2_def xor_buffers2_block Let_def)
  then show ?thesis using cbc_encrypt_mode[OF c n no] by simp
qed

lemma cbc_decrypt_mode:
  assumes c: "cbc_ready c a" and n: "len = ba_blksize a * n" and no: "no_overlap outp inp len (length mem)"
  defines "P \<equiv> cbc_blocks inp (ba_blksize a) n mem"
  shows "cbc_decrypt outp inp len mem c =
     (0, put_bytes outp (concat (cbc_dec (ba_decrypt a) (cbc_buf c) P)) mem,
      c\<lparr>cbc_buf := last (cbc_buf c # P), cbc_buf2 := last (cbc_buf2 c # P)\<rparr>)"
proof -
  have pos: "0 < ba_blksize a" using c by (simp add: cbc_ready_def good_algo_def)
  then show ?thesis
    using cbc_decrypt_fold[of c a "cbc_buf c" "cbc_buf2 c" outp inp n mem n] c no n
    by (simp add: cbc_decrypt_def cbc_decrypt_loop_def cbc_ready_def P_def Let_def)
qed

lemma cbc_decryptfast_mode:
  "len mod cbc_blksize c = 0 \<Longrightarrow> cbc_decryptfast outp inp len mem c = cbc_decrypt outp inp len mem c"
  by (simp add: cbc_decryptfast_def cbc_decrypt_def)

lemma cbc_partial_block:
  assumes "len mod cbc_blksize c \<noteq> 0"
  shows "cbc_encrypt outp inp len mem c = (- DREW_ERR_INVALID, mem, c)"
    and "cbc_decrypt outp inp len mem c = (- DREW_ERR_INVALID, mem, c)"
    and "cbc_encryptfinal outp inp len mem c = (int_of_size len, mem, c)"
    and "cbc_decryptfinal outp inp len mem c = (int_of_size len, mem, c)"
  using assms by (simp_all add: cbc_encrypt_def cbc_decrypt_def cbc_encryptfinal_def cbc_decryptfinal_def)

text \<open>What the final operations return says nothing of that: it is the length, through an \<^verbatim>\<open>int\<close>.\<close>

lemma cbc_final_result:
  "fst (cbc_encryptfinal outp inp len mem c) = int_of_size len"
  "fst (cbc_decryptfinal outp inp len mem c) = int_of_size len"
  by (simp_all add: cbc_encryptfinal_def cbc_decryptfinal_def split: prod.splits)

lemma cbc_final_mode:
  assumes "cbc_ready c a" "len = ba_blksize a * n" "no_overlap outp inp len (length mem)"
  shows "snd (cbc_encryptfinal outp inp len mem c) = snd (cbc_encrypt outp inp len mem c)"
    and "fst (snd (cbc_encryptfinal outp inp len mem c)) =
      put_bytes outp (concat (cbc_enc (ba_encrypt a) (cbc_buf c) (cbc_blocks inp (ba_blksize a) n mem))) mem"
    and "snd (cbc_decryptfinal outp inp len mem c) = snd (cbc_decrypt outp inp len mem c)"
    and "fst (snd (cbc_decryptfinal outp inp len mem c)) =
      put_bytes outp (concat (cbc_dec (ba_decrypt a) (cbc_buf c) (cbc_blocks inp (ba_blksize a) n mem))) mem"
  using cbc_encrypt_mode[OF assms] cbc_decrypt_mode[OF assms]
  by (simp_all add: cbc_encryptfinal_def cbc_decryptfinal_def Let_def)

text \<open>What is written is read back: the blocks of the output.\<close>

lemma cbc_blocks_put:
  assumes "\<forall>x\<in>set xs. length x = bs" "length xs = n" "0 < bs" "outp + bs * n \<le> length mem"
  shows "cbc_blocks outp bs n (put_bytes outp (concat xs) mem) = xs"
proof (rule nth_equalityI)
  show "length (cbc_blocks outp bs n (put_bytes outp (concat xs) mem)) = length xs" using assms by simp
  fix k assume "k < length (cbc_blocks outp bs n (put_bytes outp (concat xs) mem))"
  then have k: "k < n" by simp
  have len: "length (concat xs) = bs * n" using assms length_concat_blocks by metis
  have le: "bs * k + bs \<le> bs * n" using k mult_le_mono2[of "Suc k" n bs] by simp
  have "slice (outp + bs * k) bs (put_bytes outp (concat xs) mem) = take bs (drop (bs * k) (concat xs))"
    using len le assms(4) by (simp add: slice_def put_bytes_def)
  also have "\<dots> = chunks bs (concat xs) ! k"
    using len k assms(3) by (intro nth_chunks[symmetric]) simp
  also have "\<dots> = xs ! k" using chunks_concat[OF assms(1,3)] by simp
  finally show "cbc_blocks outp bs n (put_bytes outp (concat xs) mem) ! k = xs ! k"
    using k by (simp add: cbc_blocks_def)
qed

lemma concat_cbc_blocks:
  assumes "0 < bs" "inp + bs * n \<le> length mem"
  shows "concat (cbc_blocks inp bs n mem) = slice inp (bs * n) mem"
proof -
  let ?s = "slice inp (bs * n) mem"
  have "chunks bs (take (bs * n) ?s) = map (\<lambda>k. take bs (drop (bs * k) ?s)) [0..<n]"
    using assms by (intro chunks_upt) simp_all
  moreover have "take bs (drop (bs * k) ?s) = slice (inp + bs * k) bs mem" if "k < n" for k
  proof -
    have "bs * k + bs \<le> bs * n" using that mult_le_mono2[of "Suc k" n bs] by simp
    then show ?thesis by (simp add: slice_def drop_take min_def add.commute)
  qed
  ultimately have "chunks bs ?s = cbc_blocks inp bs n mem"
    by (simp add: cbc_blocks_def slice_def)
  then show ?thesis using assms concat_chunks[of bs ?s] by simp
qed

lemma cbc_round_trip:
  assumes c: "cbc_ready c a" and n: "len = ba_blksize a * n"
    and enc: "no_overlap x inp len (length mem)" and dec: "no_overlap outp x len (length mem)"
  obtains mem' c' mem'' c'' where "cbc_encrypt x inp len mem c = (0, mem', c')"
    "cbc_decrypt outp x len mem' c = (0, mem'', c'')" "slice outp len mem'' = slice inp len mem"
proof -
  let ?bs = "ba_blksize a" and ?P = "cbc_blocks inp (ba_blksize a) n mem"
  let ?xs = "cbc_enc (ba_encrypt a) (cbc_buf c) ?P"
  have a: "good_algo a" "0 < ?bs" "length (cbc_buf c) = ?bs" using c by (simp_all add: cbc_ready_def good_algo_def)
  have P: "\<forall>p\<in>set ?P. length p = ?bs" using enc n by (intro cbc_blocks_sizes) (simp add: no_overlap_def)
  have xs: "\<forall>x\<in>set ?xs. length x = ?bs" by (rule cbc_enc_sizes[OF good_algo_length[OF a(1)] a(3) P])
  have len: "length (concat ?xs) = len" using length_concat_blocks[OF xs] n by simp
  let ?m' = "put_bytes x (concat ?xs) mem"
  have lm: "length ?m' = length mem" using len enc by (simp add: no_overlap_def)
  have "cbc_blocks x ?bs n ?m' = ?xs"
    using cbc_blocks_put[OF xs _ a(2), of n x mem] enc n by (simp add: no_overlap_def)
  moreover have "cbc_dec (ba_decrypt a) (cbc_buf c) ?xs = ?P"
    by (rule cbc_dec_enc[OF _ a(3) P]) (use a(1) in \<open>simp add: good_algo_def\<close>)
  ultimately have d: "\<exists>c''. cbc_decrypt outp x len ?m' c = (0, put_bytes outp (concat ?P) ?m', c'')"
    using cbc_decrypt_mode[OF c n, of outp x ?m'] dec lm by simp
  have P': "concat ?P = slice inp len mem"
    using concat_cbc_blocks[of ?bs inp n mem] a(2) enc n by (simp add: no_overlap_def)
  have "inp + len \<le> length mem" "outp + len \<le> length ?m'"
    using enc dec lm by (simp_all add: no_overlap_def)
  moreover from this(1) have "length (slice inp len mem) = len" by simp
  ultimately have "slice outp len (put_bytes outp (concat ?P) ?m') = slice inp len mem"
    unfolding P' by (intro slice_put_same) simp_all
  then show ?thesis using that cbc_encrypt_mode[OF c n enc] d by (auto simp: Let_def)
qed

end
