(* ===== verification/OFB_CTR.thy ===== *)
theory OFB_CTR
  imports Block_Plugin Keystream
begin

text \<open>
  \<^verbatim>\<open>impl/mode/ofb.c\<close> and \<^verbatim>\<open>impl/mode/ctr.cc\<close>, the modes that turn a block cipher into
  a stream cipher. \<^verbatim>\<open>boff\<close> is the offset of the first unused byte of \<^verbatim>\<open>buf\<close>, 0 when there
  is none. Both are instances of the contract of a stream cipher on \<^verbatim>\<open>CopyAndXor\<close>, though they
  do not call it; the aligned operations are compared with the plain ones.
\<close>

section \<open>OFB\<close>

record ofb =
  ofb_algo :: "block_algo option"
  ofb_buf :: "byte list"
  ofb_iv :: "byte list"
  ofb_blksize :: nat
  ofb_boff :: nat
  ofb_chunks :: nat
  ofb_fast :: bool

text \<open>Positive, unlike the other error returns.\<close>

definition ofb_setblock :: "block_algo option \<Rightarrow> ofb \<Rightarrow> int \<times> ofb" where
  "ofb_setblock algoctx c =
     (case algoctx of None \<Rightarrow> (DREW_ERR_INVALID, c)
      | Some a \<Rightarrow>
        let c = c\<lparr>ofb_algo := Some a, ofb_blksize := ba_blksize a\<rparr> in
        (0, if ofb_blksize c = 8 \<or> ofb_blksize c = 16
            then c\<lparr>ofb_chunks := DREW_MODE_ALIGNMENT div ofb_blksize c, ofb_fast := True\<rparr> else c))"

definition ofb_setiv :: "byte list \<Rightarrow> ofb \<Rightarrow> int \<times> ofb" where
  "ofb_setiv iv c =
     (if ofb_blksize c \<noteq> length iv then (- DREW_ERR_INVALID, c)
      else (0, c\<lparr>ofb_buf := put_bytes 0 iv (ofb_buf c), ofb_iv := put_bytes 0 iv (ofb_iv c)\<rparr>))"

definition ofb_reset :: "ofb \<Rightarrow> int \<times> ofb" where
  "ofb_reset c =
     (let (res, c) = ofb_setiv (take (ofb_blksize c) (ofb_iv c)) c
      in if res \<noteq> 0 then (res, c) else (0, c\<lparr>ofb_boff := 0\<rparr>))"

definition ofb_resync :: "ofb \<Rightarrow> int" where
  "ofb_resync c = - DREW_ERR_MORE_INFO"

definition ofb_setdata :: "byte list \<Rightarrow> ofb \<Rightarrow> int" where
  "ofb_setdata data c = - DREW_ERR_NOT_ALLOWED"

text \<open>\<^verbatim>\<open>encrypt(c->algo, c->buf, c->buf)\<close>, and what the buffer then holds for the data.\<close>

definition ofb_block :: "block_algo \<Rightarrow> nat \<Rightarrow> byte list \<Rightarrow> byte list \<times> byte list" where
  "ofb_block a bs buf =
     (let buf = put_bytes 0 (ba_encrypt a (take bs buf)) buf in (take bs buf, buf))"

definition ofb_encrypt :: "byte list \<Rightarrow> ofb \<Rightarrow> byte list \<times> ofb" where
  "ofb_encrypt data c =
     (let a = the (ofb_algo c);
          bs = ofb_blksize c;
          buf = ofb_buf c;
          boff = ofb_boff c;
          (out1, data, boff) =
            (if boff \<noteq> 0
             then let b = min (bs - boff) (length data);
                      out = xor_bytes (take b (drop boff buf)) (take b data);
                      boff = boff + b;
                      boff = (if boff = bs then 0 else boff)
                  in (out, drop b data, boff)
             else ([], data, boff));
          (out2, data, _, buf) = xor_blocks (ofb_block a bs) bs data (take bs buf) buf;
          (out3, buf, boff) =
            (if data \<noteq> []
             then let (ks, buf) = ofb_block a bs buf
                  in (xor_bytes (take (length data) ks) data, buf, length data)
             else ([], buf, boff))
      in (out1 @ out2 @ out3, c\<lparr>ofb_buf := buf, ofb_boff := boff\<rparr>))"

definition ofb_encryptfast :: "byte list \<Rightarrow> ofb \<Rightarrow> byte list \<times> ofb" where
  "ofb_encryptfast data c =
     (let (out, buf) = fold (\<lambda>inp (out, buf).
            let n = ofb_blksize c * ofb_chunks c;
                buf = put_bytes 0 (ba_encryptfast (the (ofb_algo c)) (take n buf) (ofb_chunks c)) buf
            in (out @ xor_aligned buf inp DREW_MODE_ALIGNMENT, buf))
          (chunks DREW_MODE_ALIGNMENT data) ([], ofb_buf c)
      in (out, c\<lparr>ofb_buf := buf\<rparr>))"

definition ofb_final :: "byte list \<Rightarrow> ofb \<Rightarrow> int \<times> byte list \<times> ofb" where
  "ofb_final data c = (let (out, c) = ofb_encrypt data c in (int_of_size (length data), out, c))"

section \<open>CTR\<close>

record ctr =
  ctr_algo :: "block_algo option"
  ctr_ctr :: "byte list"
  ctr_buf :: "byte list"
  ctr_iv :: "byte list"
  ctr_blksize :: nat
  ctr_boff :: nat
  ctr_fast :: bool

definition ctr_setblock :: "block_algo option \<Rightarrow> ctr \<Rightarrow> int \<times> ctr" where
  "ctr_setblock algoctx c =
     (case algoctx of None \<Rightarrow> (DREW_ERR_INVALID, c)
      | Some a \<Rightarrow>
        let c = c\<lparr>ctr_algo := Some a, ctr_blksize := ba_blksize a\<rparr> in
        (0, if ctr_blksize c = 16 then c\<lparr>ctr_fast := True\<rparr> else c))"

definition ctr_setiv :: "byte list \<Rightarrow> ctr \<Rightarrow> int \<times> ctr" where
  "ctr_setiv iv c =
     (if ctr_blksize c \<noteq> length iv then (- DREW_ERR_INVALID, c)
      else (0, c\<lparr>ctr_ctr := put_bytes 0 iv (ctr_ctr c), ctr_buf := put_bytes 0 iv (ctr_buf c),
                 ctr_iv := put_bytes 0 iv (ctr_iv c)\<rparr>))"

definition ctr_reset :: "ctr \<Rightarrow> int \<times> ctr" where
  "ctr_reset c =
     (let (res, c) = ctr_setiv (take (ctr_blksize c) (ctr_iv c)) c
      in if res \<noteq> 0 then (res, c) else (0, c\<lparr>ctr_boff := 0\<rparr>))"

definition ctr_resync :: "ctr \<Rightarrow> int" where
  "ctr_resync c = - DREW_ERR_NOT_IMPL"

definition ctr_setdata :: "byte list \<Rightarrow> ctr \<Rightarrow> int" where
  "ctr_setdata data c = - DREW_ERR_NOT_ALLOWED"

text \<open>The loops that add one with carry, from the last element to the first.\<close>

primrec increment_from :: "nat \<Rightarrow> 'a::len word list \<Rightarrow> 'a word list" where
  "increment_from 0 ctr = ctr"
| "increment_from (Suc i) ctr =
     (let ctr = ctr[i := ctr ! i + 1] in if ctr ! i = 0 then increment_from i ctr else ctr)"

definition increment_counter :: "byte list \<Rightarrow> nat \<Rightarrow> byte list" where
  "increment_counter ctr len = increment_from len ctr"

definition increment_fast :: "u32 list \<Rightarrow> u32 list" where
  "increment_fast ctr = increment_from 4 ctr"

definition ctr_block :: "block_algo \<Rightarrow> nat \<Rightarrow> byte list \<Rightarrow> byte list \<times> byte list" where
  "ctr_block a bs ctr = (ba_encrypt a (take bs ctr), increment_counter ctr bs)"

definition ctr_encrypt :: "byte list \<Rightarrow> ctr \<Rightarrow> byte list \<times> ctr" where
  "ctr_encrypt data c =
     (let a = the (ctr_algo c);
          bs = ctr_blksize c;
          buf = ctr_buf c;
          boff = ctr_boff c;
          (out1, data, boff) =
            (if boff \<noteq> 0
             then let b = min (bs - boff) (length data);
                      out = xor_bytes (take b (drop boff buf)) (take b data);
                      boff = boff + b;
                      boff = (if boff = bs then 0 else boff)
                  in (out, drop b data, boff)
             else ([], data, boff));
          (out2, data, ks, ctr) = xor_blocks (ctr_block a bs) bs data (take bs buf) (ctr_ctr c);
          buf = put_bytes 0 ks buf;
          (out3, buf, ctr, boff) =
            (if data \<noteq> []
             then let (ks, ctr) = ctr_block a bs ctr; buf = put_bytes 0 ks buf
                  in (xor_bytes (take (length data) buf) data, buf, ctr, length data)
             else ([], buf, ctr, boff))
      in (out1 @ out2 @ out3, c\<lparr>ctr_buf := buf, ctr_ctr := ctr, ctr_boff := boff\<rparr>))"

text \<open>
  \<^verbatim>\<open>tmp\<close> has 4096 bytes. The combination with the input runs over all the bytes that are
  left, not only those of this turn; beyond the end of \<^verbatim>\<open>tmp\<close> the result is \<open>None\<close>. The
  inner loop advances \<^verbatim>\<open>in\<close>, and so does the end of the turn. \<open>inp\<close> is the offset of
  \<^verbatim>\<open>in\<close> in the data.
\<close>

function ctr_fast_loop ::
    "block_algo \<Rightarrow> byte list \<Rightarrow> nat \<Rightarrow> nat \<Rightarrow> u32 list \<Rightarrow> (byte list \<times> u32 list) option" where
  "ctr_fast_loop a data len inp ctr =
     (if len = 0 then Some ([], ctr)
      else let x = min 4096 len;
               mul = x div 16;
               blocks = (x + 15) div 16;
               tmp = concat (map (\<lambda>i. store_words Big ((increment_fast ^^ i) ctr)) [0..<blocks]);
               ctr = (increment_fast ^^ blocks) ctr;
               tmp = ba_encryptfast a (take (16 * mul) tmp) mul @ drop (16 * mul) tmp
           in if 4096 < 16 * (len div 16) then None
              else map_option (\<lambda>(out, ctr). (xor_aligned tmp (drop inp data) len @ out, ctr))
                     (ctr_fast_loop a data (len - x) (inp + 16 * blocks + 4096) ctr))"
  by pat_completeness auto
termination
  by (relation "measure (\<lambda>(a, data, len, inp, ctr). len)") auto

declare ctr_fast_loop.simps [simp del]

definition ctr_encryptfast :: "byte list \<Rightarrow> ctr \<Rightarrow> (byte list \<times> ctr) option" where
  "ctr_encryptfast data c =
     map_option (\<lambda>(out, ctr). (out, c\<lparr>ctr_ctr := put_bytes 0 (store_words Big ctr) (ctr_ctr c)\<rparr>))
       (ctr_fast_loop (the (ctr_algo c)) data (length data) 0 (load_words Big (take 16 (ctr_ctr c))))"

definition ctr_encryptfinal :: "byte list \<Rightarrow> ctr \<Rightarrow> int \<times> byte list \<times> ctr" where
  "ctr_encryptfinal data c = (let (out, c) = ctr_encrypt data c in (int_of_size (length data), out, c))"

definition ctr_decryptfinal :: "byte list \<Rightarrow> ctr \<Rightarrow> int \<times> byte list \<times> ctr" where
  "ctr_decryptfinal data c = (let (out, c) = ctr_encrypt data c in (int_of_size (length data), out, c))"

section \<open>They are stream ciphers\<close>

text \<open>Contexts after \<^verbatim>\<open>setblock\<close> and \<^verbatim>\<open>setiv\<close>; the arrays have 32 bytes.\<close>

definition ofb_alloc :: "block_algo \<Rightarrow> ofb \<Rightarrow> bool" where
  "ofb_alloc a c \<longleftrightarrow> ofb_algo c = Some a \<and> good_algo a \<and> ofb_blksize c = ba_blksize a \<and> ba_blksize a \<le> 32 \<and>
     ofb_boff c < ba_blksize a"

definition ofb_ready :: "block_algo \<Rightarrow> ofb \<Rightarrow> bool" where
  "ofb_ready a c \<longleftrightarrow> ofb_alloc a c \<and> length (ofb_buf c) = 32"

definition ofb_xor_state :: "ofb \<Rightarrow> byte list xor_state" where
  "ofb_xor_state c = \<lparr>mbuf = take (ofb_blksize c) (ofb_buf c),
     bufrem = (if ofb_boff c = 0 then 0 else ofb_blksize c - ofb_boff c), obj = ofb_buf c\<rparr>"

definition ofb_ok :: "block_algo \<Rightarrow> byte list \<Rightarrow> bool" where
  "ofb_ok a buf \<longleftrightarrow> good_algo a \<and> ba_blksize a \<le> 32 \<and> length buf = 32"

lemma ofb_keystream:
  assumes "good_algo a"
  shows "keystream (ofb_block a (ba_blksize a)) (ba_blksize a) (ofb_ok a)"
  using assms good_algo_length[OF assms]
  by unfold_locales (auto simp: good_algo_blksize ofb_block_def ofb_ok_def Let_def)

lemma ofb_block_inv:
  assumes "ofb_ok a buf"
  shows "ofb_ok a (snd (ofb_block a (ba_blksize a) buf))"
    and "fst (ofb_block a (ba_blksize a) buf) = take (ba_blksize a) (snd (ofb_block a (ba_blksize a) buf))"
  using assms good_algo_length by (auto simp: ofb_block_def ofb_ok_def Let_def)

text \<open>One call is one call of \<^verbatim>\<open>CopyAndXor\<close>.\<close>

lemma ofb_encrypt_CopyAndXor:
  fixes data :: "byte list"
  assumes "ofb_ready a c"
  defines "r \<equiv> CopyAndXor (ofb_block a (ba_blksize a)) (ba_blksize a) data (ofb_xor_state c)"
  shows "fst (ofb_encrypt data c) = fst r" "ofb_xor_state (snd (ofb_encrypt data c)) = snd r"
    and "ofb_alloc a (snd (ofb_encrypt data c))"
proof -
  let ?bs = "ba_blksize a" and ?B = "ofb_block a (ba_blksize a)"
  have c: "ofb_algo c = Some a" "ofb_blksize c = ?bs" "ofb_boff c < ?bs" "?bs \<le> 32" "0 < ?bs" "good_algo a"
    and ok: "ofb_ok a (ofb_buf c)"
    using assms(1) by (auto simp: ofb_ready_def ofb_alloc_def ofb_ok_def good_algo_def)
  define b where "b = min (?bs - ofb_boff c) (length data)"
  define data2 where "data2 = (if ofb_boff c \<noteq> 0 then drop b data else data)"
  obtain out2 rest m' s' where run: "xor_blocks ?B ?bs data2 (take ?bs (ofb_buf c)) (ofb_buf c) = (out2, rest, m', s')"
    by (cases "xor_blocks ?B ?bs data2 (take ?bs (ofb_buf c)) (ofb_buf c)")
  have inv: "(ofb_ok a s' \<and> m' = take ?bs s') \<and> length rest < ?bs"
    by (rule xor_blocks_inv[where P = "\<lambda>m s. ofb_ok a s \<and> m = take ?bs s", OF _ _ _ run])
      (use ofb_block_inv ok c in auto)
  obtain m3 s3 where last: "?B s' = (m3, s3)" by (cases "?B s'")
  have m3: "m3 = take ?bs s3" using ofb_block_inv(2) inv last by (metis fst_conv snd_conv)
  have pend: "take b (drop (ofb_boff c) (take ?bs (ofb_buf c))) = take b (drop (ofb_boff c) (ofb_buf c))"
    using c by (simp add: drop_take b_def)
  define boff where "boff = (if ofb_boff c \<noteq> 0 then if ofb_boff c + b = ?bs then 0 else ofb_boff c + b else 0)"
  define out1 where "out1 = (if ofb_boff c \<noteq> 0 then xor_bytes (take b (drop (ofb_boff c) (ofb_buf c))) (take b data) else [])"
  have boff: "boff < ?bs" using c by (auto simp: boff_def b_def)
  have enc: "ofb_encrypt data c = (out1 @ out2 @ (if rest = [] then [] else xor_bytes (take (length rest) m3) rest),
      c\<lparr>ofb_buf := if rest = [] then s' else s3, ofb_boff := if rest = [] then boff else length rest\<rparr>)"
    unfolding ofb_encrypt_def Let_def c(1,2) option.sel b_def[symmetric]
    using run last by (cases "ofb_boff c = 0"; cases "rest = []") (simp_all add: data2_def out1_def boff_def)
  have st: "bufrem (ofb_xor_state c) \<noteq> 0 \<longleftrightarrow> ofb_boff c \<noteq> 0" "(?bs - bufrem (ofb_xor_state c)) mod ?bs = ofb_boff c"
    "ofb_boff c \<noteq> 0 \<Longrightarrow> min (bufrem (ofb_xor_state c)) (length data) = b"
    "mbuf (ofb_xor_state c) = take ?bs (ofb_buf c)" "obj (ofb_xor_state c) = ofb_buf c"
    using c by (auto simp: ofb_xor_state_def b_def)
  have r: "r = (out1 @ out2 @ (if rest = [] then [] else xor_bytes (take (length rest) m3) rest),
      \<lparr>mbuf = if rest = [] then m' else m3, bufrem = (?bs - (if rest = [] then boff else length rest)) mod ?bs,
       obj = if rest = [] then s' else s3\<rparr>)"
    unfolding r_def CopyAndXor_def Let_def st(1,2,4,5)
    using run last st(3) pend
    by (cases "ofb_boff c = 0"; cases "rest = []") (simp_all add: data2_def out1_def boff_def)
  show "fst (ofb_encrypt data c) = fst r" by (simp add: enc r)
  show "ofb_xor_state (snd (ofb_encrypt data c)) = snd r"
    using boff inv m3 c by (auto simp: enc r ofb_xor_state_def)
  show "ofb_alloc a (snd (ofb_encrypt data c))"
    using boff inv c by (auto simp: enc ofb_alloc_def)
qed

lemma ofb_stream_cipher:
  assumes "good_algo a"
  shows "stream_cipher (ofb_block a (ba_blksize a)) (ba_blksize a) (ofb_ok a) ofb_encrypt ofb_xor_state
     (ofb_alloc a) (ofb_ready a)"
proof (intro stream_cipher.intro stream_cipher_axioms.intro ofb_keystream[OF assms])
  show "ofb_ready a c = (ofb_alloc a c \<and> ofb_ok a (obj (ofb_xor_state c)) \<and>
      length (mbuf (ofb_xor_state c)) = ba_blksize a \<and> bufrem (ofb_xor_state c) < ba_blksize a)" for c
    by (auto simp: ofb_ready_def ofb_alloc_def ofb_xor_state_def ofb_ok_def)
qed (fact ofb_encrypt_CopyAndXor)+

text \<open>The state is the chain \<open>E(iv)\<close>, \<open>E(E(iv))\<close> and so on.\<close>

lemma ofb_chain:
  fixes n :: nat
  assumes "ofb_ok a buf"
  defines "s \<equiv> fill_state (ofb_block a (ba_blksize a)) n buf"
  shows "take (ba_blksize a) s = (ba_encrypt a ^^ n) (take (ba_blksize a) buf)" and "ofb_ok a s"
proof -
  let ?bs = "ba_blksize a"
  have "keystream (ofb_block a ?bs) ?bs (ofb_ok a)"
    using assms(1) by (intro ofb_keystream) (simp add: ofb_ok_def)
  then have ok: "ofb_ok a (fill_state (ofb_block a ?bs) k buf)" for k
    using keystream.ok_fill_state[of "ofb_block a ?bs" ?bs "ofb_ok a" buf k] assms(1) by blast
  then show "ofb_ok a s" by (simp add: s_def)
  show "take ?bs s = (ba_encrypt a ^^ n) (take ?bs buf)"
    unfolding s_def
  proof (induction n)
    case (Suc n)
    define t where "t = fill_state (ofb_block a ?bs) n buf"
    have t: "good_algo a" "?bs \<le> 32" "length t = 32" using ok[of n] by (simp_all add: t_def ofb_ok_def)
    then have "length (ba_encrypt a (take ?bs t)) = ?bs" by (simp add: good_algo_length)
    then show ?case
      using Suc t unfolding fill_state_Suc t_def[symmetric]
      by (simp add: ofb_block_def Let_def put_bytes_def)
  qed simp
qed

section \<open>The counter\<close>

lemma length_increment_from [simp]: "length (increment_from n ctr) = length ctr"
  by (induction n arbitrary: ctr) (simp_all add: Let_def)

lemma increment_from_drop: "n \<le> i \<Longrightarrow> drop i (increment_from n ctr) = drop i ctr"
  by (induction n arbitrary: ctr) (simp_all add: Let_def)

lemma be_num_take_Suc:
  "n < length ctr \<Longrightarrow>
   be_num (take (Suc n) ctr) = be_num (take n ctr) * 2 ^ LENGTH('a) + unat (ctr ! n :: 'a::len word)"
  by (simp add: take_Suc_conv_app_nth)

text \<open>The number the first \<open>n\<close> elements write goes up by one, modulo its range.\<close>

lemma increment_from_plus_1:
  "n \<le> length ctr \<Longrightarrow>
   be_num (take n (increment_from n ctr)) = (be_num (take n ctr) + 1) mod (2 ^ LENGTH('a)) ^ n"
  for ctr :: "'a::len word list"
proof (induction n arbitrary: ctr)
  case (Suc n)
  let ?B = "2 ^ LENGTH('a) :: nat"
  let ?v = "be_num (take n ctr)" and ?u = "unat (ctr ! n)"
  have bound: "?v < ?B ^ n" using be_num_bound[of "take n ctr"] Suc.prems by simp
  show ?case
  proof (cases "ctr ! n + 1 = 0")
    case True
    then have "ctr ! n = - 1" by (simp add: eq_neg_iff_add_eq_0)
    then have u: "?u + 1 = ?B" by (simp add: unsigned_minus_1_eq_mask mask_eq_exp_minus_1)
    let ?c = "ctr[n := ctr ! n + 1]"
    have "increment_from n ?c ! n = hd (drop n (increment_from n ?c))"
      using Suc.prems by (simp add: hd_drop_conv_nth)
    also have "\<dots> = 0"
      using Suc.prems True by (simp add: increment_from_drop hd_drop_conv_nth)
    finally have "increment_from n ?c ! n = 0" .
    then have "be_num (take (Suc n) (increment_from n ?c)) = (?v + 1) mod ?B ^ n * ?B"
      using Suc.IH[of ?c] Suc.prems by (simp add: be_num_take_Suc)
    also have "\<dots> = ((?v + 1) * ?B) mod (?B ^ n * ?B)" by (simp add: mult_mod_left)
    also have "(?v + 1) * ?B = ?v * ?B + ?u + 1" using u by (simp add: algebra_simps)
    finally show ?thesis using True Suc.prems by (simp add: be_num_take_Suc Let_def mult.commute)
  next
    case False
    then have u: "unat (ctr ! n + 1) = ?u + 1" using unatSuc[of "ctr ! n"] by (simp add: add.commute)
    have "?u + 1 < ?B" by (metis u unsigned_less)
    then have "?v * ?B + ?u + 1 < (?v + 1) * ?B" by (simp add: algebra_simps)
    also have "\<dots> \<le> ?B ^ n * ?B" using bound by (intro mult_right_mono) simp_all
    finally have "(?v * ?B + ?u + 1) mod ?B ^ Suc n = ?v * ?B + ?u + 1" by (simp add: mult.commute)
    then show ?thesis using False u Suc.prems by (simp add: be_num_take_Suc Let_def)
  qed
qed simp

section \<open>CTR is a stream cipher\<close>

definition ctr_alloc :: "block_algo \<Rightarrow> ctr \<Rightarrow> bool" where
  "ctr_alloc a c \<longleftrightarrow> ctr_algo c = Some a \<and> good_algo a \<and> ctr_blksize c = ba_blksize a \<and> ba_blksize a \<le> 32 \<and>
     length (ctr_buf c) = 32 \<and> ctr_boff c < ba_blksize a"

definition ctr_ready :: "block_algo \<Rightarrow> ctr \<Rightarrow> bool" where
  "ctr_ready a c \<longleftrightarrow> ctr_alloc a c \<and> length (ctr_ctr c) = 32"

definition ctr_xor_state :: "ctr \<Rightarrow> byte list xor_state" where
  "ctr_xor_state c = \<lparr>mbuf = take (ctr_blksize c) (ctr_buf c),
     bufrem = (if ctr_boff c = 0 then 0 else ctr_blksize c - ctr_boff c), obj = ctr_ctr c\<rparr>"

lemma ctr_keystream:
  assumes "good_algo a"
  shows "keystream (ctr_block a (ba_blksize a)) (ba_blksize a) (ofb_ok a)"
  using assms good_algo_length[OF assms]
  by unfold_locales (auto simp: good_algo_blksize ctr_block_def ofb_ok_def increment_counter_def)

lemma ctr_block_inv:
  assumes "ofb_ok a buf"
  shows "ofb_ok a (snd (ctr_block a (ba_blksize a) buf))"
    and "length (fst (ctr_block a (ba_blksize a) buf)) = ba_blksize a"
  using assms good_algo_length by (auto simp: ctr_block_def ofb_ok_def increment_counter_def)

lemma ctr_encrypt_CopyAndXor:
  fixes data :: "byte list"
  assumes "ctr_ready a c"
  defines "r \<equiv> CopyAndXor (ctr_block a (ba_blksize a)) (ba_blksize a) data (ctr_xor_state c)"
  shows "fst (ctr_encrypt data c) = fst r" "ctr_xor_state (snd (ctr_encrypt data c)) = snd r"
    and "ctr_alloc a (snd (ctr_encrypt data c))"
proof -
  let ?bs = "ba_blksize a" and ?B = "ctr_block a (ba_blksize a)"
  have c: "ctr_algo c = Some a" "ctr_blksize c = ?bs" "ctr_boff c < ?bs" "?bs \<le> 32" "0 < ?bs" "good_algo a"
    "length (ctr_buf c) = 32" and ok: "ofb_ok a (ctr_ctr c)"
    using assms(1) by (auto simp: ctr_ready_def ctr_alloc_def ofb_ok_def good_algo_def)
  define b where "b = min (?bs - ctr_boff c) (length data)"
  define data2 where "data2 = (if ctr_boff c \<noteq> 0 then drop b data else data)"
  obtain out2 rest m' s' where run: "xor_blocks ?B ?bs data2 (take ?bs (ctr_buf c)) (ctr_ctr c) = (out2, rest, m', s')"
    by (cases "xor_blocks ?B ?bs data2 (take ?bs (ctr_buf c)) (ctr_ctr c)")
  have inv: "(ofb_ok a s' \<and> length m' = ?bs) \<and> length rest < ?bs"
    by (rule xor_blocks_inv[where P = "\<lambda>m s. ofb_ok a s \<and> length m = ?bs", OF _ _ _ run])
      (use ctr_block_inv ok c in auto)
  obtain m3 s3 where last: "?B s' = (m3, s3)" by (cases "?B s'")
  have m3: "length m3 = ?bs" using ctr_block_inv(2) inv last by (metis fst_conv)
  have pend: "take b (drop (ctr_boff c) (take ?bs (ctr_buf c))) = take b (drop (ctr_boff c) (ctr_buf c))"
    using c by (simp add: drop_take b_def)
  define boff where "boff = (if ctr_boff c \<noteq> 0 then if ctr_boff c + b = ?bs then 0 else ctr_boff c + b else 0)"
  define out1 where "out1 = (if ctr_boff c \<noteq> 0 then xor_bytes (take b (drop (ctr_boff c) (ctr_buf c))) (take b data) else [])"
  have boff: "boff < ?bs" using c by (auto simp: boff_def b_def)
  have puts: "take (length rest) (put_bytes 0 m3 (ctr_buf c)) = take (length rest) m3"
    using inv m3 by (simp add: put_bytes_def)
  have enc: "ctr_encrypt data c = (out1 @ out2 @ (if rest = [] then [] else xor_bytes (take (length rest) m3) rest),
      c\<lparr>ctr_buf := put_bytes 0 (if rest = [] then m' else m3) (ctr_buf c),
        ctr_ctr := if rest = [] then s' else s3, ctr_boff := if rest = [] then boff else length rest\<rparr>)"
    unfolding ctr_encrypt_def Let_def c(1,2) option.sel b_def[symmetric]
    using run last inv m3 c(4,7)
    by (cases "ctr_boff c = 0"; cases "rest = []")
      (simp_all add: data2_def out1_def boff_def puts put_bytes_again)
  have st: "bufrem (ctr_xor_state c) \<noteq> 0 \<longleftrightarrow> ctr_boff c \<noteq> 0" "(?bs - bufrem (ctr_xor_state c)) mod ?bs = ctr_boff c"
    "ctr_boff c \<noteq> 0 \<Longrightarrow> min (bufrem (ctr_xor_state c)) (length data) = b"
    "mbuf (ctr_xor_state c) = take ?bs (ctr_buf c)" "obj (ctr_xor_state c) = ctr_ctr c"
    using c by (auto simp: ctr_xor_state_def b_def)
  have r: "r = (out1 @ out2 @ (if rest = [] then [] else xor_bytes (take (length rest) m3) rest),
      \<lparr>mbuf = if rest = [] then m' else m3, bufrem = (?bs - (if rest = [] then boff else length rest)) mod ?bs,
       obj = if rest = [] then s' else s3\<rparr>)"
    unfolding r_def CopyAndXor_def Let_def st(1,2,4,5)
    using run last st(3) pend
    by (cases "ctr_boff c = 0"; cases "rest = []") (simp_all add: data2_def out1_def boff_def)
  show "fst (ctr_encrypt data c) = fst r" by (simp add: enc r)
  show "ctr_xor_state (snd (ctr_encrypt data c)) = snd r"
    using boff inv m3 c by (auto simp: enc r ctr_xor_state_def put_bytes_def)
  show "ctr_alloc a (snd (ctr_encrypt data c))"
    using boff inv c m3 by (auto simp: enc ctr_alloc_def)
qed

lemma ctr_stream_cipher:
  assumes "good_algo a"
  shows "stream_cipher (ctr_block a (ba_blksize a)) (ba_blksize a) (ofb_ok a) ctr_encrypt ctr_xor_state
     (ctr_alloc a) (ctr_ready a)"
proof (intro stream_cipher.intro stream_cipher_axioms.intro ctr_keystream[OF assms])
  show "ctr_ready a c = (ctr_alloc a c \<and> ofb_ok a (obj (ctr_xor_state c)) \<and>
      length (mbuf (ctr_xor_state c)) = ba_blksize a \<and> bufrem (ctr_xor_state c) < ba_blksize a)" for c
    by (auto simp: ctr_ready_def ctr_alloc_def ctr_xor_state_def ofb_ok_def)
qed (fact ctr_encrypt_CopyAndXor)+

text \<open>Block \<open>n\<close> is the encryption of the counter plus \<open>n\<close>.\<close>

lemma ctr_counts:
  fixes n :: nat
  assumes "ofb_ok a ctr"
  defines "s \<equiv> fill_state (ctr_block a (ba_blksize a)) n ctr"
  shows "be_num (take (ba_blksize a) s) = (be_num (take (ba_blksize a) ctr) + n) mod 256 ^ ba_blksize a"
    and "ofb_ok a s"
proof -
  let ?bs = "ba_blksize a"
  have "keystream (ctr_block a ?bs) ?bs (ofb_ok a)"
    using assms(1) by (intro ctr_keystream) (simp add: ofb_ok_def)
  then have ok: "ofb_ok a (fill_state (ctr_block a ?bs) k ctr)" for k
    using keystream.ok_fill_state[of "ctr_block a ?bs" ?bs "ofb_ok a" ctr k] assms(1) by blast
  then show "ofb_ok a s" by (simp add: s_def)
  show "be_num (take ?bs s) = (be_num (take ?bs ctr) + n) mod 256 ^ ?bs"
    unfolding s_def
  proof (induction n)
    case 0
    then show ?case using be_num_bound[of "take ?bs ctr"] assms(1) by (simp add: ofb_ok_def)
  next
    case (Suc n)
    define t where "t = fill_state (ctr_block a ?bs) n ctr"
    have "?bs \<le> length t" using ok[of n] by (simp add: t_def ofb_ok_def)
    then have "be_num (take ?bs (increment_counter t ?bs)) = (be_num (take ?bs t) + 1) mod 256 ^ ?bs"
      using increment_from_plus_1[of ?bs t] by (simp add: increment_counter_def)
    then show ?case
      using Suc unfolding fill_state_Suc t_def[symmetric] by (simp add: ctr_block_def mod_Suc_eq)
  qed
qed

section \<open>The aligned operation of CTR\<close>

lemma increment_fast_counter:
  assumes "length ws = 4"
  shows "store_words Big (increment_fast ws) = increment_counter (store_words Big ws) 16"
proof (rule be_num_inj)
  have len: "length (store_words Big ws) = 16" using assms by (simp add: length_store_words)
  show "length (store_words Big (increment_fast ws)) = length (increment_counter (store_words Big ws) 16)"
    using assms by (simp add: increment_fast_def increment_counter_def length_store_words)
  have "be_num (increment_fast ws) = (be_num ws + 1) mod (2 ^ 32) ^ 4"
    using increment_from_plus_1[of 4 ws] assms by (simp add: increment_fast_def)
  moreover have "be_num (increment_counter (store_words Big ws) 16) = (be_num (store_words Big ws) + 1) mod (2 ^ 8) ^ 16"
    using increment_from_plus_1[of 16 "store_words Big ws"] len by (simp add: increment_counter_def)
  ultimately show "be_num (store_words Big (increment_fast ws)) = be_num (increment_counter (store_words Big ws) 16)"
    by (simp add: be_num_store_words)
qed

lemma increment_from_take:
  "n \<le> m \<Longrightarrow> m \<le> length ctr \<Longrightarrow> take m (increment_from n ctr) = increment_from n (take m ctr)"
  by (induction n arbitrary: ctr) (simp_all add: Let_def take_update_swap)

lemma length_increment_fast [simp]: "length (increment_fast ctr) = length ctr"
  by (simp add: increment_fast_def)

lemma increment_fast_fill_state:
  assumes "length (ctr_ctr c) = 32" "ba_blksize a = 16"
  shows "take 16 (fill_state (ctr_block a 16) n (ctr_ctr c))
     = store_words Big ((increment_fast ^^ n) (load_words Big (take 16 (ctr_ctr c))))"
proof (induction n)
  case 0
  then show ?case using assms by (simp add: store_load_words)
next
  case (Suc n)
  let ?ws = "(increment_fast ^^ n) (load_words Big (take 16 (ctr_ctr c)))"
  define t where "t = fill_state (ctr_block a 16) n (ctr_ctr c)"
  have "length ((increment_fast ^^ n) ws) = length ws" for n ws by (induction n) simp_all
  then have len: "length ?ws = 4" using assms by (simp add: length_load_words)
  have "length t = 32"
    unfolding t_def by (induction n) (simp_all add: assms fill_state_Suc ctr_block_def increment_counter_def del: fill_state.simps(2))
  then have inc: "take 16 (increment_from 16 t) = increment_from 16 (take 16 t)"
    by (simp add: increment_from_take)
  show ?case
    using Suc len inc[symmetric] unfolding fill_state_Suc t_def[symmetric]
    by (simp add: ctr_block_def increment_counter_def increment_fast_counter)
qed

text \<open>Up to 4096 bytes it is the plain operation.\<close>

lemma ctr_encryptfast_short:
  assumes "ctr_ready a c" "ba_blksize a = 16" "ctr_boff c = 0" "16 dvd length data" "length data \<le> 4096"
  shows "map_option fst (ctr_encryptfast data c) = Some (fst (ctr_encrypt data c))"
proof -
  have good: "good_algo a" and c: "ctr_algo c = Some a" "length (ctr_ctr c) = 32"
    using assms(1) by (simp_all add: ctr_ready_def ctr_alloc_def)
  define m where "m = length data div 16"
  have data: "length data = 16 * m" using assms(4) by (simp add: m_def)
  define ws where "ws = (load_words Big (take 16 (ctr_ctr c)) :: u32 list)"
  define blocks where "blocks = map (\<lambda>i. store_words Big ((increment_fast ^^ i) ws)) [0..<m]"
  have "length ((increment_fast ^^ n) ws) = length ws" for n by (induction n) simp_all
  then have sizes: "\<forall>b\<in>set blocks. length b = 16"
    using c(2) by (auto simp: blocks_def length_store_words ws_def length_load_words)
  define ks where "ks = concat (map (ba_encrypt a) blocks)"
  have esizes: "\<forall>b\<in>set (map (ba_encrypt a) blocks). length b = 16"
    using sizes good_algo_length[OF good] assms(2) by auto
  have lenb: "length blocks = m" by (simp add: blocks_def)
  have lenk: "length ks = 16 * m"
    using length_concat_blocks[OF esizes] by (simp add: ks_def lenb)
  have conc: "length (concat blocks) = 16 * m" using length_concat_blocks[OF sizes] by (simp add: lenb)
  have fast: "ba_encryptfast a (concat blocks) m = ks"
    using good assms(2) conc sizes by (simp add: good_algo_def ks_def chunks_concat)
  have out: "map_option fst (ctr_encryptfast data c) = Some (xor_bytes ks data)"
  proof (cases "m = 0")
    case True
    then show ?thesis using data lenk
      by (simp add: ctr_encryptfast_def ctr_fast_loop.simps option.map_comp xor_bytes_def)
  next
    case False
    have up: "(16 * m + 15) div 16 = m" by simp
    show ?thesis
      using False assms(5) data up fast conc lenk c
      unfolding ctr_encryptfast_def ctr_fast_loop.simps[of _ _ "length data"]
      by (simp add: Let_def ws_def[symmetric] blocks_def[symmetric] ctr_fast_loop.simps[of _ _ 0]
          xor_aligned_def xor_buffers_def)
  qed
  have "xor_bytes ks data = fst (ctr_encrypt data c)"
    unfolding stream_cipher.Encrypt_stream[OF ctr_stream_cipher[OF good] assms(1)]
  proof (rule nth_equalityI)
    show "length (xor_bytes ks data) = length (map (\<lambda>i. keystream_byte (ctr_block a (ba_blksize a)) (ba_blksize a)
        (ctr_xor_state c) i XOR data ! i) [0..<length data])" using lenk data by simp
    fix i assume "i < length (xor_bytes ks data)"
    then have i: "i < 16 * m" using lenk data by simp
    then have k: "i div 16 < m" by (simp add: less_mult_imp_div_less mult.commute)
    have "ks ! i = map (ba_encrypt a) blocks ! (i div 16) ! (i mod 16)"
      unfolding ks_def using nth_concat_blocks[OF esizes] i by (simp add: lenb)
    also have "\<dots> = ba_encrypt a (store_words Big ((increment_fast ^^ (i div 16)) ws)) ! (i mod 16)"
      using k by (simp add: blocks_def)
    also have "\<dots> = keystream_byte (ctr_block a 16) 16 (ctr_xor_state c) i"
      using assms(3) increment_fast_fill_state[OF c(2) assms(2), of "i div 16"]
      by (simp add: keystream_byte_def ctr_xor_state_def block_byte_def ws_def ctr_block_def[of a 16 "fill_state _ _ _"])
    finally show "xor_bytes ks data ! i = map (\<lambda>i. keystream_byte (ctr_block a (ba_blksize a)) (ba_blksize a)
        (ctr_xor_state c) i XOR data ! i) [0..<length data] ! i"
      using i lenk data assms(2) by simp
  qed
  then show ?thesis using out by simp
qed

lemma ctr_encryptfast_long:
  "4096 < length data \<Longrightarrow> 16 dvd length data \<Longrightarrow> ctr_encryptfast data c = None"
  by (cases data) (simp_all add: ctr_encryptfast_def ctr_fast_loop.simps[of _ _ "Suc n" for n] Let_def)

section \<open>The aligned operation of OFB\<close>

lemma ofb_fast_fold:
  assumes "ba_blksize a = 16" "ofb_ok a buf" "\<forall>b\<in>set bs. length b = 16"
  shows "fold (\<lambda>inp (out, buf).
            let buf = put_bytes 0 (ba_encryptfast a (take 16 buf) 1) buf
            in (out @ xor_aligned buf inp 16, buf)) bs (out, buf)
     = (\<lambda>(out, m, buf). (out, buf)) (fold (\<lambda>inp (out, m, buf).
            let (m, buf) = ofb_block a 16 buf in (out @ xor_bytes inp m, m, buf)) bs (out, m, buf))"
  using assms(2,3)
proof (induction bs arbitrary: out m buf)
  case (Cons b bs)
  have good: "good_algo a" and buf: "length buf = 32" using Cons.prems(1) by (simp_all add: ofb_ok_def)
  have "chunks 16 (take 16 buf) = [take 16 buf]" using chunks_concat[of "[take 16 buf]" 16] buf by simp
  then have "ba_encryptfast a (take 16 buf) 1 = ba_encrypt a (take 16 buf)"
    using good assms(1) buf by (simp add: good_algo_def)
  moreover have "length (ba_encrypt a (take 16 buf)) = 16"
    using good assms(1) buf by (simp add: good_algo_length)
  moreover have "ofb_ok a (snd (ofb_block a 16 buf))"
    using ofb_block_inv(1)[OF Cons.prems(1)] assms(1) by simp
  ultimately show ?case
    using Cons.prems(2) Cons.IH buf
    by (simp add: ofb_block_def Let_def xor_aligned_def xor_buffers_def put_bytes_def xor_bytes_commute)
qed simp

lemma ofb_encryptfast_16:
  assumes "ofb_ready a c" "ba_blksize a = 16" "ofb_boff c = 0" "ofb_chunks c = 1" "16 dvd length data"
  shows "fst (ofb_encryptfast data c) = fst (ofb_encrypt data c)"
proof -
  have good: "good_algo a" and c: "ofb_algo c = Some a" "ofb_blksize c = 16"
    and ok: "ofb_ok a (ofb_buf c)"
    using assms(1,2) by (simp_all add: ofb_ready_def ofb_alloc_def ofb_ok_def)
  have "fst (ofb_encryptfast data c)
      = fst (CopyAndXorAligned (ofb_block a 16) 16 data (mbuf (ofb_xor_state c), ofb_buf c))"
    using ofb_fast_fold[OF assms(2) ok, of "chunks 16 data" "[]" "mbuf (ofb_xor_state c)"] chunks_sizes[of _ 16 data]
    by (simp add: ofb_encryptfast_def CopyAndXorAligned_def c assms(4) DREW_MODE_ALIGNMENT_def split_beta)
  also have "\<dots> = fst (ofb_encrypt data c)"
    using stream_cipher.Aligned_Encrypt[OF ofb_stream_cipher[OF good] assms(1), of "ofb_block a 16" data]
      assms(2,3,5) by (simp add: ofb_xor_state_def)
  finally show ?thesis .
qed

text \<open>With 8-byte blocks it encrypts both halves of the buffer at once instead of one after the other.\<close>

lemma ofb_encryptfast_8:
  assumes "ofb_ready a c" "ba_blksize a = 8" "ofb_boff c = 0" "ofb_chunks c = 2" "length data = 16"
  shows "fst (ofb_encryptfast data c) = fst (ofb_encrypt data c)
     \<longleftrightarrow> slice 8 8 (ofb_buf c) = ba_encrypt a (take 8 (ofb_buf c))"
proof -
  have good: "good_algo a" and c: "ofb_algo c = Some a" "ofb_blksize c = 8" "length (ofb_buf c) = 32"
    and ok: "ofb_ok a (ofb_buf c)"
    using assms(1,2) by (simp_all add: ofb_ready_def ofb_alloc_def ofb_ok_def)
  let ?E = "ba_encrypt a" and ?u = "take 8 (ofb_buf c)" and ?v = "slice 8 8 (ofb_buf c)"
  have len: "length ?u = 8" "length ?v = 8" using c by simp_all
  have E: "length (?E x) = 8" "ba_decrypt a (?E x) = x" if "length x = 8" for x
    using good that assms(2) by (simp_all add: good_algo_def)
  have split: "take 16 (ofb_buf c) = ?u @ ?v"
    using c take_add[of 8 8 "ofb_buf c"] by (simp add: slice_def)
  have "chunks 8 (?u @ ?v) = [?u, ?v]" using chunks_concat[of "[?u, ?v]" 8] len by simp
  then have fast: "ba_encryptfast a (take 16 (ofb_buf c)) 2 = ?E ?u @ ?E ?v"
    using good assms(2) c by (simp add: good_algo_def split)
  have "chunks 16 data = [data]" using assms(5) chunks_concat[of "[data]" 16] by simp
  then have outf: "fst (ofb_encryptfast data c) = xor_bytes (?E ?u @ ?E ?v) data"
    using fast len E assms(5) c
    by (simp add: ofb_encryptfast_def assms(4) DREW_MODE_ALIGNMENT_def Let_def xor_aligned_def xor_buffers_def
        put_bytes_def)
  have chain: "take 8 (fill_state (ofb_block a 8) n (ofb_buf c)) = (?E ^^ n) ?u" for n
    using ofb_chain(1)[OF ok, of n] assms(2) by simp
  have blk: "block_byte (ofb_block a 8) 8 (ofb_buf c) i = (?E ?u @ ?E (?E ?u)) ! i" if "i < 16" for i
  proof -
    have ok': "ofb_ok a (fill_state (ofb_block a 8) n (ofb_buf c))" for n
      using ofb_chain(2)[OF ok, of n] assms(2) by simp
    have "fst (ofb_block a 8 (fill_state (ofb_block a 8) n (ofb_buf c))) = (?E ^^ Suc n) ?u" for n
      using ofb_block_inv(2)[OF ok'[of n]] chain[of "Suc n"] assms(2) by (simp add: fill_state_Suc del: fill_state.simps)
    then have "block_byte (ofb_block a 8) 8 (ofb_buf c) i = (?E ^^ Suc (i div 8)) ?u ! (i mod 8)"
      by (simp add: block_byte_def)
    moreover have "i div 8 = 0 \<or> i div 8 = 1" using that by auto
    ultimately show ?thesis
      using that E len by (auto simp: nth_append mod_if)
  qed
  have "fst (ofb_encrypt data c) = xor_bytes (?E ?u @ ?E (?E ?u)) data"
    unfolding stream_cipher.Encrypt_stream[OF ofb_stream_cipher[OF good] assms(1)]
    using E len assms(2,3,5) by (intro nth_equalityI) (simp_all add: keystream_byte_def ofb_xor_state_def blk)
  then have "fst (ofb_encryptfast data c) = fst (ofb_encrypt data c) \<longleftrightarrow>
      xor_bytes (?E ?u @ ?E ?v) data = xor_bytes (?E ?u @ ?E (?E ?u)) data" using outf by simp
  also have "\<dots> \<longleftrightarrow> ?E ?u @ ?E ?v = ?E ?u @ ?E (?E ?u)"
  proof -
    have "length (?E ?u @ ?E ?v) = length data" "length (?E ?u @ ?E (?E ?u)) = length data"
      using E len assms(5) by simp_all
    from this[THEN xor_bytes_twice] show ?thesis by metis
  qed
  also have "\<dots> \<longleftrightarrow> ?E ?v = ?E (?E ?u)" by simp
  also have "\<dots> \<longleftrightarrow> ?v = ?E ?u" using E(2)[of ?v] E(2)[of "?E ?u"] E(1) len by metis
  finally show ?thesis .
qed

section \<open>The streams in closed form\<close>

lemma ofb_encrypt_chain:
  assumes "ofb_ready a c" "ofb_boff c = 0"
  shows "fst (ofb_encrypt data c) = map (\<lambda>i. data ! i XOR
     (ba_encrypt a ^^ Suc (i div ba_blksize a)) (take (ba_blksize a) (ofb_buf c)) ! (i mod ba_blksize a)) [0..<length data]"
proof -
  let ?bs = "ba_blksize a" and ?B = "ofb_block a (ba_blksize a)"
  have good: "good_algo a" and ok: "ofb_ok a (ofb_buf c)"
    using assms(1) by (simp_all add: ofb_ready_def ofb_alloc_def ofb_ok_def)
  have "fst (?B (fill_state ?B n (ofb_buf c))) = (ba_encrypt a ^^ Suc n) (take ?bs (ofb_buf c))" for n
    using ofb_block_inv(2)[OF ofb_chain(2)[OF ok, of n]] ofb_chain(1)[OF ok, of "Suc n"]
    by (simp add: fill_state_Suc del: fill_state.simps)
  then show ?thesis
    using stream_cipher.Encrypt_stream[OF ofb_stream_cipher[OF good] assms(1), of data] assms(2)
    by (simp add: keystream_byte_def ofb_xor_state_def block_byte_def xor.commute)
qed

lemma ofb_encrypt_pieces:
  assumes "ofb_ready a c"
  shows "fst (ofb_encrypt (xs @ ys) c) = fst (ofb_encrypt xs c) @ fst (ofb_encrypt ys (snd (ofb_encrypt xs c)))"
    and "fst (ofb_encrypt (fst (ofb_encrypt xs c)) c) = xs"
proof -
  have good: "good_algo a" using assms(1) by (simp add: ofb_ready_def ofb_alloc_def)
  note cipher = ofb_stream_cipher[OF good]
  show "fst (ofb_encrypt (xs @ ys) c) = fst (ofb_encrypt xs c) @ fst (ofb_encrypt ys (snd (ofb_encrypt xs c)))"
    by (rule stream_cipher.Encrypt_append[OF cipher assms])
  show "fst (ofb_encrypt (fst (ofb_encrypt xs c)) c) = xs"
    by (rule stream_cipher.Encrypt_twice[OF cipher assms])
qed

lemma ctr_encrypt_counter:
  assumes "ctr_ready a c" "ctr_boff c = 0" "i < length data" "length blk = ba_blksize a"
    and "be_num blk = (be_num (take (ba_blksize a) (ctr_ctr c)) + i div ba_blksize a) mod 256 ^ ba_blksize a"
  shows "fst (ctr_encrypt data c) ! i = data ! i XOR ba_encrypt a blk ! (i mod ba_blksize a)"
    and "length (fst (ctr_encrypt data c)) = length data"
proof -
  let ?bs = "ba_blksize a" and ?B = "ctr_block a (ba_blksize a)"
  have good: "good_algo a" and ok: "ofb_ok a (ctr_ctr c)"
    using assms(1) by (simp_all add: ctr_ready_def ctr_alloc_def ofb_ok_def)
  note stream = stream_cipher.Encrypt_stream[OF ctr_stream_cipher[OF good] assms(1), of data]
  let ?s = "fill_state ?B (i div ?bs) (ctr_ctr c)"
  note count = ctr_counts[OF ok, of "i div ?bs"]
  have len: "length (take ?bs ?s) = ?bs" using count(2) by (simp add: ofb_ok_def)
  then have "take ?bs ?s = blk" using count(1) assms(4,5) by (intro be_num_inj) simp_all
  then show "fst (ctr_encrypt data c) ! i = data ! i XOR ba_encrypt a blk ! (i mod ?bs)"
    using stream assms(2,3)
    by (simp add: keystream_byte_def ctr_xor_state_def block_byte_def ctr_block_def[of a ?bs ?s] xor.commute)
  show "length (fst (ctr_encrypt data c)) = length data" using stream by simp
qed

lemma ctr_encrypt_pieces:
  assumes "ctr_ready a c"
  shows "fst (ctr_encrypt (xs @ ys) c) = fst (ctr_encrypt xs c) @ fst (ctr_encrypt ys (snd (ctr_encrypt xs c)))"
    and "fst (ctr_encrypt (fst (ctr_encrypt xs c)) c) = xs"
proof -
  have good: "good_algo a" using assms(1) by (simp add: ctr_ready_def ctr_alloc_def)
  note cipher = ctr_stream_cipher[OF good]
  show "fst (ctr_encrypt (xs @ ys) c) = fst (ctr_encrypt xs c) @ fst (ctr_encrypt ys (snd (ctr_encrypt xs c)))"
    by (rule stream_cipher.Encrypt_append[OF cipher assms])
  show "fst (ctr_encrypt (fst (ctr_encrypt xs c)) c) = xs"
    by (rule stream_cipher.Encrypt_twice[OF cipher assms])
qed

end
