(* ===== verification/CFB.thy ===== *)
theory CFB
  imports Block_Plugin
begin

text \<open>
  \<^verbatim>\<open>impl/mode/cfb.c\<close>: cipher feedback of \<^verbatim>\<open>feedback\<close> bytes. \<^verbatim>\<open>prev\<close> is the shift register,
  \<^verbatim>\<open>buf\<close> the encrypted register, \<^verbatim>\<open>boff\<close> the number of its bytes already used. The operations
  are compared with a machine that takes one byte at a time, in which the pieces the
  data comes in cannot matter.
\<close>

section \<open>The context\<close>

record cfb =
  cfb_feedback :: nat
  cfb_algo :: "block_algo option"
  cfb_buf :: "byte list"
  cfb_prev :: "byte list"
  cfb_iv :: "byte list"
  cfb_blksize :: nat
  cfb_boff :: nat
  cfb_chunks :: nat
  cfb_fast :: bool

text \<open>
  The parameter \<^verbatim>\<open>feedbackBits\<close>, if there is one. The two arrays have 32 bytes, whose
  contents are whatever \<^verbatim>\<open>drew_mem_smalloc\<close> gives; \<open>garbage\<close> stands for them.
\<close>

definition cfb_init :: "nat option \<Rightarrow> byte list \<Rightarrow> byte list \<Rightarrow> cfb" where
  "cfb_init bits garbage1 garbage2 =
     \<lparr>cfb_feedback = (case bits of None \<Rightarrow> 0 | Some n \<Rightarrow> n div 8), cfb_algo = None,
      cfb_buf = garbage1, cfb_prev = garbage2, cfb_iv = [], cfb_blksize = 0, cfb_boff = 0,
      cfb_chunks = 0, cfb_fast = False\<rparr>"

definition cfb_setblock :: "(nat \<Rightarrow> byte list option) \<Rightarrow> block_algo option \<Rightarrow> cfb \<Rightarrow> int \<times> cfb" where
  "cfb_setblock smalloc algoctx c =
     (case algoctx of None \<Rightarrow> (DREW_ERR_INVALID, c)
      | Some a \<Rightarrow>
        let c = c\<lparr>cfb_algo := Some a, cfb_blksize := ba_blksize a\<rparr>;
            c = (if cfb_feedback c = 0 then c\<lparr>cfb_feedback := cfb_blksize c\<rparr> else c);
            c = (if cfb_feedback c = cfb_blksize c \<and> (cfb_blksize c = 8 \<or> cfb_blksize c = 16)
                 then c\<lparr>cfb_chunks := DREW_MODE_ALIGNMENT div cfb_blksize c, cfb_fast := True\<rparr> else c)
        in case smalloc (cfb_blksize c) of
             None \<Rightarrow> (- ENOMEM, c)
           | Some iv \<Rightarrow> (0, c\<lparr>cfb_iv := iv\<rparr>))"

definition cfb_setiv :: "byte list \<Rightarrow> cfb \<Rightarrow> int \<times> cfb" where
  "cfb_setiv iv c =
     (if cfb_blksize c \<noteq> length iv then (- DREW_ERR_INVALID, c)
      else (0, c\<lparr>cfb_prev := put_bytes 0 iv (cfb_prev c), cfb_buf := put_bytes 0 iv (cfb_buf c),
                 cfb_iv := put_bytes 0 iv (cfb_iv c)\<rparr>))"

definition cfb_reset :: "cfb \<Rightarrow> int \<times> cfb" where
  "cfb_reset c =
     (let (res, c) = cfb_setiv (take (cfb_blksize c) (cfb_iv c)) c
      in if res \<noteq> 0 then (res, c) else (0, c\<lparr>cfb_boff := 0\<rparr>))"

definition cfb_resync :: "cfb \<Rightarrow> int" where
  "cfb_resync c = - DREW_ERR_NOT_IMPL"

definition cfb_setdata :: "byte list \<Rightarrow> cfb \<Rightarrow> int" where
  "cfb_setdata data c = - DREW_ERR_NOT_ALLOWED"

section \<open>Encryption and decryption\<close>

text \<open>\<^verbatim>\<open>encrypt(c->algo, c->buf, c->prev)\<close> and the \<^verbatim>\<open>memmove\<close> that shifts the register.\<close>

definition cfb_shift :: "cfb \<Rightarrow> cfb" where
  "cfb_shift c =
     c\<lparr>cfb_buf := put_bytes 0 (ba_encrypt (the (cfb_algo c)) (take (cfb_blksize c) (cfb_prev c))) (cfb_buf c),
       cfb_prev := put_bytes 0 (slice (cfb_feedback c) (cfb_blksize c - cfb_feedback c) (cfb_prev c)) (cfb_prev c)\<rparr>"

text \<open>The loops over the bytes of one block, from its offset \<open>off\<close>.\<close>

definition cfb_enc_bytes :: "nat \<Rightarrow> byte list \<Rightarrow> cfb \<Rightarrow> byte list \<times> cfb" where
  "cfb_enc_bytes off inp c =
     (let leftover = cfb_blksize c - cfb_feedback c;
          out = xor_bytes (slice off (length inp) (cfb_buf c)) inp
      in (out, c\<lparr>cfb_buf := put_bytes off out (cfb_buf c), cfb_prev := put_bytes (leftover + off) out (cfb_prev c)\<rparr>))"

definition cfb_dec_bytes :: "nat \<Rightarrow> byte list \<Rightarrow> cfb \<Rightarrow> byte list \<times> cfb" where
  "cfb_dec_bytes off inp c =
     (let leftover = cfb_blksize c - cfb_feedback c;
          out = xor_bytes (slice off (length inp) (cfb_buf c)) inp
      in (out, c\<lparr>cfb_prev := put_bytes (leftover + off) inp (cfb_prev c)\<rparr>))"

text \<open>\<open>step\<close> is one of the two; the loop body is the same but for it.\<close>

function cfb_blocks ::
    "(nat \<Rightarrow> byte list \<Rightarrow> cfb \<Rightarrow> byte list \<times> cfb) \<Rightarrow> nat \<Rightarrow> byte list \<Rightarrow> cfb \<Rightarrow> byte list \<times> byte list \<times> cfb" where
  "cfb_blocks step fb data c =
     (if fb \<le> length data \<and> 0 < fb
      then let (out, c) = step 0 (take fb data) (cfb_shift c);
               (outs, rest, c) = cfb_blocks step fb (drop fb data) c
           in (out @ outs, rest, c)
      else ([], data, c))"
  by pat_completeness auto
termination
  by (relation "measure (\<lambda>(step, fb, data, c). length data)") auto

declare cfb_blocks.simps [simp del]

definition cfb_tail ::
    "(nat \<Rightarrow> byte list \<Rightarrow> cfb \<Rightarrow> byte list \<times> cfb) \<Rightarrow> byte list \<Rightarrow> cfb \<Rightarrow> byte list \<times> cfb" where
  "cfb_tail step data c =
     (if data \<noteq> []
      then let (out, c) = step 0 data (cfb_shift c) in (out, c\<lparr>cfb_boff := length data\<rparr>)
      else ([], c))"

definition cfb_encrypt :: "byte list \<Rightarrow> cfb \<Rightarrow> byte list \<times> cfb" where
  "cfb_encrypt data c =
     (let (out1, data, c) =
            (if cfb_boff c \<noteq> 0
             then let b = min (cfb_feedback c - cfb_boff c) (length data);
                      (out, c) = cfb_enc_bytes (cfb_boff c) (take b data) c;
                      boff = cfb_boff c + b
                  in (out, drop b data, c\<lparr>cfb_boff := if boff = cfb_feedback c then 0 else boff\<rparr>)
             else ([], data, c));
          (out2, data, c) = cfb_blocks cfb_enc_bytes (cfb_feedback c) data c;
          (out3, c) = cfb_tail cfb_enc_bytes data c
      in (out1 @ out2 @ out3, c))"

text \<open>
  \<^verbatim>\<open>c->boff -= b\<close>, in a \<^verbatim>\<open>size_t\<close> of 64 bits. \<open>None\<close> is an access outside \<^verbatim>\<open>buf\<close>: an
  offset that has wrapped round is beyond every array.
\<close>

definition size_sub :: "nat \<Rightarrow> nat \<Rightarrow> nat" where
  "size_sub m n = (m + 2 ^ 64 - n) mod 2 ^ 64"

definition cfb_decrypt :: "byte list \<Rightarrow> cfb \<Rightarrow> (byte list \<times> cfb) option" where
  "cfb_decrypt data c =
     (let b = min (size_sub (cfb_feedback c) (cfb_boff c)) (length data)
      in if cfb_boff c \<noteq> 0 \<and> b \<noteq> 0 \<and> 32 < cfb_boff c + b then None
         else
           let (out1, data, c) =
                 (if cfb_boff c \<noteq> 0
                  then let (out, c) = cfb_dec_bytes (cfb_boff c) (take b data) c
                       in (out, drop b data, c\<lparr>cfb_boff := size_sub (cfb_boff c) b\<rparr>)
                  else ([], data, c));
               (out2, data, c) = cfb_blocks cfb_dec_bytes (cfb_feedback c) data c;
               (out3, c) = cfb_tail cfb_dec_bytes data c
           in Some (out1 @ out2 @ out3, c))"

definition cfb_encryptfinal :: "byte list \<Rightarrow> cfb \<Rightarrow> int \<times> byte list \<times> cfb" where
  "cfb_encryptfinal data c = (let (out, c) = cfb_encrypt data c in (int_of_size (length data), out, c))"

definition cfb_decryptfinal :: "byte list \<Rightarrow> cfb \<Rightarrow> (int \<times> byte list \<times> cfb) option" where
  "cfb_decryptfinal data c =
     map_option (\<lambda>(out, c). (int_of_size (length data), out, c)) (cfb_decrypt data c)"

section \<open>The aligned operations\<close>

text \<open>\<^verbatim>\<open>cur\<close> is the last block written, at first \<^verbatim>\<open>prev\<close>.\<close>

definition cfb_encryptfast :: "byte list \<Rightarrow> cfb \<Rightarrow> byte list \<times> cfb" where
  "cfb_encryptfast data c =
     (let (out, cur, buf) = fold (\<lambda>inp (out, cur, buf).
            let n = cfb_blksize c * cfb_chunks c;
                buf = put_bytes 0 (ba_encryptfast (the (cfb_algo c)) (take n cur) (cfb_chunks c)) buf;
                o1 = xor_aligned buf inp DREW_MODE_ALIGNMENT
            in (out @ o1, o1, buf))
          (chunks DREW_MODE_ALIGNMENT data) ([], take DREW_MODE_ALIGNMENT (cfb_prev c), cfb_buf c)
      in (out, c\<lparr>cfb_buf := buf, cfb_prev := put_bytes 0 cur (cfb_prev c)\<rparr>))"

text \<open>
  \<open>None\<close> when \<^verbatim>\<open>x - blksize\<close> wraps round, and when the combination, which runs over all
  that is left and not only over this turn, goes beyond the 4096 bytes of \<^verbatim>\<open>buf\<close>.
\<close>

function cfb_decfast_loop :: "byte list \<Rightarrow> cfb \<Rightarrow> (byte list \<times> cfb) option" where
  "cfb_decfast_loop data c =
     (if data = [] then Some ([], c)
      else let x = min 4096 (length data);
               blksize = cfb_blksize c;
               mul = x div blksize;
               buf = take blksize (cfb_prev c) @ take (x - blksize) data;
               c = c\<lparr>cfb_prev := put_bytes 0 (slice (x - blksize) blksize data) (cfb_prev c)\<rparr>;
               buf = ba_encryptfast (the (cfb_algo c)) (take (blksize * mul) buf) mul @ drop (blksize * mul) buf
           in if x < blksize \<or> 4096 < 16 * (length data div 16) then None
              else map_option (\<lambda>(out, c). (xor_aligned buf data (length data) @ out, c))
                     (cfb_decfast_loop (drop x data) c))"
  by pat_completeness auto
termination
  by (relation "measure (\<lambda>(data, c). length data)") auto

declare cfb_decfast_loop.simps [simp del]

definition cfb_decryptfast :: "byte list \<Rightarrow> cfb \<Rightarrow> (byte list \<times> cfb) option" where
  "cfb_decryptfast data c = cfb_decfast_loop data c"

section \<open>One byte at a time\<close>

definition cfb_byte ::
    "(nat \<Rightarrow> byte list \<Rightarrow> cfb \<Rightarrow> byte list \<times> cfb) \<Rightarrow> byte \<Rightarrow> cfb \<Rightarrow> byte list \<times> cfb" where
  "cfb_byte step x c =
     (let boff = cfb_boff c;
          (out, c) = step boff [x] (if boff = 0 then cfb_shift c else c)
      in (out, c\<lparr>cfb_boff := (boff + 1) mod cfb_feedback c\<rparr>))"

primrec cfb_run ::
    "(nat \<Rightarrow> byte list \<Rightarrow> cfb \<Rightarrow> byte list \<times> cfb) \<Rightarrow> byte list \<Rightarrow> cfb \<Rightarrow> byte list \<times> cfb" where
  "cfb_run step [] c = ([], c)"
| "cfb_run step (x # xs) c =
     (let (out, c) = cfb_byte step x c; (outs, c) = cfb_run step xs c in (out @ outs, c))"

lemma cfb_run_append:
  "cfb_run step (xs @ ys) c =
     (let (o1, c) = cfb_run step xs c; (o2, c) = cfb_run step ys c in (o1 @ o2, c))"
  by (induction xs arbitrary: c) (simp_all add: split_beta Let_def)

text \<open>A context after \<^verbatim>\<open>setblock\<close>, whatever its offset.\<close>

definition cfb_static :: "block_algo \<Rightarrow> nat \<Rightarrow> cfb \<Rightarrow> bool" where
  "cfb_static a fb c \<longleftrightarrow> cfb_algo c = Some a \<and> good_algo a \<and> cfb_blksize c = ba_blksize a \<and> ba_blksize a \<le> 32 \<and>
     cfb_feedback c = fb \<and> 0 < fb \<and> fb \<le> ba_blksize a \<and> length (cfb_buf c) = 32 \<and> length (cfb_prev c) = 32"

definition cfb_ready :: "block_algo \<Rightarrow> nat \<Rightarrow> cfb \<Rightarrow> bool" where
  "cfb_ready a fb c \<longleftrightarrow> cfb_static a fb c \<and> cfb_boff c < fb"

lemma cfb_static_boff [simp]: "cfb_static a fb (c\<lparr>cfb_boff := k\<rparr>) = cfb_static a fb c"
  by (simp add: cfb_static_def)

lemma cfb_shift_static: "cfb_static a fb c \<Longrightarrow> cfb_static a fb (cfb_shift c)"
  using good_algo_length[of a "take (ba_blksize a) (cfb_prev c)"] by (simp add: cfb_static_def cfb_shift_def)

lemma cfb_shift_boff [simp]:
  "cfb_shift (c\<lparr>cfb_boff := k\<rparr>) = (cfb_shift c)\<lparr>cfb_boff := k\<rparr>" "cfb_boff (cfb_shift c) = cfb_boff c"
  by (simp_all add: cfb_shift_def)

lemma xor_bytes_single: "xs \<noteq> [] \<Longrightarrow> ys \<noteq> [] \<Longrightarrow> xor_bytes xs ys = (hd xs XOR hd ys) # xor_bytes (tl xs) (tl ys)"
  by (cases xs; cases ys) (simp_all add: xor_bytes_def)

lemma slice_append:
  "slice off (m + n) xs = slice off m xs @ slice (off + m) n xs"
  by (simp add: slice_def take_add add.commute)

locale cfb_step =
  fixes step :: "nat \<Rightarrow> byte list \<Rightarrow> cfb \<Rightarrow> byte list \<times> cfb"
  assumes step_static: "cfb_static a fb c \<Longrightarrow> off + length xs \<le> fb \<Longrightarrow> cfb_static a fb (snd (step off xs c))"
    and step_boff: "step off xs (c\<lparr>cfb_boff := k\<rparr>) = (fst (step off xs c), (snd (step off xs c))\<lparr>cfb_boff := k\<rparr>)"
    and step_keeps: "cfb_boff (snd (step off xs c)) = cfb_boff c"
    and step_length: "cfb_static a fb c \<Longrightarrow> off + length xs \<le> fb \<Longrightarrow> length (fst (step off xs c)) = length xs"
    and step_append: "cfb_static a fb c \<Longrightarrow> off + length xs + length ys \<le> fb \<Longrightarrow>
      step off (xs @ ys) c = (let (o1, c) = step off xs c; (o2, c) = step (off + length xs) ys c in (o1 @ o2, c))"
    and step_nil: "cfb_static a fb c \<Longrightarrow> step off [] c = ([], c)"
begin

text \<open>The rest of a block, byte by byte and at once.\<close>

lemma run_rest:
  assumes "cfb_static a fb c" "0 < cfb_boff c" "cfb_boff c < fb" "cfb_boff c + length xs \<le> fb"
  shows "cfb_run step xs c = (fst (step (cfb_boff c) xs c),
      (snd (step (cfb_boff c) xs c))\<lparr>cfb_boff := (cfb_boff c + length xs) mod fb\<rparr>)"
  using assms
proof (induction xs arbitrary: c)
  case Nil
  then show ?case by (simp add: step_nil)
next
  case (Cons x xs)
  let ?k = "cfb_boff c"
  obtain o1 c1 where s1: "step ?k [x] c = (o1, c1)" by (cases "step ?k [x] c")
  have c1: "cfb_static a fb c1" "cfb_boff c1 = ?k"
    using step_static[OF Cons.prems(1), of ?k "[x]"] step_keeps[of ?k "[x]" c] Cons.prems s1 by simp_all
  have fb: "cfb_feedback c1 = fb" using c1(1) by (simp add: cfb_static_def)
  have app: "step ?k (x # xs) c = (let (o2, c2) = step (?k + 1) xs c1 in (o1 @ o2, c2))"
    using step_append[OF Cons.prems(1), of ?k "[x]" xs] Cons.prems(4) s1 by (simp add: Let_def)
  show ?case
  proof (cases "?k + 1 = fb")
    case True
    then have "xs = []" using Cons.prems(4) by (cases xs) simp_all
    then show ?thesis
      using True s1 Cons.prems(2) fb by (simp add: cfb_byte_def)
  next
    case False
    let ?c = "c1\<lparr>cfb_boff := ?k + 1\<rparr>"
    have "cfb_run step xs ?c = (fst (step (?k + 1) xs ?c),
        (snd (step (?k + 1) xs ?c))\<lparr>cfb_boff := (?k + 1 + length xs) mod fb\<rparr>)"
      using Cons.IH[of ?c] Cons.prems c1 False by simp
    then show ?thesis
      using False Cons.prems s1 fb by (simp add: cfb_byte_def app step_boff split_beta)
  qed
qed

lemma run_block:
  assumes "cfb_static a fb c" "cfb_boff c = 0" "xs \<noteq> []" "length xs \<le> fb"
  shows "cfb_run step xs c = (fst (step 0 xs (cfb_shift c)),
      (snd (step 0 xs (cfb_shift c)))\<lparr>cfb_boff := length xs mod fb\<rparr>)"
proof -
  obtain x ys where xs: "xs = x # ys" using assms(3) by (cases xs) auto
  note sh = cfb_shift_static[OF assms(1)]
  obtain o1 c1 where s1: "step 0 [x] (cfb_shift c) = (o1, c1)" by (cases "step 0 [x] (cfb_shift c)")
  have c1: "cfb_static a fb c1"
    using step_static[OF sh, of 0 "[x]"] assms(4) xs s1 by simp
  have fb: "cfb_feedback c1 = fb" using c1(1) by (simp add: cfb_static_def)
  have app: "step 0 (x # ys) (cfb_shift c) = (let (o2, c2) = step 1 ys c1 in (o1 @ o2, c2))"
    using step_append[OF sh, of 0 "[x]" ys] assms(4) xs s1 by (simp add: Let_def)
  show ?thesis
  proof (cases "fb = 1")
    case True
    then show ?thesis using xs assms s1 fb by (simp add: cfb_byte_def)
  next
    case False
    let ?c = "c1\<lparr>cfb_boff := 1\<rparr>"
    have fb1: "1 < fb" using False assms(4) xs by (cases fb) auto
    have "cfb_run step ys ?c = (fst (step 1 ys ?c), (snd (step 1 ys ?c))\<lparr>cfb_boff := (1 + length ys) mod fb\<rparr>)"
      using run_rest[of a fb ?c ys] c1 fb1 assms(4) xs by simp
    then show ?thesis
      using fb1 xs assms(2) s1 fb by (simp add: cfb_byte_def app step_boff split_beta)
  qed
qed

lemma run_blocks:
  assumes "cfb_static a fb c" "cfb_boff c = 0"
  shows "cfb_run step data c = (let (o1, rest, c) = cfb_blocks step fb data c; (o2, c) = cfb_tail step rest c in (o1 @ o2, c))"
  using assms
proof (induction "length data" arbitrary: data c rule: less_induct)
  case less
  have fb: "0 < fb" using less.prems(1) by (simp add: cfb_static_def)
  show ?case
  proof (cases "fb \<le> length data")
    case False
    then show ?thesis
      using run_block[OF less.prems, of data] by (subst cfb_blocks.simps) (simp add: cfb_tail_def split_beta)
  next
    case True
    let ?x = "take fb data"
    have ne: "?x \<noteq> []" using True fb by auto
    note sh = cfb_shift_static[OF less.prems(1)]
    obtain o1 c1 where s1: "step 0 ?x (cfb_shift c) = (o1, c1)" by (cases "step 0 ?x (cfb_shift c)")
    have c1: "cfb_static a fb c1" "cfb_boff c1 = 0"
      using step_static[OF sh, of 0 ?x] step_keeps[of 0 ?x "cfb_shift c"] True s1 less.prems(2) by simp_all
    have blk: "cfb_run step ?x c = (o1, c1)"
      using run_block[OF less.prems ne] True s1 c1(2) by simp
    have "cfb_run step (?x @ drop fb data) c = (let (o2, c) = cfb_run step (drop fb data) c1 in (o1 @ o2, c))"
      unfolding cfb_run_append blk by simp
    moreover have "cfb_run step (drop fb data) c1 = (let (o1, rest, c) = cfb_blocks step fb (drop fb data) c1;
        (o2, c) = cfb_tail step rest c in (o1 @ o2, c))"
      using less.hyps[OF _ c1] True fb by simp
    ultimately show ?thesis
      using True fb s1 by (subst cfb_blocks.simps) (simp add: split_beta Let_def)
  qed
qed

end

lemma put_bytes_snoc:
  "off + length xs + length ys \<le> length mem \<Longrightarrow> n = length xs \<Longrightarrow>
   put_bytes off (xs @ ys) mem = put_bytes (off + n) ys (put_bytes off xs mem)"
  by (simp add: put_bytes_adjacent)

lemma cfb_enc_step: "cfb_step cfb_enc_bytes"
proof unfold_locales
  show "cfb_enc_bytes off (xs @ ys) c = (let (o1, c) = cfb_enc_bytes off xs c;
      (o2, c) = cfb_enc_bytes (off + length xs) ys c in (o1 @ o2, c))"
    if st: "cfb_static a fb c" and le: "off + length xs + length ys \<le> fb" for a fb c off xs ys
  proof -
    define lo where "lo = cfb_blksize c - cfb_feedback c"
    have "lo + fb \<le> 32" and len: "length (cfb_buf c) = 32" "length (cfb_prev c) = 32"
      using st by (auto simp: cfb_static_def lo_def)
    then have room: "lo + off + length xs + length ys \<le> 32" using le by linarith
    define s1 s2 where "s1 = slice off (length xs) (cfb_buf c)" and "s2 = slice (off + length xs) (length ys) (cfb_buf c)"
    define o1 o2 where "o1 = xor_bytes s1 xs" and "o2 = xor_bytes s2 ys"
    have l: "length s1 = length xs" "length s2 = length ys" using room len by (simp_all add: s1_def s2_def)
    then have lo12: "length o1 = length xs" "length o2 = length ys" by (simp_all add: o1_def o2_def)
    have whole: "xor_bytes (slice off (length xs + length ys) (cfb_buf c)) (xs @ ys) = o1 @ o2"
      using l by (simp add: slice_append xor_bytes_append o1_def o2_def s1_def[symmetric] s2_def[symmetric])
    have s2: "slice (off + length xs) (length ys) (put_bytes off o1 (cfb_buf c)) = s2"
      unfolding s2_def using room len lo12 by (intro slice_put_disjoint) simp_all
    have step1: "cfb_enc_bytes k zs d = (xor_bytes (slice k (length zs) (cfb_buf d)) zs,
        d\<lparr>cfb_buf := put_bytes k (xor_bytes (slice k (length zs) (cfb_buf d)) zs) (cfb_buf d),
          cfb_prev := put_bytes (lo + k) (xor_bytes (slice k (length zs) (cfb_buf d)) zs) (cfb_prev d)\<rparr>)"
      if "cfb_blksize d - cfb_feedback d = lo" for k zs d
      using that by (simp add: cfb_enc_bytes_def Let_def)
    have A: "cfb_enc_bytes off (xs @ ys) c = (o1 @ o2,
        c\<lparr>cfb_buf := put_bytes off (o1 @ o2) (cfb_buf c), cfb_prev := put_bytes (lo + off) (o1 @ o2) (cfb_prev c)\<rparr>)"
      using step1[of c off "xs @ ys"] whole by (simp add: lo_def)
    let ?c1 = "c\<lparr>cfb_buf := put_bytes off o1 (cfb_buf c), cfb_prev := put_bytes (lo + off) o1 (cfb_prev c)\<rparr>"
    have B: "cfb_enc_bytes off xs c = (o1, ?c1)"
      using step1[of c off xs] by (simp add: o1_def s1_def lo_def)
    have C: "cfb_enc_bytes (off + length xs) ys ?c1 = (o2,
        c\<lparr>cfb_buf := put_bytes (off + length xs) o2 (put_bytes off o1 (cfb_buf c)),
          cfb_prev := put_bytes (lo + (off + length xs)) o2 (put_bytes (lo + off) o1 (cfb_prev c))\<rparr>)"
      using step1[of ?c1 "off + length xs" ys] s2 by (simp add: lo_def o2_def)
    have p1: "put_bytes off (o1 @ o2) (cfb_buf c) = put_bytes (off + length xs) o2 (put_bytes off o1 (cfb_buf c))"
      by (rule put_bytes_snoc) (use room len lo12 in simp_all)
    have p2: "put_bytes (lo + off) (o1 @ o2) (cfb_prev c)
        = put_bytes (lo + (off + length xs)) o2 (put_bytes (lo + off) o1 (cfb_prev c))"
      unfolding add.assoc[symmetric] by (rule put_bytes_snoc) (use room len lo12 in simp_all)
    show ?thesis
      unfolding A B prod.case Let_def C p1 p2 ..
  qed
  show "cfb_static a fb (snd (cfb_enc_bytes off xs c))" if "cfb_static a fb c" "off + length xs \<le> fb" for a fb c off xs
    using that by (auto simp: cfb_enc_bytes_def cfb_static_def Let_def)
  show "cfb_enc_bytes off [] c = ([], c)" for off c
    by (simp add: cfb_enc_bytes_def Let_def xor_bytes_def)
qed (auto simp: cfb_enc_bytes_def cfb_static_def Let_def)

lemma cfb_dec_step: "cfb_step cfb_dec_bytes"
proof unfold_locales
  show "cfb_dec_bytes off (xs @ ys) c = (let (o1, c) = cfb_dec_bytes off xs c;
      (o2, c) = cfb_dec_bytes (off + length xs) ys c in (o1 @ o2, c))"
    if st: "cfb_static a fb c" and le: "off + length xs + length ys \<le> fb" for a fb c off xs ys
  proof -
    define lo where "lo = cfb_blksize c - cfb_feedback c"
    have "lo + fb \<le> 32" and len: "length (cfb_buf c) = 32" "length (cfb_prev c) = 32"
      using st by (auto simp: cfb_static_def lo_def)
    then have room: "lo + off + length xs + length ys \<le> 32" using le by linarith
    have "length (slice off (length xs) (cfb_buf c)) = length xs"
      using room len by simp
    then show ?thesis
      using room len put_bytes_snoc[of "lo + off" xs ys "cfb_prev c" "length xs"]
      by (simp add: cfb_dec_bytes_def Let_def lo_def[symmetric] slice_append xor_bytes_append add.assoc)
  qed
qed (auto simp: cfb_dec_bytes_def cfb_static_def Let_def xor_bytes_def)

interpretation cfb_e: cfb_step cfb_enc_bytes
  by (rule cfb_enc_step)

interpretation cfb_d: cfb_step cfb_dec_bytes
  by (rule cfb_dec_step)

section \<open>The operations are runs of that machine\<close>

lemma cfb_encrypt_run:
  assumes "cfb_ready a fb c"
  shows "cfb_encrypt data c = cfb_run cfb_enc_bytes data c"
proof (cases "cfb_boff c = 0")
  case True
  then show ?thesis
    using assms cfb_e.run_blocks[of a fb c data] by (simp add: cfb_encrypt_def cfb_ready_def cfb_static_def)
next
  case False
  have st: "cfb_static a fb c" and lt: "cfb_boff c < fb" and fb: "cfb_feedback c = fb"
    using assms by (simp_all add: cfb_ready_def cfb_static_def)
  define b where "b = min (fb - cfb_boff c) (length data)"
  obtain o1 c1 where s1: "cfb_enc_bytes (cfb_boff c) (take b data) c = (o1, c1)"
    by (cases "cfb_enc_bytes (cfb_boff c) (take b data) c")
  have c1: "cfb_static a fb c1" "cfb_boff c1 = cfb_boff c"
    using cfb_e.step_static[OF st, of "cfb_boff c" "take b data"]
      cfb_e.step_keeps[of "cfb_boff c" "take b data" c] s1 lt by (simp_all add: b_def)
  then have fb1: "cfb_feedback c1 = fb" by (simp add: cfb_static_def)
  have run1: "cfb_run cfb_enc_bytes (take b data) c = (o1, c1\<lparr>cfb_boff := (cfb_boff c + b) mod fb\<rparr>)"
  proof -
    have "length (take b data) = b" "cfb_boff c + b \<le> fb" using lt by (simp_all add: b_def)
    then show ?thesis using cfb_e.run_rest[OF st _ lt, of "take b data"] False s1 by simp
  qed
  let ?c = "c1\<lparr>cfb_boff := (cfb_boff c + b) mod fb\<rparr>"
  have rest: "cfb_run cfb_enc_bytes (drop b data) ?c = (let (o1, rest, c) = cfb_blocks cfb_enc_bytes fb (drop b data) ?c;
        (o2, c) = cfb_tail cfb_enc_bytes rest c in (o1 @ o2, c))"
  proof (cases "cfb_boff c + b = fb")
    case True
    then show ?thesis using cfb_e.run_blocks[of a fb ?c "drop b data"] c1 by simp
  next
    case False
    then have "drop b data = []" using lt by (auto simp: b_def min_def split: if_splits)
    then show ?thesis using lt by (simp add: cfb_blocks.simps[of _ _ "[]"] cfb_tail_def)
  qed
  have boff: "(if cfb_boff c + b = fb then 0 else cfb_boff c + b) = (cfb_boff c + b) mod fb"
    using lt by (auto simp: b_def)
  have "cfb_run cfb_enc_bytes (take b data @ drop b data) c
      = (let (o2, c) = cfb_run cfb_enc_bytes (drop b data) ?c in (o1 @ o2, c))"
    unfolding cfb_run_append run1 by simp
  then show ?thesis
    unfolding cfb_encrypt_def Let_def fb b_def[symmetric] s1 prod.case
    using False by (simp add: rest[unfolded boff[symmetric]] boff[symmetric] c1(2) fb1 split_beta Let_def
      del: if_split)
qed

lemma cfb_decrypt_run:
  assumes "cfb_ready a fb c" "cfb_boff c = 0"
  shows "cfb_decrypt data c = Some (cfb_run cfb_dec_bytes data c)"
  using assms cfb_d.run_blocks[of a fb c data]
  by (simp add: cfb_decrypt_def cfb_ready_def cfb_static_def split_beta Let_def)

text \<open>Decryption follows encryption with the same register and the same unused bytes.\<close>

definition cfb_twin :: "block_algo \<Rightarrow> nat \<Rightarrow> cfb \<Rightarrow> cfb \<Rightarrow> bool" where
  "cfb_twin a fb c d \<longleftrightarrow> cfb_ready a fb c \<and> cfb_ready a fb d \<and> cfb_boff d = cfb_boff c \<and> cfb_prev d = cfb_prev c \<and>
     (cfb_boff c \<noteq> 0 \<longrightarrow> (\<forall>i. cfb_boff c \<le> i \<longrightarrow> i < fb \<longrightarrow> cfb_buf d ! i = cfb_buf c ! i))"

lemma slice_one: "k < length mem \<Longrightarrow> slice k 1 mem = [mem ! k]"
  by (simp add: slice_def take_Suc hd_drop_conv_nth)

lemma put_one: "k < length mem \<Longrightarrow> put_bytes k [x] mem = mem[k := x]"
  by (simp add: put_bytes_def upd_conv_take_nth_drop)

lemma cfb_byte_twin:
  assumes "cfb_twin a fb c d" "cfb_byte cfb_enc_bytes x c = (out, c')"
  obtains y d' where "out = [y]" "cfb_byte cfb_dec_bytes y d = ([x], d')" "cfb_twin a fb c' d'"
proof -
  let ?k = "cfb_boff c"
  define c0 where "c0 = (if ?k = 0 then cfb_shift c else c)"
  define d0 where "d0 = (if ?k = 0 then cfb_shift d else d)"
  have k: "?k < fb" "cfb_boff d = ?k" using assms(1) by (simp_all add: cfb_twin_def cfb_ready_def)
  have st: "cfb_static a fb c0" "cfb_static a fb d0"
    using assms(1) by (simp_all add: cfb_twin_def cfb_ready_def c0_def d0_def cfb_shift_static)
  have prev: "cfb_prev d0 = cfb_prev c0"
    using assms(1) by (simp add: cfb_twin_def cfb_ready_def cfb_static_def c0_def d0_def cfb_shift_def)
  have buf: "cfb_buf d0 ! i = cfb_buf c0 ! i" if "?k \<le> i" "i < fb" for i
  proof (cases "?k = 0")
    case True
    have "cfb_algo d = cfb_algo c" "cfb_blksize d = cfb_blksize c" "cfb_prev d = cfb_prev c"
      using assms(1) by (simp_all add: cfb_twin_def cfb_ready_def cfb_static_def)
    moreover have "length (ba_encrypt a (take (ba_blksize a) (cfb_prev c))) = ba_blksize a" "fb \<le> ba_blksize a"
      "cfb_algo c = Some a" "cfb_blksize c = ba_blksize a"
      using assms(1) by (simp_all add: cfb_twin_def cfb_ready_def cfb_static_def good_algo_length)
    ultimately show ?thesis
      using True that by (simp add: c0_def d0_def cfb_shift_def put_bytes_def nth_append)
  next
    case False
    then show ?thesis using assms(1) that by (simp add: cfb_twin_def c0_def d0_def)
  qed
  define lo where "lo = ba_blksize a - fb"
  have lens: "length (cfb_buf c0) = 32" "length (cfb_buf d0) = 32" "length (cfb_prev c0) = 32" "lo + fb \<le> 32"
    and c0: "cfb_feedback c0 = fb" "cfb_blksize c0 - fb = lo" "cfb_feedback d0 = fb" "cfb_blksize d0 - fb = lo"
    using st by (auto simp: cfb_static_def lo_def)
  let ?y = "cfb_buf c0 ! ?k XOR x"
  let ?c1 = "c0\<lparr>cfb_buf := (cfb_buf c0)[?k := ?y], cfb_prev := (cfb_prev c0)[lo + ?k := ?y],
      cfb_boff := (?k + 1) mod fb\<rparr>"
  let ?d1 = "d0\<lparr>cfb_prev := (cfb_prev d0)[lo + ?k := ?y], cfb_boff := (?k + 1) mod fb\<rparr>"
  have enc: "cfb_byte cfb_enc_bytes x c = ([?y], ?c1)"
    using lens k c0 unfolding cfb_byte_def c0_def[symmetric] Let_def cfb_enc_bytes_def
    by (simp add: slice_one[simplified] put_one xor_bytes_def)
  have dec: "cfb_byte cfb_dec_bytes ?y d = ([x], ?d1)"
    using lens k c0 buf[of ?k] prev unfolding cfb_byte_def k(2) d0_def[symmetric] Let_def cfb_dec_bytes_def
    by (simp add: slice_one[simplified] put_one xor_bytes_def xor.assoc[symmetric])
  have "cfb_twin a fb ?c1 ?d1"
  proof -
    have "cfb_static a fb ?c1" "cfb_static a fb ?d1" using st by (simp_all add: cfb_static_def)
    moreover have "(?k + 1) mod fb < fb" using k by simp
    moreover have "cfb_buf ?d1 ! i = cfb_buf ?c1 ! i" if "cfb_boff ?c1 \<le> i" "i < fb" "cfb_boff ?c1 \<noteq> 0" for i
    proof -
      have "?k + 1 < fb" using that(3) k by (cases "?k + 1 = fb") simp_all
      then show ?thesis using that buf[of i] by simp
    qed
    ultimately show ?thesis using prev by (simp add: cfb_twin_def cfb_ready_def)
  qed
  then show thesis using that[of ?y ?d1] enc dec assms(2) by simp
qed

lemma cfb_run_twin:
  assumes "cfb_twin a fb c d" "cfb_run cfb_enc_bytes data c = (out, c')"
  obtains d' where "cfb_run cfb_dec_bytes out d = (data, d')" "cfb_twin a fb c' d'"
  using assms
proof (induction data arbitrary: c d out thesis)
  case (Cons x xs)
  obtain o1 c1 where b: "cfb_byte cfb_enc_bytes x c = (o1, c1)" by (cases "cfb_byte cfb_enc_bytes x c")
  obtain y d1 where y: "o1 = [y]" "cfb_byte cfb_dec_bytes y d = ([x], d1)" "cfb_twin a fb c1 d1"
    by (rule cfb_byte_twin[OF Cons.prems(2) b])
  obtain o2 c2 where "cfb_run cfb_enc_bytes xs c1 = (o2, c2)" by (cases "cfb_run cfb_enc_bytes xs c1")
  then have r: "cfb_run cfb_enc_bytes xs c1 = (o2, c')" and out: "out = y # o2"
    using Cons.prems(3) b y(1) by simp_all
  obtain d' where "cfb_run cfb_dec_bytes o2 d1 = (xs, d')" "cfb_twin a fb c' d'"
    using Cons.IH[OF _ y(3) r] by blast
  then show ?case using Cons.prems(1)[of d'] out y(2) by simp
qed simp

text \<open>Encryption in one call and decryption in one call, from contexts set up alike.\<close>

lemma cfb_round_trip:
  assumes "cfb_ready a fb c" "cfb_ready a fb d" "cfb_boff c = 0" "cfb_boff d = 0" "cfb_prev d = cfb_prev c"
  shows "map_option fst (cfb_decrypt (fst (cfb_encrypt data c)) d) = Some data"
proof -
  have "cfb_twin a fb c d" using assms by (simp add: cfb_twin_def)
  then obtain d' where "cfb_run cfb_dec_bytes (fst (cfb_encrypt data c)) d = (data, d')"
    using cfb_run_twin[of a fb c d data] cfb_encrypt_run[OF assms(1)] by (metis prod.collapse)
  then show ?thesis using cfb_decrypt_run[OF assms(2,4)] by simp
qed

lemma cfb_byte_ready:
  assumes "cfb_ready a fb c" shows "cfb_ready a fb (snd (cfb_byte cfb_enc_bytes x c))"
proof -
  have "cfb_twin a fb c c" using assms by (simp add: cfb_twin_def)
  from cfb_byte_twin[OF this surjective_pairing] show ?thesis by (metis cfb_twin_def)
qed

lemma cfb_run_ready: "cfb_ready a fb c \<Longrightarrow> cfb_ready a fb (snd (cfb_run cfb_enc_bytes data c))"
  by (induction data arbitrary: c) (simp_all add: split_beta cfb_byte_ready)

lemma cfb_encrypt_append:
  assumes "cfb_ready a fb c"
  shows "cfb_encrypt (xs @ ys) c = (let (o1, c) = cfb_encrypt xs c; (o2, c) = cfb_encrypt ys c in (o1 @ o2, c))"
  using assms cfb_run_ready[OF assms, of xs]
  by (simp add: cfb_encrypt_run cfb_run_append split_beta Let_def)

text \<open>
  The data a byte, seven bytes and some more: the seven bytes take the offset from 1 to minus 6.
\<close>

lemma cfb_decrypt_pieces:
  assumes "cfb_ready a 8 c" "cfb_boff c = 0" "length xs = 7" "ys \<noteq> []"
  shows "(case cfb_decrypt [x] c of None \<Rightarrow> None | Some (o1, c) \<Rightarrow>
          case cfb_decrypt xs c of None \<Rightarrow> None | Some (o2, c) \<Rightarrow> cfb_decrypt ys c) = None"
proof -
  have st: "cfb_static a 8 c" using assms(1) by (simp add: cfb_ready_def)
  obtain o1 c1 where s1: "cfb_dec_bytes 0 [x] (cfb_shift c) = (o1, c1)"
    by (cases "cfb_dec_bytes 0 [x] (cfb_shift c)")
  have c1: "cfb_static a 8 c1"
    using cfb_d.step_static[OF cfb_shift_static[OF st], of 0 "[x]"] s1 by simp
  have one: "cfb_decrypt [x] c = Some (o1, c1\<lparr>cfb_boff := 1\<rparr>)"
    using cfb_d.run_block[OF st assms(2), of "[x]"] s1 by (simp only: cfb_decrypt_run[OF assms(1,2)]) simp
  let ?c = "c1\<lparr>cfb_boff := 1\<rparr>"
  have fb: "cfb_feedback ?c = 8" using c1 by (simp add: cfb_static_def)
  obtain o2 c2 where s2: "cfb_dec_bytes 1 xs ?c = (o2, c2)" by (cases "cfb_dec_bytes 1 xs ?c")
  have c2: "cfb_feedback c2 = 8" "cfb_boff c2 = 1"
    using cfb_d.step_static[of a 8 ?c 1 xs] cfb_d.step_keeps[of 1 xs ?c] c1 s2 assms(3)
    by (simp_all add: cfb_static_def)
  have two: "cfb_decrypt xs ?c = Some (o2, c2\<lparr>cfb_boff := 2 ^ 64 - 6\<rparr>)"
    using fb s2 c2 assms(3)
    by (simp add: cfb_decrypt_def Let_def size_sub_def cfb_blocks.simps[of _ _ "[]"] cfb_tail_def)
  have "cfb_decrypt ys (c2\<lparr>cfb_boff := 2 ^ 64 - 6\<rparr>) = None"
    using c2 assms(4) by (cases ys) (simp_all add: cfb_decrypt_def Let_def size_sub_def)
  then show ?thesis unfolding one option.case prod.case two .
qed

text \<open>The standard's equations: each piece of the output is fed back into the register.\<close>

function cfb_spec :: "(byte list \<Rightarrow> byte list) \<Rightarrow> nat \<Rightarrow> byte list \<Rightarrow> byte list \<Rightarrow> byte list" where
  "cfb_spec E fb reg data =
     (if length data \<le> fb \<or> fb = 0 then xor_bytes (E reg) data
      else let y = xor_bytes (take fb (E reg)) (take fb data)
           in y @ cfb_spec E fb (drop fb reg @ y) (drop fb data))"
  by pat_completeness auto
termination
  by (relation "measure (\<lambda>(E, fb, reg, data). length data)") auto

declare cfb_spec.simps [simp del]

lemma cfb_shift_prev:
  assumes "cfb_static a fb c" "length o1 = fb"
  shows "take (ba_blksize a) (put_bytes (ba_blksize a - fb) o1 (cfb_prev (cfb_shift c)))
     = drop fb (take (ba_blksize a) (cfb_prev c)) @ o1"
proof -
  obtain m where "fb = Suc m" using assms by (cases fb) (simp_all add: cfb_static_def)
  then show ?thesis
    using assms by (auto simp: cfb_static_def cfb_shift_def put_bytes_def slice_def drop_take min_def)
qed

lemma cfb_encrypt_spec:
  assumes "cfb_ready a fb c" "cfb_boff c = 0"
  shows "fst (cfb_encrypt data c) = cfb_spec (ba_encrypt a) fb (take (ba_blksize a) (cfb_prev c)) data"
proof -
  have st: "cfb_static a fb c" using assms(1) by (simp add: cfb_ready_def)
  have "fst (cfb_run cfb_enc_bytes data c) = cfb_spec (ba_encrypt a) fb (take (ba_blksize a) (cfb_prev c)) data"
    using st assms(2)
  proof (induction "length data" arbitrary: data c rule: less_induct)
    case less
    let ?reg = "take (ba_blksize a) (cfb_prev c)"
    have fb: "0 < fb" "fb \<le> ba_blksize a" and len: "length (ba_encrypt a ?reg) = ba_blksize a"
      and c: "cfb_blksize c = ba_blksize a" "cfb_feedback c = fb" "cfb_algo c = Some a" "length (cfb_buf c) = 32"
        "ba_blksize a \<le> 32"
      using less.prems(1) by (auto simp: cfb_static_def intro: good_algo_length)
    have buf: "slice 0 n (cfb_buf (cfb_shift c)) = take n (ba_encrypt a ?reg)" if "n \<le> fb" for n
      using that len c fb by (simp add: cfb_shift_def slice_def put_bytes_def)
    show ?case
    proof (cases "length data \<le> fb")
      case True
      show ?thesis
      proof (cases "data = []")
        case True
        then show ?thesis by (simp add: cfb_spec.simps[of _ _ _ "[]"] xor_bytes_def)
      next
        case False
        have "xor_bytes (take (length data) (ba_encrypt a ?reg)) data = xor_bytes (ba_encrypt a ?reg) data"
          using True len fb by (intro nth_equalityI) simp_all
        then show ?thesis
          using cfb_e.run_block[OF less.prems False True] buf[OF True] True
          by (simp add: cfb_enc_bytes_def Let_def cfb_spec.simps[of _ _ _ data])
      qed
    next
      case False
      let ?x = "take fb data"
      let ?y = "xor_bytes (take fb (ba_encrypt a ?reg)) ?x"
      have x: "length ?x = fb" "?x \<noteq> []" using False fb by auto
      obtain o1 c1 where s1: "cfb_enc_bytes 0 ?x (cfb_shift c) = (o1, c1)"
        by (cases "cfb_enc_bytes 0 ?x (cfb_shift c)")
      have o1: "o1 = ?y" "length ?y = fb"
        using s1 buf[of fb] x(1) len fb by (auto simp: cfb_enc_bytes_def Let_def)
      have c1: "cfb_static a fb c1" "cfb_boff c1 = 0"
        using cfb_e.step_static[OF cfb_shift_static[OF less.prems(1)], of 0 ?x] x(1) s1
          cfb_e.step_keeps[of 0 ?x "cfb_shift c"] less.prems(2) by simp_all
      have prev: "take (ba_blksize a) (cfb_prev c1) = drop fb ?reg @ ?y"
      proof -
        have "cfb_prev c1 = put_bytes (ba_blksize a - fb) ?y (cfb_prev (cfb_shift c))"
          using s1 o1(1) c by (auto simp: cfb_enc_bytes_def Let_def cfb_shift_def)
        then show ?thesis using cfb_shift_prev[OF less.prems(1) o1(2)] by simp
      qed
      have "cfb_run cfb_enc_bytes ?x c = (?y, c1)"
        using cfb_e.run_block[OF less.prems x(2)] x(1) s1 o1(1) c1(2) by simp
      then have "fst (cfb_run cfb_enc_bytes (?x @ drop fb data) c) = ?y @ fst (cfb_run cfb_enc_bytes (drop fb data) c1)"
        unfolding cfb_run_append by (simp add: split_beta)
      moreover have "fst (cfb_run cfb_enc_bytes (drop fb data) c1)
          = cfb_spec (ba_encrypt a) fb (drop fb ?reg @ ?y) (drop fb data)"
        using less.hyps[OF _ c1, of "drop fb data"] False fb prev by simp
      ultimately show ?thesis
        using False fb by (simp add: cfb_spec.simps[of _ _ _ data] Let_def)
    qed
  qed
  then show ?thesis by (simp add: cfb_encrypt_run[OF assms(1)])
qed

section \<open>The aligned operations on 16-byte blocks\<close>

primrec cfb_chain :: "(byte list \<Rightarrow> byte list) \<Rightarrow> byte list \<Rightarrow> byte list list \<Rightarrow> byte list list" where
  "cfb_chain E reg [] = []"
| "cfb_chain E reg (x # xs) = (let y = xor_bytes (E reg) x in y # cfb_chain E y xs)"

lemma length_cfb_chain [simp]: "length (cfb_chain E reg xs) = length xs"
  by (induction xs arbitrary: reg) (simp_all add: Let_def)

lemma cfb_chain_sizes:
  assumes "\<And>b. length b = n \<Longrightarrow> length (E b) = n" "length reg = n" "\<forall>x\<in>set xs. length x = n"
  shows "\<forall>y\<in>set (cfb_chain E reg xs). length y = n"
  using assms(2,3)
proof (induction xs arbitrary: reg)
  case (Cons x xs)
  have x: "length x = n" and xs: "\<forall>x\<in>set xs. length x = n" using Cons.prems(2) by simp_all
  have y: "length (xor_bytes (E reg) x) = n" by (simp only: length_xor_bytes assms(1)[OF Cons.prems(1)] x min.idem)
  show ?case using Cons.IH[OF y xs] y by (simp add: Let_def del: length_xor_bytes)
qed simp

lemma cfb_spec_chain:
  assumes "\<And>b. length b = n \<Longrightarrow> length (E b) = n" "0 < n" "length reg = n" "\<forall>x\<in>set xs. length x = n"
  shows "cfb_spec E n reg (concat xs) = concat (cfb_chain E reg xs)"
  using assms(3,4)
proof (induction xs arbitrary: reg)
  case Nil
  then show ?case by (simp add: cfb_spec.simps[of _ _ _ "[]"] xor_bytes_def)
next
  case (Cons x xs)
  then show ?case
  proof (cases xs)
    case Nil
    then show ?thesis using Cons.prems by (simp add: cfb_spec.simps[of _ _ _ x] Let_def)
  next
    case (Cons z zs)
    have "length (xor_bytes (E reg) x) = n" using Cons.prems assms(1) by simp
    then show ?thesis
      using Cons Cons.prems Cons.IH[of "xor_bytes (E reg) x"] assms(1,2)
      by (subst cfb_spec.simps) (simp add: Let_def)
  qed
qed

lemma cfb_chain_undo:
  assumes "\<And>b. length b = n \<Longrightarrow> length (E b) = n" "length reg = n" "\<forall>x\<in>set xs. length x = n"
  shows "map2 xor_bytes (map E (butlast (reg # cfb_chain E reg xs))) (cfb_chain E reg xs) = xs"
  using assms(2,3)
proof (induction xs arbitrary: reg)
  case (Cons x xs)
  let ?y = "xor_bytes (E reg) x"
  have "length (E reg) = length x" using Cons.prems assms(1) by simp
  then have "xor_bytes (E reg) ?y = x"
    using xor_bytes_twice[of x "E reg"] by (simp add: xor_bytes_commute)
  then show ?case using Cons.prems Cons.IH[of ?y] assms(1) by (simp add: Let_def)
qed simp

lemma concat_map2_xor:
  assumes "\<forall>x\<in>set xs. length x = n" "\<forall>y\<in>set ys. length y = n" "length xs = length ys"
  shows "xor_bytes (concat xs) (concat ys) = concat (map2 xor_bytes xs ys)"
  using assms(3,1,2) by (induction xs ys rule: list_induct2) (simp_all add: xor_bytes_append xor_bytes_def)

lemma cfb_fast_fold:
  assumes "good_algo a" "ba_blksize a = 16" "length cur = 16" "length buf = 32" "\<forall>x\<in>set xs. length x = 16"
  shows "fst (fold (\<lambda>inp (out, cur, buf).
            let buf = put_bytes 0 (ba_encryptfast a (take 16 cur) 1) buf;
                o1 = xor_aligned buf inp 16
            in (out @ o1, o1, buf)) xs (out, cur, buf)) = out @ concat (cfb_chain (ba_encrypt a) cur xs)"
  using assms(3-5)
proof (induction xs arbitrary: out cur buf)
  case (Cons x xs)
  have "chunks 16 cur = [cur]" using chunks_concat[of "[cur]" 16] Cons.prems by simp
  then have "ba_encryptfast a cur 1 = ba_encrypt a cur"
    using assms(1,2) Cons.prems by (simp add: good_algo_def)
  moreover have "length (ba_encrypt a cur) = 16" using assms(1,2) Cons.prems by (simp add: good_algo_length)
  ultimately show ?case
    using Cons.prems Cons.IH by (simp add: Let_def xor_aligned_def xor_buffers_def put_bytes_def)
qed simp

lemma cfb_encryptfast_16:
  assumes "cfb_ready a 16 c" "ba_blksize a = 16" "cfb_chunks c = 1" "cfb_boff c = 0" "16 dvd length data"
  shows "fst (cfb_encryptfast data c) = fst (cfb_encrypt data c)"
proof -
  have c: "cfb_algo c = Some a" "good_algo a" "cfb_blksize c = 16" "length (cfb_buf c) = 32" "length (cfb_prev c) = 32"
    using assms(1,2) by (simp_all add: cfb_ready_def cfb_static_def)
  have sizes: "\<forall>x\<in>set (chunks 16 data). length x = 16" using chunks_sizes by blast
  have "fst (cfb_encryptfast data c) = concat (cfb_chain (ba_encrypt a) (take 16 (cfb_prev c)) (chunks 16 data))"
    using cfb_fast_fold[OF c(2) assms(2) _ c(4) sizes, of "take 16 (cfb_prev c)" "[]"] c
    by (simp add: cfb_encryptfast_def assms(3) DREW_MODE_ALIGNMENT_def split_beta Let_def)
  also have "\<dots> = cfb_spec (ba_encrypt a) 16 (take 16 (cfb_prev c)) (concat (chunks 16 data))"
    using c assms(2) sizes good_algo_length by (intro cfb_spec_chain[symmetric]) auto
  finally show ?thesis
    using cfb_encrypt_spec[OF assms(1,4)] assms(2,5) by (simp add: concat_chunks)
qed

lemma cfb_decryptfast_round_trip:
  assumes "cfb_ready a 16 c" "cfb_ready a 16 d" "ba_blksize a = 16" "cfb_chunks c = 1" "cfb_boff c = 0"
    and "cfb_prev d = cfb_prev c" "16 dvd length data" "length data \<le> 4096"
  shows "map_option fst (cfb_decryptfast (fst (cfb_encrypt data c)) d) = Some data"
proof -
  have c: "good_algo a" "length (cfb_prev c) = 32" and d: "cfb_algo d = Some a" "cfb_blksize d = 16"
    using assms(1-3) by (simp_all add: cfb_ready_def cfb_static_def)
  define reg where "reg = take 16 (cfb_prev c)"
  have reg: "length reg = 16" "take 16 (cfb_prev d) = reg" using c assms(6) by (simp_all add: reg_def)
  define xs where "xs = chunks 16 data"
  have xs: "\<forall>x\<in>set xs. length x = 16" "concat xs = data" "16 * length xs = length data"
    using chunks_sizes assms(7) by (auto simp: xs_def concat_chunks length_chunks)
  have E: "length (ba_encrypt a b) = 16" if "length b = 16" for b
    using c(1) assms(3) that by (simp add: good_algo_length)
  define ys where "ys = cfb_chain (ba_encrypt a) reg xs"
  have ys: "\<forall>y\<in>set ys. length y = 16" "length ys = length xs"
    using cfb_chain_sizes[of 16 "ba_encrypt a", OF E reg(1) xs(1)] by (simp_all add: ys_def)
  have enc: "fst (cfb_encrypt data c) = concat ys"
    using cfb_encrypt_spec[OF assms(1,5), of data] cfb_spec_chain[of 16 "ba_encrypt a" reg xs] E reg xs assms(3)
    by (simp add: ys_def reg_def)
  have len: "length (concat ys) = length data" using length_concat_blocks[OF ys(1)] ys(2) xs(3) by simp
  show ?thesis
  proof (cases "data = []")
    case True
    then show ?thesis using enc len by (simp add: cfb_decryptfast_def cfb_decfast_loop.simps)
  next
    case False
    then have ne: "ys \<noteq> []" "concat ys \<noteq> []" "16 \<le> length data"
      using len ys(2) xs(3) dvd_imp_le[OF assms(7)] by (auto simp del: concat_eq_Nil_conv)
    define ins where "ins = butlast (reg # ys)"
    have ins: "\<forall>b\<in>set ins. length b = 16" "length ins = length ys"
      using ys(1) reg(1) by (auto simp: ins_def dest: in_set_butlastD)
    have bufs: "reg @ take (length data - 16) (concat ys) = concat ins"
    proof -
      have "concat ys = concat (butlast ys) @ last ys"
        using ne(1) by (metis append_butlast_last_id concat_append concat.simps append_Nil2)
      moreover have "length (last ys) = 16" using ys(1) ne(1) by simp
      ultimately have "take (length data - 16) (concat ys) = concat (butlast ys)" using len by simp
      then show ?thesis using ne(1) by (simp add: ins_def)
    qed
    have linsc: "length (concat ins) = length data"
      using length_concat_blocks[OF ins(1)] ins(2) ys(2) xs(3) by simp
    have par: "ba_encryptfast a (concat ins) (length data div 16) = concat (map (ba_encrypt a) ins)"
      using c(1) assms(3,7) linsc ins(1) by (simp add: good_algo_def chunks_concat)
    have esz: "\<forall>b\<in>set (map (ba_encrypt a) ins). length b = 16" using ins(1) E by simp
    have elen: "length (concat (map (ba_encrypt a) ins)) = length data"
      using length_concat_blocks[OF esz] ins(2) ys(2) xs(3) by simp
    have "xor_bytes (concat (map (ba_encrypt a) ins)) (concat ys) = concat (map2 xor_bytes (map (ba_encrypt a) ins) ys)"
      using concat_map2_xor[OF esz ys(1)] ins(2) by simp
    also have "\<dots> = data"
      using cfb_chain_undo[of 16 "ba_encrypt a" reg xs] E reg(1) xs by (simp add: ins_def ys_def)
    finally have out: "xor_bytes (concat (map (ba_encrypt a) ins)) (concat ys) = data" .
    have mul: "16 * (length data div 16) = length data" using assms(7) by simp
    have "cfb_decfast_loop (concat ys) d = Some (data, d\<lparr>cfb_prev :=
        put_bytes 0 (slice (length data - 16) 16 (concat ys)) (cfb_prev d)\<rparr>)"
      using ne assms(8) len d reg(2) bufs par mul out elen linsc
      by (subst cfb_decfast_loop.simps)
        (simp add: Let_def cfb_decfast_loop.simps[of "[]"] xor_aligned_def xor_buffers_def del: concat_eq_Nil_conv)
    then show ?thesis by (simp add: cfb_decryptfast_def enc)
  qed
qed

lemma cfb_decryptfast_long:
  "4096 < length data \<Longrightarrow> 16 dvd length data \<Longrightarrow> cfb_decryptfast data c = None"
  by (cases data) (simp_all add: cfb_decryptfast_def cfb_decfast_loop.simps[of "d # ds" for d ds] Let_def)

end
