(* ===== verification/GF128.thy ===== *)
theory GF128
  imports Block_Plugin
begin

unbundle bit_operations_syntax

text \<open>
  The multiplication of GCM in the field with \<open>2\<^sup>1\<^sup>2\<^sup>8\<close> elements, \<^verbatim>\<open>mul\<close>,
  \<^verbatim>\<open>gen_table_fl\<close> and \<^verbatim>\<open>mul_fl\<close> of \<^verbatim>\<open>impl/mode/gcm.cc\<close>: the slow one
  goes over the bits of the hash key, the fast one adds up sixteen entries of a table of 64 KiB, one for each byte of
  the argument. A block is two words, the more significant first, whose bits from the left are the coefficients.
\<close>

section \<open>Bit by bit\<close>

type_synonym gf = "u64 \<times> u64"

text \<open>\<^verbatim>\<open>v\<close> becomes its half: the coefficients move one place on, and the last one is reduced.\<close>

fun gf_half :: "gf \<Rightarrow> gf" where
  "gf_half (v0, v1) =
     (let x = v1 AND 1;
          v1 = drop_bit 1 v1 OR push_bit 63 v0;
          v0 = drop_bit 1 v0 XOR (if x \<noteq> 0 then push_bit 56 0xe1 else 0)
      in (v0, v1))"

fun gf_add :: "gf \<Rightarrow> gf \<Rightarrow> gf" where
  "gf_add (a0, a1) (b0, b1) = (a0 XOR b0, a1 XOR b1)"

definition gf_load :: "byte list \<Rightarrow> gf" where
  "gf_load b = (let v = load_words Big (take 16 b) in (v ! 0, v ! 1))"

definition gf_store :: "gf \<Rightarrow> byte list" where
  "gf_store z = store_words Big [fst z, snd z]"

definition gcm_mul_bit :: "byte \<Rightarrow> byte \<Rightarrow> gf \<times> gf \<Rightarrow> gf \<times> gf" where
  "gcm_mul_bit b j zv =
     (let (z, v) = zv; x = b AND j in (if x \<noteq> 0 then gf_add z v else gf_add z (0, 0), gf_half v))"

definition gcm_mul :: "byte list \<Rightarrow> byte list \<Rightarrow> byte list" where
  "gcm_mul h buf =
     (let v = gf_load buf;
          (z, v) = fold (\<lambda>i. fold (\<lambda>n. gcm_mul_bit (h ! i) (drop_bit n 0x80)) [0..<8]) [0..<16] ((0, 0), v)
      in gf_store z)"

section \<open>With a table\<close>

text \<open>The table as bytes; entry \<open>c\<close> of part \<open>a\<close> is 16 bytes from offset \<open>4096 a + 16 c\<close>, that is word
  \<open>512 a + 2 c\<close>.\<close>

definition gcm_entry :: "nat \<Rightarrow> byte list \<Rightarrow> byte list" where
  "gcm_entry p table = slice (8 * p) 16 table"

definition gen_table_power :: "nat \<Rightarrow> byte list \<times> gf \<Rightarrow> byte list \<times> gf" where
  "gen_table_power i tv =
     (let (table, v) = tv; k = i AND 7
      in (put_bytes (i div 8 * 256 * 16 + push_bit (11 - k) 1) (gf_store v) table, gf_half v))"

definition gen_table_sums :: "nat \<Rightarrow> byte list \<Rightarrow> byte list" where
  "gen_table_sums i table =
     fold (\<lambda>j. fold (\<lambda>k table. put_bytes (8 * (i * 256 * 2 + (j + k) * 2))
         (xor_bytes (gcm_entry (i * 256 * 2 + j * 2) table) (gcm_entry (i * 256 * 2 + k * 2) table)) table) [1..<j])
       [2, 4, 8, 16, 32, 64, 128] (put_bytes (8 * (i * 256 * 2)) (replicate 16 0) table)"

definition gen_table_fl :: "byte list \<Rightarrow> byte list \<Rightarrow> byte list" where
  "gen_table_fl h table =
     (let (table, v) = fold gen_table_power [0..<128] (table, gf_load h)
      in fold gen_table_sums [0..<16] table)"

text \<open>\<^verbatim>\<open>RE\<close> and \<^verbatim>\<open>PTR_WORD\<close>: the word \<open>x\<close> is the memory's, so where a byte is in
  it depends on the machine; the offset is in words.\<close>

definition gcm_RE :: "endianness \<Rightarrow> nat \<Rightarrow> nat \<Rightarrow> nat" where
  "gcm_RE host c d = (if host = Little then d + 4 * (c mod 2) else 7 - d - 4 * (c mod 2))"

definition gcm_PTR_WORD :: "endianness \<Rightarrow> u64 list \<Rightarrow> nat \<Rightarrow> nat \<Rightarrow> nat \<Rightarrow> nat" where
  "gcm_PTR_WORD host x b c d =
     (c * 4 + d) * 256 * 2 +
     unat (drop_bit 3 (if gcm_RE host c d \<noteq> 0
        then drop_bit ((if gcm_RE host c d \<noteq> 0 then gcm_RE host c d else 1) * 8 - 4) (x ! b) AND 0xff0
        else push_bit 4 (x ! b AND 0xff)))"

definition gcm_mul_fl :: "endianness \<Rightarrow> byte list \<Rightarrow> byte list \<Rightarrow> byte list" where
  "gcm_mul_fl host table buf =
     (let x = load_words host buf;
          add = (\<lambda>b c d a. xor_bytes a (gcm_entry (gcm_PTR_WORD host x b c d) table));
          a = replicate 16 0;
          a = add 0 0 0 a; a = add 0 0 1 a; a = add 0 0 2 a; a = add 0 0 3 a;
          a = add 0 1 0 a; a = add 0 1 1 a; a = add 0 1 2 a; a = add 0 1 3 a;
          a = add 1 2 0 a; a = add 1 2 1 a; a = add 1 2 2 a; a = add 1 2 3 a;
          a = add 1 3 0 a; a = add 1 3 1 a; a = add 1 3 2 a; a = add 1 3 3 a
      in a)"

section \<open>Sums of multiples\<close>

text \<open>\<open>gf_lin f n v\<close> is the sum of \<open>v\<close> halved \<open>i\<close> times over the \<open>i < n\<close> with \<open>f i\<close>.\<close>

primrec gf_lin :: "(nat \<Rightarrow> bool) \<Rightarrow> nat \<Rightarrow> gf \<Rightarrow> gf" where
  "gf_lin f 0 v = (0, 0)"
| "gf_lin f (Suc n) v = (if f n then gf_add (gf_lin f n v) ((gf_half ^^ n) v) else gf_lin f n v)"

lemma gf_add_zero [simp]: "gf_add a (0, 0) = a" "gf_add (0, 0) a = a"
  by (cases a, simp)+

lemma gf_add_commute: "gf_add a b = gf_add b a"
  by (cases a; cases b) (simp add: xor.commute)

lemma gf_add_assoc: "gf_add (gf_add a b) c = gf_add a (gf_add b c)"
  by (cases a; cases b; cases c) (simp add: xor.assoc)

lemma gf_add_left_commute: "gf_add a (gf_add b c) = gf_add b (gf_add a c)"
  by (metis gf_add_assoc gf_add_commute)

lemmas gf_add_ac = gf_add_commute gf_add_assoc gf_add_left_commute

lemma gf_half_zero [simp]: "gf_half (0, 0) = (0, 0)"
  by (simp add: Let_def)

lemma gf_eqI:
  "(\<And>m. m < 64 \<Longrightarrow> bit (fst a) m = bit (fst b) m) \<Longrightarrow> (\<And>m. m < 64 \<Longrightarrow> bit (snd a) m = bit (snd b) m) \<Longrightarrow> a = b"
  for a b :: gf
  by (intro prod_eqI bit_word_eqI) simp_all

lemma and_one_bit: "x AND 1 = (0 :: u64) \<longleftrightarrow> \<not> bit x 0"
  by (simp add: and_one_eq bit_0 even_iff_mod_2_eq_zero)

lemma bit_64 [simp]: "64 \<le> m \<Longrightarrow> bit (x :: u64) m = False"
  using bit_imp_le_length by fastforce

lemma gf_half_bits:
  assumes "m < 64"
  shows "bit (fst (gf_half v)) m = (bit (fst v) (Suc m) \<noteq> (bit (snd v) 0 \<and> bit (push_bit 56 0xe1 :: u64) m))"
    "bit (snd (gf_half v)) m = (bit (snd v) (Suc m) \<noteq> (m = 63 \<and> bit (fst v) 0))"
proof -
  obtain v0 v1 where v: "v = (v0, v1)" by (cases v)
  show "bit (fst (gf_half v)) m = (bit (fst v) (Suc m) \<noteq> (bit (snd v) 0 \<and> bit (push_bit 56 0xe1 :: u64) m))"
    using assms by (simp add: v and_one_bit Let_def bit_xor_iff bit_drop_bit_eq)
  have "m = 63 \<or> m < 63" using assms by auto
  then show "bit (snd (gf_half v)) m = (bit (snd v) (Suc m) \<noteq> (m = 63 \<and> bit (fst v) 0))"
    by (auto simp: v and_one_bit Let_def bit_or_iff bit_drop_bit_eq bit_push_bit_iff)
qed

lemma gf_add_bits:
  "bit (fst (gf_add a b)) m = (bit (fst a) m \<noteq> bit (fst b) m)" "bit (snd (gf_add a b)) m = (bit (snd a) m \<noteq> bit (snd b) m)"
  by (cases a; cases b; simp add: bit_xor_iff)+

lemma gf_half_add: "gf_half (gf_add a b) = gf_add (gf_half a) (gf_half b)"
  by (rule gf_eqI) (auto simp: gf_half_bits gf_add_bits simp del: gf_half.simps gf_add.simps)

lemma funpow_half_zero [simp]: "(gf_half ^^ k) (0, 0) = (0, 0)"
  by (induction k) simp_all

lemma funpow_half_add: "(gf_half ^^ n) (gf_add a b) = gf_add ((gf_half ^^ n) a) ((gf_half ^^ n) b)"
  by (induction n) (simp_all add: gf_half_add)

lemma gf_lin_add: "gf_lin f n (gf_add a b) = gf_add (gf_lin f n a) (gf_lin f n b)"
  by (induction n) (simp_all add: funpow_half_add gf_add_ac)

lemma gf_lin_half: "gf_lin f n ((gf_half ^^ k) v) = (gf_half ^^ k) (gf_lin f n v)"
proof (induction n)
  case 0
  show ?case by simp
next
  case (Suc n)
  have "(gf_half ^^ n) ((gf_half ^^ k) v) = (gf_half ^^ k) ((gf_half ^^ n) v)"
    by (simp flip: comp_apply[of "gf_half ^^ n"] comp_apply[of "gf_half ^^ k"] funpow_add add: add.commute)
  then show ?case using Suc by (simp add: funpow_half_add)
qed

lemma gf_lin_lin: "gf_lin f n (gf_lin g m v) = gf_lin g m (gf_lin f n v)"
proof (induction m)
  case 0
  show ?case by (induction n) simp_all
next
  case (Suc m)
  then show ?case by (simp add: gf_lin_add gf_lin_half)
qed

lemma gf_lin_cong: "(\<And>i. i < n \<Longrightarrow> f i = g i) \<Longrightarrow> gf_lin f n v = gf_lin g n v"
  by (induction n) simp_all

text \<open>Every block is the sum of the halves of one, so the multiplication is commutative.\<close>

definition gf_one :: gf where
  "gf_one = (push_bit 63 1, 0)"

definition gf_bit :: "gf \<Rightarrow> nat \<Rightarrow> bool" where
  "gf_bit v i = (if i < 64 then bit (fst v) (63 - i) else bit (snd v) (127 - i))"

definition gf_mult :: "gf \<Rightarrow> gf \<Rightarrow> gf" where
  "gf_mult a b = gf_lin (gf_bit a) 128 b"

lemma gf_half_one:
  "i < 128 \<Longrightarrow> (gf_half ^^ i) gf_one = (if i < 64 then (push_bit (63 - i) 1, 0) else (0, push_bit (127 - i) 1))"
proof (induction i)
  case 0
  then show ?case by (simp add: gf_one_def)
next
  case (Suc i)
  then have ih: "(gf_half ^^ i) gf_one = (if i < 64 then (push_bit (63 - i) 1, 0) else (0, push_bit (127 - i) 1))" by simp
  consider "i < 63" | "i = 63" | "64 \<le> i" by linarith
  then show ?case
  proof cases
    case 1
    then show ?thesis unfolding funpow.simps o_apply ih
      by (intro gf_eqI) (auto simp: gf_half_bits bit_exp_iff simp del: gf_half.simps)
  next
    case 2
    have "bit (0x8000000000000000 :: u64) m = (m = 63)" for m
      using bit_exp_iff[where 'a = u64, of 63 m] by auto
    with 2 show ?thesis unfolding funpow.simps o_apply ih
      by (intro gf_eqI) (auto simp: gf_half_bits bit_exp_iff simp del: gf_half.simps)
  next
    case 3
    then show ?thesis unfolding funpow.simps o_apply ih
      by (intro gf_eqI) (use Suc.prems in \<open>auto simp: gf_half_bits bit_exp_iff simp del: gf_half.simps\<close>)
  qed
qed

lemma gf_half_one_bits:
  assumes "i < 128" "m < 64"
  shows "bit (fst ((gf_half ^^ i) gf_one)) m = (i = 63 - m)" "bit (snd ((gf_half ^^ i) gf_one)) m = (i = 127 - m)"
  using assms by (auto simp: gf_half_one bit_exp_iff)

lemma gf_lin_one:
  assumes "n \<le> 128" "m < 64"
  shows "bit (fst (gf_lin f n gf_one)) m = (63 - m < n \<and> f (63 - m)) \<and>
    bit (snd (gf_lin f n gf_one)) m = (127 - m < n \<and> f (127 - m))"
  using assms(1)
proof (induction n)
  case (Suc n)
  then have ih: "bit (fst (gf_lin f n gf_one)) m = (63 - m < n \<and> f (63 - m))"
    "bit (snd (gf_lin f n gf_one)) m = (127 - m < n \<and> f (127 - m))" and n: "n < 128" by simp_all
  show ?case
    by (cases "f n") (auto simp only: gf_lin.simps if_True if_False gf_add_bits ih gf_half_one_bits[OF n assms(2)] less_Suc_eq)
qed simp

lemma gf_lin_bits: "gf_lin (gf_bit v) 128 gf_one = v"
  by (rule gf_eqI) (auto simp: gf_lin_one gf_bit_def)

lemma gf_mult_commute: "gf_mult a b = gf_mult b a"
  unfolding gf_mult_def by (metis gf_lin_bits gf_lin_lin)

section \<open>The slow multiplication\<close>

lemma length_gf_store [simp]: "length (gf_store z) = 16"
  by (simp add: gf_store_def bytes_simps)

lemma gf_load_store [simp]: "gf_load (gf_store z) = z"
  by (simp add: gf_load_def gf_store_def bytes_simps)

lemma gf_store_load [simp]:
  assumes "length b = 16"
  shows "gf_store (gf_load b) = b"
proof -
  have "length (load_words Big b :: u64 list) = 2" using assms by (simp add: bytes_simps)
  then have "gf_store (gf_load b) = store_words Big (load_words Big b :: u64 list)"
    using assms length_two[of "load_words Big b :: u64 list"] by (simp add: gf_load_def gf_store_def Let_def)
  then show ?thesis using assms by (simp add: bytes_simps)
qed

lemma bit_be_load:
  assumes "length bs = 8" "q < 8" "r < 8"
  shows "bit (be_load bs :: u64) (8 * q + r) = bit (bs ! (7 - q)) r"
  using assms by (simp add: be_load_def bit_le_load rev_nth)

lemma gf_bit_load:
  assumes "length b = 16" "i < 128"
  shows "gf_bit (gf_load b) i = bit (b ! (i div 8)) (7 - i mod 8)"
proof -
  define q r where "q = i div 8" and "r = i mod 8"
  have i: "i = 8 * q + r" "r < 8" "q < 16" using assms(2) by (simp_all add: q_def r_def)
  have l: "load_words Big b ! 0 = (be_load (take 8 b) :: u64)" "load_words Big b ! 1 = (be_load (take 8 (drop 8 b)) :: u64)"
    using assms(1) by (simp_all add: load_words_def load_def nth_chunks length_chunks)
  show ?thesis
  proof (cases "q < 8")
    case True
    then have "63 - i = 8 * (7 - q) + (7 - r)" "i < 64" using i by auto
    then show ?thesis using True i assms(1) bit_be_load[of "take 8 b" "7 - q" "7 - r"]
      unfolding q_def[symmetric] r_def[symmetric] by (simp add: gf_bit_def gf_load_def Let_def l)
  next
    case False
    then have "127 - i = 8 * (15 - q) + (7 - r)" "\<not> i < 64" "8 + (7 - (15 - q)) = q" using i by auto
    then show ?thesis using False i assms(1) bit_be_load[of "take 8 (drop 8 b)" "15 - q" "7 - r"]
      unfolding q_def[symmetric] r_def[symmetric] by (simp add: gf_bit_def gf_load_def Let_def l(2)[unfolded One_nat_def])
  qed
qed

lemma gcm_mul_byte:
  "fold (\<lambda>n. gcm_mul_bit b (drop_bit n 0x80)) [0..<k] (z, v) =
     (gf_add z (gf_lin (\<lambda>i. bit b (7 - i)) k v), (gf_half ^^ k) v)" if "k \<le> 8"
  using that
proof (induction k)
  case (Suc k)
  then have "b AND drop_bit k 0x80 = 0 \<longleftrightarrow> \<not> bit b (7 - k)"
  proof -
    have "drop_bit k 0x80 = (push_bit (7 - k) 1 :: byte)"
    proof -
      from Suc.prems have "k \<in> {0, 1, 2, 3, 4, 5, 6, 7}" by auto
      then show ?thesis by (elim insertE emptyE) simp_all
    qed
    then show ?thesis by (simp add: and_exp_eq_0_iff_not_bit push_bit_eq_mult)
  qed
  then show ?case using Suc by (simp add: gcm_mul_bit_def gf_add_assoc)
qed simp

lemma gf_lin_append:
  "gf_lin f (m + n) v = gf_add (gf_lin f m v) (gf_lin (\<lambda>i. f (m + i)) n ((gf_half ^^ m) v))"
  by (induction n) (simp_all add: gf_add_assoc funpow_add add.commute)

lemma gcm_mul_bytes:
  "fold (\<lambda>i. fold (\<lambda>n. gcm_mul_bit (h ! i) (drop_bit n 0x80)) [0..<8]) [0..<k] ((0, 0), v) =
     (gf_lin (\<lambda>i. bit (h ! (i div 8)) (7 - i mod 8)) (8 * k) v, (gf_half ^^ (8 * k)) v)"
proof (induction k)
  case (Suc k)
  have "gf_lin (\<lambda>i. bit (h ! (i div 8)) (7 - i mod 8)) (8 * k + 8) v =
     gf_add (gf_lin (\<lambda>i. bit (h ! (i div 8)) (7 - i mod 8)) (8 * k) v)
       (gf_lin (\<lambda>i. bit (h ! k) (7 - i)) 8 ((gf_half ^^ (8 * k)) v))"
    unfolding gf_lin_append by (intro arg_cong2[where f = gf_add] gf_lin_cong refl) simp
  then show ?case using Suc by (simp add: gcm_mul_byte funpow_add add.commute del: upt_rec_numeral)
qed simp

lemma gcm_mul_gf:
  assumes "length h = 16"
  shows "gcm_mul h buf = gf_store (gf_mult (gf_load h) (gf_load buf))"
proof -
  have "gf_lin (\<lambda>i. bit (h ! (i div 8)) (7 - i mod 8)) 128 v = gf_mult (gf_load h) v" for v
    unfolding gf_mult_def using assms by (intro gf_lin_cong) (simp add: gf_bit_load)
  then show ?thesis
    unfolding gcm_mul_def Let_def gcm_mul_bytes by simp
qed

section \<open>The fast multiplication\<close>

text \<open>What entry \<open>c\<close> of part \<open>a\<close> holds when the table is complete.\<close>

definition gf_part :: "byte list \<Rightarrow> nat \<Rightarrow> nat \<Rightarrow> gf" where
  "gf_part h a c = gf_lin (\<lambda>k. bit c (7 - k)) 8 ((gf_half ^^ (8 * a)) (gf_load h))"

text \<open>The table as a function.\<close>

definition tab :: "byte list \<Rightarrow> nat \<Rightarrow> nat \<Rightarrow> byte list" where
  "tab t a c = gcm_entry (512 * a + 2 * c) t"

lemma tab_put:
  assumes "length t = 65536" "length x = 16" "a < 16" "c < 256" "a' < 16" "c' < 256" "off = 4096 * a + 16 * c"
  shows "tab (put_bytes off x t) a' c' = (if a' = a \<and> c' = c then x else tab t a' c')"
proof -
  have off: "off = 8 * (512 * a + 2 * c)" using assms(7) by simp
  have le: "8 * (512 * a + 2 * c) + length x \<le> length t" using assms(1-4) by simp
  show ?thesis
  proof (cases "a' = a \<and> c' = c")
    case True
    then show ?thesis
      unfolding tab_def gcm_entry_def off using slice_put_same[OF le] assms(2) by simp
  next
    case False
    then consider "a' < a" | "a < a'" | "a' = a" "c' < c" | "a' = a" "c < c'" by linarith
    then have "4096 * a + 16 * c + 16 \<le> 4096 * a' + 16 * c' \<or> 4096 * a' + 16 * c' + 16 \<le> 4096 * a + 16 * c"
    proof cases
      case 1
      then show ?thesis using assms(4,6) by linarith
    next
      case 2
      then show ?thesis using assms(4,6) by linarith
    qed auto
    then have "8 * (512 * a + 2 * c) + length x \<le> 8 * (512 * a' + 2 * c') \<or> 8 * (512 * a' + 2 * c') + 16 \<le> 8 * (512 * a + 2 * c)"
      using assms(2) by (simp add: distrib_left)
    from slice_put_disjoint[OF le this] show ?thesis
      unfolding tab_def gcm_entry_def off by (simp only: if_not_P[OF False])
  qed
qed

lemma length_tab [simp]: "length t = 65536 \<Longrightarrow> a < 16 \<Longrightarrow> c < 256 \<Longrightarrow> length (tab t a c) = 16"
  by (simp add: tab_def gcm_entry_def)

lemma and_7: "n AND 7 = n mod (8 :: nat)"
  using take_bit_eq_mask[of 3 n] by (simp add: take_bit_eq_mod mask_eq_exp_minus_1)

text \<open>First the powers of two.\<close>

lemma gen_table_powers:
  assumes "length t = 65536" "n \<le> 128"
  shows "length (fst (fold gen_table_power [0..<n] (t, v))) = 65536 \<and>
     snd (fold gen_table_power [0..<n] (t, v)) = (gf_half ^^ n) v \<and>
     (\<forall>i<n. tab (fst (fold gen_table_power [0..<n] (t, v))) (i div 8) (2 ^ (7 - i mod 8)) = gf_store ((gf_half ^^ i) v))"
  using assms(2)
proof (induction n)
  case 0
  then show ?case using assms(1) by simp
next
  case (Suc n)
  let ?t = "fst (fold gen_table_power [0..<n] (t, v))"
  from Suc have ih: "length ?t = 65536" "snd (fold gen_table_power [0..<n] (t, v)) = (gf_half ^^ n) v"
    "\<And>i. i < n \<Longrightarrow> tab ?t (i div 8) (2 ^ (7 - i mod 8)) = gf_store ((gf_half ^^ i) v)" by simp_all
  have pow: "(2 :: nat) ^ (7 - k mod 8) < 256" for k
    using power_strict_increasing[of "7 - k mod 8" 8 "2 :: nat"] by simp
  have "n AND 7 = n mod 8" by (rule and_7)
  moreover have "16 * 2 ^ (7 - n mod 8) = (2 :: nat) ^ (11 - n mod 8)"
  proof -
    have "11 - n mod 8 = 4 + (7 - n mod 8)" using mod_less_divisor[of 8 n] by linarith
    then have "(2 :: nat) ^ (11 - n mod 8) = 2 ^ (4 + (7 - n mod 8))" by (rule arg_cong)
    also have "\<dots> = 16 * 2 ^ (7 - n mod 8)" unfolding power_add by simp
    finally show ?thesis ..
  qed
  ultimately have off: "n div 8 * 256 * 16 + push_bit (11 - (n AND 7)) 1 = 4096 * (n div 8) + 16 * 2 ^ (7 - n mod 8)"
    by (simp only: push_bit_eq_mult)
  obtain t' where "fold gen_table_power [0..<n] (t, v) = (t', (gf_half ^^ n) v)"
    using ih(2) by (cases "fold gen_table_power [0..<n] (t, v)") simp
  then have run: "fold gen_table_power [0..<Suc n] (t, v) = gen_table_power n (t', (gf_half ^^ n) v)" "?t = t'"
    by simp_all
  have step: "fold gen_table_power [0..<Suc n] (t, v) =
      (put_bytes (4096 * (n div 8) + 16 * 2 ^ (7 - n mod 8)) (gf_store ((gf_half ^^ n) v)) ?t, (gf_half ^^ Suc n) v)"
    unfolding run gen_table_power_def Let_def prod.case off funpow.simps o_apply ..
  have "tab (fst (fold gen_table_power [0..<Suc n] (t, v))) (i div 8) (2 ^ (7 - i mod 8)) = gf_store ((gf_half ^^ i) v)"
    if "i < Suc n" for i
  proof -
    have d: "n div 8 < 16" "i div 8 < 16" using Suc.prems that by auto
    have "i = n" if "i div 8 = n div 8" "(2 :: nat) ^ (7 - i mod 8) = 2 ^ (7 - n mod 8)"
    proof -
      have "7 - i mod 8 = 7 - n mod 8" using that(2) by (simp only: power_inject_exp) 
      then have "i mod 8 = n mod 8" using mod_less_divisor[of 8 i] mod_less_divisor[of 8 n] by linarith
      then show ?thesis using that(1) by (metis div_mult_mod_eq)
    qed
    then show ?thesis
      unfolding step fst_conv using tab_put[OF ih(1) length_gf_store[of "(gf_half ^^ n) v"] d(1) pow[of n] d(2) pow[of i] refl] ih(3)[of i] that
      by (auto simp: less_Suc_eq)
  qed
  moreover have "n div 8 \<le> 15" using Suc.prems by simp
  then have "4096 * (n div 8) + 16 * 2 ^ (7 - n mod 8) + 16 \<le> (65536 :: nat)" using pow[of n] by linarith
  ultimately show ?case unfolding step fst_conv snd_conv using ih(1) by simp
qed

text \<open>Then the sums: part by part, and within a part up to twice the power of two.\<close>

lemma bit_power_plus:
  fixes k :: nat
  assumes "k < 2 ^ p"
  shows "bit (2 ^ p + k) i = (i = p \<or> bit k i)"
proof -
  have b: "bit k i \<Longrightarrow> i < p" for i
    using assms bit_take_bit_iff[of p k i] by (simp add: take_bit_nat_eq_self)
  have "2 ^ p AND k = 0" by (rule bit_eqI) (auto simp: bit_and_iff bit_exp_iff dest: b)
  then have "2 ^ p + k = 2 ^ p OR k" by (simp add: disjunctive_add_eq_or)
  then show ?thesis by (auto simp: bit_or_iff bit_exp_iff)
qed

lemma gf_lin_disjoint:
  "\<forall>i<n. \<not> (f i \<and> g i) \<Longrightarrow> gf_lin (\<lambda>i. f i \<or> g i) n v = gf_add (gf_lin f n v) (gf_lin g n v)"
  by (induction n) (auto simp: gf_add_ac simp del: gf_add.simps)

lemma gf_part_sum:
  assumes "k < 2 ^ p" "p < 8"
  shows "gf_part h a (2 ^ p + k) = gf_add (gf_part h a (2 ^ p)) (gf_part h a k)"
proof -
  have "\<not> bit k p" using assms(1) bit_take_bit_iff[of p k p] by (simp add: take_bit_nat_eq_self)
  then have "\<forall>j<8. \<not> (bit ((2 :: nat) ^ p) (7 - j) \<and> bit k (7 - j))" by (auto simp: bit_exp_iff)
  from gf_lin_disjoint[OF this] show ?thesis
    unfolding gf_part_def using bit_power_plus[OF assms(1)] by (simp add: bit_exp_iff)
qed

lemma gf_part_zero: "gf_part h a 0 = (0, 0)"
  by (simp add: gf_part_def numeral_eq_Suc)

lemma gf_lin_single:
  "k < n \<Longrightarrow> gf_lin (\<lambda>i. i = k) n v = (gf_half ^^ k) v" "n \<le> k \<Longrightarrow> gf_lin (\<lambda>i. i = k) n v = (0, 0)"
  by (induction n) (auto simp: less_Suc_eq)

lemma gf_part_power:
  assumes "k < 8"
  shows "gf_part h a (2 ^ (7 - k)) = (gf_half ^^ (8 * a + k)) (gf_load h)"
proof -
  have "gf_part h a (2 ^ (7 - k)) = gf_lin (\<lambda>i. i = k) 8 ((gf_half ^^ (8 * a)) (gf_load h))"
    unfolding gf_part_def using assms by (intro gf_lin_cong) (auto simp: bit_exp_iff)
  then show ?thesis using assms by (simp add: gf_lin_single(1) funpow_add add.commute)
qed

text \<open>\<open>t\<close> has the entries below \<open>n\<close> of part \<open>i\<close> and is otherwise \<open>t0\<close>.\<close>

definition part_done :: "byte list \<Rightarrow> nat \<Rightarrow> nat \<Rightarrow> byte list \<Rightarrow> byte list \<Rightarrow> bool" where
  "part_done h i n t0 t \<longleftrightarrow> length t = 65536 \<and>
     (\<forall>a<16. \<forall>c<256. tab t a c = (if a = i \<and> c < n then gf_store (gf_part h a c) else tab t0 a c))"

lemma xor_bytes_le_store: "xor_bytes (le_store a) (le_store b) = le_store (a XOR b)"
  by (intro nth_equalityI) (simp_all add: bytes_simps nth_le_store unsigned_xor_eq)

lemma xor_bytes_be_store: "xor_bytes (be_store a) (be_store b) = be_store (a XOR b)"
  unfolding be_store_def xor_bytes_le_store[symmetric]
  by (intro nth_equalityI) (simp_all add: bytes_simps rev_nth)

lemma gf_store_zero: "gf_store (0, 0) = replicate 16 0"
proof -
  have "be_store (0 :: u64) = replicate 8 0" by (simp add: be_store_def le_store_def map_replicate_const)
  then show ?thesis by (simp add: gf_store_def store_words_def store_def replicate_add[symmetric])
qed

lemma gf_store_add: "xor_bytes (gf_store a) (gf_store b) = gf_store (gf_add a b)"
  by (cases a; cases b)
    (simp add: gf_store_def store_words_def store_def bytes_simps xor_bytes_append flip: xor_bytes_be_store)

lemma sums_inner:
  assumes "part_done h i (2 ^ p) t0 t" "i < 16" "p < 8" "tab t0 i (2 ^ p) = gf_store (gf_part h i (2 ^ p))" "1 \<le> m" "m \<le> 2 ^ p"
  shows "part_done h i (2 ^ p + m) t0 (fold (\<lambda>k table. put_bytes (8 * (i * 256 * 2 + (2 ^ p + k) * 2))
         (xor_bytes (gcm_entry (i * 256 * 2 + 2 ^ p * 2) table) (gcm_entry (i * 256 * 2 + k * 2) table)) table) [1..<m] t)"
  using assms(5,6)
proof (induction m rule: dec_induct)
  case base
  have "c < 2 ^ p \<or> c = 2 ^ p \<longleftrightarrow> c < 2 ^ p + 1" for c :: nat by auto
  then show ?case using assms(1,4) by (auto simp: part_done_def)
next
  case (step m)
  let ?f = "\<lambda>k table. put_bytes (8 * (i * 256 * 2 + (2 ^ p + k) * 2))
         (xor_bytes (gcm_entry (i * 256 * 2 + 2 ^ p * 2) table) (gcm_entry (i * 256 * 2 + k * 2) table)) table"
  let ?t = "fold ?f [1..<m] t"
  have ih: "part_done h i (2 ^ p + m) t0 ?t" using step by simp
  have "(2 :: nat) ^ p \<le> 2 ^ 7" using assms(3) by (intro power_increasing) simp_all
  then have r: "2 ^ p + m < 256" "2 ^ p < (256 :: nat)" "m < 256" using step.prems by simp_all
  have "tab ?t i (2 ^ p) = gf_store (gf_part h i (2 ^ p))" "tab ?t i m = gf_store (gf_part h i m)"
    using ih r assms(2) step.hyps by (simp_all add: part_done_def)
  then have x: "xor_bytes (gcm_entry (i * 256 * 2 + 2 ^ p * 2) ?t) (gcm_entry (i * 256 * 2 + m * 2) ?t) = gf_store (gf_part h i (2 ^ p + m))"
    using gf_part_sum[of m p h i] step.prems assms(3) by (simp add: tab_def gf_store_add mult.commute)
  have l: "length ?t = 65536" using ih by (simp add: part_done_def)
  have f: "fold ?f [1..<Suc m] t = put_bytes (4096 * i + 16 * (2 ^ p + m)) (gf_store (gf_part h i (2 ^ p + m))) ?t"
    using step.hyps x by (simp add: algebra_simps)
  show ?case
    unfolding f part_done_def
  proof (intro conjI allI impI)
    show "length (put_bytes (4096 * i + 16 * (2 ^ p + m)) (gf_store (gf_part h i (2 ^ p + m))) ?t) = 65536"
      using l r assms(2) by simp
    fix a c :: nat
    assume ac: "a < 16" "c < 256"
    show "tab (put_bytes (4096 * i + 16 * (2 ^ p + m)) (gf_store (gf_part h i (2 ^ p + m))) ?t) a c =
        (if a = i \<and> c < 2 ^ p + Suc m then gf_store (gf_part h a c) else tab t0 a c)"
      using tab_put[OF l length_gf_store assms(2) r(1) ac refl] ih ac
      by (auto simp: part_done_def less_Suc_eq)
  qed
qed

lemma part_done_sums:
  assumes "length t = 65536" "i < 16" "\<And>p. p < 8 \<Longrightarrow> tab t i (2 ^ p) = gf_store (gf_part h i (2 ^ p))"
  shows "part_done h i 256 t (gen_table_sums i t)"
proof -
  define step where "step j = fold (\<lambda>k table. put_bytes (8 * (i * 256 * 2 + (j + k) * 2))
         (xor_bytes (gcm_entry (i * 256 * 2 + j * 2) table) (gcm_entry (i * 256 * 2 + k * 2) table)) table) [1..<j]" for j
  let ?t = "put_bytes (8 * (i * 256 * 2)) (replicate 16 0) t"
  have "gf_store (gf_part h i 0) = replicate 16 0"
    by (simp add: gf_part_zero gf_store_zero)
  then have "part_done h i 1 t ?t"
    using tab_put[OF assms(1), of "replicate 16 0" i 0 _ _ "8 * (i * 256 * 2)"] assms(1,2)
    by (auto simp: part_done_def)
  moreover have "tab t i 1 = gf_store (gf_part h i 1)" using assms(3)[of 0] by simp
  ultimately have d2: "part_done h i 2 t ?t"
    by (auto simp: part_done_def less_Suc_eq numeral_2_eq_2)
  have dbl: "part_done h i (2 * 2 ^ p) t (step (2 ^ p) u)" if "part_done h i (2 ^ p) t u" "p < 8" for p u
    using sums_inner[OF that(1) assms(2) that(2) assms(3)[OF that(2)], of "2 ^ p"] unfolding step_def by (simp add: mult_2)
  have "part_done h i 256 t (step 128 (step 64 (step 32 (step 16 (step 8 (step 4 (step 2 ?t)))))))"
    using dbl[of 7, simplified, OF dbl[of 6, simplified, OF dbl[of 5, simplified, OF dbl[of 4, simplified,
      OF dbl[of 3, simplified, OF dbl[of 2, simplified, OF dbl[of 1, simplified, OF d2]]]]]]] .
  then show ?thesis unfolding gen_table_sums_def step_def[symmetric] by simp
qed

lemma gen_table_fl_entries:
  assumes "length t = 65536" "a < 16" "c < 256"
  shows "tab (gen_table_fl h t) a c = gf_store (gf_part h a c)" "length (gen_table_fl h t) = 65536"
proof -
  let ?r = "fold gen_table_power [0..<128] (t, gf_load h)"
  let ?t = "fst ?r"
  have l: "length ?t = 65536" and e: "\<And>i. i < 128 \<Longrightarrow> tab ?t (i div 8) (2 ^ (7 - i mod 8)) = gf_store ((gf_half ^^ i) (gf_load h))"
    using gen_table_powers[OF assms(1), of 128 "gf_load h"] by simp_all
  have pow: "tab ?t a (2 ^ p) = gf_store (gf_part h a (2 ^ p))" if "a < 16" "p < 8" for a p
  proof -
    define q where "q = 7 - p"
    have "q < 8" "p = 7 - q" using that by (simp_all add: q_def)
    then show ?thesis using e[of "8 * a + q"] gf_part_power[of q h a] that by simp
  qed
  have "length (fold gen_table_sums [0..<n] ?t) = 65536 \<and>
    (\<forall>a<16. \<forall>c<256. tab (fold gen_table_sums [0..<n] ?t) a c = (if a < n then gf_store (gf_part h a c) else tab ?t a c))"
    if "n \<le> 16" for n
    using that
  proof (induction n)
    case (Suc n)
    let ?u = "fold gen_table_sums [0..<n] ?t"
    have u: "length ?u = 65536" "\<And>a c. a < 16 \<Longrightarrow> c < 256 \<Longrightarrow> tab ?u a c = (if a < n then gf_store (gf_part h a c) else tab ?t a c)"
      using Suc by simp_all
    have p8: "(2 :: nat) ^ p < 256" if "p < 8" for p
      using power_strict_increasing[of p 8 "2 :: nat"] that by simp
    have "part_done h n 256 ?u (gen_table_sums n ?u)"
      using u(2) pow Suc.prems p8 by (intro part_done_sums u(1)) auto
    then show ?case using u(2) Suc.prems by (auto simp: part_done_def less_Suc_eq)
  qed (simp add: l)
  from this[of 16] show "tab (gen_table_fl h t) a c = gf_store (gf_part h a c)" "length (gen_table_fl h t) = 65536"
    unfolding gen_table_fl_def using assms(2,3) by (simp_all add: case_prod_unfold)
qed

lemma ptr_bits:
  fixes x :: u64
  assumes "k < 8"
  shows "drop_bit 3 (if k \<noteq> 0 then drop_bit ((if k \<noteq> 0 then k else 1) * 8 - 4) x AND 0xff0 else push_bit 4 (x AND 0xff)) =
    push_bit 1 (ucast (ucast (drop_bit (8 * k) x) :: byte))"
proof -
  have m: "(0xff0 :: u64) = push_bit 4 (mask 8)" "(0xff :: u64) = mask 8" by (simp_all add: mask_eq_exp_minus_1)
  show ?thesis
  proof (rule bit_word_eqI)
    fix n assume n: "n < LENGTH(64)"
    have r: "bit (push_bit 1 y) n = (1 \<le> n \<and> bit y (n - 1))" for y :: u64
      using n by (simp only: bit_push_bit_iff possible_bit_word simp_thms)
    show "bit (drop_bit 3 (if k \<noteq> 0 then drop_bit ((if k \<noteq> 0 then k else 1) * 8 - 4) x AND 0xff0 else push_bit 4 (x AND 0xff))) n =
        bit (push_bit 1 (ucast (ucast (drop_bit (8 * k) x) :: byte)) :: u64) n"
    proof (cases "k = 0")
      case True
      then show ?thesis using n unfolding m r
        by (cases "n = 0") (auto simp: bit_drop_bit_eq bit_push_bit_iff bit_and_iff bit_mask_iff bit_ucast_iff bit_simps)
    next
      case False
      have e: "k * 8 - 4 + (3 + n) = 8 * k + (n - 1)" if "1 \<le> n" using False that by simp
      show ?thesis using n False e unfolding m r
        by (cases "n = 0") (auto simp: bit_drop_bit_eq bit_push_bit_iff bit_and_iff bit_mask_iff bit_ucast_iff bit_simps)
    qed
  qed
qed

lemma load_byte:
  assumes "length p = 8" "j < 8"
  shows "ucast (drop_bit (8 * (if host = Little then j else 7 - j)) (load host p :: u64)) = p ! j"
proof -
  have "ucast (drop_bit (8 * i) (le_load q :: u64)) = q ! i" if "length q = 8" "i < 8" for q :: "byte list" and i
    by (rule bit_word_eqI) (use that in \<open>auto simp: bit_ucast_iff bit_drop_bit_eq bit_le_load\<close>)
  from this[of p j] this[of "rev p" "7 - j"] show ?thesis
    using assms by (cases host) (simp_all add: load_def be_load_def rev_nth)
qed

lemma gcm_PTR_WORD_byte:
  assumes "length buf = 16" "c < 4" "d < 4" "b = c div 2"
  shows "gcm_PTR_WORD host (load_words host buf) b c d = 512 * (4 * c + d) + 2 * unat (buf ! (4 * c + d))"
proof -
  define j where "j = d + 4 * (c mod 2)"
  have "c mod 2 < 2" by simp
  then have j: "j < 8" "8 * b + j = 4 * c + d"
    using assms(3) div_mult_mod_eq[of c 2] unfolding j_def assms(4) by linarith+
  have re: "gcm_RE host c d = (if host = Little then j else 7 - j)" by (simp add: gcm_RE_def j_def)
  then have re8: "gcm_RE host c d < 8" using j(1) by (simp split: if_splits)
  have "b < 2" using assms(2,4) by simp
  then have w: "load_words host buf ! b = (load host (take 8 (drop (8 * b) buf)) :: u64)" "length (take 8 (drop (8 * b) buf)) = 8"
    using assms(1) by (simp_all add: load_words_def nth_chunks length_chunks)
  have "ucast (drop_bit (8 * gcm_RE host c d) (load_words host buf ! b :: u64)) = buf ! (4 * c + d)"
    unfolding w(1) re load_byte[OF w(2) j(1)] using j assms(1) \<open>b < 2\<close> by simp
  moreover have "unat (push_bit 1 (ucast v) :: u64) = 2 * unat v" for v :: byte
  proof -
    have b: "2 * unat v < 2 ^ 64" by (rule less_le_trans[of _ "2 * 256"]) simp_all
    then have "unat (ucast v :: u64) = unat v" by (simp add: unsigned_ucast_eq take_bit_nat_eq_self_iff)
    then show ?thesis using b by (simp add: push_bit_eq_mult unat_word_ariths)
  qed
  ultimately show ?thesis
    unfolding gcm_PTR_WORD_def ptr_bits[OF re8] by simp
qed

lemma gcm_mul_fl_sum:
  assumes "length buf = 16"
  shows "gcm_mul_fl host table buf = fold (\<lambda>n a. xor_bytes a (tab table n (unat (buf ! n)))) [0..<16] (replicate 16 0)"
proof -
  have e: "c < 4 \<Longrightarrow> d < 4 \<Longrightarrow> c div 2 = b \<Longrightarrow>
      gcm_entry (gcm_PTR_WORD host (load_words host buf) b c d) table = tab table (4 * c + d) (unat (buf ! (4 * c + d)))" for b c d
    unfolding tab_def by (simp only: gcm_PTR_WORD_byte[OF assms])
  show ?thesis
    unfolding gcm_mul_fl_def Let_def by (simp add: e upt_rec flip: numeral_2_eq_2)
qed

theorem gcm_mul_fl_mul:
  assumes "length t = 65536" "length h = 16" "length buf = 16"
  shows "gcm_mul_fl host (gen_table_fl h t) buf = gcm_mul h buf"
proof -
  let ?T = "gen_table_fl h t"
  have "fold (\<lambda>n a. xor_bytes a (tab ?T n (unat (buf ! n)))) [0..<m] (replicate 16 0) = gf_store (gf_lin (gf_bit (gf_load buf)) (8 * m) (gf_load h))"
    if "m \<le> 16" for m
    using that
  proof (induction m)
    case 0
    show ?case by (simp add: gf_store_zero)
  next
    case (Suc m)
    have "unat (buf ! m) < 256" by simp
    then have "tab ?T m (unat (buf ! m)) = gf_store (gf_part h m (unat (buf ! m)))"
      using gen_table_fl_entries(1)[OF assms(1)] Suc.prems by simp
    also have "gf_part h m (unat (buf ! m)) = gf_lin (\<lambda>i. gf_bit (gf_load buf) (8 * m + i)) 8 ((gf_half ^^ (8 * m)) (gf_load h))"
      unfolding gf_part_def using Suc.prems by (intro gf_lin_cong) (simp add: gf_bit_load[OF assms(3)] bit_unsigned_iff)
    finally show ?case
      using Suc gf_lin_append[of "gf_bit (gf_load buf)" "8 * m" 8 "gf_load h"] by (simp add: gf_store_add add.commute)
  qed
  from this[of 16] have "gcm_mul_fl host ?T buf = gf_store (gf_mult (gf_load buf) (gf_load h))"
    unfolding gcm_mul_fl_sum[OF assms(3)] by (simp add: gf_mult_def)
  then show ?thesis unfolding gcm_mul_gf[OF assms(2)] by (simp only: gf_mult_commute[of "gf_load buf"])
qed

end
