(* ===== verification/GCM.thy ===== *)
theory GCM
  imports GF128 OFB_CTR
begin

text \<open>
  GCM (\<^verbatim>\<open>impl/mode/gcm-impl.cc\<close>, and \<^verbatim>\<open>gcm.cc\<close> for the two function tables). The context
  calls its multiplication through a pointer, \<open>gc_fl\<close> says which it is. \<^verbatim>\<open>boff\<close> is the number of bytes of
  the last block that are in \<^verbatim>\<open>cbuf\<close>. \<^verbatim>\<open>alen\<close> and \<^verbatim>\<open>clen\<close> are words of
  64 bits. Shown: setting up, encrypting in any pieces and \<^verbatim>\<open>encryptfinal\<close> are GCM of SP 800-38D.
\<close>

section \<open>Setting up\<close>

record gcm =
  gc_algo :: "block_algo option"
  gc_y0 :: "byte list"
  gc_y :: "byte list"
  gc_h :: "byte list"
  gc_x :: "byte list"
  gc_buf :: "byte list"
  gc_cbuf :: "byte list"
  gc_iv :: "byte list"
  gc_table :: "byte list"
  gc_fl :: bool
  gc_blksize :: nat
  gc_boff :: nat
  gc_alen :: u64
  gc_clen :: u64
  gc_taglen :: nat

definition DREW_ERR_VERIFY_FAILED :: int where
  "DREW_ERR_VERIFY_FAILED = 0x1000b"

text \<open>The parameters are the values given for \<^verbatim>\<open>tagLength\<close>, the last one counts; \<open>table\<close> is what the
  allocator returns for the table.\<close>

definition gcm_new :: "nat list \<Rightarrow> gcm" where
  "gcm_new taglens = \<lparr>gc_algo = None, gc_y0 = replicate 16 0, gc_y = replicate 16 0, gc_h = replicate 16 0,
     gc_x = replicate 16 0, gc_buf = replicate 16 0, gc_cbuf = replicate 16 0, gc_iv = [], gc_table = [], gc_fl = False,
     gc_blksize = 0, gc_boff = 0, gc_alen = 0, gc_clen = 0, gc_taglen = last (16 # taglens)\<rparr>"

definition gcm_init :: "nat list \<Rightarrow> int \<times> gcm option" where
  "gcm_init taglens = (0, Some (gcm_new taglens))"

definition gcmfl_init :: "byte list option \<Rightarrow> nat list \<Rightarrow> int \<times> gcm option" where
  "gcmfl_init table taglens =
     (case table of None \<Rightarrow> (- ENOMEM, None)
      | Some t \<Rightarrow> (0, Some ((gcm_new taglens)\<lparr>gc_table := t, gc_fl := True\<rparr>)))"

definition gcm_resync :: "gcm \<Rightarrow> int" where
  "gcm_resync c = - DREW_ERR_NOT_IMPL"

definition gcm_setblock :: "block_algo option \<Rightarrow> gcm \<Rightarrow> int \<times> gcm" where
  "gcm_setblock algoctx c =
     (case algoctx of None \<Rightarrow> (- DREW_ERR_INVALID, c)
      | Some a \<Rightarrow>
        let c = c\<lparr>gc_algo := Some a, gc_blksize := ba_blksize a\<rparr> in
        if gc_blksize c = 8 then (- DREW_ERR_NOT_IMPL, c)
        else if gc_blksize c \<noteq> 16 then (- DREW_ERR_INVALID, c)
        else (0, c))"

definition gcm_multiply :: "endianness \<Rightarrow> gcm \<Rightarrow> byte list \<Rightarrow> byte list" where
  "gcm_multiply host c buf = (if gc_fl c then gcm_mul_fl host (gc_table c) buf else gcm_mul (gc_h c) buf)"

definition gcm_hash :: "endianness \<Rightarrow> gcm \<Rightarrow> byte list \<Rightarrow> byte list \<Rightarrow> byte list" where
  "gcm_hash host c buf block = gcm_multiply host c (xor_buffers2 buf block (gc_blksize c))"

definition gcm_hash_fast :: "endianness \<Rightarrow> gcm \<Rightarrow> byte list \<Rightarrow> byte list \<Rightarrow> nat \<Rightarrow> byte list" where
  "gcm_hash_fast host c buf blocks n =
     fold (\<lambda>i buf. gcm_multiply host c (xor_aligned2 buf (drop (16 * i) blocks) 16)) [0..<n] buf"

text \<open>The first block of the counter, from an initialisation vector of another length than 12.\<close>

definition gcm_hash_iv :: "endianness \<Rightarrow> byte list \<Rightarrow> gcm \<Rightarrow> gcm" where
  "gcm_hash_iv host iv c =
     (let len = length iv;
          c = c\<lparr>gc_y0 := replicate 16 0\<rparr>;
          c = fold (\<lambda>i c. c\<lparr>gc_y0 := gcm_hash host c (gc_y0 c) (drop (16 * i) iv)\<rparr>) [0..<len div 16] c;
          c = (if len mod 16 \<noteq> 0
               then let c = c\<lparr>gc_buf := put_bytes 0 (drop (16 * (len div 16)) iv) (replicate 16 0)\<rparr>
                    in c\<lparr>gc_y0 := gcm_hash host c (gc_y0 c) (gc_buf c)\<rparr>
               else c);
          c = c\<lparr>gc_buf := store_words Big [0, push_bit 3 (of_nat len) :: u64]\<rparr>
      in c\<lparr>gc_y0 := gcm_hash host c (gc_y0 c) (gc_buf c)\<rparr>)"

definition gcm_setiv :: "endianness \<Rightarrow> byte list \<Rightarrow> gcm \<Rightarrow> int \<times> gcm" where
  "gcm_setiv host iv c =
     (let z = replicate 16 0;
          c = c\<lparr>gc_h := z, gc_y := z, gc_y0 := z, gc_x := z, gc_buf := z, gc_cbuf := z\<rparr>;
          c = c\<lparr>gc_h := put_bytes 0 (ba_encryptfast (the (gc_algo c)) (gc_h c) 1) (gc_h c)\<rparr>;
          c = (if gc_fl c then c\<lparr>gc_table := gen_table_fl (gc_h c) (gc_table c)\<rparr> else c);
          c = c\<lparr>gc_iv := iv\<rparr>
      in if length iv \<noteq> 12 \<and> gc_taglen c \<noteq> 16 then (- DREW_ERR_INVALID, c)
         else let c = (if length iv = 12 then c\<lparr>gc_y0 := gc_iv c @ [0, 0, 0, 0x01]\<rparr> else gcm_hash_iv host iv c);
                  c = c\<lparr>gc_y := put_bytes 0 (take (gc_blksize c) (gc_y0 c)) (gc_y c)\<rparr>
              in (0, c\<lparr>gc_alen := 0, gc_clen := 0\<rparr>))"

definition gcm_reset :: "endianness \<Rightarrow> gcm \<Rightarrow> int \<times> gcm" where
  "gcm_reset host c =
     (let (res, c) = gcm_setiv host (gc_iv c) c
      in if res \<noteq> 0 then (res, c) else (0, c\<lparr>gc_boff := 0, gc_clen := 0, gc_alen := 0\<rparr>))"

text \<open>What remains after the whole blocks, possibly nothing, is always hashed as one more block.\<close>

definition gcm_setdata :: "endianness \<Rightarrow> byte list \<Rightarrow> gcm \<Rightarrow> int \<times> gcm" where
  "gcm_setdata host data c =
     (let len = length data;
          c = c\<lparr>gc_x := replicate 16 0\<rparr>;
          c = fold (\<lambda>i c. c\<lparr>gc_x := gcm_hash host c (gc_x c) (drop (16 * i) data)\<rparr>) [0..<len div 16] c;
          c = c\<lparr>gc_buf := put_bytes 0 (take (len AND 15) (drop (16 * (len div 16)) data)) (replicate 16 0)\<rparr>;
          c = c\<lparr>gc_x := gcm_hash host c (gc_x c) (gc_buf c)\<rparr>
      in (0, c\<lparr>gc_alen := of_nat len\<rparr>))"

section \<open>Encryption and decryption\<close>

text \<open>The counter loop ends with the fourth byte from the end.\<close>

definition gcm_increment_counter :: "byte list \<Rightarrow> nat \<Rightarrow> byte list" where
  "gcm_increment_counter ctr len = take (len - 4) ctr @ increment_from 4 (drop (len - 4) ctr)"

definition gcm_increment_fast :: "u32 list \<Rightarrow> u32 list" where
  "gcm_increment_fast ctr = increment_from 4 ctr"

definition gcm_next :: "gcm \<Rightarrow> gcm" where
  "gcm_next c =
     (let c = c\<lparr>gc_y := gcm_increment_counter (gc_y c) (gc_blksize c)\<rparr>
      in c\<lparr>gc_buf := put_bytes 0 (ba_encrypt (the (gc_algo c)) (gc_y c)) (gc_buf c)\<rparr>)"

text \<open>\<open>sel\<close> picks the ciphertext, the output of encryption and the input of decryption.\<close>

definition gcm_partial :: "(byte list \<Rightarrow> byte list \<Rightarrow> byte list) \<Rightarrow> endianness \<Rightarrow> byte list \<Rightarrow> gcm \<Rightarrow> byte list \<times> byte list \<times> gcm" where
  "gcm_partial sel host data c =
     (if gc_boff c \<noteq> 0
      then let b = min (gc_blksize c - gc_boff c) (length data);
               inp = take b data;
               out = xor_bytes (take b (drop (gc_boff c) (gc_buf c))) inp;
               c = c\<lparr>gc_cbuf := put_bytes (gc_boff c) (sel inp out) (gc_cbuf c)\<rparr>;
               c = c\<lparr>gc_boff := gc_boff c + b\<rparr>;
               c = (if gc_boff c = gc_blksize c
                    then c\<lparr>gc_boff := 0, gc_x := gcm_hash host c (gc_x c) (gc_cbuf c)\<rparr> else c)
           in (out, drop b data, c)
      else ([], data, c))"

function gcm_blocks :: "(byte list \<Rightarrow> byte list \<Rightarrow> byte list) \<Rightarrow> endianness \<Rightarrow> byte list \<Rightarrow> gcm \<Rightarrow> byte list \<times> byte list \<times> gcm" where
  "gcm_blocks sel host data c =
     (if gc_blksize c \<le> length data \<and> 0 < gc_blksize c
      then let inp = take (gc_blksize c) data;
               c1 = gcm_next c;
               out = xor_buffers (gc_buf c1) inp (gc_blksize c);
               c2 = c1\<lparr>gc_x := gcm_hash host c1 (gc_x c1) (sel inp out)\<rparr>;
               (outs, rest, c3) = gcm_blocks sel host (drop (gc_blksize c) data) c2
           in (out @ outs, rest, c3)
      else ([], data, c))"
  by pat_completeness auto
termination
  by (relation "measure (\<lambda>(sel, host, data, c). length data)") auto

declare gcm_blocks.simps [simp del]

definition gcm_tail :: "(byte list \<Rightarrow> byte list \<Rightarrow> byte list) \<Rightarrow> byte list \<Rightarrow> gcm \<Rightarrow> byte list \<times> gcm" where
  "gcm_tail sel data c =
     (if data \<noteq> []
      then let c = gcm_next c;
               out = xor_bytes (take (length data) (gc_buf c)) data
           in (out, c\<lparr>gc_cbuf := put_bytes 0 (sel data out) (gc_cbuf c), gc_boff := length data\<rparr>)
      else ([], c))"

definition gcm_crypt :: "(byte list \<Rightarrow> byte list \<Rightarrow> byte list) \<Rightarrow> endianness \<Rightarrow> byte list \<Rightarrow> gcm \<Rightarrow> byte list \<times> gcm" where
  "gcm_crypt sel host data c =
     (let c = c\<lparr>gc_clen := gc_clen c + of_nat (length data)\<rparr>;
          (out1, data, c) = gcm_partial sel host data c;
          (out2, data, c) = gcm_blocks sel host data c;
          (out3, c) = gcm_tail sel data c
      in (out1 @ out2 @ out3, c))"

definition gcm_encrypt :: "endianness \<Rightarrow> byte list \<Rightarrow> gcm \<Rightarrow> byte list \<times> gcm" where
  "gcm_encrypt = gcm_crypt (\<lambda>inp out. out)"

definition gcm_decrypt :: "endianness \<Rightarrow> byte list \<Rightarrow> gcm \<Rightarrow> byte list \<times> gcm" where
  "gcm_decrypt = gcm_crypt (\<lambda>inp out. inp)"

text \<open>The tag is left in \<^verbatim>\<open>x\<close>.\<close>

definition gcm_finish :: "endianness \<Rightarrow> gcm \<Rightarrow> gcm" where
  "gcm_finish host c =
     (let c = (if gc_boff c \<noteq> 0
               then let b = gc_blksize c - gc_boff c;
                        c = c\<lparr>gc_cbuf := put_bytes (gc_boff c) (replicate b 0) (gc_cbuf c)\<rparr>
                    in c\<lparr>gc_x := gcm_hash host c (gc_x c) (gc_cbuf c)\<rparr>
               else c);
          c = c\<lparr>gc_buf := store_words Big [push_bit 3 (gc_alen c), push_bit 3 (gc_clen c)]\<rparr>;
          c = c\<lparr>gc_x := gcm_hash host c (gc_x c) (gc_buf c)\<rparr>;
          c = c\<lparr>gc_buf := put_bytes 0 (ba_encrypt (the (gc_algo c)) (gc_y0 c)) (gc_buf c)\<rparr>
      in c\<lparr>gc_x := xor_aligned2 (gc_x c) (gc_buf c) (gc_blksize c)\<rparr>)"

text \<open>\<^verbatim>\<open>x\<close> has 16 bytes, reading more of them is \<open>None\<close>, and so is reading past the input. The length
  is returned through an \<^verbatim>\<open>int\<close>.\<close>

definition gcm_encryptfinal :: "endianness \<Rightarrow> nat \<Rightarrow> byte list \<Rightarrow> gcm \<Rightarrow> (int \<times> byte list \<times> gcm) option" where
  "gcm_encryptfinal host outlen inp c =
     (if outlen < length inp + gc_taglen c then Some (- DREW_ERR_MORE_INFO, [], c)
      else let (out, c) = gcm_encrypt host inp c;
               c = gcm_finish host c
           in if 16 < gc_taglen c then None
              else Some (int_of_size outlen, out @ take (gc_taglen c) (gc_x c), c))"

definition gcm_decryptfinal :: "endianness \<Rightarrow> nat \<Rightarrow> byte list \<Rightarrow> gcm \<Rightarrow> (int \<times> byte list \<times> gcm) option" where
  "gcm_decryptfinal host outlen inp c =
     (if length inp < outlen + gc_taglen c \<or> 16 < gc_taglen c then None
      else let (out, c) = gcm_decrypt host (take outlen inp) c;
               c = gcm_finish host c
           in Some (if take (gc_taglen c) (drop outlen inp) \<noteq> take (gc_taglen c) (gc_x c)
                    then - DREW_ERR_VERIFY_FAILED else int_of_size outlen, out, c))"

text \<open>The aligned operations, with the loop of CTR: the combination runs over all that is left, and the
  inner loop and the end of the turn both advance \<^verbatim>\<open>in\<close>, whose offset is \<open>inp\<close>.\<close>

function gcm_fast_loop ::
    "(byte list \<Rightarrow> byte list \<Rightarrow> byte list) \<Rightarrow> endianness \<Rightarrow> byte list \<Rightarrow> nat \<Rightarrow> nat \<Rightarrow> u32 list \<Rightarrow> gcm \<Rightarrow>
     (byte list \<times> u32 list \<times> gcm) option" where
  "gcm_fast_loop sel host data len inp ctr c =
     (if len = 0 then Some ([], ctr, c)
      else let x = min 4096 len;
               n = x div 16;
               blocks = (x + 15) div 16;
               tmp = concat (map (\<lambda>i. store_words Big ((gcm_increment_fast ^^ Suc i) ctr)) [0..<blocks]);
               ctr = (gcm_increment_fast ^^ blocks) ctr;
               tmp = ba_encryptfast (the (gc_algo c)) (take (16 * n) tmp) n @ drop (16 * n) tmp;
               out = xor_aligned tmp (drop inp data) len;
               c = c\<lparr>gc_x := gcm_hash_fast host c (gc_x c) (sel (drop inp data) out) n\<rparr>
           in if 4096 < 16 * (len div 16) then None
              else map_option (\<lambda>(outs, ctr, c). (out @ outs, ctr, c))
                     (gcm_fast_loop sel host data (len - x) (inp + 16 * blocks + 4096) ctr c))"
  by pat_completeness auto
termination
  by (relation "measure (\<lambda>(sel, host, data, len, inp, ctr, c). len)") auto

declare gcm_fast_loop.simps [simp del]

definition gcm_fast :: "(byte list \<Rightarrow> byte list \<Rightarrow> byte list) \<Rightarrow> endianness \<Rightarrow> byte list \<Rightarrow> gcm \<Rightarrow> (byte list \<times> gcm) option" where
  "gcm_fast sel host data c =
     (let c = c\<lparr>gc_clen := gc_clen c + of_nat (length data)\<rparr>
      in map_option (\<lambda>(out, ctr, c). (out, c\<lparr>gc_y := store_words Big ctr\<rparr>))
           (gcm_fast_loop sel host data (length data) 0 (load_words Big (take 16 (gc_y c))) c))"

definition gcm_encryptfast :: "endianness \<Rightarrow> byte list \<Rightarrow> gcm \<Rightarrow> (byte list \<times> gcm) option" where
  "gcm_encryptfast = gcm_fast (\<lambda>inp out. out)"

definition gcm_decryptfast :: "endianness \<Rightarrow> byte list \<Rightarrow> gcm \<Rightarrow> (byte list \<times> gcm) option" where
  "gcm_decryptfast = gcm_fast (\<lambda>inp out. inp)"

section \<open>The mode of the standard\<close>

text \<open>SP 800-38D: \<open>inc\<^sub>3\<^sub>2\<close>, GHASH on blocks, GCTR, the first counter block and the tag.\<close>

definition inc32 :: "byte list \<Rightarrow> byte list" where
  "inc32 y = take 12 y @ store Big (load Big (drop 12 y) + 1 :: u32)"

definition ghash :: "byte list \<Rightarrow> byte list \<Rightarrow> byte list list \<Rightarrow> byte list" where
  "ghash h x bs = fold (\<lambda>b x. gcm_mul h (xor_bytes x b)) bs x"

definition pad16 :: "byte list \<Rightarrow> byte list" where
  "pad16 xs = xs @ replicate ((16 - length xs mod 16) mod 16) 0"

definition gcm_keystream :: "block_algo \<Rightarrow> byte list \<Rightarrow> nat \<Rightarrow> byte" where
  "gcm_keystream a y0 i = ba_encrypt a ((inc32 ^^ Suc (i div 16)) y0) ! (i mod 16)"

definition gctr :: "block_algo \<Rightarrow> byte list \<Rightarrow> nat \<Rightarrow> byte list \<Rightarrow> byte list" where
  "gctr a y0 off data = map (\<lambda>i. gcm_keystream a y0 (off + i) XOR data ! i) [0..<length data]"

definition gcm_key :: "block_algo \<Rightarrow> byte list" where
  "gcm_key a = ba_encrypt a (replicate 16 0)"

definition gcm_lengths :: "nat \<Rightarrow> nat \<Rightarrow> byte list" where
  "gcm_lengths m n = store_words Big [of_nat (8 * m), of_nat (8 * n) :: u64]"

definition gcm_J0 :: "block_algo \<Rightarrow> byte list \<Rightarrow> byte list" where
  "gcm_J0 a iv =
     (if length iv = 12 then iv @ [0, 0, 0, 1]
      else ghash (gcm_key a) (replicate 16 0) (chunks 16 (pad16 iv @ gcm_lengths 0 (length iv))))"

definition gcm_tag :: "block_algo \<Rightarrow> byte list \<Rightarrow> byte list \<Rightarrow> byte list \<Rightarrow> byte list" where
  "gcm_tag a iv A C =
     xor_bytes (ghash (gcm_key a) (replicate 16 0) (chunks 16 (pad16 A @ pad16 C @ gcm_lengths (length A) (length C))))
       (ba_encrypt a (gcm_J0 a iv))"

section \<open>The counter and the hash\<close>

lemma length_increment_counter_gcm [simp]: "length (gcm_increment_counter y n) = length y"
  by (simp add: gcm_increment_counter_def)

lemma length_inc32: "length y = 16 \<Longrightarrow> length (inc32 y) = 16"
  by (simp add: inc32_def bytes_simps)

lemma length_inc32_pow [simp]: "length y = 16 \<Longrightarrow> length ((inc32 ^^ n) y) = 16"
  by (induction n) (simp_all add: length_inc32)

lemma be_num_be_load:
  assumes "length bs = 4"
  shows "be_num bs = unat (be_load bs :: u32)"
proof -
  have "be_store (be_load bs :: u32) = bs" using assms by (intro be_store_load) simp_all
  then show ?thesis using be_num_be_store[of "be_load bs :: u32"] by simp
qed

lemma increment_counter_inc32:
  assumes "length y = 16"
  shows "gcm_increment_counter y 16 = inc32 y"
proof -
  let ?d = "drop 12 y"
  have l: "length ?d = 4" "length (increment_from 4 ?d) = 4" using assms by simp_all
  have n: "be_num (increment_from 4 ?d) = (be_num ?d + 1) mod 2 ^ 32"
    using increment_from_plus_1[of 4 ?d] l by simp
  have "be_store (be_load ?d + 1 :: u32) = increment_from 4 ?d"
  proof (rule be_num_inj)
    show "length (be_store (be_load ?d + 1 :: u32)) = length (increment_from 4 ?d)" using l by (simp add: bytes_simps)
    show "be_num (be_store (be_load ?d + 1 :: u32)) = be_num (increment_from 4 ?d)"
      unfolding n be_num_be_load[OF l(1)] by (simp add: be_num_be_store unat_word_ariths)
  qed
  then show ?thesis unfolding gcm_increment_counter_def inc32_def by (simp add: store_def load_def)
qed

lemma length_gcm_mul [simp]: "length (gcm_mul h b) = 16"
  by (simp add: gcm_mul_def case_prod_unfold Let_def)

lemma length_ghash [simp]: "length x = 16 \<Longrightarrow> length (ghash h x bs) = 16"
  by (induction bs rule: rev_induct) (simp_all add: ghash_def)

lemma ghash_append: "ghash h x (as @ bs) = ghash h (ghash h x as) bs"
  by (simp add: ghash_def)

lemma ghash_Nil [simp]: "ghash h x [] = x"
  by (simp add: ghash_def)

text \<open>The context multiplies by \<open>h\<close>.\<close>

definition gcm_keyed :: "byte list \<Rightarrow> gcm \<Rightarrow> bool" where
  "gcm_keyed h c \<longleftrightarrow> length h = 16 \<and> gc_h c = h \<and> gc_blksize c = 16 \<and>
     (gc_fl c \<longrightarrow> (\<exists>t. length t = 65536 \<and> gc_table c = gen_table_fl h t))"

lemma gcm_hash_keyed:
  assumes "gcm_keyed h c" "length x = 16" "16 \<le> length b"
  shows "gcm_hash host c x b = ghash h x [take 16 b]"
proof -
  have "xor_buffers2 x b 16 = xor_bytes x (take 16 b)"
    using assms(2,3) by (simp add: xor_buffers2_def xor_buffers_def)
  then show ?thesis
    using assms by (auto simp: gcm_hash_def gcm_multiply_def gcm_keyed_def ghash_def gcm_mul_fl_mul)
qed

section \<open>The steps of an encryption\<close>

text \<open>The context after the ciphertext \<open>C\<close>, from the hash \<open>x0\<close> of the data on.\<close>

definition gcm_at :: "block_algo \<Rightarrow> byte list \<Rightarrow> byte list \<Rightarrow> byte list \<Rightarrow> byte list \<Rightarrow> gcm \<Rightarrow> bool" where
  "gcm_at a h x0 y0 C c \<longleftrightarrow> gcm_keyed h c \<and> gc_algo c = Some a \<and> good_algo a \<and> ba_blksize a = 16 \<and> length y0 = 16 \<and> length x0 = 16 \<and>
     length (gc_buf c) = 16 \<and> length (gc_cbuf c) = 16 \<and> gc_y c = (inc32 ^^ ((length C + 15) div 16)) y0 \<and>
     gc_boff c = length C mod 16 \<and> gc_x c = ghash h x0 (chunks 16 C) \<and>
     (gc_boff c \<noteq> 0 \<longrightarrow> take (gc_boff c) (gc_cbuf c) = remainder 16 C \<and> gc_buf c = ba_encrypt a (gc_y c))"

text \<open>What the operations on the data leave alone.\<close>

definition gcm_same :: "gcm \<Rightarrow> gcm \<Rightarrow> bool" where
  "gcm_same c c' \<longleftrightarrow> gc_y0 c' = gc_y0 c \<and> gc_alen c' = gc_alen c \<and> gc_clen c' = gc_clen c \<and> gc_taglen c' = gc_taglen c"

lemma gcm_same_trans: "gcm_same c c' \<Longrightarrow> gcm_same c' c'' \<Longrightarrow> gcm_same c c''"
  by (simp add: gcm_same_def)

definition gcm_sel :: "(byte list \<Rightarrow> byte list \<Rightarrow> byte list) \<Rightarrow> bool" where
  "gcm_sel sel \<longleftrightarrow> sel = (\<lambda>inp out. out) \<or> sel = (\<lambda>inp out. inp)"

lemma gcm_sel_length: "gcm_sel sel \<Longrightarrow> length i = n \<Longrightarrow> length out = n \<Longrightarrow> length (sel i out) = n"
  by (auto simp: gcm_sel_def)

lemma gcm_sel_append: "gcm_sel sel \<Longrightarrow> sel (i @ i') (out @ out') = sel i out @ sel i' out'"
  by (auto simp: gcm_sel_def)

lemma gcm_sel_Nil: "gcm_sel sel \<Longrightarrow> sel [] [] = []"
  by (auto simp: gcm_sel_def)

lemma length_gctr [simp]: "length (gctr a y0 off data) = length data"
  by (simp add: gctr_def)

lemma gctr_Nil [simp]: "gctr a y0 off [] = []"
  by (simp add: gctr_def)

lemma gctr_append: "gctr a y0 off (d @ d') = gctr a y0 off d @ gctr a y0 (off + length d) d'"
  by (rule nth_equalityI) (auto simp: gctr_def nth_append add.assoc)

lemma gctr_block:
  assumes "buf = ba_encrypt a ((inc32 ^^ Suc (off div 16)) y0)" "off mod 16 + length data \<le> 16" "length buf = 16"
  shows "gctr a y0 off data = xor_bytes (take (length data) (drop (off mod 16) buf)) data"
proof (rule nth_equalityI)
  show "length (gctr a y0 off data) = length (xor_bytes (take (length data) (drop (off mod 16) buf)) data)"
    using assms(2,3) by simp
  fix i assume "i < length (gctr a y0 off data)"
  then have i: "i < length data" by simp
  then have r: "off mod 16 + i < 16" using assms(2) by linarith
  have "off + i = 16 * (off div 16) + (off mod 16 + i)" by simp
  then have "(off + i) div 16 = (16 * (off div 16) + (off mod 16 + i)) div 16" "(off + i) mod 16 = (16 * (off div 16) + (off mod 16 + i)) mod 16"
    by (simp_all only:)
  then have "(off + i) div 16 = off div 16" "(off + i) mod 16 = off mod 16 + i"
    unfolding div_mult_self4[OF zero_neq_numeral[symmetric]] mod_mult_self4 using r by simp_all
  then show "gctr a y0 off data ! i = xor_bytes (take (length data) (drop (off mod 16) buf)) data ! i"
    using i assms(2,3) by (simp add: gctr_def gcm_keystream_def assms(1)[symmetric] del: funpow.simps)
qed

lemma div16_up:
  fixes q r :: nat
  assumes "0 < r" "r \<le> 16"
  shows "(16 * q + r + 15) div 16 = Suc q"
proof -
  have "(r + 15) div 16 = 1" using assms by (intro div_nat_eqI) simp_all
  then show ?thesis using div_mult_self4[of 16 q "r + 15"] by (simp add: add.assoc)
qed

lemma div16_blocks:
  fixes n :: nat
  shows "n mod 16 = 0 \<Longrightarrow> (n + 15) div 16 = n div 16" "n mod 16 \<noteq> 0 \<Longrightarrow> (n + 15) div 16 = Suc (n div 16)"
proof -
  have n: "n = 16 * (n div 16) + n mod 16" by simp
  show "n mod 16 = 0 \<Longrightarrow> (n + 15) div 16 = n div 16"
    using div_mult_self4[of 16 "n div 16" 15] n by simp
  assume "n mod 16 \<noteq> 0"
  then show "(n + 15) div 16 = Suc (n div 16)"
    using div16_up[of "n mod 16" "n div 16"] n mod_less_divisor[of 16 n] by linarith
qed

lemma gcm_next_at:
  assumes "gcm_at a h x0 y0 C c" "gc_boff c = 0"
  shows "gc_y (gcm_next c) = (inc32 ^^ Suc (length C div 16)) y0" "gc_buf (gcm_next c) = ba_encrypt a (gc_y (gcm_next c))"
    "length (gc_buf (gcm_next c)) = 16" "gcm_same c (gcm_next c)"
    "gcm_next c = c\<lparr>gc_y := gc_y (gcm_next c), gc_buf := gc_buf (gcm_next c)\<rparr>"
proof -
  have c: "gc_algo c = Some a" "gc_blksize c = 16" "length (gc_buf c) = 16" "gc_y c = (inc32 ^^ ((length C + 15) div 16)) y0"
    "length y0 = 16" "length C mod 16 = 0" "good_algo a" "ba_blksize a = 16"
    using assms by (simp_all add: gcm_at_def gcm_keyed_def)
  have "(length C + 15) div 16 = length C div 16" by (rule div16_blocks(1)[OF c(6)])
  then have y: "gc_y (gcm_next c) = inc32 ((inc32 ^^ (length C div 16)) y0)"
    by (simp add: gcm_next_def Let_def c increment_counter_inc32)
  then show "gc_y (gcm_next c) = (inc32 ^^ Suc (length C div 16)) y0" by simp
  then have ly: "length (gc_y (gcm_next c)) = 16" using c(5) by (simp only: length_inc32_pow)
  then have l: "length (ba_encrypt a (gc_y (gcm_next c))) = 16" using good_algo_length[OF c(7)] c(8) by simp
  then show "gc_buf (gcm_next c) = ba_encrypt a (gc_y (gcm_next c))" "length (gc_buf (gcm_next c)) = 16"
    using c(3) by (simp_all add: gcm_next_def Let_def c(1) put_bytes_def)
  show "gcm_same c (gcm_next c)" "gcm_next c = c\<lparr>gc_y := gc_y (gcm_next c), gc_buf := gc_buf (gcm_next c)\<rparr>"
    by (simp_all add: gcm_next_def Let_def gcm_same_def)
qed

lemma chunks_full: "0 < n \<Longrightarrow> length xs mod n = 0 \<Longrightarrow> length b = n \<Longrightarrow> chunks n (xs @ b) = chunks n xs @ [b]"
  using chunks_block[of n b "[]"] chunks_append[of n xs b] length_0_conv[of "remainder n xs"] by simp

lemma gcm_partial_step:
  assumes "gcm_at a h x0 y0 C c" "gcm_sel sel" "gcm_partial sel host data c = (out, rest, c')"
  defines "b \<equiv> (if length C mod 16 = 0 then 0 else min (16 - length C mod 16) (length data))"
  shows "out = gctr a y0 (length C) (take b data)" "rest = drop b data" "gcm_same c c'"
    "gcm_at a h x0 y0 (C @ sel (take b data) out) c'" "rest = [] \<or> gc_boff c' = 0"
proof -
  have c: "gcm_keyed h c" "gc_blksize c = 16" "gc_algo c = Some a" "good_algo a" "ba_blksize a = 16" "length y0 = 16" "length x0 = 16"
    "length (gc_buf c) = 16" "length (gc_cbuf c) = 16" "gc_y c = (inc32 ^^ ((length C + 15) div 16)) y0"
    "gc_boff c = length C mod 16" "gc_x c = ghash h x0 (chunks 16 C)"
    using assms(1) by (simp_all add: gcm_at_def gcm_keyed_def)
  have "out = gctr a y0 (length C) (take b data) \<and> rest = drop b data \<and> gcm_same c c' \<and>
    gcm_at a h x0 y0 (C @ sel (take b data) out) c' \<and> (rest = [] \<or> gc_boff c' = 0)"
  proof (cases "length C mod 16 = 0")
    case True
    then have "out = []" "rest = data" "c' = c" "b = 0"
      using assms(3) by (simp_all add: gcm_partial_def c b_def)
    then show ?thesis using True assms(1) c(11) gcm_sel_Nil[OF assms(2)] by (simp add: gcm_same_def)
  next
    case False
    let ?r = "length C mod 16" and ?q = "length C div 16"
    have b: "b = min (16 - ?r) (length data)" "?r + b \<le> 16" using False by (simp_all add: b_def)
    have buf: "take ?r (gc_cbuf c) = remainder 16 C" "gc_buf c = ba_encrypt a (gc_y c)"
    proof -
      have "gc_boff c \<noteq> 0 \<longrightarrow> take (gc_boff c) (gc_cbuf c) = remainder 16 C \<and> gc_buf c = ba_encrypt a (gc_y c)"
        using assms(1) unfolding gcm_at_def by blast
      then show "take ?r (gc_cbuf c) = remainder 16 C" "gc_buf c = ba_encrypt a (gc_y c)"
        unfolding c(11) using False by blast+
    qed
    have q: "(length C + 15) div 16 = Suc ?q" by (rule div16_blocks(2)[OF False])
    define o1 where "o1 = xor_bytes (take b (drop ?r (gc_buf c))) (take b data)"
    define s where "s = sel (take b data) o1"
    define cb where "cb = put_bytes ?r s (gc_cbuf c)"
    have lo: "length o1 = b" "length (take b data) = b" using b c(8) by (simp_all add: o1_def)
    then have ls: "length s = b" unfolding s_def by (intro gcm_sel_length[OF assms(2)])
    have lcb: "length cb = 16" using ls b(2) c(9) by (simp add: cb_def)
    have tcb: "take (?r + b) cb = remainder 16 C @ s"
      using take_put_bytes[of ?r "gc_cbuf c" s] ls c(9) buf(1) by (simp add: cb_def)
    have run: "gcm_partial sel host data c = (o1, drop b data,
        if ?r + b = 16 then c\<lparr>gc_cbuf := cb, gc_boff := 0, gc_x := gcm_hash host (c\<lparr>gc_cbuf := cb, gc_boff := 16\<rparr>) (gc_x c) cb\<rparr>
        else c\<lparr>gc_cbuf := cb, gc_boff := ?r + b\<rparr>)"
      unfolding gcm_partial_def Let_def c(2,11) b(1)[symmetric] using False by (simp add: c(2,11) o1_def[symmetric] s_def[symmetric] cb_def[symmetric])
    have o1: "o1 = gctr a y0 (length C) (take b data)"
      using gctr_block[of "gc_buf c" a "length C" y0 "take b data"] buf(2) c(8,10) q b(2) lo(2) by (simp add: o1_def)
    have x: "gcm_hash host (c\<lparr>gc_cbuf := cb, gc_boff := 16\<rparr>) (gc_x c) cb = ghash h (gc_x c) [cb]"
      using gcm_hash_keyed[of h "c\<lparr>gc_cbuf := cb, gc_boff := 16\<rparr>" "gc_x c" cb host] c(1,7,12) lcb by (simp add: gcm_keyed_def)
    have run: "out = o1" "rest = drop b data" "c' = (if ?r + b = 16 then c\<lparr>gc_cbuf := cb, gc_boff := 0, gc_x := ghash h (gc_x c) [cb]\<rparr>
        else c\<lparr>gc_cbuf := cb, gc_boff := ?r + b\<rparr>)"
      using assms(3) unfolding run x by simp_all
    have at: "gcm_at a h x0 y0 (C @ s) c'"
    proof (cases "?r + b = 16")
      case True
      then have "cb = remainder 16 C @ s" using tcb lcb by simp
      then have ch: "chunks 16 (C @ s) = chunks 16 C @ [cb]"
        using chunks_append[of 16 C s] chunks_block[of 16 cb "[]"] lcb by simp
      have "length C + b = 16 * ?q + 16" using True div_mult_mod_eq[of "length C" 16] by linarith
      then have "(length C + b + 15) div 16 = Suc ?q" "(length C + b) mod 16 = 0" using div16_up[of 16 ?q] by simp_all
      then show ?thesis using c True q ls lcb ch unfolding run(3)
        by (simp add: gcm_at_def gcm_keyed_def ghash_append del: funpow.simps)
    next
      case False
      then have lt: "?r + b < 16" using b(2) by simp
      have sum: "length C + b = 16 * ?q + (?r + b)" using div_mult_mod_eq[of "length C" 16] by linarith
      have "(length C + b + 15) div 16 = Suc ?q" unfolding sum using lt \<open>length C mod 16 \<noteq> 0\<close> by (intro div16_up) linarith+
      moreover have "(length C + b) mod 16 = ?r + b" unfolding sum mod_mult_self4 using lt by simp
      moreover have "?r + b \<noteq> 0" using \<open>length C mod 16 \<noteq> 0\<close> by linarith
      moreover have "chunks 16 (C @ s) = chunks 16 C" "remainder 16 (C @ s) = remainder 16 C @ s"
        using lt ls by (simp_all add: chunks_append[of 16 C] remainder_append[of 16 C])
      ultimately show ?thesis using c False q ls lcb tcb buf(2) unfolding run(3)
        by (simp add: gcm_at_def gcm_keyed_def del: funpow.simps)
    qed
    have "drop b data = [] \<or> ?r + b = 16" using b(1) False by auto
    then show ?thesis using o1 run at unfolding s_def by (auto simp: gcm_same_def)
  qed
  note r = this
  show "out = gctr a y0 (length C) (take b data)" using r by (rule conjunct1)
  show "rest = drop b data" by (rule r[THEN conjunct2, THEN conjunct1])
  show "gcm_same c c'" by (rule r[THEN conjunct2, THEN conjunct2, THEN conjunct1])
  show "gcm_at a h x0 y0 (C @ sel (take b data) out) c'" by (rule r[THEN conjunct2, THEN conjunct2, THEN conjunct2, THEN conjunct1])
  show "rest = [] \<or> gc_boff c' = 0" by (rule r[THEN conjunct2, THEN conjunct2, THEN conjunct2, THEN conjunct2])
qed

lemma gcm_block_step:
  fixes host :: endianness
  assumes "gcm_at a h x0 y0 C c" "gc_boff c = 0" "gcm_sel sel" "length inp = 16"
  defines "out \<equiv> xor_bytes (gc_buf (gcm_next c)) inp"
  defines "c' \<equiv> (gcm_next c)\<lparr>gc_x := gcm_hash host (gcm_next c) (gc_x (gcm_next c)) (sel inp out)\<rparr>"
  shows "out = gctr a y0 (length C) inp" "gcm_same c c'" "gcm_at a h x0 y0 (C @ sel inp out) c'" "gc_boff c' = 0"
proof -
  note n = gcm_next_at[OF assms(1,2)]
  have c: "gcm_keyed h c" "gc_algo c = Some a" "good_algo a" "ba_blksize a = 16" "length y0 = 16" "length x0 = 16"
    "length (gc_cbuf c) = 16" "length C mod 16 = 0" "gc_x c = ghash h x0 (chunks 16 C)"
    using assms(1,2) by (simp_all add: gcm_at_def)
  have b: "gc_buf (gcm_next c) = ba_encrypt a ((inc32 ^^ Suc (length C div 16)) y0)" using n(1,2) by simp
  show out: "out = gctr a y0 (length C) inp"
    using gctr_block[OF b, of inp] n(3) assms(4) c(8) by (simp add: out_def)
  have s: "length (sel inp out) = 16" using assms(4) out by (intro gcm_sel_length[OF assms(3)]) simp_all
  have k: "gcm_keyed h (gcm_next c)" "gc_x (gcm_next c) = gc_x c" "gc_algo (gcm_next c) = Some a" "gc_cbuf (gcm_next c) = gc_cbuf c"
    "gc_boff (gcm_next c) = 0"
    by (subst n(5), use c(1,2) assms(2) in \<open>simp add: gcm_keyed_def\<close>)+
  have x: "gcm_hash host (gcm_next c) (gc_x (gcm_next c)) (sel inp out) = ghash h x0 (chunks 16 (C @ sel inp out))"
    using gcm_hash_keyed[OF k(1), of "gc_x c" "sel inp out" host] s c(6,9) chunks_full[of 16 C "sel inp out"] c(8)
    by (simp add: k(2) ghash_append)
  have "length C + 16 = 16 * (length C div 16) + 16" using c(8) div_mult_mod_eq[of "length C" 16] by linarith
  then have "(length C + 16 + 15) div 16 = Suc (length C div 16)" "(length C + 16) mod 16 = 0"
    using div16_up[of 16 "length C div 16"] c(8) by simp_all
  then show "gcm_at a h x0 y0 (C @ sel inp out) c'"
    using c k n(1,3) s x unfolding c'_def by (simp add: gcm_at_def gcm_keyed_def del: funpow.simps)
  show "gcm_same c c'" "gc_boff c' = 0" using n(4) k(5) by (simp_all add: c'_def gcm_same_def)
qed

lemma gcm_blocks_step:
  assumes "gcm_at a h x0 y0 C c" "gc_boff c = 0" "gcm_sel sel" "gcm_blocks sel host data c = (out, rest, c')"
  shows "\<exists>inp. data = inp @ rest \<and> length rest < 16 \<and> out = gctr a y0 (length C) inp \<and> gcm_same c c' \<and> gc_boff c' = 0 \<and>
    gcm_at a h x0 y0 (C @ sel inp out) c'"
  using assms(1,2,4)
proof (induction "length data" arbitrary: data c C out rule: less_induct)
  case less
  have bs: "gc_blksize c = 16" using less.prems(1) by (simp add: gcm_at_def gcm_keyed_def)
  show ?case
  proof (cases "16 \<le> length data")
    case False
    then have "out = []" "rest = data" "c' = c"
      using less.prems(3) by (simp_all add: gcm_blocks.simps[of _ _ data] bs)
    then show ?thesis using False less.prems gcm_sel_Nil[OF assms(3)] by (intro exI[of _ "[]"]) (simp add: gcm_same_def)
  next
    case True
    define i1 where "i1 = take 16 data"
    define o1 where "o1 = xor_bytes (gc_buf (gcm_next c)) i1"
    define c1 where "c1 = (gcm_next c)\<lparr>gc_x := gcm_hash host (gcm_next c) (gc_x (gcm_next c)) (sel i1 o1)\<rparr>"
    have l1: "length i1 = 16" "data = i1 @ drop 16 data" using True by (simp_all add: i1_def)
    note st = gcm_block_step(1)[OF less.prems(1,2) assms(3) l1(1), folded o1_def]
      gcm_block_step(2-4)[OF less.prems(1,2) assms(3) l1(1), where host = host, folded o1_def, folded c1_def]
    have "xor_buffers (gc_buf (gcm_next c)) i1 16 = o1"
      using gcm_next_at(3)[OF less.prems(1,2)] l1(1) by (simp add: xor_buffers_def o1_def)
    moreover obtain o2 where rec: "gcm_blocks sel host (drop 16 data) c1 = (o2, rest, c')" and out: "out = o1 @ o2"
      using less.prems(3) True calculation
      by (simp add: gcm_blocks.simps[of _ _ data] bs i1_def[symmetric] Let_def c1_def[symmetric] split: prod.splits)
    have "length (drop 16 data) < length data" using True by simp
    from less.hyps[OF this st(3,4) rec] obtain i2 where i2: "drop 16 data = i2 @ rest" "length rest < 16"
      "o2 = gctr a y0 (length (C @ sel i1 o1)) i2" "gcm_same c1 c'" "gc_boff c' = 0" "gcm_at a h x0 y0 ((C @ sel i1 o1) @ sel i2 o2) c'"
      by blast
    have "length (sel i1 o1) = 16" using l1 st(1) by (intro gcm_sel_length[OF assms(3)]) simp_all
    then have "data = (i1 @ i2) @ rest \<and> length rest < 16 \<and> out = gctr a y0 (length C) (i1 @ i2) \<and> gcm_same c c' \<and> gc_boff c' = 0 \<and>
        gcm_at a h x0 y0 (C @ sel (i1 @ i2) out) c'"
      using i2 l1 st(1,2) out gcm_same_trans[OF st(2) i2(4)] by (simp add: gctr_append gcm_sel_append[OF assms(3)])
    then show ?thesis by blast
  qed
qed

lemma gcm_tail_step:
  assumes "gcm_at a h x0 y0 C c" "gc_boff c = 0 \<or> data = []" "gcm_sel sel" "gcm_tail sel data c = (out, c')" "length data < 16"
  shows "out = gctr a y0 (length C) data \<and> gcm_same c c' \<and> gcm_at a h x0 y0 (C @ sel data out) c'"
proof (cases "data = []")
  case True
  then show ?thesis using assms gcm_sel_Nil[OF assms(3)] by (simp add: gcm_tail_def gcm_same_def)
next
  case False
  then have b0: "gc_boff c = 0" using assms(2) by simp
  note n = gcm_next_at[OF assms(1) b0]
  have c: "gcm_keyed h c" "gc_algo c = Some a" "good_algo a" "ba_blksize a = 16" "length y0 = 16" "length x0 = 16"
    "length (gc_cbuf c) = 16" "length C mod 16 = 0" "gc_x c = ghash h x0 (chunks 16 C)"
    using assms(1) b0 by (simp_all add: gcm_at_def)
  have b: "gc_buf (gcm_next c) = ba_encrypt a ((inc32 ^^ Suc (length C div 16)) y0)" using n(1,2) by simp
  have run: "out = xor_bytes (take (length data) (gc_buf (gcm_next c))) data"
    "c' = (gcm_next c)\<lparr>gc_cbuf := put_bytes 0 (sel data out) (gc_cbuf (gcm_next c)), gc_boff := length data\<rparr>"
    using assms(4) False by (auto simp: gcm_tail_def Let_def)
  have out: "out = gctr a y0 (length C) data"
    using gctr_block[OF b, of data] n(3) assms(5) c(8) by (simp add: run(1))
  then have s: "length (sel data out) = length data" by (intro gcm_sel_length[OF assms(3)]) simp_all
  have k: "gcm_keyed h (gcm_next c)" "gc_x (gcm_next c) = gc_x c" "gc_algo (gcm_next c) = Some a" "gc_cbuf (gcm_next c) = gc_cbuf c"
    by (subst n(5), use c(1,2) in \<open>simp add: gcm_keyed_def\<close>)+
  have ch: "chunks 16 (C @ sel data out) = chunks 16 C" "remainder 16 (C @ sel data out) = sel data out"
    using c(8) s assms(5) length_0_conv[of "remainder 16 C"] by (simp_all add: chunks_append[of 16 C] remainder_append[of 16 C])
  have q: "length C = 16 * (length C div 16)" using c(8) div_mult_mod_eq[of "length C" 16] by linarith
  have d: "(length C + length data + 15) div 16 = Suc (length C div 16)" "(length C + length data) mod 16 = length data"
    using assms(5) False div16_up[of "length data" "length C div 16"] mod_mult_self4[of 16 "length C div 16" "length data"]
    unfolding q[symmetric] by simp_all
  have "take (length data) (put_bytes 0 (sel data out) (gc_cbuf c)) = sel data out" "length (put_bytes 0 (sel data out) (gc_cbuf c)) = 16"
    using s c(7) assms(5) take_put_bytes[of 0 "gc_cbuf c" "sel data out"] by simp_all
  then have "gcm_at a h x0 y0 (C @ sel data out) c'"
    using c k n(1,2,3) s d ch unfolding run(2) by (simp add: gcm_at_def gcm_keyed_def del: funpow.simps)
  moreover have "gcm_same c c'" using n(4) by (simp add: run(2) gcm_same_def)
  ultimately show ?thesis using out by simp
qed

lemma gcm_at_clen: "gcm_at a h x0 y0 C (c\<lparr>gc_clen := n\<rparr>) = gcm_at a h x0 y0 C c"
  by (simp add: gcm_at_def gcm_keyed_def)

lemma gcm_crypt_step:
  assumes "gcm_at a h x0 y0 C c" "gcm_sel sel" "gcm_crypt sel host data c = (out, c')"
  shows "out = gctr a y0 (length C) data" "gcm_at a h x0 y0 (C @ sel data out) c'"
    "gc_clen c' = gc_clen c + of_nat (length data)" "gc_alen c' = gc_alen c" "gc_y0 c' = gc_y0 c" "gc_taglen c' = gc_taglen c"
proof -
  let ?c = "c\<lparr>gc_clen := gc_clen c + of_nat (length data)\<rparr>"
  obtain o1 d1 c1 where p1: "gcm_partial sel host data ?c = (o1, d1, c1)" by (metis prod_cases3)
  obtain o2 d2 c2 where p2: "gcm_blocks sel host d1 c1 = (o2, d2, c2)" by (metis prod_cases3)
  obtain o3 c3 where p3: "gcm_tail sel d2 c2 = (o3, c3)" by fastforce
  have run: "out = o1 @ o2 @ o3" "c' = c3"
    using assms(3) by (simp_all add: gcm_crypt_def p1 p2 p3)
  define b where "b = (if length C mod 16 = 0 then 0 else min (16 - length C mod 16) (length data))"
  have at: "gcm_at a h x0 y0 C ?c" using assms(1) by (simp add: gcm_at_clen)
  note s1 = gcm_partial_step[OF at assms(2) p1, folded b_def]
  have l1: "length (sel (take b data) o1) = length (take b data)"
    by (rule gcm_sel_length[OF assms(2)]) (simp_all add: s1(1))
  have "\<exists>inp. d1 = inp @ d2 \<and> length d2 < 16 \<and> o2 = gctr a y0 (length (C @ sel (take b data) o1)) inp \<and> gcm_same c1 c2 \<and>
    (gc_boff c2 = 0 \<or> d2 = []) \<and> gcm_at a h x0 y0 ((C @ sel (take b data) o1) @ sel inp o2) c2"
  proof (cases "gc_boff c1 = 0")
    case True
    from gcm_blocks_step[OF s1(4) this assms(2) p2] show ?thesis by blast
  next
    case False
    with s1(5) have "d1 = []" by auto
    moreover from s1(4) have "gc_blksize c1 = 16" by (simp add: gcm_at_def gcm_keyed_def)
    ultimately have "o2 = []" "d2 = []" "c2 = c1" using p2 by (simp_all add: gcm_blocks.simps[of _ _ "[]"])
    then show ?thesis using s1(4) \<open>d1 = []\<close> gcm_sel_Nil[OF assms(2)] by (intro exI[of _ "[]"]) (simp add: gcm_same_def)
  qed
  then obtain inp where s2: "d1 = inp @ d2" "length d2 < 16" "o2 = gctr a y0 (length (C @ sel (take b data) o1)) inp" "gcm_same c1 c2"
    "gc_boff c2 = 0 \<or> d2 = []" "gcm_at a h x0 y0 ((C @ sel (take b data) o1) @ sel inp o2) c2" by blast
  have l2: "length (sel inp o2) = length inp"
    by (rule gcm_sel_length[OF assms(2)]) (simp_all add: s2(3))
  note s3 = gcm_tail_step[OF s2(6,5) assms(2) p3 s2(2)]
  have data: "data = take b data @ inp @ d2" using s1(2) s2(1) by (metis append_take_drop_id)
  have "gctr a y0 (length C) (take b data @ inp @ d2) = o1 @ o2 @ o3"
    unfolding gctr_append using s1(1) s2(3) s3 l1 l2 by (simp add: add.assoc)
  then show "out = gctr a y0 (length C) data" using data run(1) by simp
  have "sel (take b data @ inp @ d2) (o1 @ o2 @ o3) = sel (take b data) o1 @ sel inp o2 @ sel d2 o3"
    by (simp only: gcm_sel_append[OF assms(2)])
  then have "sel data out = sel (take b data) o1 @ sel inp o2 @ sel d2 o3" using data run(1) by (simp only:)
  moreover have "gcm_at a h x0 y0 (C @ sel (take b data) o1 @ sel inp o2 @ sel d2 o3) c3" using s3[THEN conjunct2, THEN conjunct2] by (simp only: append_assoc)
  ultimately show "gcm_at a h x0 y0 (C @ sel data out) c'" by (simp only: run(2))
  have "gcm_same ?c c'" using gcm_same_trans[OF s1(3) gcm_same_trans[OF s2(4)]] s3 run(2) by blast
  then show "gc_clen c' = gc_clen c + of_nat (length data)" "gc_alen c' = gc_alen c" "gc_y0 c' = gc_y0 c" "gc_taglen c' = gc_taglen c"
    by (simp_all add: gcm_same_def)
qed

section \<open>Setting up\<close>

lemma chunks_map_upt: "chunks 16 xs = map (\<lambda>i. take 16 (drop (16 * i) xs)) [0..<length xs div 16]"
  by (rule nth_equalityI) (simp_all add: length_chunks nth_chunks)

lemma gcm_mul_zero: "length h = 16 \<Longrightarrow> gcm_mul h (replicate 16 0) = replicate 16 0"
proof -
  assume h: "length h = 16"
  have "gf_load (replicate 16 0) = (0, 0)" unfolding gf_store_zero[symmetric] by simp
  moreover have "gf_lin f n (0, 0) = (0, 0)" for f n by (induction n) simp_all
  ultimately show ?thesis by (simp only: gcm_mul_gf[OF h] gf_mult_def gf_store_zero)
qed

lemma xor_bytes_zero: "length x = n \<Longrightarrow> xor_bytes x (replicate n 0) = x"
  by (rule nth_equalityI) simp_all

lemma length_pad16: "length (pad16 xs) mod 16 = 0"
proof (cases "length xs mod 16 = 0")
  case False
  then have "length (pad16 xs) = length xs + (16 - length xs mod 16)" by (simp add: pad16_def)
  also have "\<dots> = 16 * (length xs div 16) + 16"
    using div_mult_mod_eq[of "length xs" 16] mod_less_divisor[of 16 "length xs"] by linarith
  finally have "length (pad16 xs) = 16 * (length xs div 16) + 16" .
  then show ?thesis by simp
qed (simp add: pad16_def)

lemma chunks_pad16:
  "length xs mod 16 = 0 \<Longrightarrow> chunks 16 (pad16 xs) = chunks 16 xs"
  "length xs mod 16 \<noteq> 0 \<Longrightarrow> chunks 16 (pad16 xs) = chunks 16 xs @ [put_bytes 0 (remainder 16 xs) (replicate 16 0)]"
proof -
  show "length xs mod 16 = 0 \<Longrightarrow> chunks 16 (pad16 xs) = chunks 16 xs" by (simp add: pad16_def)
  assume n: "length xs mod 16 \<noteq> 0"
  have r: "length xs mod 16 < 16" by simp
  have "remainder 16 xs @ replicate (16 - length xs mod 16) 0 = put_bytes 0 (remainder 16 xs) (replicate 16 0)"
    by (simp add: put_bytes_def)
  then show "chunks 16 (pad16 xs) = chunks 16 xs @ [put_bytes 0 (remainder 16 xs) (replicate 16 0)]"
    using n r chunks_block[of 16 "remainder 16 xs @ replicate (16 - length xs mod 16) 0" "[]"]
    by (simp add: pad16_def chunks_append[of 16 xs])
qed

lemma chunks_append_full: "length xs mod 16 = 0 \<Longrightarrow> chunks 16 (xs @ ys) = chunks 16 xs @ chunks 16 ys"
  using chunks_append[of 16 xs ys] length_0_conv[of "remainder 16 xs"] by simp

lemma gcm_hash_x_fold:
  assumes "gcm_keyed h c" "length (gc_x c) = 16" "16 * n \<le> length data"
  shows "fold (\<lambda>i c. c\<lparr>gc_x := gcm_hash host c (gc_x c) (drop (16 * i) data)\<rparr>) [0..<n] c
     = c\<lparr>gc_x := ghash h (gc_x c) (map (\<lambda>i. take 16 (drop (16 * i) data)) [0..<n])\<rparr>"
  using assms(3)
proof (induction n)
  case (Suc n)
  let ?c = "c\<lparr>gc_x := ghash h (gc_x c) (map (\<lambda>i. take 16 (drop (16 * i) data)) [0..<n])\<rparr>"
  have "gcm_keyed h ?c" "length (gc_x ?c) = 16" using assms(1,2) by (simp_all add: gcm_keyed_def)
  from gcm_hash_keyed[OF this, of "drop (16 * n) data" host] show ?case using Suc by (simp add: ghash_append)
qed simp

lemma gcm_hash_y0_fold:
  assumes "gcm_keyed h c" "length (gc_y0 c) = 16" "16 * n \<le> length data"
  shows "fold (\<lambda>i c. c\<lparr>gc_y0 := gcm_hash host c (gc_y0 c) (drop (16 * i) data)\<rparr>) [0..<n] c
     = c\<lparr>gc_y0 := ghash h (gc_y0 c) (map (\<lambda>i. take 16 (drop (16 * i) data)) [0..<n])\<rparr>"
  using assms(3)
proof (induction n)
  case (Suc n)
  let ?c = "c\<lparr>gc_y0 := ghash h (gc_y0 c) (map (\<lambda>i. take 16 (drop (16 * i) data)) [0..<n])\<rparr>"
  have "gcm_keyed h ?c" "length (gc_y0 ?c) = 16" using assms(1,2) by (simp_all add: gcm_keyed_def)
  from gcm_hash_keyed[OF this, of "drop (16 * n) data" host] show ?case using Suc by (simp add: ghash_append)
qed simp

text \<open>After \<^verbatim>\<open>setdata\<close>, what the hash starts from. The whole blocks are followed by one more block always.\<close>

lemma gcm_setdata_hash:
  fixes host :: endianness and data :: "byte list"
  assumes "gcm_keyed h c"
  defines "c' \<equiv> snd (gcm_setdata host data c)"
  shows "gc_x c' = ghash h (replicate 16 0) (chunks 16 data @ [put_bytes 0 (remainder 16 data) (replicate 16 0)])"
    "gcm_keyed h c'" "length (gc_buf c') = 16" "c' = c\<lparr>gc_x := gc_x c', gc_buf := gc_buf c', gc_alen := of_nat (length data)\<rparr>"
    "fst (gcm_setdata host data c) = 0"
proof -
  let ?c0 = "c\<lparr>gc_x := replicate 16 0\<rparr>" and ?n = "length data div 16"
  let ?c1 = "?c0\<lparr>gc_x := ghash h (replicate 16 0) (chunks 16 data)\<rparr>"
  let ?b = "put_bytes 0 (remainder 16 data) (replicate 16 0) :: byte list"
  have f: "fold (\<lambda>i c. c\<lparr>gc_x := gcm_hash host c (gc_x c) (drop (16 * i) data)\<rparr>) [0..<?n] ?c0 = ?c1"
    using gcm_hash_x_fold[of h ?c0 ?n data host] assms(1) by (simp add: gcm_keyed_def chunks_map_upt)
  have b: "put_bytes 0 (take (length data AND 15) (drop (16 * ?n) data)) (replicate 16 0) = ?b"
    by (simp add: and_15 remainder_def minus_mult_div_eq_mod)
  have lb: "length ?b = 16" by (simp add: less_imp_le)
  have h: "gcm_hash host (?c1\<lparr>gc_buf := ?b\<rparr>) (ghash h (replicate 16 0) (chunks 16 data)) ?b = ghash h (ghash h (replicate 16 0) (chunks 16 data)) [?b]"
    using gcm_hash_keyed[of h "?c1\<lparr>gc_buf := ?b\<rparr>" "ghash h (replicate 16 0) (chunks 16 data)" ?b host] assms(1) lb
    by (simp add: gcm_keyed_def)
  have run: "gcm_setdata host data c = (0, c\<lparr>gc_x := ghash h (replicate 16 0) (chunks 16 data @ [?b]), gc_buf := ?b, gc_alen := of_nat (length data)\<rparr>)"
    unfolding gcm_setdata_def Let_def f b using h by (simp add: ghash_append)
  show "gc_x c' = ghash h (replicate 16 0) (chunks 16 data @ [?b])"
    "gcm_keyed h c'" "length (gc_buf c') = 16" "c' = c\<lparr>gc_x := gc_x c', gc_buf := gc_buf c', gc_alen := of_nat (length data)\<rparr>"
    "fst (gcm_setdata host data c) = 0"
    using assms(1) lb by (simp_all add: c'_def run gcm_keyed_def)
qed

lemma gcm_setdata_standard:
  assumes "gcm_keyed h c" "length data mod 16 \<noteq> 0 \<or> data = []"
  shows "gc_x (snd (gcm_setdata host data c)) = ghash h (replicate 16 0) (chunks 16 (pad16 data))"
proof (cases "data = []")
  case True
  have "length h = 16" using assms(1) by (simp add: gcm_keyed_def)
  then show ?thesis unfolding gcm_setdata_hash(1)[OF assms(1)] True
    by (simp add: ghash_def xor_bytes_zero gcm_mul_zero pad16_def)
next
  case False
  then show ?thesis unfolding gcm_setdata_hash(1)[OF assms(1)] using assms(2) by (simp add: chunks_pad16(2))
qed

lemma gcm_setdata_full:
  assumes "gcm_keyed h c" "length data mod 16 = 0"
  shows "gc_x (snd (gcm_setdata host data c)) = gcm_mul h (ghash h (replicate 16 0) (chunks 16 (pad16 data)))"
proof -
  have "remainder 16 data = []" using assms(2) length_0_conv[of "remainder 16 data"] by simp
  then show ?thesis unfolding gcm_setdata_hash(1)[OF assms(1)] chunks_pad16(1)[OF assms(2)]
    by (simp add: ghash_def xor_bytes_zero length_ghash[unfolded ghash_def])
qed

text \<open>After \<^verbatim>\<open>setiv\<close>.\<close>

lemma length_gcm_lengths [simp]: "length (gcm_lengths m n) = 16"
  by (simp add: gcm_lengths_def bytes_simps)

lemma gcm_lengths_words: "store_words Big [push_bit 3 (of_nat m), push_bit 3 (of_nat n) :: u64] = gcm_lengths m n"
  by (simp add: gcm_lengths_def push_bit_eq_mult mult.commute)

lemma gcm_hash_iv_ghash:
  assumes "gcm_keyed h c"
  shows "\<exists>buf. length buf = 16 \<and> gcm_hash_iv host iv c =
     c\<lparr>gc_y0 := ghash h (replicate 16 0) (chunks 16 (pad16 iv @ gcm_lengths 0 (length iv))), gc_buf := buf\<rparr>"
proof -
  let ?z = "replicate 16 0 :: byte list" and ?n = "length iv div 16"
  let ?L = "gcm_lengths 0 (length iv)"
  define c1 where "c1 = c\<lparr>gc_y0 := ghash h ?z (chunks 16 iv)\<rparr>"
  have f: "fold (\<lambda>i c. c\<lparr>gc_y0 := gcm_hash host c (gc_y0 c) (drop (16 * i) iv)\<rparr>) [0..<?n] (c\<lparr>gc_y0 := ?z\<rparr>) = c1"
    using gcm_hash_y0_fold[of h "c\<lparr>gc_y0 := ?z\<rparr>" ?n iv host] assms by (simp add: gcm_keyed_def chunks_map_upt c1_def)
  have L: "store_words Big [0, push_bit 3 (of_nat (length iv)) :: u64] = ?L" using gcm_lengths_words[of 0 "length iv"] by simp
  define b where "b = put_bytes 0 (remainder 16 iv) ?z"
  have lb: "length b = 16" by (simp add: b_def less_imp_le)
  have rem: "drop (16 * ?n) iv = remainder 16 iv" by (simp add: remainder_def mult.commute)
  define c2 where "c2 = c\<lparr>gc_y0 := ghash h ?z (chunks 16 (pad16 iv))\<rparr>"
  obtain buf where st: "(if length iv mod 16 \<noteq> 0
       then let c = c1\<lparr>gc_buf := b\<rparr> in c\<lparr>gc_y0 := gcm_hash host c (gc_y0 c) (gc_buf c)\<rparr> else c1) = c2\<lparr>gc_buf := buf\<rparr>"
  proof (cases "length iv mod 16 = 0")
    case True
    then show ?thesis using that[of "gc_buf c"] by (simp add: c1_def c2_def chunks_pad16(1))
  next
    case False
    have "gcm_hash host (c1\<lparr>gc_buf := b\<rparr>) (gc_y0 c1) b = ghash h (gc_y0 c1) [b]"
      using gcm_hash_keyed[of h "c1\<lparr>gc_buf := b\<rparr>" "gc_y0 c1" b host] assms lb by (simp add: gcm_keyed_def c1_def)
    then show ?thesis
      using that[of b] False by (simp add: c1_def c2_def chunks_pad16(2) ghash_append b_def)
  qed
  have "gcm_hash host (c2\<lparr>gc_buf := ?L\<rparr>) (gc_y0 c2) ?L = ghash h (gc_y0 c2) [?L]"
    using gcm_hash_keyed[of h "c2\<lparr>gc_buf := ?L\<rparr>" "gc_y0 c2" ?L host] assms by (simp add: gcm_keyed_def c2_def)
  then have "gcm_hash_iv host iv c = c2\<lparr>gc_buf := ?L, gc_y0 := ghash h (gc_y0 c2) [?L]\<rparr>"
    unfolding gcm_hash_iv_def Let_def f rem b_def[symmetric] L using st[unfolded Let_def] by simp
  moreover have "chunks 16 (pad16 iv @ ?L) = chunks 16 (pad16 iv) @ [?L]"
    using chunks_append_full[OF length_pad16] chunks_block[of 16 ?L "[]"] by simp
  ultimately show ?thesis by (intro exI[of _ ?L]) (simp add: c2_def ghash_append)
qed

definition gcm_block_set :: "block_algo \<Rightarrow> gcm \<Rightarrow> bool" where
  "gcm_block_set a c \<longleftrightarrow> gc_algo c = Some a \<and> good_algo a \<and> ba_blksize a = 16 \<and> gc_blksize c = 16 \<and>
     (gc_fl c \<longrightarrow> length (gc_table c) = 65536)"

lemma length_gen_table_fl: "length t = 65536 \<Longrightarrow> length (gen_table_fl h t) = 65536"
  by (rule gen_table_fl_entries(2)[of t 0 0]) simp_all

lemma gcm_setiv_key:
  fixes host :: endianness
  assumes "gcm_block_set a c" "length iv = 12 \<or> gc_taglen c = 16"
  defines "c' \<equiv> snd (gcm_setiv host iv c)"
  shows "fst (gcm_setiv host iv c) = 0" "gcm_keyed (gcm_key a) c'" "gc_y0 c' = gcm_J0 a iv" "gc_y c' = gcm_J0 a iv" "length (gcm_J0 a iv) = 16"
    "length (gc_buf c') = 16" "length (gc_cbuf c') = 16" "gc_alen c' = 0" "gc_clen c' = 0" "gc_boff c' = gc_boff c" "gc_taglen c' = gc_taglen c"
    "gcm_block_set a c'"
proof -
  let ?z = "replicate 16 0 :: byte list"
  have c: "gc_algo c = Some a" "good_algo a" "ba_blksize a = 16" "gc_blksize c = 16" "gc_fl c \<Longrightarrow> length (gc_table c) = 65536"
    using assms(1) by (simp_all add: gcm_block_set_def)
  have lk: "length (gcm_key a) = 16" using good_algo_length[OF c(2)] c(3) by (simp add: gcm_key_def)
  have "ba_encryptfast a ?z 1 = gcm_key a"
    using c(2,3) chunks_block[of 16 ?z "[]"] unfolding good_algo_def gcm_key_def by simp
  then have key: "put_bytes 0 (ba_encryptfast a ?z 1) ?z = gcm_key a" using lk by (simp add: put_bytes_def)
  define c1 where "c1 = c\<lparr>gc_h := gcm_key a, gc_y := ?z, gc_y0 := ?z, gc_x := ?z, gc_buf := ?z, gc_cbuf := ?z, gc_iv := iv,
    gc_table := if gc_fl c then gen_table_fl (gcm_key a) (gc_table c) else gc_table c\<rparr>"
  have k1: "gcm_keyed (gcm_key a) c1" using lk c(4,5) by (auto simp: gcm_keyed_def c1_def)
  define c2 where "c2 = (if length iv = 12 then c1\<lparr>gc_y0 := gc_iv c1 @ [0, 0, 0, 0x01]\<rparr> else gcm_hash_iv host iv c1)"
  have run: "gcm_setiv host iv c = (0, c2\<lparr>gc_y := put_bytes 0 (take (gc_blksize c2) (gc_y0 c2)) (gc_y c2), gc_alen := 0, gc_clen := 0\<rparr>)"
  proof -
    let ?c = "c\<lparr>gc_h := ?z, gc_y := ?z, gc_y0 := ?z, gc_x := ?z, gc_buf := ?z, gc_cbuf := ?z\<rparr>"
    have "(if gc_fl c then ?c\<lparr>gc_h := gcm_key a, gc_table := gen_table_fl (gcm_key a) (gc_table c)\<rparr> else ?c\<lparr>gc_h := gcm_key a\<rparr>)\<lparr>gc_iv := iv\<rparr> = c1"
      by (cases c) (simp add: c1_def)
    moreover have "ba_encryptfast (the (gc_algo ?c)) (gc_h ?c) 1 = ba_encryptfast a ?z 1" by (simp add: c(1))
    ultimately have "gcm_setiv host iv c = (if length iv \<noteq> 12 \<and> gc_taglen c1 \<noteq> 16 then (- DREW_ERR_INVALID, c1)
        else (0, c2\<lparr>gc_y := put_bytes 0 (take (gc_blksize c2) (gc_y0 c2)) (gc_y c2), gc_alen := 0, gc_clen := 0\<rparr>))"
      unfolding gcm_setiv_def Let_def c2_def using key by (cases "gc_fl c") simp_all
    moreover have "\<not> (length iv \<noteq> 12 \<and> gc_taglen c1 \<noteq> 16)" using assms(2) by (auto simp: c1_def)
    ultimately show ?thesis by (simp only: if_False)
  qed
  obtain buf where buf: "length buf = 16" "c2 = c1\<lparr>gc_y0 := gcm_J0 a iv, gc_buf := buf\<rparr>"
  proof (cases "length iv = 12")
    case True
    then show ?thesis using that[of ?z] by (simp add: c2_def c1_def gcm_J0_def)
  next
    case False
    then show ?thesis using that gcm_hash_iv_ghash[OF k1, of host iv] by (auto simp: c2_def gcm_J0_def)
  qed
  show lj: "length (gcm_J0 a iv) = 16" by (simp add: gcm_J0_def)
  have c': "c' = c1\<lparr>gc_y0 := gcm_J0 a iv, gc_buf := buf, gc_y := gcm_J0 a iv, gc_alen := 0, gc_clen := 0\<rparr>"
    using lj c(4) by (simp add: c'_def run buf(2) c1_def put_bytes_def)
  show "fst (gcm_setiv host iv c) = 0" by (simp add: run)
  show "gcm_keyed (gcm_key a) c'" using k1 by (simp add: c' gcm_keyed_def)
  show "gcm_block_set a c'" using c length_gen_table_fl by (simp add: c' gcm_block_set_def c1_def)
  show "gc_y0 c' = gcm_J0 a iv" "gc_y c' = gcm_J0 a iv" "length (gc_buf c') = 16" "length (gc_cbuf c') = 16" "gc_alen c' = 0"
    "gc_clen c' = 0" "gc_boff c' = gc_boff c" "gc_taglen c' = gc_taglen c"
    using buf(1) by (simp_all add: c' c1_def)
qed

section \<open>The tag\<close>

lemma gcm_finish_tag:
  assumes "gcm_at a h x0 y0 C c" "length (gc_y0 c) = 16" "gc_alen c = of_nat m" "gc_clen c = of_nat n"
  shows "gc_x (gcm_finish host c) = xor_bytes (ghash h x0 (chunks 16 (pad16 C @ gcm_lengths m n))) (ba_encrypt a (gc_y0 c))"
proof -
  have c: "gcm_keyed h c" "gc_algo c = Some a" "good_algo a" "ba_blksize a = 16" "length x0 = 16" "gc_blksize c = 16"
    "length (gc_buf c) = 16" "length (gc_cbuf c) = 16" "gc_boff c = length C mod 16" "gc_x c = ghash h x0 (chunks 16 C)"
    using assms(1) by (simp_all add: gcm_at_def gcm_keyed_def)
  have bf: "gc_boff c \<noteq> 0 \<longrightarrow> take (gc_boff c) (gc_cbuf c) = remainder 16 C"
    using assms(1) unfolding gcm_at_def by blast
  define c1 where "c1 = (if gc_boff c \<noteq> 0
       then let b = gc_blksize c - gc_boff c; c = c\<lparr>gc_cbuf := put_bytes (gc_boff c) (replicate b 0) (gc_cbuf c)\<rparr>
            in c\<lparr>gc_x := gcm_hash host c (gc_x c) (gc_cbuf c)\<rparr> else c)"
  obtain cb where c1: "c1 = c\<lparr>gc_cbuf := cb, gc_x := ghash h x0 (chunks 16 (pad16 C))\<rparr>"
  proof (cases "length C mod 16 = 0")
    case True
    then show ?thesis using that[of "gc_cbuf c"] c(9,10) by (simp add: c1_def chunks_pad16(1))
  next
    case False
    let ?r = "length C mod 16"
    have r: "?r < 16" by simp
    let ?b = "put_bytes 0 (remainder 16 C) (replicate 16 0) :: byte list"
    have "take ?r (gc_cbuf c) = remainder 16 C" using bf False c(9) by simp
    then have cb: "put_bytes ?r (replicate (16 - ?r) 0) (gc_cbuf c) = ?b"
      using c(8) r by (simp add: put_bytes_def)
    have "length ?b = 16" by (simp add: less_imp_le)
    then have "gcm_hash host (c\<lparr>gc_cbuf := ?b\<rparr>) (gc_x c) ?b = ghash h (gc_x c) [?b]"
      using gcm_hash_keyed[of h "c\<lparr>gc_cbuf := ?b\<rparr>" "gc_x c" ?b host] c(1,5,10) by (simp add: gcm_keyed_def)
    then show ?thesis
      using that[of ?b] False c(10) unfolding c1_def Let_def c(6,9) cb by (simp add: chunks_pad16(2)[OF False] ghash_append)
  qed
  let ?L = "gcm_lengths m n"
  have L: "store_words Big [push_bit 3 (gc_alen c1), push_bit 3 (gc_clen c1)] = ?L"
    by (simp add: c1 assms(3,4) gcm_lengths_words)
  have hl: "gcm_hash host (c1\<lparr>gc_buf := ?L\<rparr>) (gc_x c1) ?L = ghash h x0 (chunks 16 (pad16 C @ ?L))"
  proof -
    have "gcm_hash host (c1\<lparr>gc_buf := ?L\<rparr>) (gc_x c1) ?L = ghash h (gc_x c1) [?L]"
      using gcm_hash_keyed[of h "c1\<lparr>gc_buf := ?L\<rparr>" "gc_x c1" ?L host] c(1,5) by (simp add: gcm_keyed_def c1)
    also have "\<dots> = ghash h x0 (chunks 16 (pad16 C @ ?L))"
      using chunks_append_full[OF length_pad16, of C ?L] chunks_block[of 16 ?L "[]"] by (simp add: c1 ghash_append)
    finally show ?thesis .
  qed
  have e: "length (ba_encrypt a (gc_y0 c)) = 16" using good_algo_length[OF c(3)] c(4) assms(2) by simp
  have "gc_x (gcm_finish host c) = xor_aligned2 (ghash h x0 (chunks 16 (pad16 C @ ?L))) (put_bytes 0 (ba_encrypt a (gc_y0 c)) ?L) 16"
    unfolding gcm_finish_def Let_def c1_def[unfolded Let_def, symmetric] using L hl c(2,6) by (simp add: c1)
  also have "put_bytes 0 (ba_encrypt a (gc_y0 c)) ?L = ba_encrypt a (gc_y0 c)" using e by (simp add: put_bytes_def)
  finally show ?thesis using e c(5) by (simp add: xor_aligned2_def xor_buffers2_block)
qed

section \<open>The whole mode\<close>

text \<open>The data in pieces.\<close>

definition gcm_pieces :: "(byte list \<Rightarrow> gcm \<Rightarrow> byte list \<times> gcm) \<Rightarrow> byte list list \<Rightarrow> gcm \<Rightarrow> byte list \<times> gcm" where
  "gcm_pieces f ps c = fold (\<lambda>p (out, c). let (out', c) = f p c in (out @ out', c)) ps ([], c)"

lemma gcm_pieces_step:
  fixes host :: endianness and ps :: "byte list list"
  assumes "gcm_at a h x0 y0 [] c" "gcm_sel sel" "gc_clen c = 0"
  defines "r \<equiv> gcm_pieces (gcm_crypt sel host) ps c"
  shows "fst r = gctr a y0 0 (concat ps) \<and> gcm_at a h x0 y0 (sel (concat ps) (fst r)) (snd r) \<and>
    gc_clen (snd r) = of_nat (length (concat ps)) \<and> gc_alen (snd r) = gc_alen c \<and> gc_y0 (snd r) = gc_y0 c \<and> gc_taglen (snd r) = gc_taglen c"
  unfolding r_def
proof (induction ps rule: rev_induct)
  case Nil
  then show ?case using assms(1,3) gcm_sel_Nil[OF assms(2)] by (simp add: gcm_pieces_def)
next
  case (snoc p ps)
  obtain out c1 where r1: "gcm_pieces (gcm_crypt sel host) ps c = (out, c1)" by fastforce
  obtain o2 c2 where r2: "gcm_crypt sel host p c1 = (o2, c2)" by fastforce
  have r: "gcm_pieces (gcm_crypt sel host) (ps @ [p]) c = (out @ o2, c2)"
    using r1 r2 by (simp add: gcm_pieces_def)
  have r1': "out = gctr a y0 0 (concat ps) \<and> gcm_at a h x0 y0 (sel (concat ps) out) c1 \<and> gc_clen c1 = of_nat (length (concat ps)) \<and>
    gc_alen c1 = gc_alen c \<and> gc_y0 c1 = gc_y0 c \<and> gc_taglen c1 = gc_taglen c"
    by (rule snoc[unfolded r1 fst_conv snd_conv])
  note ih = r1'[THEN conjunct1] r1'[THEN conjunct2, THEN conjunct1] r1'[THEN conjunct2, THEN conjunct2]
  have l: "length (sel (concat ps) out) = length (concat ps)"
    by (rule gcm_sel_length[OF assms(2)]) (simp_all add: ih(1))
  note st = gcm_crypt_step[OF ih(2) assms(2) r2]
  have "out @ o2 = gctr a y0 0 (concat (ps @ [p]))" unfolding concat_append gctr_append using ih(1) st(1) l by simp
  moreover have "gcm_at a h x0 y0 (sel (concat (ps @ [p])) (out @ o2)) c2"
    using st(2) by (simp add: gcm_sel_append[OF assms(2)])
  ultimately show ?case using ih st by (simp add: r)
qed

text \<open>A context that \<^verbatim>\<open>setiv\<close> and \<^verbatim>\<open>setdata\<close> have set up.\<close>

definition gcm_setup :: "endianness \<Rightarrow> byte list \<Rightarrow> byte list \<Rightarrow> gcm \<Rightarrow> gcm" where
  "gcm_setup host iv A c = snd (gcm_setdata host A (snd (gcm_setiv host iv c)))"

lemma gcm_setup_at:
  fixes host :: endianness and iv A :: "byte list"
  assumes "gcm_block_set a c" "gc_boff c = 0" "length iv = 12 \<or> gc_taglen c = 16" "length A mod 16 \<noteq> 0 \<or> A = []"
  defines "c' \<equiv> gcm_setup host iv A c"
  shows "gcm_at a (gcm_key a) (ghash (gcm_key a) (replicate 16 0) (chunks 16 (pad16 A))) (gcm_J0 a iv) [] c'"
    "gc_clen c' = 0" "gc_alen c' = of_nat (length A)" "gc_y0 c' = gcm_J0 a iv" "gc_taglen c' = gc_taglen c" "length (gcm_J0 a iv) = 16"
proof -
  let ?c = "snd (gcm_setiv host iv c)"
  note s = gcm_setiv_key(1-4)[OF assms(1,3), of host] gcm_setiv_key(5)[OF assms(1,3)] gcm_setiv_key(6-12)[OF assms(1,3), of host]
  note d = gcm_setdata_hash[OF s(2), of host A]
  have x: "gc_x c' = ghash (gcm_key a) (replicate 16 0) (chunks 16 (pad16 A))"
    unfolding c'_def gcm_setup_def by (rule gcm_setdata_standard[OF s(2) assms(4)])
  have c': "c' = ?c\<lparr>gc_x := gc_x c', gc_buf := gc_buf c', gc_alen := of_nat (length A)\<rparr>" "gcm_keyed (gcm_key a) c'" "length (gc_buf c') = 16"
    using d by (simp_all add: c'_def gcm_setup_def)
  have "gc_algo c' = Some a" "gc_y c' = gcm_J0 a iv" "gc_boff c' = 0" "length (gc_cbuf c') = 16"
    "gc_y0 c' = gcm_J0 a iv" "gc_clen c' = 0" "gc_alen c' = of_nat (length A)" "gc_taglen c' = gc_taglen c"
    by (subst c'(1), use s assms(1,2) in \<open>simp add: gcm_block_set_def\<close>)+
  moreover have "good_algo a" "ba_blksize a = 16" using assms(1) by (simp_all add: gcm_block_set_def)
  ultimately have fields: "gc_algo c' = Some a" "gc_y c' = gcm_J0 a iv" "gc_boff c' = 0" "length (gc_cbuf c') = 16" "good_algo a" "ba_blksize a = 16"
    "gc_y0 c' = gcm_J0 a iv" "gc_clen c' = 0" "gc_alen c' = of_nat (length A)" "gc_taglen c' = gc_taglen c" by simp_all
  show "gcm_at a (gcm_key a) (ghash (gcm_key a) (replicate 16 0) (chunks 16 (pad16 A))) (gcm_J0 a iv) [] c'"
    using fields c'(2,3) x s(5) by (simp add: gcm_at_def)
  show "gc_clen c' = 0" "gc_alen c' = of_nat (length A)" "gc_y0 c' = gcm_J0 a iv" "gc_taglen c' = gc_taglen c" "length (gcm_J0 a iv) = 16"
    using fields s(5) by simp_all
qed

lemma gcm_tag_ghash:
  "xor_bytes (ghash (gcm_key a) (ghash (gcm_key a) (replicate 16 0) (chunks 16 (pad16 A))) (chunks 16 (pad16 C @ gcm_lengths (length A) (length C))))
     (ba_encrypt a (gcm_J0 a iv)) = gcm_tag a iv A C"
  by (simp add: gcm_tag_def chunks_append_full[OF length_pad16] ghash_append)

text \<open>One lemma for both directions: all the pieces, the last one with the final operation, and the tag.\<close>

lemma gcm_final_state:
  fixes host :: endianness
  assumes "gcm_block_set a c" "gc_boff c = 0" "length iv = 12 \<or> gc_taglen c = 16" "length A mod 16 \<noteq> 0 \<or> A = []" "gcm_sel sel"
    and "gcm_pieces (gcm_crypt sel host) ps (gcm_setup host iv A c) = (out, c1)" "gcm_crypt sel host p c1 = (out', c2)"
  defines "res \<equiv> gctr a (gcm_J0 a iv) 0 (concat ps @ p)"
  shows "out @ out' = res" "length out' = length p" "gc_taglen c1 = gc_taglen c" "gc_taglen c2 = gc_taglen c"
    "gc_x (gcm_finish host c2) = gcm_tag a iv A (sel (concat ps @ p) res)" "gc_taglen (gcm_finish host c2) = gc_taglen c"
proof -
  note s = gcm_setup_at(1-5)[OF assms(1-4), of host] gcm_setup_at(6)[OF assms(1-4)]
  note p = gcm_pieces_step[OF s(1) assms(5) s(2), of host ps, unfolded assms(6) fst_conv snd_conv]
  have "gc_clen c1 = of_nat (length (concat ps))" "gc_alen c1 = of_nat (length A)" "gc_y0 c1 = gcm_J0 a iv" "gc_taglen c1 = gc_taglen c"
    using p s(3-5) by simp_all
  note p1 = p[THEN conjunct1] p[THEN conjunct2, THEN conjunct1] this
  have l: "length (sel (concat ps) out) = length (concat ps)"
    by (rule gcm_sel_length[OF assms(5)]) (simp_all add: p1(1))
  note st = gcm_crypt_step[OF p1(2) assms(5,7)]
  show res: "out @ out' = res" unfolding res_def gctr_append using p1(1) st(1) l by simp
  show "length out' = length p" "gc_taglen c1 = gc_taglen c" "gc_taglen c2 = gc_taglen c" using st p1 by simp_all
  have C: "sel (concat ps) out @ sel p out' = sel (concat ps @ p) res"
    unfolding res[symmetric] by (rule gcm_sel_append[OF assms(5), symmetric])
  have lC: "length (sel (concat ps @ p) res) = length (concat ps) + length p"
    by (rule gcm_sel_length[OF assms(5)]) (simp_all add: res_def)
  have "gc_clen c2 = of_nat (length (sel (concat ps @ p) res))" "gc_alen c2 = of_nat (length A)" "length (gc_y0 c2) = 16"
    using st(3-5) p1(3-5) s(6) lC by simp_all
  from gcm_finish_tag[OF st(2)[unfolded C] this(3,2,1), of host]
  show "gc_x (gcm_finish host c2) = gcm_tag a iv A (sel (concat ps @ p) res)"
    using st(5) p1(5) by (simp only: gcm_tag_ghash)
  show "gc_taglen (gcm_finish host c2) = gc_taglen c" using st(6) p1(6) by (simp add: gcm_finish_def Let_def)
qed

lemma gcm_sel_encrypt: "gcm_sel (\<lambda>inp out. out)" and gcm_sel_decrypt: "gcm_sel (\<lambda>inp out. inp)"
  by (simp_all add: gcm_sel_def)

theorem gcm_encrypt_standard:
  assumes "gcm_block_set a c" "gc_boff c = 0" "length iv = 12 \<or> gc_taglen c = 16" "length A mod 16 \<noteq> 0 \<or> A = []"
    and "gc_taglen c \<le> 16" "length p + gc_taglen c \<le> outlen"
    and "gcm_pieces (gcm_encrypt host) ps (gcm_setup host iv A c) = (out, c1)"
  defines "C \<equiv> gctr a (gcm_J0 a iv) 0 (concat ps @ p)"
  shows "\<exists>out' c2. gcm_encryptfinal host outlen p c1 = Some (int_of_size outlen, out', c2) \<and>
    out @ out' = C @ take (gc_taglen c) (gcm_tag a iv A C)"
proof -
  obtain out' c2 where e: "gcm_encrypt host p c1 = (out', c2)" by fastforce
  note f = gcm_final_state[OF assms(1-4) gcm_sel_encrypt assms(7)[unfolded gcm_encrypt_def] e[unfolded gcm_encrypt_def], folded C_def]
  have "gcm_encryptfinal host outlen p c1 = Some (int_of_size outlen, out' @ take (gc_taglen c) (gcm_tag a iv A C), gcm_finish host c2)"
    unfolding gcm_encryptfinal_def e using f assms(5,6) by simp
  then show ?thesis using f(1) by simp
qed

theorem gcm_decrypt_standard:
  assumes "gcm_block_set a c" "gc_boff c = 0" "length iv = 12 \<or> gc_taglen c = 16" "length A mod 16 \<noteq> 0 \<or> A = []"
    and "gc_taglen c \<le> 16" "length t = gc_taglen c"
    and "gcm_pieces (gcm_decrypt host) ps (gcm_setup host iv A c) = (out, c1)"
  shows "\<exists>out' c2. gcm_decryptfinal host (length p) (p @ t) c1 =
      Some (if t = take (gc_taglen c) (gcm_tag a iv A (concat ps @ p)) then int_of_size (length p) else - DREW_ERR_VERIFY_FAILED, out', c2) \<and>
    out @ out' = gctr a (gcm_J0 a iv) 0 (concat ps @ p)"
proof -
  obtain out' c2 where e: "gcm_decrypt host p c1 = (out', c2)" by fastforce
  note f = gcm_final_state[OF assms(1-4) gcm_sel_decrypt assms(7)[unfolded gcm_decrypt_def] e[unfolded gcm_decrypt_def]]
  have "gcm_decryptfinal host (length p) (p @ t) c1 =
      Some (if t = take (gc_taglen c) (gcm_tag a iv A (concat ps @ p)) then int_of_size (length p) else - DREW_ERR_VERIFY_FAILED, out', gcm_finish host c2)"
    unfolding gcm_decryptfinal_def using e f assms(5,6) by simp
  then show ?thesis using f(1) by blast
qed

lemma gctr_twice: "gctr a y0 off (gctr a y0 off data) = data"
  by (rule nth_equalityI) (simp_all add: gctr_def)

end
