(* ===== verification/GCM_Fast.thy ===== *)
theory GCM_Fast
  imports GCM
begin

text \<open>
  The aligned operations of \<^verbatim>\<open>impl/mode/gcm-impl.cc\<close> against the plain ones: on whole blocks, for what fits
  their array, and as long as the last word of the counter does not wrap.
\<close>

section \<open>The aligned operations\<close>

text \<open>Their counter has four words, and the carry is not stopped after the last of them.\<close>

lemma increment_fast_words:
  "gcm_increment_fast [w0, w1, w2, w3] = (if w3 + 1 = 0 then increment_from 3 [w0, w1, w2, 0] else [w0, w1, w2, w3 + 1])"
  "w2 + 1 \<noteq> 0 \<Longrightarrow> increment_from 3 [w0, w1, w2, 0] = [w0, w1, w2 + 1, 0 :: u32]"
  by (simp_all add: gcm_increment_fast_def numeral_eq_Suc Let_def)

lemma inc32_words: "inc32 (store_words Big [w0, w1, w2, w3 :: u32]) = store_words Big [w0, w1, w2, w3 + 1]"
  by (simp add: inc32_def store_words_def bytes_simps)

lemma inc32_words_pow: "(inc32 ^^ i) (store_words Big [w0, w1, w2, w3 :: u32]) = store_words Big [w0, w1, w2, w3 + of_nat i]"
  by (induction i) (simp_all add: inc32_words ac_simps)

lemma increment_fast_pow:
  "unat w3 + i < 2 ^ 32 \<Longrightarrow> (gcm_increment_fast ^^ i) [w0, w1, w2, w3] = [w0, w1, w2, w3 + of_nat i]"
proof (induction i)
  case (Suc i)
  have "w3 + of_nat (Suc i) = of_nat (unat w3 + Suc i)" by simp
  moreover have "unat (of_nat (unat w3 + Suc i) :: u32) = unat w3 + Suc i"
    using Suc.prems by (subst unat_of_nat) (simp del: of_nat_add of_nat_Suc)
  ultimately have "w3 + of_nat (Suc i) \<noteq> 0" by (metis Zero_not_Suc add_Suc_right unat_0)
  then have "w3 + of_nat i + 1 \<noteq> 0" by (simp add: ac_simps)
  then show ?case using Suc by (simp add: increment_fast_words ac_simps)
qed simp

lemma gcm_hash_fast_ghash:
  assumes "gcm_keyed h c" "length x = 16" "16 * n \<le> length b"
  shows "gcm_hash_fast host c x b n = ghash h x (map (\<lambda>i. take 16 (drop (16 * i) b)) [0..<n])"
  using assms(3)
proof (induction n)
  case (Suc n)
  let ?x = "ghash h x (map (\<lambda>i. take 16 (drop (16 * i) b)) [0..<n])"
  have "gcm_hash host c ?x (drop (16 * n) b) = ghash h ?x [take 16 (drop (16 * n) b)]"
    using assms(1,2) Suc.prems by (intro gcm_hash_keyed) simp_all
  moreover have "gcm_hash host c ?x (drop (16 * n) b) = gcm_multiply host c (xor_aligned2 ?x (drop (16 * n) b) 16)"
    using assms(1) by (simp add: gcm_hash_def gcm_keyed_def xor_aligned2_def)
  ultimately show ?case using Suc by (simp add: gcm_hash_fast_def ghash_append)
qed (simp add: gcm_hash_fast_def)

lemma gcm_fast_gctr:
  assumes "gcm_at a h x0 y0 C c" "gc_boff c = 0" "gcm_sel sel" "length data = 16 * n" "n \<le> 256"
    and "unat (load Big (drop 12 (gc_y c)) :: u32) + n < 2 ^ 32"
  shows "\<exists>c'. gcm_fast sel host data c = Some (gctr a y0 (length C) data, c') \<and>
    gcm_at a h x0 y0 (C @ sel data (gctr a y0 (length C) data)) c' \<and>
    gcm_same (c\<lparr>gc_clen := gc_clen c + of_nat (length data)\<rparr>) c'"
proof (cases "n = 0")
  case True
  have "length (gc_y c) = 16" using assms(1) by (simp add: gcm_at_def)
  then have "store_words Big (load_words Big (gc_y c) :: u32 list) = gc_y c" by (simp add: bytes_simps)
  then show ?thesis using True assms(1,4) gcm_sel_Nil[OF assms(3)] \<open>length (gc_y c) = 16\<close>
    by (simp add: gcm_fast_def gcm_fast_loop.simps gcm_at_clen gcm_same_def)
next
  case False
  have c: "gcm_keyed h c" "gc_algo c = Some a" "good_algo a" "ba_blksize a = 16" "length y0 = 16" "length x0 = 16"
    "length C mod 16 = 0" "gc_x c = ghash h x0 (chunks 16 C)" "gc_y c = (inc32 ^^ ((length C + 15) div 16)) y0"
    using assms(1,2) by (simp_all add: gcm_at_def)
  have ly: "length (gc_y c) = 16" using c(5,9) by simp
  define ws where "ws = (load_words Big (gc_y c) :: u32 list)"
  have lws: "length ws = 4" using ly by (simp add: ws_def bytes_simps)
  obtain w0 w1 w2 w3 where ws: "ws = [w0, w1, w2, w3]" using length_four[OF lws] by blast
  have y: "gc_y c = store_words Big [w0, w1, w2, w3]" using ly by (simp add: ws[symmetric] ws_def bytes_simps)
  have "drop 12 (gc_y c) = store Big w3" by (simp add: y store_words_def bytes_simps)
  then have small: "unat w3 + n < 2 ^ 32" using assms(6) by (simp add: load_store)
  have pow: "store_words Big ((gcm_increment_fast ^^ i) ws) = (inc32 ^^ i) (gc_y c)" if "i \<le> n" for i
    using increment_fast_pow[of w3 i w0 w1 w2] small that by (simp add: ws y inc32_words_pow)
  define bs where "bs = map (\<lambda>i. (inc32 ^^ Suc i) (gc_y c)) [0..<n]"
  have bs: "\<forall>b\<in>set bs. length b = 16" "length bs = n" using ly by (auto simp: bs_def simp del: funpow.simps)
  have tmp: "concat (map (\<lambda>i. store_words Big ((gcm_increment_fast ^^ Suc i) ws)) [0..<n]) = concat bs"
    unfolding bs_def by (intro arg_cong[where f = concat] map_cong refl pow) simp
  have ltmp: "length (concat bs) = 16 * n" using length_concat_blocks[OF bs(1)] bs(2) by simp
  define es where "es = map (ba_encrypt a) bs"
  have es: "\<forall>b\<in>set es. length b = 16" "length es = n" using bs good_algo_length[OF c(3)] c(4) by (auto simp: es_def)
  have enc: "ba_encryptfast a (concat bs) n = concat es"
    using c(3,4) ltmp chunks_concat[OF bs(1)] unfolding good_algo_def es_def by simp
  have les: "length (concat es) = 16 * n" using length_concat_blocks[OF es(1)] es(2) by simp
  have q: "(length C + 15) div 16 = length C div 16" by (rule div16_blocks(1)[OF c(7)])
  have out: "xor_aligned (concat es) data (16 * n) = gctr a y0 (length C) data"
  proof (rule nth_equalityI)
    show "length (xor_aligned (concat es) data (16 * n)) = length (gctr a y0 (length C) data)"
      using les assms(4) by (simp add: xor_aligned_def xor_buffers_def)
    fix i assume "i < length (xor_aligned (concat es) data (16 * n))"
    then have i: "i < 16 * n" using les assms(4) by (simp add: xor_aligned_def xor_buffers_def)
    then have i16: "i div 16 < n" by simp
    have lc: "length C = 16 * (length C div 16)" using c(7) div_mult_mod_eq[of "length C" 16] by linarith
    have "(length C + i) div 16 = length C div 16 + i div 16" "(length C + i) mod 16 = i mod 16"
      by (subst lc, simp)+
    then have "gctr a y0 (length C) data ! i = ba_encrypt a ((inc32 ^^ Suc (length C div 16 + i div 16)) y0) ! (i mod 16) XOR data ! i"
      using i assms(4) by (simp add: gctr_def gcm_keystream_def del: funpow.simps)
    moreover have "concat es ! i = es ! (i div 16) ! (i mod 16)" using nth_concat_blocks[OF es(1)] es(2) i by simp
    moreover have "es ! (i div 16) = ba_encrypt a ((inc32 ^^ Suc (length C div 16 + i div 16)) y0)"
      using i16 bs(2) c(9) q by (simp add: es_def bs_def funpow_add[symmetric, THEN fun_cong, simplified o_apply] add.commute)
    ultimately show "xor_aligned (concat es) data (16 * n) ! i = gctr a y0 (length C) data ! i"
      using i les assms(4) by (simp add: xor_aligned_def xor_buffers_def)
  qed
  let ?o = "gctr a y0 (length C) data"
  let ?s = "sel data ?o"
  have ls: "length ?s = 16 * n" by (rule gcm_sel_length[OF assms(3)]) (simp_all add: assms(4))
  define c0 where "c0 = c\<lparr>gc_clen := gc_clen c + of_nat (16 * n)\<rparr>"
  have hash: "gcm_hash_fast host c0 (gc_x c0) ?s n = ghash h x0 (chunks 16 (C @ ?s))"
    using gcm_hash_fast_ghash[of h c0 "gc_x c0" n ?s host] c(1,6,8) ls chunks_append_full[OF c(7), of ?s] chunks_map_upt[of ?s]
    by (simp add: c0_def gcm_keyed_def ghash_append)
  have mn: "min 4096 (16 * n) = 16 * n" "(16 * n + 15) div 16 = n" using assms(5) by simp_all
  have loop: "gcm_fast_loop sel host data (16 * n) 0 ws c0 =
      Some (?o, (gcm_increment_fast ^^ n) ws, c0\<lparr>gc_x := ghash h x0 (chunks 16 (C @ ?s))\<rparr>)"
    using False assms(4,5) enc out hash ltmp tmp c(2) mn
    by (subst gcm_fast_loop.simps) (simp add: Let_def gcm_fast_loop.simps[of _ _ _ 0] c0_def del: funpow.simps)
  have run: "gcm_fast sel host data c = Some (?o, c0\<lparr>gc_x := ghash h x0 (chunks 16 (C @ ?s)), gc_y := (inc32 ^^ n) (gc_y c)\<rparr>)"
    unfolding gcm_fast_def Let_def using loop ly pow[of n] by (simp add: assms(4) c0_def ws_def del: funpow.simps)
  have "(inc32 ^^ n) (gc_y c) = (inc32 ^^ ((length C + 16 * n + 15) div 16)) y0"
  proof -
    have "(length C + 16 * n + 15) div 16 = n + length C div 16"
      using div_mult_self4[of 16 n "length C + 15"] q by (simp add: ac_simps)
    then show ?thesis by (simp add: c(9) q funpow_add)
  qed
  then have "gcm_at a h x0 y0 (C @ ?s) (c0\<lparr>gc_x := ghash h x0 (chunks 16 (C @ ?s)), gc_y := (inc32 ^^ n) (gc_y c)\<rparr>)"
    using assms(1,2) c(7) ls by (simp add: gcm_at_def gcm_keyed_def c0_def)
  moreover have "gcm_same (c\<lparr>gc_clen := gc_clen c + of_nat (length data)\<rparr>)
      (c0\<lparr>gc_x := ghash h x0 (chunks 16 (C @ ?s)), gc_y := (inc32 ^^ n) (gc_y c)\<rparr>)"
    by (simp add: gcm_same_def c0_def assms(4))
  ultimately show ?thesis using run by blast
qed

text \<open>So after the aligned and the plain operation the contexts stand at the same place of the same message.\<close>

lemma gcm_fast_plain:
  fixes host :: endianness
  assumes "gcm_at a h x0 y0 C c" "gc_boff c = 0" "gcm_sel sel" "length data = 16 * n" "n \<le> 256"
    and "unat (load Big (drop 12 (gc_y c)) :: u32) + n < 2 ^ 32"
  defines "r \<equiv> gcm_crypt sel host data c"
  shows "\<exists>c'. gcm_fast sel host data c = Some (fst r, c') \<and> fst r = gctr a y0 (length C) data \<and>
    gcm_at a h x0 y0 (C @ sel data (fst r)) c' \<and> gcm_at a h x0 y0 (C @ sel data (fst r)) (snd r) \<and> gcm_same (snd r) c'"
proof -
  obtain out d where r: "gcm_crypt sel host data c = (out, d)" by fastforce
  note s = gcm_crypt_step[OF assms(1,3) r]
  obtain c' where c': "gcm_fast sel host data c = Some (gctr a y0 (length C) data, c')"
    "gcm_at a h x0 y0 (C @ sel data (gctr a y0 (length C) data)) c'"
    "gcm_same (c\<lparr>gc_clen := gc_clen c + of_nat (length data)\<rparr>) c'"
    using gcm_fast_gctr[OF assms(1-6)] by blast
  show ?thesis unfolding r_def r fst_conv snd_conv
    using c' s by (intro exI[of _ c']) (simp add: gcm_same_def)
qed

lemma gcm_fast_long: "4096 < length data \<Longrightarrow> 16 dvd length data \<Longrightarrow> gcm_fast sel host data c = None"
  by (auto simp: gcm_fast_def gcm_fast_loop.simps Let_def elim!: dvdE)

text \<open>The fourth word of the counter wraps into the third.\<close>

lemma gcm_increment_wrap:
  assumes "w2 + 1 \<noteq> 0"
  shows "gcm_increment_fast [w0, w1, w2, - 1] = [w0, w1, w2 + 1, 0]"
    "load_words Big (inc32 (store_words Big [w0, w1, w2, - 1 :: u32])) = [w0, w1, w2, 0 :: u32]"
  using increment_fast_words(2)[OF assms, of w0 w1]
  by (simp_all add: increment_fast_words(1) inc32_words bytes_simps)

section \<open>Another message\<close>

lemma gcm_reset_ready:
  fixes host :: endianness
  assumes "gcm_block_set a c" "length (gc_iv c) = 12 \<or> gc_taglen c = 16"
  defines "r \<equiv> gcm_reset host c"
  shows "fst r = 0" "gcm_block_set a (snd r)" "gc_boff (snd r) = 0" "gc_y (snd r) = gcm_J0 a (gc_iv c)"
proof -
  obtain d where d: "gcm_setiv host (gc_iv c) c = (0, d)"
    using gcm_setiv_key(1)[OF assms(1,2), of host] by (metis prod.collapse)
  show "fst r = 0" "gcm_block_set a (snd r)" "gc_boff (snd r) = 0" "gc_y (snd r) = gcm_J0 a (gc_iv c)"
    using gcm_setiv_key(4,12)[OF assms(1,2), of host] by (simp_all add: r_def gcm_reset_def d gcm_block_set_def)
qed

lemma gcm_setiv_refused:
  assumes "length iv \<noteq> 12" "gc_taglen c \<noteq> 16"
  shows "fst (gcm_setiv host iv c) = - DREW_ERR_INVALID" "gc_iv (snd (gcm_setiv host iv c)) = iv"
  using assms by (simp_all add: gcm_setiv_def Let_def)

lemma gcm_setblock_ready:
  assumes "good_algo a" "ba_blksize a = 16" "gc_fl c \<Longrightarrow> length (gc_table c) = 65536"
  shows "fst (gcm_setblock (Some a) c) = 0 \<and> gcm_block_set a (snd (gcm_setblock (Some a) c))"
  using assms by (simp add: gcm_setblock_def gcm_block_set_def Let_def)

end
