(* ===== verification/Hash_Plugin.thy ===== *)
theory Hash_Plugin
  imports Block_Plugin SHA1 SHA2 MD4_MD5 RIPEMD
begin

text \<open>
  What HMAC sees of a hash: the function table \<^verbatim>\<open>drew_hash_functbl_t\<close> that the macros of
  \<^verbatim>\<open>impl/hash/hash-plugin.hh\<close> make of a class. A context is a value, so \<^verbatim>\<open>clone\<close> is the
  identity. The locale \<open>plugin_hash\<close> adds to the contract of a hash object what a user of the
  table needs: the sizes, and that a context can be reset at any time.
\<close>

record 's hash_table =
  ht_info_blksize :: int
  ht_info_size :: int
  ht_reset :: "'s \<Rightarrow> 's"
  ht_update :: "byte list \<Rightarrow> 's \<Rightarrow> 's"
  ht_final :: "nat \<Rightarrow> 's \<Rightarrow> byte list \<times> 's"

text \<open>The table of a class of the template \<^verbatim>\<open>Hash\<close>; \<^verbatim>\<open>info\<close> is given a null context.\<close>

definition PLUGIN_STRUCTURE ::
    "endianness \<Rightarrow> 'w::len transform \<Rightarrow> nat \<Rightarrow> endianness \<Rightarrow> 'w word list \<Rightarrow> nat \<Rightarrow> 'w word hstate hash_table" where
  "PLUGIN_STRUCTURE host tr BlkSize E iv dsize =
     \<lparr>ht_info_blksize = int BlkSize, ht_info_size = int dsize, ht_reset = hash_Reset iv,
      ht_update = hash_Update tr BlkSize,
      ht_final = (\<lambda>len. hash_GetDigest host (hash_Pad host tr BlkSize E) E len False)\<rparr>"

definition PLUGIN_STRUCTURE_VARIABLE ::
    "endianness \<Rightarrow> 'w::len transform \<Rightarrow> nat \<Rightarrow> endianness \<Rightarrow> 'w word list \<Rightarrow> 'w word hstate hash_table" where
  "PLUGIN_STRUCTURE_VARIABLE host tr BlkSize E iv =
     \<lparr>ht_info_blksize = int BlkSize, ht_info_size = - DREW_ERR_MORE_INFO, ht_reset = hash_Reset iv,
      ht_update = hash_Update tr BlkSize,
      ht_final = (\<lambda>len. hash_GetDigest host (hash_Pad host tr BlkSize E) E len False)\<rparr>"

locale plugin_hash =
  streaming_hash "ht_reset ht" "ht_update ht" "\<lambda>s. fst (ht_final ht dsize s)" ready fits absorbs digest
  for ht :: "'s hash_table" and dsize :: nat and ready :: "'s \<Rightarrow> bool" and fits :: "byte list \<Rightarrow> bool"
    and absorbs :: "byte list \<Rightarrow> 's \<Rightarrow> bool" and digest :: "byte list \<Rightarrow> byte list" +
  fixes BlkSize :: nat
  assumes absorbs_ready: "absorbs msg s \<Longrightarrow> ready s"
    and Final_ready: "absorbs msg s \<Longrightarrow> ready (snd (ht_final ht dsize s))"
    and length_digest: "length (digest msg) = dsize"
    and fits_short: "length data < 512 \<Longrightarrow> fits data"
    and info_blksize: "ht_info_blksize ht = int BlkSize"
    and info_size: "ht_info_size ht = int dsize"
    and sizes: "BlkSize \<le> 256" "0 < dsize" "dsize \<le> BlkSize"

section \<open>The classes of the template\<close>

lemma length_buf_Pad:
  assumes "absorbed tr n iv msg st" "2 * (LENGTH('w) div 8) < n" "3 < LENGTH('w)" "8 dvd LENGTH('w)"
  shows "length (m_buf (hash_Pad host tr n E (st :: 'w::len word hstate))) = n"
proof -
  define k where "k = 2 * (LENGTH('w) div 8)"
  define noff where "noff = unat (m_len0 st) mod n"
  define field where "field = hash_len_field host E st"
  have k: "k < n" and noff: "noff < n" using assms(2) by (simp_all add: k_def noff_def)
  have buf: "length (m_buf st) = n" using assms(1) by (simp add: absorbed_def absorbed_buf_def)
  have lf: "length field = k"
    using assms by (simp add: field_def k_def absorbed_def absorbed_buf_def hash_len_field_md)
  define b1 where "b1 = put_bytes noff [0x80] (m_buf st)"
  have b1: "length b1 = n" using buf noff by (simp add: b1_def)
  show ?thesis
  proof (cases "n - k \<le> noff")
    case True
    then show ?thesis
      using b1 lf k noff
      by (simp add: hash_Pad_def Let_def hash_Transform_def field_def[symmetric] k_def[symmetric] noff_def[symmetric]
          b1_def[symmetric])
  next
    case False
    then show ?thesis
      using b1 lf k noff
      by (simp add: hash_Pad_def Let_def hash_Transform_def field_def[symmetric] k_def[symmetric] noff_def[symmetric]
          b1_def[symmetric])
  qed
qed

context md_hash
begin

lemma plugin_hash_template:
  assumes "BlkSize \<le> 256" "0 < dsize" "dsize \<le> BlkSize" "8 < LENGTH('w)"
  shows "plugin_hash (PLUGIN_STRUCTURE host tr BlkSize E iv dsize) dsize (\<lambda>st. length (m_buf st) = BlkSize)
     (\<lambda>data. length data < 2 ^ LENGTH('w)) (absorbed tr BlkSize iv) (md_digest tr BlkSize E iv dsize) BlkSize"
proof -
  have digest: "length (md_digest tr BlkSize E iv dsize msg) = dsize" for msg
  proof -
    have "length (foldl tr iv (chunks BlkSize xs)) = length iv" for xs
      by (intro length_foldl_tr) (auto dest: chunks_sizes)
    then show ?thesis using dsize by (simp add: md_digest_def length_store_words)
  qed
  have short: "length data < 2 ^ LENGTH('w)" if "length data < 512" for data :: "byte list"
  proof -
    have "(2 :: nat) ^ 9 \<le> 2 ^ LENGTH('w)" using assms(4) by (intro power_increasing) simp_all
    then show ?thesis using that by simp
  qed
  have st: "streaming_hash (ht_reset (PLUGIN_STRUCTURE host tr BlkSize E iv dsize))
      (ht_update (PLUGIN_STRUCTURE host tr BlkSize E iv dsize))
      (\<lambda>s. fst (ht_final (PLUGIN_STRUCTURE host tr BlkSize E iv dsize) dsize s)) (\<lambda>st. length (m_buf st) = BlkSize)
      (\<lambda>data. length data < 2 ^ LENGTH('w)) (absorbed tr BlkSize iv) (md_digest tr BlkSize E iv dsize)"
    using streaming_hash_axioms by (simp add: PLUGIN_STRUCTURE_def)
  have final: "length (m_buf (hash_Pad host tr BlkSize E s)) = BlkSize" if "absorbed tr BlkSize iv msg s" for msg s
    using length_buf_Pad[OF that block(2) word] .
  have ready: "length (m_buf s) = BlkSize" if "absorbed tr BlkSize iv msg s" for msg s
    using that by (simp add: absorbed_def absorbed_buf_def)
  show ?thesis
    by (intro plugin_hash.intro plugin_hash_axioms.intro st)
      (simp_all add: PLUGIN_STRUCTURE_def hash_GetDigest_def Let_def final ready digest short assms)
qed

end


interpretation md5_plugin: plugin_hash "PLUGIN_STRUCTURE host MD5_Transform 64 Little MD5_iv 16" 16
    "\<lambda>st. length (m_buf st) = 64" "\<lambda>data. length data < 2 ^ 32" "absorbed MD5_Transform 64 MD5_iv"
    "md_digest MD5_Transform 64 Little MD5_iv 16" 64 for host
  using md_hash.plugin_hash_template[OF md5.md_hash_axioms, of host] by simp

interpretation sha_plugin: plugin_hash "PLUGIN_STRUCTURE host (SHA_Transform R) 64 Big SHA_iv 20" 20
    "\<lambda>st. length (m_buf st) = 64" "\<lambda>data. length data < 2 ^ 32" "absorbed (SHA_Transform R) 64 SHA_iv"
    "md_digest (SHA_Transform R) 64 Big SHA_iv 20" 64 for host R
  using md_hash.plugin_hash_template[OF sha.md_hash_axioms, of host] by simp

interpretation rmd160_plugin: plugin_hash "PLUGIN_STRUCTURE host RIPEMD160_Transform 64 Little RIPEMD160_iv 20" 20
    "\<lambda>st. length (m_buf st) = 64" "\<lambda>data. length data < 2 ^ 32" "absorbed RIPEMD160_Transform 64 RIPEMD160_iv"
    "md_digest RIPEMD160_Transform 64 Little RIPEMD160_iv 20" 64 for host
  using md_hash.plugin_hash_template[OF rmd160.md_hash_axioms, of host] by simp

interpretation sha256_plugin: plugin_hash "PLUGIN_STRUCTURE host SHA256_Transform 64 Big SHA256_iv 32" 32
    "\<lambda>st. length (m_buf st) = 64" "\<lambda>data. length data < 2 ^ 32" "absorbed SHA256_Transform 64 SHA256_iv"
    "md_digest SHA256_Transform 64 Big SHA256_iv 32" 64 for host
  using md_hash.plugin_hash_template[OF sha256.md_hash_axioms, of host] by simp

interpretation sha512_plugin: plugin_hash "PLUGIN_STRUCTURE host SHA512_Transform 128 Big SHA512_iv 64" 64
    "\<lambda>st. length (m_buf st) = 128" "\<lambda>data. length data < 2 ^ 64" "absorbed SHA512_Transform 128 SHA512_iv"
    "md_digest SHA512_Transform 128 Big SHA512_iv 64" 128 for host
  using md_hash.plugin_hash_template[OF sha512.md_hash_axioms, of host] by simp

end
