(* ===== verification/HMAC.thy ===== *)
theory HMAC
  imports Hash_Plugin
begin

text \<open>
  \<^verbatim>\<open>impl/mac/hmac/hmac.c\<close>: HMAC over the function table of any hash, and \<^verbatim>\<open>HMAC-KDF\<close>, the
  same code behind the interface of a key derivation function. The state of a hash context is a
  parameter. Shown: keying, any sequence of updates and \<^verbatim>\<open>final\<close> give the HMAC of RFC 2104; what
  \<^verbatim>\<open>final\<close> and \<^verbatim>\<open>reset\<close> leave behind.
\<close>

section \<open>The context\<close>

record 's hmac =
  hm_outside :: 's
  hm_inside :: 's
  hm_keybuf :: "byte list"
  hm_keybufsz :: nat
  hm_blksz :: nat
  hm_digestsz :: nat
  hm_taglen :: nat

definition BUFFER_SIZE :: nat where
  "BUFFER_SIZE = 256"

text \<open>An \<^verbatim>\<open>int\<close> stored in a \<^verbatim>\<open>size_t\<close>.\<close>

definition size_of_int :: "int \<Rightarrow> nat" where
  "size_of_int x = nat (x mod 2 ^ 64)"

text \<open>
  \<open>algo\<close> is the parameter \<^verbatim>\<open>digest\<close>, the state of its context; \<open>tag\<close> the parameter
  \<^verbatim>\<open>tagLength\<close>, 0 when there is none; \<open>mem\<close> says whether the allocation succeeds.
\<close>

definition hmac_init :: "'s hash_table \<Rightarrow> bool \<Rightarrow> 's option \<Rightarrow> nat \<Rightarrow> int \<times> 's hmac option" where
  "hmac_init ht mem algo tag =
     (case algo of None \<Rightarrow> (- DREW_ERR_INVALID, None)
      | Some s \<Rightarrow>
        if \<not> mem then (- ENOMEM, None)
        else
          let blksz = size_of_int (ht_info_blksize ht);
              digestsz = size_of_int (ht_info_size ht);
              p = \<lparr>hm_outside = ht_reset ht s, hm_inside = ht_reset ht s, hm_keybuf = replicate BUFFER_SIZE 0,
                   hm_keybufsz = 0, hm_blksz = blksz, hm_digestsz = digestsz,
                   hm_taglen = if tag \<noteq> 0 then tag else digestsz\<rparr>
          in if BUFFER_SIZE < blksz \<or> BUFFER_SIZE < digestsz then (- DREW_ERR_INVALID, None)
             else (0, Some p))"

text \<open>\<open>None\<close> is the pointer to the context's own \<^verbatim>\<open>keybuf\<close>, which \<^verbatim>\<open>reset\<close> passes.\<close>

definition hmac_setkey :: "'s hash_table \<Rightarrow> byte list option \<Rightarrow> nat \<Rightarrow> 's hmac \<Rightarrow> int \<times> 's hmac" where
  "hmac_setkey ht src len ctx =
     (let data = (case src of None \<Rightarrow> hm_keybuf ctx | Some data \<Rightarrow> data);
          (ctx, len) =
            (if hm_blksz ctx < len
             then let keyhash = ht_update ht (take len data) (ht_reset ht (hm_inside ctx));
                      (d, _) = ht_final ht (hm_digestsz ctx) keyhash
                  in (ctx\<lparr>hm_keybuf := put_bytes 0 d (hm_keybuf ctx), hm_keybufsz := hm_digestsz ctx\<rparr>,
                      hm_digestsz ctx)
             else if src \<noteq> None
             then (ctx\<lparr>hm_keybuf := put_bytes 0 (take len data) (hm_keybuf ctx), hm_keybufsz := len\<rparr>, len)
             else (ctx, len));
          k = hm_keybuf ctx;
          m = (if len < hm_blksz ctx then len else hm_blksz ctx);
          outpad = map (\<lambda>b. 0x5c XOR b) (take m k) @ replicate (hm_blksz ctx - m) 0x5c;
          inpad = map (\<lambda>b. 0x36 XOR b) (take m k) @ replicate (hm_blksz ctx - m) 0x36;
          ctx = ctx\<lparr>hm_outside := ht_reset ht (hm_outside ctx), hm_inside := ht_reset ht (hm_inside ctx)\<rparr>;
          ctx = ctx\<lparr>hm_outside := ht_update ht outpad (hm_outside ctx),
                    hm_inside := ht_update ht inpad (hm_inside ctx)\<rparr>
      in (0, ctx))"

definition hmac_reset :: "'s hash_table \<Rightarrow> 's hmac \<Rightarrow> int \<times> 's hmac" where
  "hmac_reset ht c =
     (let c = c\<lparr>hm_outside := ht_reset ht (hm_outside c)\<rparr>;
          c = c\<lparr>hm_inside := ht_reset ht (hm_inside c)\<rparr>
      in if hm_keybufsz c \<noteq> 0 then hmac_setkey ht None (hm_keybufsz c) c else (0, c))"

definition hmac_update :: "'s hash_table \<Rightarrow> byte list \<Rightarrow> 's hmac \<Rightarrow> 's hmac" where
  "hmac_update ht data c = c\<lparr>hm_inside := ht_update ht data (hm_inside c)\<rparr>"

text \<open>
  The tag is copied from a local buffer of which only \<^verbatim>\<open>digestsz\<close> bytes are written; \<open>None\<close>
  is a longer tag.
\<close>

definition hmac_final :: "'s hash_table \<Rightarrow> 's hmac \<Rightarrow> byte list option \<times> 's hmac" where
  "hmac_final ht c =
     (let (buf, inside) = ht_final ht (hm_digestsz c) (hm_inside c);
          outside = ht_update ht buf (hm_outside c);
          (buf, outside) = ht_final ht (hm_digestsz c) outside;
          c = c\<lparr>hm_inside := ht_reset ht inside, hm_outside := ht_reset ht outside\<rparr>
      in (if hm_digestsz c < hm_taglen c then None else Some (take (hm_taglen c) buf), c))"

section \<open>The key derivation interface\<close>

definition hmack_info_size :: "'s hash_table \<Rightarrow> int" where
  "hmack_info_size ht = ht_info_size ht"

definition hmack_info_blksize :: "'s hash_table \<Rightarrow> int" where
  "hmack_info_blksize ht = ht_info_blksize ht"

definition hmack_setkey :: "'s hash_table \<Rightarrow> byte list \<Rightarrow> 's hmac \<Rightarrow> int \<times> 's hmac" where
  "hmack_setkey ht key c = hmac_setkey ht (Some key) (length key) c"

definition hmack_reset :: "'s hash_table \<Rightarrow> 's hmac \<Rightarrow> int \<times> 's hmac" where
  "hmack_reset ht c = hmac_reset ht c"

text \<open>
  The error code, and what is in the output. In the first case \<^verbatim>\<open>final\<close> writes \<^verbatim>\<open>taglen\<close>
  bytes to the output, whatever its length; in the second they go to a local buffer.
\<close>

definition hmack_generate ::
    "'s hash_table \<Rightarrow> nat \<Rightarrow> byte list \<Rightarrow> 's hmac \<Rightarrow> int \<times> byte list option \<times> 's hmac" where
  "hmack_generate ht outlen inp c =
     (if hm_digestsz c < outlen then (- DREW_ERR_INVALID, None, c)
      else let c = hmac_update ht inp c
           in if outlen = hm_digestsz c then let (d, c) = hmac_final ht c in (0, d, c)
              else let (d, c) = hmac_final ht c in (0, if hm_taglen c < outlen then None else map_option (take outlen) d, c))"

text \<open>The length of the tag never changes.\<close>

lemma hmac_setkey_taglen: "hm_taglen (snd (hmac_setkey ht src len c)) = hm_taglen c"
  by (simp add: hmac_setkey_def Let_def split_beta)

lemma hmac_updates_taglen: "hm_taglen (fold (hmac_update ht) ps c) = hm_taglen c"
  by (induction ps arbitrary: c) (simp_all add: hmac_update_def)

lemma hmac_reset_taglen: "hm_taglen (snd (hmac_reset ht c)) = hm_taglen c"
  by (simp add: hmac_reset_def Let_def hmac_setkey_taglen)

section \<open>The algorithm\<close>

definition hmac_key :: "(byte list \<Rightarrow> byte list) \<Rightarrow> nat \<Rightarrow> byte list \<Rightarrow> byte list" where
  "hmac_key H B K = (let K0 = (if B < length K then H K else K) in K0 @ replicate (B - length K0) 0)"

definition HMAC :: "(byte list \<Rightarrow> byte list) \<Rightarrow> nat \<Rightarrow> byte list \<Rightarrow> byte list \<Rightarrow> byte list" where
  "HMAC H B K text =
     (let K0 = hmac_key H B K
      in H (map (\<lambda>b. 0x5c XOR b) K0 @ H (map (\<lambda>b. 0x36 XOR b) K0 @ text)))"

context plugin_hash
begin

text \<open>A context after \<^verbatim>\<open>init\<close>, one keyed that has been given a message, and one whose hash contexts have just been reset.\<close>

definition hm_alloc :: "'s hmac \<Rightarrow> bool" where
  "hm_alloc c \<longleftrightarrow> hm_blksz c = BlkSize \<and> hm_digestsz c = dsize \<and> length (hm_keybuf c) = BUFFER_SIZE \<and>
     ready (hm_inside c) \<and> ready (hm_outside c)"

definition hm_holds :: "byte list \<Rightarrow> 's hmac \<Rightarrow> bool" where
  "hm_holds key c \<longleftrightarrow> (let K0 = (if BlkSize < length key then digest key else key) in
     hm_keybufsz c = length K0 \<and> take (length K0) (hm_keybuf c) = K0)"

definition hm_keyed :: "byte list \<Rightarrow> byte list \<Rightarrow> 's hmac \<Rightarrow> bool" where
  "hm_keyed key msg c \<longleftrightarrow> hm_alloc c \<and> hm_holds key c \<and>
     absorbs (map (\<lambda>b. 0x36 XOR b) (hmac_key digest BlkSize key) @ msg) (hm_inside c) \<and>
     absorbs (map (\<lambda>b. 0x5c XOR b) (hmac_key digest BlkSize key)) (hm_outside c)"

definition hm_blank :: "byte list \<Rightarrow> 's hmac \<Rightarrow> bool" where
  "hm_blank msg c \<longleftrightarrow> hm_alloc c \<and> absorbs msg (hm_inside c) \<and> absorbs [] (hm_outside c)"

lemma hmac_init_alloc:
  assumes "ready s"
  obtains c where "hmac_init ht True (Some s) tag = (0, Some c)" "hm_alloc c" "hm_keybufsz c = 0"
    "hm_taglen c = (if tag = 0 then dsize else tag)"
proof -
  have "size_of_int (int BlkSize) = BlkSize" "size_of_int (int dsize) = dsize"
    using sizes by (simp_all add: size_of_int_def nat_mod_as_int zmod_int[symmetric])
  then show thesis
    using assms sizes absorbs_ready[OF absorbs_Reset[OF assms]]
    by (intro that) (auto simp: hmac_init_def Let_def info_size info_blksize BUFFER_SIZE_def hm_alloc_def)
qed

text \<open>The pads: the key, or its digest, combined with a constant and filled up with it.\<close>

lemma pad_hmac_key:
  assumes "K0 = (if BlkSize < length key then digest key else key)"
  shows "map (\<lambda>b. x XOR b) K0 @ replicate (BlkSize - length K0) x = map (\<lambda>b. x XOR b) (hmac_key digest BlkSize key)"
    and "length K0 \<le> BlkSize"
    and "length (hmac_key digest BlkSize key) = BlkSize"
  using assms sizes length_digest by (auto simp: hmac_key_def Let_def)

lemma fits_pad: "fits (map (\<lambda>b. x XOR b) (hmac_key digest BlkSize key))"
  using pad_hmac_key(3)[OF refl] sizes by (intro fits_short) simp

text \<open>\<^verbatim>\<open>setkey\<close> from where the key is in \<^verbatim>\<open>keybuf\<close>.\<close>

lemma hmac_setkey_own:
  assumes "hm_alloc c" "hm_holds key c"
  shows "hm_keyed key [] (snd (hmac_setkey ht None (hm_keybufsz c) c))" "fst (hmac_setkey ht None (hm_keybufsz c) c) = 0"
proof -
  define K0 where "K0 = (if BlkSize < length key then digest key else key)"
  have K0: "hm_keybufsz c = length K0" "take (length K0) (hm_keybuf c) = K0"
    using assms(2) by (simp_all add: hm_holds_def K0_def Let_def)
  have c: "hm_blksz c = BlkSize" "ready (hm_inside c)" "ready (hm_outside c)" using assms(1) by (simp_all add: hm_alloc_def)
  have le: "length K0 \<le> BlkSize" by (rule pad_hmac_key(2)[OF K0_def])
  have full: "take BlkSize (hm_keybuf c) = K0" if "length K0 = BlkSize" using K0(2) that by simp
  let ?pad = "\<lambda>x. map (\<lambda>b. x XOR b) (hmac_key digest BlkSize key)"
  have eq: "hmac_setkey ht None (hm_keybufsz c) c = (0, c\<lparr>
      hm_outside := ht_update ht (?pad 0x5c) (ht_reset ht (hm_outside c)),
      hm_inside := ht_update ht (?pad 0x36) (ht_reset ht (hm_inside c))\<rparr>)"
    using le full by (simp add: hmac_setkey_def Let_def K0 c pad_hmac_key(1)[OF K0_def, symmetric])
  have "absorbs (?pad x) (ht_update ht (?pad x) (ht_reset ht s))" if "ready s" for x s
    using absorbs_Update[OF absorbs_Reset[OF that] fits_pad] by simp
  then show "hm_keyed key [] (snd (hmac_setkey ht None (hm_keybufsz c) c))"
    using assms c absorbs_ready unfolding eq by (auto simp: hm_keyed_def hm_alloc_def hm_holds_def)
  show "fst (hmac_setkey ht None (hm_keybufsz c) c) = 0" unfolding eq by simp
qed

text \<open>A key given from outside is stored first.\<close>

lemma hmac_setkey_keyed:
  assumes "hm_alloc c" "fits key"
  shows "hm_keyed key [] (snd (hmac_setkey ht (Some key) (length key) c))"
proof -
  define K0 where "K0 = (if BlkSize < length key then digest key else key)"
  have le: "length K0 \<le> BlkSize" by (rule pad_hmac_key(2)[OF K0_def])
  let ?c = "c\<lparr>hm_keybuf := put_bytes 0 K0 (hm_keybuf c), hm_keybufsz := length K0\<rparr>"
  have c: "hm_blksz c = BlkSize" "hm_digestsz c = dsize" "ready (hm_inside c)" "length (hm_keybuf c) = BUFFER_SIZE"
    using assms(1) by (simp_all add: hm_alloc_def)
  have len: "length K0 \<le> BUFFER_SIZE" using le sizes by (simp add: BUFFER_SIZE_def)
  have holds: "hm_holds key ?c" using c len by (simp add: hm_holds_def K0_def[symmetric] put_bytes_def)
  have alloc: "hm_alloc ?c" using assms(1) c len by (simp add: hm_alloc_def)
  have "hmac_setkey ht (Some key) (length key) c = hmac_setkey ht None (hm_keybufsz ?c) ?c"
  proof (cases "BlkSize < length key")
    case True
    have "fst (ht_final ht dsize (ht_update ht key (ht_reset ht (hm_inside c)))) = digest key"
      using Final_digest[OF absorbs_Update[OF absorbs_Reset[OF c(3)] assms(2)]] by simp
    then show ?thesis
      using True c le by (simp add: hmac_setkey_def K0_def length_digest split_beta Let_def)
  next
    case False
    then show ?thesis using c by (simp add: hmac_setkey_def K0_def Let_def)
  qed
  then show ?thesis using hmac_setkey_own(1)[OF alloc holds] by simp
qed

lemma ready_update: "absorbs msg s \<Longrightarrow> fits data \<Longrightarrow> ready (ht_update ht data s)"
  using absorbs_ready[OF absorbs_Update] .

lemma hmac_update_keyed:
  "hm_keyed key msg c \<Longrightarrow> fits data \<Longrightarrow> hm_keyed key (msg @ data) (hmac_update ht data c)"
  using absorbs_Update[of "map (\<lambda>b. 0x36 XOR b) (hmac_key digest BlkSize key) @ msg" "hm_inside c" data]
    ready_update[of "map (\<lambda>b. 0x36 XOR b) (hmac_key digest BlkSize key) @ msg" "hm_inside c" data]
  by (simp add: hm_keyed_def hmac_update_def hm_alloc_def hm_holds_def)

lemma hmac_updates_keyed:
  "hm_keyed key msg c \<Longrightarrow> \<forall>p\<in>set ps. fits p \<Longrightarrow> hm_keyed key (msg @ concat ps) (fold (hmac_update ht) ps c)"
proof (induction ps arbitrary: msg c)
  case (Cons p ps)
  then show ?case using Cons.IH[OF hmac_update_keyed[OF Cons.prems(1), of p]] by simp
qed simp

text \<open>\<^verbatim>\<open>final\<close> on any two contexts: the digest of the second with the digest of the first appended.\<close>

lemma hmac_final_digests:
  assumes "hm_alloc c" "absorbs m1 (hm_inside c)" "absorbs m2 (hm_outside c)"
  shows "fst (hmac_final ht c) = (if hm_taglen c \<le> dsize then Some (take (hm_taglen c) (digest (m2 @ digest m1))) else None)"
    and "hm_blank [] (snd (hmac_final ht c))"
    and "hm_holds key c \<Longrightarrow> hm_holds key (snd (hmac_final ht c))"
    and "hm_taglen (snd (hmac_final ht c)) = hm_taglen c"
    and "hm_keybufsz (snd (hmac_final ht c)) = hm_keybufsz c"
proof -
  have c: "hm_digestsz c = dsize" using assms(1) by (simp add: hm_alloc_def)
  obtain i where i: "ht_final ht dsize (hm_inside c) = (digest m1, i)"
    using Final_digest[OF assms(2)] by (cases "ht_final ht dsize (hm_inside c)") simp
  have "fits (digest m1)" using sizes by (intro fits_short) (simp add: length_digest)
  then have abs: "absorbs (m2 @ digest m1) (ht_update ht (digest m1) (hm_outside c))"
    by (rule absorbs_Update[OF assms(3)])
  obtain u where u: "ht_final ht dsize (ht_update ht (digest m1) (hm_outside c)) = (digest (m2 @ digest m1), u)"
    using Final_digest[OF abs] by (cases "ht_final ht dsize (ht_update ht (digest m1) (hm_outside c))") simp
  have ready: "ready i" "ready u" using Final_ready[OF assms(2)] Final_ready[OF abs] i u by simp_all
  show "fst (hmac_final ht c) = (if hm_taglen c \<le> dsize then Some (take (hm_taglen c) (digest (m2 @ digest m1))) else None)"
    by (simp add: hmac_final_def c i u Let_def)
  show "hm_blank [] (snd (hmac_final ht c))"
    using assms(1) absorbs_Reset[OF ready(1)] absorbs_Reset[OF ready(2)] absorbs_ready
    by (auto simp: hmac_final_def c i u hm_blank_def hm_alloc_def Let_def)
  show "hm_holds key c \<Longrightarrow> hm_holds key (snd (hmac_final ht c))"
    "hm_taglen (snd (hmac_final ht c)) = hm_taglen c" "hm_keybufsz (snd (hmac_final ht c)) = hm_keybufsz c"
    by (simp_all add: hmac_final_def c i u hm_holds_def Let_def)
qed

lemma hmac_final_keyed:
  assumes "hm_keyed key msg c"
  shows "fst (hmac_final ht c) = (if hm_taglen c \<le> dsize then Some (take (hm_taglen c) (HMAC digest BlkSize key msg)) else None)"
  using hmac_final_digests(1)[of c "map (\<lambda>b. 0x36 XOR b) (hmac_key digest BlkSize key) @ msg"
      "map (\<lambda>b. 0x5c XOR b) (hmac_key digest BlkSize key)"] assms
  by (simp add: hm_keyed_def HMAC_def Let_def)

text \<open>A context without its key gives the digest of the digest of the message.\<close>

lemma hmac_final_blank:
  assumes "hm_blank msg c"
  shows "fst (hmac_final ht c) = (if hm_taglen c \<le> dsize then Some (take (hm_taglen c) (digest (digest msg))) else None)"
  using hmac_final_digests(1)[of c msg "[]"] assms by (simp add: hm_blank_def)

lemma hmac_update_blank:
  "hm_blank msg c \<Longrightarrow> fits data \<Longrightarrow> hm_blank (msg @ data) (hmac_update ht data c)"
  using absorbs_Update[of msg "hm_inside c" data] ready_update[of msg "hm_inside c" data]
  by (simp add: hm_blank_def hmac_update_def hm_alloc_def)

text \<open>\<^verbatim>\<open>reset\<close> keys the context again, unless the key was empty.\<close>

lemma hmac_reset_keyed:
  assumes "hm_alloc c" "hm_holds key c" "key \<noteq> []"
  shows "hm_keyed key [] (snd (hmac_reset ht c))" "fst (hmac_reset ht c) = 0"
    "hm_taglen (snd (hmac_reset ht c)) = hm_taglen c"
proof -
  let ?c = "c\<lparr>hm_outside := ht_reset ht (hm_outside c), hm_inside := ht_reset ht (hm_inside c)\<rparr>"
  have "ready (ht_reset ht s)" if "ready s" for s using absorbs_ready[OF absorbs_Reset[OF that]] .
  then have c: "hm_alloc ?c" "hm_holds key ?c" using assms by (simp_all add: hm_alloc_def hm_holds_def)
  have "hm_keybufsz c \<noteq> 0"
    using assms(2,3) length_digest[of key] sizes by (auto simp: hm_holds_def Let_def split: if_splits)
  then have eq: "hmac_reset ht c = hmac_setkey ht None (hm_keybufsz ?c) ?c"
    by (simp add: hmac_reset_def Let_def)
  show "hm_keyed key [] (snd (hmac_reset ht c))" "fst (hmac_reset ht c) = 0"
    unfolding eq by (rule hmac_setkey_own[OF c])+
  show "hm_taglen (snd (hmac_reset ht c)) = hm_taglen c"
    unfolding eq by (simp add: hmac_setkey_def Let_def split_beta)
qed

lemma hmac_reset_blank:
  assumes "hm_alloc c" "hm_keybufsz c = 0"
  shows "hm_blank [] (snd (hmac_reset ht c))" "fst (hmac_reset ht c) = 0"
  using assms absorbs_Reset absorbs_ready by (auto simp: hmac_reset_def Let_def hm_blank_def hm_alloc_def)

text \<open>The life of a context: made, keyed, given a message, used again.\<close>

lemma hmac_run:
  assumes "ready s" "fits key" "\<forall>p\<in>set ps. fits p" "tag \<le> dsize"
  shows "\<exists>c. hmac_init ht True (Some s) tag = (0, Some c) \<and>
     fst (hmac_final ht (fold (hmac_update ht) ps (snd (hmac_setkey ht (Some key) (length key) c))))
       = Some (take (if tag = 0 then dsize else tag) (HMAC digest BlkSize key (concat ps)))"
proof -
  obtain c where c: "hmac_init ht True (Some s) tag = (0, Some c)" "hm_alloc c"
    and t: "hm_taglen c = (if tag = 0 then dsize else tag)"
    by (rule hmac_init_alloc[OF assms(1)])
  have "hm_keyed key (concat ps) (fold (hmac_update ht) ps (snd (hmac_setkey ht (Some key) (length key) c)))"
    using hmac_updates_keyed[OF hmac_setkey_keyed[OF c(2) assms(2)] assms(3)] by simp
  then show ?thesis
    using hmac_final_keyed c(1) t assms(4) by (simp add: hmac_updates_taglen hmac_setkey_taglen)
qed

lemma hmac_updates_blank:
  "hm_blank msg c \<Longrightarrow> \<forall>p\<in>set ps. fits p \<Longrightarrow> hm_blank (msg @ concat ps) (fold (hmac_update ht) ps c)"
proof (induction ps arbitrary: msg c)
  case (Cons p ps)
  then show ?case using Cons.IH[OF hmac_update_blank[OF Cons.prems(1), of p]] by simp
qed simp

lemma hmac_reuse:
  assumes "hm_keyed key msg c" "hm_taglen c \<le> dsize" "\<forall>p\<in>set qs. fits p"
  defines "d \<equiv> snd (hmac_final ht c)"
  shows "fst (hmac_final ht (fold (hmac_update ht) qs (snd (hmac_reset ht d)))) = Some (take (hm_taglen c)
      (if key = [] then digest (digest (concat qs)) else HMAC digest BlkSize key (concat qs)))"
    and "fst (hmac_final ht (fold (hmac_update ht) qs d)) = Some (take (hm_taglen c) (digest (digest (concat qs))))"
proof -
  have k: "hm_alloc c" "hm_holds key c" using assms(1) by (simp_all add: hm_keyed_def)
  obtain m1 m2 where m: "absorbs m1 (hm_inside c)" "absorbs m2 (hm_outside c)"
    using assms(1) by (auto simp: hm_keyed_def)
  note final = hmac_final_digests[OF k(1) m]
  have d: "hm_blank [] d" "hm_holds key d" "hm_taglen d = hm_taglen c" "hm_alloc d"
    using final(2,4) final(3)[OF k(2)] by (simp_all add: d_def hm_blank_def)
  show "fst (hmac_final ht (fold (hmac_update ht) qs d)) = Some (take (hm_taglen c) (digest (digest (concat qs))))"
    using hmac_final_blank[OF hmac_updates_blank[OF d(1) assms(3)]] d(3) assms(2) by (simp add: hmac_updates_taglen)
  show "fst (hmac_final ht (fold (hmac_update ht) qs (snd (hmac_reset ht d)))) = Some (take (hm_taglen c)
      (if key = [] then digest (digest (concat qs)) else HMAC digest BlkSize key (concat qs)))"
  proof (cases "key = []")
    case True
    then have "hm_keybufsz d = 0" using d(2) by (simp add: hm_holds_def)
    from hmac_final_blank[OF hmac_updates_blank[OF hmac_reset_blank(1)[OF d(4) this] assms(3)]]
    show ?thesis using d(3) assms(2) True by (simp add: hmac_updates_taglen hmac_reset_taglen)
  next
    case False
    from hmac_final_keyed[OF hmac_updates_keyed[OF hmac_reset_keyed(1)[OF d(4,2) this] assms(3)]]
    show ?thesis using d(3) assms(2) False by (simp add: hmac_updates_taglen hmac_reset_taglen)
  qed
qed

text \<open>The same, from the initialisation on.\<close>

lemma hmac_run_again:
  assumes "ready s" "fits key" "\<forall>p\<in>set ps. fits p" "\<forall>p\<in>set qs. fits p"
    and "hmac_init ht True (Some s) 0 = (0, Some c)"
  defines "d \<equiv> snd (hmac_final ht (fold (hmac_update ht) ps (snd (hmac_setkey ht (Some key) (length key) c))))"
  shows "fst (hmac_final ht (fold (hmac_update ht) qs (snd (hmac_reset ht d)))) =
      Some (if key = [] then digest (digest (concat qs)) else HMAC digest BlkSize key (concat qs))"
    and "fst (hmac_final ht (fold (hmac_update ht) qs d)) = Some (digest (digest (concat qs)))"
proof -
  have c: "hm_alloc c" "hm_taglen c = dsize" using hmac_init_alloc[OF assms(1), of 0] assms(5) by auto
  let ?k = "fold (hmac_update ht) ps (snd (hmac_setkey ht (Some key) (length key) c))"
  have k: "hm_keyed key (concat ps) ?k" "hm_taglen ?k = dsize"
    using hmac_updates_keyed[OF hmac_setkey_keyed[OF c(1) assms(2)] assms(3)] c(2)
    by (simp_all add: hmac_updates_taglen hmac_setkey_taglen)
  have len: "length (HMAC digest BlkSize key m) = dsize" for m by (simp add: HMAC_def Let_def length_digest)
  show "fst (hmac_final ht (fold (hmac_update ht) qs (snd (hmac_reset ht d)))) =
      Some (if key = [] then digest (digest (concat qs)) else HMAC digest BlkSize key (concat qs))"
    using hmac_reuse(1)[OF k(1) _ assms(4)] k(2) by (simp add: d_def length_digest len)
  show "fst (hmac_final ht (fold (hmac_update ht) qs d)) = Some (digest (digest (concat qs)))"
    using hmac_reuse(2)[OF k(1) _ assms(4)] k(2) by (simp add: d_def length_digest)
qed

end

end
