(* ===== verification/KDF.thy ===== *)
theory KDF
  imports HMAC
begin

text \<open>
  \<^verbatim>\<open>impl/kdf/pbkdf/pbkdf2.c\<close> and \<^verbatim>\<open>impl/kdf/tls/tls-prf.c\<close>: key derivation over any
  pseudorandom function behind the interface \<^verbatim>\<open>drew_kdf_functbl_t\<close>. The locale
  \<open>kdf_prf\<close> is what both expect of that function: after it has been keyed or reset,
  \<^verbatim>\<open>generate\<close> gives the function's value, and afterwards it has to be reset. It is interpreted on
  HMAC. Allocations are taken to succeed, as the code does not look at their result.
\<close>

record 's kdf_table =
  kt_info_size :: "'s \<Rightarrow> int"
  kt_reset :: "'s \<Rightarrow> int \<times> 's"
  kt_setkey :: "byte list \<Rightarrow> 's \<Rightarrow> int \<times> 's"
  kt_generate :: "nat \<Rightarrow> byte list \<Rightarrow> 's \<Rightarrow> int \<times> byte list option \<times> 's"

definition hmack_functbl :: "'s hash_table \<Rightarrow> 's hmac kdf_table" where
  "hmack_functbl ht = \<lparr>kt_info_size = (\<lambda>_. hmack_info_size ht), kt_reset = hmack_reset ht,
     kt_setkey = hmack_setkey ht, kt_generate = hmack_generate ht\<rparr>"

section \<open>PBKDF2\<close>

record 's pbkdf =
  pb_prf :: 's
  pb_salt :: "byte list"
  pb_saltsz :: byte
  pb_count :: nat
  pb_prfsz :: nat

definition pbkdf_init :: "'s kdf_table \<Rightarrow> bool \<Rightarrow> 's option \<Rightarrow> int \<times> 's pbkdf option" where
  "pbkdf_init kt mem algo =
     (case algo of None \<Rightarrow> (- DREW_ERR_INVALID, None)
      | Some s \<Rightarrow>
        if \<not> mem then (- ENOMEM, None)
        else
          let prf = snd (kt_reset kt s);
              res = kt_info_size kt prf
          in if res < 0 then (res, None)
             else if BUFFER_SIZE < size_of_int res then (- DREW_ERR_NOT_IMPL, None)
             else (0, Some \<lparr>pb_prf = prf, pb_salt = [], pb_saltsz = 0, pb_count = 0, pb_prfsz = size_of_int res\<rparr>))"

definition pbkdf_reset :: "'s kdf_table \<Rightarrow> 's pbkdf \<Rightarrow> int \<times> 's pbkdf" where
  "pbkdf_reset kt c = (let (res, prf) = kt_reset kt (pb_prf c) in (res, c\<lparr>pb_prf := prf\<rparr>))"

definition pbkdf_setkey :: "byte list \<Rightarrow> 's pbkdf \<Rightarrow> int" where
  "pbkdf_setkey key c = - DREW_ERR_NOT_ALLOWED"

text \<open>The size is kept in a \<^verbatim>\<open>uint8_t\<close>.\<close>

definition pbkdf_setsalt :: "byte list \<Rightarrow> 's pbkdf \<Rightarrow> int \<times> 's pbkdf" where
  "pbkdf_setsalt salt c = (0, c\<lparr>pb_salt := salt, pb_saltsz := of_nat (length salt)\<rparr>)"

definition pbkdf_setcount :: "nat \<Rightarrow> 's pbkdf \<Rightarrow> int \<times> 's pbkdf" where
  "pbkdf_setcount count c = (0, c\<lparr>pb_count := count\<rparr>)"

definition store_uint32 :: "u32 \<Rightarrow> byte list" where
  "store_uint32 x = [ucast (drop_bit 24 x), ucast (drop_bit 16 x), ucast (drop_bit 8 x), ucast x]"

text \<open>One \<^verbatim>\<open>reset\<close> and \<^verbatim>\<open>generate\<close>; \<open>None\<close> when nothing, or too little, is written.\<close>

definition prf_call :: "'s kdf_table \<Rightarrow> nat \<Rightarrow> byte list \<Rightarrow> 's \<Rightarrow> (byte list \<times> 's) option" where
  "prf_call kt n inp prf =
     (let prf = snd (kt_reset kt prf);
          (_, out, prf) = kt_generate kt n inp prf
      in map_option (\<lambda>out. (out, prf)) out)"

text \<open>The inner loop, \<open>n\<close> turns to go: \<^verbatim>\<open>buf\<close> and the block at \<^verbatim>\<open>storep\<close>.\<close>

primrec pbkdf_rounds ::
    "'s kdf_table \<Rightarrow> nat \<Rightarrow> nat \<Rightarrow> byte list \<Rightarrow> byte list \<Rightarrow> 's \<Rightarrow> (byte list \<times> 's) option" where
  "pbkdf_rounds kt sz 0 buf acc prf = Some (acc, prf)"
| "pbkdf_rounds kt sz (Suc n) buf acc prf =
     (case prf_call kt sz buf prf of None \<Rightarrow> None
      | Some (buf, prf) \<Rightarrow> pbkdf_rounds kt sz n buf (xor_buffers2 acc buf sz) prf)"

definition pbkdf_block ::
    "'s kdf_table \<Rightarrow> nat \<Rightarrow> nat \<Rightarrow> byte list \<Rightarrow> nat \<Rightarrow> 's \<Rightarrow> (byte list \<times> 's) option" where
  "pbkdf_block kt sz count salt i prf =
     (case prf_call kt sz (salt @ store_uint32 (of_nat (i + 1))) prf of None \<Rightarrow> None
      | Some (t, prf) \<Rightarrow> pbkdf_rounds kt sz (count - 1) t t prf)"

text \<open>The outer loop from block \<open>i\<close>, \<open>n\<close> turns to go; the last block may go to \<^verbatim>\<open>extra\<close>.\<close>

primrec pbkdf_blocks ::
    "'s kdf_table \<Rightarrow> nat \<Rightarrow> nat \<Rightarrow> byte list \<Rightarrow> nat \<Rightarrow> nat \<Rightarrow> nat \<Rightarrow> nat \<Rightarrow>
       byte list \<Rightarrow> byte list \<Rightarrow> 's \<Rightarrow> (byte list \<times> byte list \<times> 's) option" where
  "pbkdf_blocks kt sz count salt L r i 0 out extra prf = Some (out, extra, prf)"
| "pbkdf_blocks kt sz count salt L r i (Suc n) out extra prf =
     (case pbkdf_block kt sz count salt i prf of None \<Rightarrow> None
      | Some (t, prf) \<Rightarrow>
        (if i = L - 1 \<and> r \<noteq> sz then pbkdf_blocks kt sz count salt L r (i + 1) n out t prf
         else pbkdf_blocks kt sz count salt L r (i + 1) n (put_bytes (i * sz) t out) extra prf))"

text \<open>\<open>out\<close> is the caller's array of \<^verbatim>\<open>outlen\<close> bytes.\<close>

definition pbkdf_generate ::
    "'s kdf_table \<Rightarrow> byte list \<Rightarrow> byte list \<Rightarrow> 's pbkdf \<Rightarrow> int \<times> (byte list \<times> 's pbkdf) option" where
  "pbkdf_generate kt out inp h =
     (let outlen = length out in
      if outlen = 0 \<or> pb_count h = 0 then (- DREW_ERR_INVALID, Some (out, h))
      else
        let sz = pb_prfsz h;
            L = (outlen + (sz - 1)) div sz;
            r = outlen - (L - 1) * sz;
            salt = take (unat (pb_saltsz h)) (pb_salt h);
            prf = snd (kt_reset kt (pb_prf h));
            prf = snd (kt_setkey kt inp prf)
        in case pbkdf_blocks kt sz (pb_count h) salt L r 0 L out [] prf of None \<Rightarrow> (0, None)
           | Some (out, extra, prf) \<Rightarrow>
             (0, Some (if r \<noteq> sz then put_bytes ((L - 1) * sz) (take r extra) out else out, h\<lparr>pb_prf := prf\<rparr>)))"

section \<open>TLS-PRF\<close>

record 's tls =
  tls_prf :: 's
  tls_prfsz :: nat

text \<open>
  \<open>digest\<close>: whether that parameter was given; \<open>prf\<close>: the context of the parameter \<^verbatim>\<open>prf\<close>.
  Without it the loader, if there is one, makes a context of HMAC-KDF: \<open>hk\<close> is what it returns.
\<close>

definition tls_init ::
    "'s kdf_table \<Rightarrow> bool \<Rightarrow> 's option \<Rightarrow> bool \<Rightarrow> (int \<times> 's) option \<Rightarrow> int \<times> 's tls option" where
  "tls_init kt digest prf mem hk =
     (if \<not> digest \<and> prf = None then (- DREW_ERR_MORE_INFO, None)
      else if \<not> mem then (- ENOMEM, None)
      else
        case (case prf of Some s \<Rightarrow> Inr s
              | None \<Rightarrow> (case hk of None \<Rightarrow> Inl (- DREW_ERR_MORE_INFO)
                         | Some (res, s) \<Rightarrow> if res < 0 then Inl res else Inr s)) of
          Inl res \<Rightarrow> (res, None)
        | Inr s \<Rightarrow>
          let s = snd (kt_reset kt s);
              res = kt_info_size kt s
          in if res < 0 then (res, None) else (0, Some \<lparr>tls_prf = s, tls_prfsz = size_of_int res\<rparr>))"

definition tls_reset :: "'s kdf_table \<Rightarrow> 's tls \<Rightarrow> int \<times> 's tls" where
  "tls_reset kt c = (let (res, prf) = kt_reset kt (tls_prf c) in (res, c\<lparr>tls_prf := prf\<rparr>))"

definition tls_setkey :: "'s kdf_table \<Rightarrow> byte list \<Rightarrow> 's tls \<Rightarrow> int \<times> 's tls" where
  "tls_setkey kt key c = (let (res, prf) = kt_setkey kt key (tls_prf c) in (res, c\<lparr>tls_prf := prf\<rparr>))"

definition tls_setsalt :: "byte list \<Rightarrow> 's tls \<Rightarrow> int" where
  "tls_setsalt salt c = - DREW_ERR_NOT_ALLOWED"

definition tls_setcount :: "nat \<Rightarrow> 's tls \<Rightarrow> int" where
  "tls_setcount count c = - DREW_ERR_NOT_ALLOWED"

primrec tls_blocks ::
    "'s kdf_table \<Rightarrow> nat \<Rightarrow> byte list \<Rightarrow> nat \<Rightarrow> nat \<Rightarrow> byte list \<Rightarrow> byte list \<Rightarrow> 's \<Rightarrow> 's \<Rightarrow> (byte list \<times> 's) option" where
  "tls_blocks kt sz inp off 0 ai out aprf prf = Some (out, prf)"
| "tls_blocks kt sz inp off (Suc n) ai out aprf prf =
     (let tmp = ai @ inp in
      case prf_call kt sz ai aprf of None \<Rightarrow> None
      | Some (ai, aprf) \<Rightarrow>
        (case prf_call kt sz tmp prf of None \<Rightarrow> None
         | Some (buf, prf) \<Rightarrow>
           tls_blocks kt sz inp (off + sz) n ai (put_bytes off (take (min sz (length out - off)) buf) out) aprf prf))"

text \<open>The first value is generated on a copy of the context as it is, without a reset.\<close>

definition tls_generate ::
    "'s kdf_table \<Rightarrow> byte list \<Rightarrow> byte list \<Rightarrow> 's tls \<Rightarrow> int \<times> (byte list \<times> 's tls) option" where
  "tls_generate kt out inp c =
     (let sz = tls_prfsz c;
          (_, ai, aprf) = kt_generate kt sz inp (tls_prf c)
      in case ai of None \<Rightarrow> (0, None)
         | Some ai \<Rightarrow>
           (0, map_option (\<lambda>(out, prf). (out, c\<lparr>tls_prf := prf\<rparr>))
                 (tls_blocks kt sz inp 0 ((length out + sz - 1) div sz) ai out aprf (tls_prf c))))"

section \<open>The algorithms\<close>

fun pbkdf2_U :: "(byte list \<Rightarrow> byte list) \<Rightarrow> byte list \<Rightarrow> nat \<Rightarrow> byte list" where
  "pbkdf2_U F s 0 = F s"
| "pbkdf2_U F s (Suc j) = F (pbkdf2_U F s j)"

text \<open>\<open>c\<close> values combined, \<open>c\<close> at least 1.\<close>

definition pbkdf2_T :: "(byte list \<Rightarrow> byte list) \<Rightarrow> nat \<Rightarrow> byte list \<Rightarrow> byte list" where
  "pbkdf2_T F c s = foldl xor_bytes (F s) (map (pbkdf2_U F s) [1..<c])"

definition pbkdf2 :: "(byte list \<Rightarrow> byte list) \<Rightarrow> nat \<Rightarrow> byte list \<Rightarrow> nat \<Rightarrow> nat \<Rightarrow> byte list" where
  "pbkdf2 F sz salt c n =
     take n (concat (map (\<lambda>i. pbkdf2_T F c (salt @ be_store (of_nat (i + 1) :: u32))) [0..<(n + (sz - 1)) div sz]))"

definition tls_P_hash :: "(byte list \<Rightarrow> byte list) \<Rightarrow> nat \<Rightarrow> byte list \<Rightarrow> nat \<Rightarrow> byte list" where
  "tls_P_hash F sz seed n =
     take n (concat (map (\<lambda>i. F ((F ^^ Suc i) seed @ seed)) [0..<(n + sz - 1) div sz]))"

section \<open>The contract of the pseudorandom function\<close>

text \<open>
  \<open>fresh k s\<close>: keyed with \<open>k\<close> and nothing given yet; \<open>spent k s\<close>: it still knows its key.
  A reset makes a spent context fresh only if the key is one \<open>reset\<close> can restore.
\<close>

locale kdf_prf =
  fixes kt :: "'s kdf_table" and sz :: nat and alloc :: "'s \<Rightarrow> bool" and okkey :: "byte list \<Rightarrow> bool"
    and fits :: "byte list \<Rightarrow> bool" and fresh spent :: "byte list \<Rightarrow> 's \<Rightarrow> bool"
    and F :: "byte list \<Rightarrow> byte list \<Rightarrow> byte list"
  assumes alloc_reset: "alloc s \<Longrightarrow> alloc (snd (kt_reset kt s))"
    and fresh_setkey: "alloc s \<Longrightarrow> okkey k \<Longrightarrow> fresh k (snd (kt_setkey kt k s))"
    and fresh_reset: "spent k s \<Longrightarrow> okkey k \<Longrightarrow> fresh k (snd (kt_reset kt s))"
    and fresh_spent: "fresh k s \<Longrightarrow> spent k s"
    and spent_alloc: "spent k s \<Longrightarrow> alloc s"
    and generate: "fresh k s \<Longrightarrow> fits inp \<Longrightarrow>
      \<exists>s'. kt_generate kt sz inp s = (0, Some (F k inp), s') \<and> spent k s'"
    and length_F: "length (F k inp) = sz"
    and fits_short: "length inp < 512 \<Longrightarrow> fits inp"
    and sz: "0 < sz" "sz \<le> 256"
begin

lemma prf_call_F:
  assumes "spent k s" "okkey k" "fits inp"
  obtains s' where "prf_call kt sz inp s = Some (F k inp, s')" "spent k s'"
  using generate[OF fresh_reset[OF assms(1,2)] assms(3)] by (auto simp: prf_call_def)

lemma fits_F: "fits (F k inp)"
  using sz by (intro fits_short) (simp add: length_F)

lemma pbkdf_rounds_F:
  assumes "spent k s" "okkey k" "length acc = sz" "buf = pbkdf2_U (F k) inp j"
  shows "\<exists>s'. pbkdf_rounds kt sz n buf acc s
    = Some (foldl xor_bytes acc (map (pbkdf2_U (F k) inp) [Suc j..<Suc j + n]), s') \<and> spent k s'"
  using assms(1,3,4)
proof (induction n arbitrary: s acc buf j)
  case (Suc n)
  have lenU: "length (pbkdf2_U (F k) inp i) = sz" for i by (cases i) (simp_all add: length_F)
  have fits: "fits buf" using lenU[of j] Suc.prems(3) sz by (intro fits_short) simp
  obtain s1 where s1: "prf_call kt sz buf s = Some (F k buf, s1)" "spent k s1"
    by (rule prf_call_F[OF Suc.prems(1) assms(2) fits])
  have acc: "xor_buffers2 acc (F k buf) sz = xor_bytes acc (F k buf)"
    using Suc.prems(2) by (intro xor_buffers2_block) (simp_all add: length_F)
  have "\<exists>s'. pbkdf_rounds kt sz n (F k buf) (xor_bytes acc (F k buf)) s1
      = Some (foldl xor_bytes (xor_bytes acc (F k buf)) (map (pbkdf2_U (F k) inp) [Suc (Suc j)..<Suc (Suc j) + n]), s') \<and>
      spent k s'"
    by (rule Suc.IH[OF s1(2)]) (use Suc.prems in \<open>simp_all add: length_F\<close>)
  moreover have "[Suc j..<Suc j + Suc n] = Suc j # [Suc (Suc j)..<Suc (Suc j) + n]"
    by (simp add: upt_conv_Cons)
  ultimately show ?case using s1(1) acc Suc.prems(3) by simp
qed simp

lemma store_uint32_be: "store_uint32 x = be_store x"
  by (simp add: store_uint32_def be_store_def le_store_def upt_rec)

lemma pbkdf_block_T:
  assumes "spent k s" "okkey k" "length salt < 256" "0 < count"
  shows "\<exists>s'. pbkdf_block kt sz count salt i s
    = Some (pbkdf2_T (F k) count (salt @ be_store (of_nat (i + 1) :: u32)), s') \<and> spent k s'"
proof -
  let ?inp = "salt @ be_store (of_nat (i + 1) :: u32)"
  have "fits ?inp" using assms(3) by (intro fits_short) (simp add: length_be_store)
  then obtain s1 where s1: "prf_call kt sz ?inp s = Some (F k ?inp, s1)" "spent k s1"
    by (rule prf_call_F[OF assms(1,2)])
  have "\<exists>s'. pbkdf_rounds kt sz (count - 1) (F k ?inp) (F k ?inp) s1
      = Some (foldl xor_bytes (F k ?inp) (map (pbkdf2_U (F k) ?inp) [Suc 0..<Suc 0 + (count - 1)]), s') \<and> spent k s'"
    by (rule pbkdf_rounds_F[OF s1(2) assms(2)]) (simp_all add: length_F)
  then show ?thesis
    using s1(1) assms(4) by (simp add: pbkdf_block_def store_uint32_be pbkdf2_T_def)
qed

lemma length_pbkdf2_T: "length (pbkdf2_T (F k) c s) = sz"
proof -
  have lenU: "length (pbkdf2_U (F k) s i) = sz" for i by (cases i) (simp_all add: length_F)
  have "length (foldl xor_bytes a (map (pbkdf2_U (F k) s) xs)) = sz" if "length a = sz" for a xs
    using that by (induction xs arbitrary: a) (simp_all add: lenU)
  then show ?thesis by (simp add: pbkdf2_T_def length_F)
qed

text \<open>The blocks are written one after the other.\<close>

lemma put_bytes_blocks:
  assumes "\<forall>b\<in>set bs. length b = n" "length t = n" "length (concat bs @ t) \<le> length out"
  shows "put_bytes (length bs * n) t (put_bytes 0 (concat bs) out) = put_bytes 0 (concat (bs @ [t])) out"
proof -
  have "length (concat bs) = length bs * n" using length_concat_blocks[OF assms(1)] by (simp add: mult.commute)
  then show ?thesis using assms put_bytes_adjacent[of 0 "concat bs" t out] by simp
qed

lemma put_bytes_whole: "length xs = length out \<Longrightarrow> put_bytes 0 xs out = xs"
  by (simp add: put_bytes_def)

lemma pbkdf_blocks_T:
  assumes "okkey k" "length salt < 256" "0 < count"
  defines "T \<equiv> \<lambda>i. pbkdf2_T (F k) count (salt @ be_store (of_nat (i + 1) :: u32))"
  assumes L: "0 < L" "(L - 1) * sz < length out" and r: "r = length out - (L - 1) * sz"
  defines "W \<equiv> \<lambda>i. put_bytes 0 (concat (map T [0..<if r \<noteq> sz \<and> i = L then L - 1 else i])) out"
  shows "spent k s \<Longrightarrow> i + n = L \<Longrightarrow>
    \<exists>s'. pbkdf_blocks kt sz count salt L r i n (W i) extra s
      = Some (W L, if n \<noteq> 0 \<and> r \<noteq> sz then T (L - 1) else extra, s') \<and> spent k s'"
proof (induction n arbitrary: i extra s)
  case (Suc n)
  have lt: "i < L" using Suc.prems(2) by simp
  obtain s1 where s1: "pbkdf_block kt sz count salt i s = Some (T i, s1)" "spent k s1"
    using pbkdf_block_T[OF Suc.prems(1) assms(1-3), of i] by (auto simp: T_def)
  have sizes: "\<forall>b\<in>set (map T [0..<m]). length b = sz" for m by (auto simp: T_def length_pbkdf2_T)
  show ?case
  proof (cases "i = L - 1 \<and> r \<noteq> sz")
    case True
    then have "n = 0" "W (i + 1) = W i" "W L = W i" using lt Suc.prems(2) by (simp_all add: W_def)
    then show ?thesis using True s1 by simp
  next
    case False
    have room: "(i + 1) * sz \<le> length out"
    proof (cases "i = L - 1")
      case True
      then show ?thesis using False r L by (cases L) simp_all
    next
      case ne: False
      then have "(i + 1) * sz \<le> (L - 1) * sz" using lt by (intro mult_right_mono) simp_all
      then show ?thesis using L(2) by simp
    qed
    have "put_bytes (i * sz) (T i) (W i) = W (i + 1)"
    proof -
      have "W i = put_bytes 0 (concat (map T [0..<i])) out" using lt by (simp add: W_def)
      moreover have "W (i + 1) = put_bytes 0 (concat (map T [0..<i] @ [T i])) out"
        using False lt by (auto simp: W_def)
      moreover have "length (concat (map T [0..<i]) @ T i) \<le> length out"
        using room length_concat_blocks[OF sizes[of i]] by (simp add: T_def length_pbkdf2_T algebra_simps)
      ultimately show ?thesis
        using put_bytes_blocks[OF sizes[of i], of "T i" out] by (simp add: T_def length_pbkdf2_T)
    qed
    moreover have "\<exists>s'. pbkdf_blocks kt sz count salt L r (i + 1) n (W (i + 1)) extra s1
        = Some (W L, if n \<noteq> 0 \<and> r \<noteq> sz then T (L - 1) else extra, s') \<and> spent k s'"
      by (rule Suc.IH[OF s1(2)]) (use Suc.prems in simp)
    moreover have "n = 0 \<Longrightarrow> r = sz" using False Suc.prems(2) by auto
    ultimately show ?thesis using False s1(1) by (auto simp: if_distrib)
  qed
qed (auto simp: W_def)

text \<open>PBKDF2, for any length of the output.\<close>

lemma pbkdf_generate_pbkdf2:
  assumes "alloc (pb_prf h)" "okkey key" "out \<noteq> []" "0 < pb_count h" "pb_prfsz h = sz"
  defines "salt \<equiv> take (unat (pb_saltsz h)) (pb_salt h)"
  shows "\<exists>h'. pbkdf_generate kt out key h = (0, Some (pbkdf2 (F key) sz salt (pb_count h) (length out), h'))"
proof -
  let ?out = "length out"
  have "unat (pb_saltsz h) < 256" by (rule order_less_le_trans[OF unsigned_less]) simp
  then have salt: "length salt < 256" unfolding salt_def length_take by (rule le_less_trans[OF min.cobounded2])
  define L where "L = (?out + (sz - 1)) div sz"
  define r where "r = ?out - (L - 1) * sz"
  define T where "T = (\<lambda>i. pbkdf2_T (F key) (pb_count h) (salt @ be_store (of_nat (i + 1) :: u32)))"
  have pos: "0 < ?out" using assms(3) by simp
  have L: "0 < L" "(L - 1) * sz < ?out" "?out \<le> L * sz"
  proof -
    have "?out + (sz - 1) = L * sz + (?out + (sz - 1)) mod sz" by (simp add: L_def)
    moreover have "(?out + (sz - 1)) mod sz < sz" using sz by simp
    ultimately have b: "?out \<le> L * sz" "L * sz < ?out + sz" using sz(1) by linarith+
    then show "?out \<le> L * sz" by simp
    show "0 < L" using b pos by (cases L) simp_all
    then show "(L - 1) * sz < ?out" using b by (cases L) simp_all
  qed
  define p0 where "p0 = snd (kt_setkey kt key (snd (kt_reset kt (pb_prf h))))"
  have spent: "spent key p0"
    unfolding p0_def by (intro fresh_spent fresh_setkey alloc_reset assms(1,2))
  define W where "W = put_bytes 0 (concat (map T [0..<if r \<noteq> sz then L - 1 else L])) out"
  obtain s' where run: "pbkdf_blocks kt sz (pb_count h) salt L r 0 L out [] p0
      = Some (W, if r \<noteq> sz then T (L - 1) else [], s')"
    using pbkdf_blocks_T[OF assms(2) salt assms(4) L(1,2) r_def spent, of 0 L "[]"] L(1)
    by (auto simp: T_def W_def)
  have sizes: "\<forall>b\<in>set (map T [0..<m]). length b = sz" for m by (auto simp: T_def length_pbkdf2_T)
  have lenc: "length (concat (map T [0..<m])) = m * sz" for m
    using length_concat_blocks[OF sizes[of m]] by (simp add: mult.commute)
  have "(if r \<noteq> sz then put_bytes ((L - 1) * sz) (take r (T (L - 1))) W else W) = take ?out (concat (map T [0..<L]))"
  proof (cases "r = sz")
    case True
    then have "?out = L * sz" using r_def L by (cases L) simp_all
    then show ?thesis using True lenc[of L] by (simp add: W_def put_bytes_whole)
  next
    case False
    have rs: "r \<le> sz" "?out = (L - 1) * sz + r" using L r_def by (cases L, simp_all)+
    have "[0..<L] = [0..<L - 1] @ [L - 1]" using L(1) by (cases L) simp_all
    then have "take ?out (concat (map T [0..<L])) = concat (map T [0..<L - 1]) @ take r (T (L - 1))"
      using rs(2) lenc[of "L - 1"] by simp
    moreover have "put_bytes ((L - 1) * sz) (take r (T (L - 1))) W
        = put_bytes 0 (concat (map T [0..<L - 1]) @ take r (T (L - 1))) out"
      using put_bytes_adjacent[of 0 "concat (map T [0..<L - 1])" "take r (T (L - 1))" out] lenc[of "L - 1"] rs False
      by (simp add: W_def T_def length_pbkdf2_T)
    moreover have "length (concat (map T [0..<L - 1]) @ take r (T (L - 1))) = ?out"
      using lenc[of "L - 1"] rs by (simp add: T_def length_pbkdf2_T)
    ultimately show ?thesis using False by (simp add: put_bytes_whole)
  qed
  then show ?thesis
    unfolding pbkdf_generate_def Let_def assms(5) L_def[symmetric] r_def[symmetric] p0_def[symmetric] salt_def[symmetric]
      pbkdf2_def T_def[symmetric]
    using assms(3,4) by (simp add: run split: if_splits)
qed

section \<open>TLS-PRF\<close>

lemma tls_blocks_P:
  fixes k seed out :: "byte list"
  defines "T \<equiv> \<lambda>i. F k ((F k ^^ Suc i) seed @ seed)"
  defines "W \<equiv> \<lambda>i. put_bytes 0 (take (length out) (concat (map T [0..<i]))) out"
  assumes "okkey k" "\<And>a. length a = sz \<Longrightarrow> fits (a @ seed)" and L: "0 < L \<longrightarrow> (L - 1) * sz < length out"
  shows "spent k s \<Longrightarrow> spent k s2 \<Longrightarrow> i + n = L \<Longrightarrow>
    \<exists>s'. tls_blocks kt sz seed (i * sz) n ((F k ^^ Suc i) seed) (W i) s s2 = Some (W L, s') \<and> spent k s'"
proof (induction n arbitrary: i s s2)
  case (Suc n)
  let ?ai = "(F k ^^ Suc i) seed"
  have lenF: "length ((F k ^^ Suc j) seed) = sz" for j by (simp add: length_F)
  have "fits ?ai" using lenF[of i] sz by (intro fits_short) simp
  then obtain s1 where s1: "prf_call kt sz ?ai s = Some (F k ?ai, s1)" "spent k s1"
    by (rule prf_call_F[OF Suc.prems(1) assms(3)])
  have "fits (?ai @ seed)" using lenF[of i] assms(4) by simp
  then obtain s3 where s3: "prf_call kt sz (?ai @ seed) s2 = Some (T i, s3)" "spent k s3"
    unfolding T_def by (rule prf_call_F[OF Suc.prems(2) assms(3)])
  have lt: "i * sz < length out"
  proof -
    have "i * sz \<le> (L - 1) * sz" "0 < L" using Suc.prems(3) by (auto intro: mult_right_mono)
    then show ?thesis using L by (blast intro: le_less_trans)
  qed
  have sizes: "\<forall>b\<in>set (map T [0..<m]). length b = sz" for m by (auto simp: T_def length_F)
  have lenc: "length (concat (map T [0..<m])) = m * sz" for m
    using length_concat_blocks[OF sizes[of m]] by (simp add: mult.commute)
  have "put_bytes (i * sz) (take (min sz (length out - i * sz)) (T i)) (W i) = W (i + 1)"
  proof -
    define c where "c = concat (map T [0..<i])"
    define t where "t = take (min sz (length out - i * sz)) (T i)"
    have c: "length c = i * sz" using lenc[of i] by (simp add: c_def)
    have t: "length t = min sz (length out - i * sz)" by (simp add: t_def T_def length_F)
    have Wi: "W i = put_bytes 0 c out" using lt c by (simp add: W_def c_def)
    have "length c + length t \<le> length out" using c t lt by simp
    then have "put_bytes (i * sz) t (put_bytes 0 c out) = put_bytes 0 (c @ t) out"
      using put_bytes_adjacent[of 0 c t out] c by simp
    moreover have "W (i + 1) = put_bytes 0 (c @ t) out"
    proof -
      have "take (length out) (concat (map T [0..<i + 1])) = c @ t"
        using lt c by (simp add: t_def c_def[symmetric]) (simp add: T_def length_F min_def)
      then show ?thesis by (simp only: W_def)
    qed
    ultimately show ?thesis by (simp only: Wi t_def)
  qed
  moreover have "length (W i) = length out" using lt lenc[of i] by (simp add: W_def)
  moreover have "\<exists>s'. tls_blocks kt sz seed ((i + 1) * sz) n ((F k ^^ Suc (i + 1)) seed) (W (i + 1)) s1 s3
      = Some (W L, s') \<and> spent k s'"
    by (rule Suc.IH[OF s1(2) s3(2)]) (use Suc.prems in simp)
  ultimately show ?case using s1(1) s3(1) by (simp add: add.commute)
qed auto

lemma tls_generate_P_hash:
  assumes "fresh key (tls_prf c)" "okkey key" "tls_prfsz c = sz" "fits seed"
    and "\<And>a. length a = sz \<Longrightarrow> fits (a @ seed)"
  shows "\<exists>c'. tls_generate kt out seed c = (0, Some (tls_P_hash (F key) sz seed (length out), c'))"
proof -
  let ?out = "length out"
  define L where "L = (length out + sz - 1) div sz"
  obtain a where a: "kt_generate kt sz seed (tls_prf c) = (0, Some (F key seed), a)" "spent key a"
    using generate[OF assms(1,4)] by blast
  have L: "0 < L \<longrightarrow> (L - 1) * sz < ?out" "?out \<le> L * sz"
  proof -
    have "?out + sz - 1 = L * sz + (?out + sz - 1) mod sz" by (simp add: L_def)
    moreover have "(?out + sz - 1) mod sz < sz" using sz by simp
    ultimately have b: "?out \<le> L * sz" "L * sz < ?out + sz" using sz(1) by linarith+
    then show "?out \<le> L * sz" by simp
    show "0 < L \<longrightarrow> (L - 1) * sz < ?out" using b by (cases L) simp_all
  qed
  define T where "T = (\<lambda>i. F key ((F key ^^ Suc i) seed @ seed))"
  obtain s' where run: "tls_blocks kt sz seed 0 L (F key seed) out a (tls_prf c)
      = Some (put_bytes 0 (take ?out (concat (map T [0..<L]))) out, s')"
    using tls_blocks_P[OF assms(2,5) L(1) a(2) fresh_spent[OF assms(1)], of 0 L]
    by (auto simp: T_def)
  have sizes: "\<forall>b\<in>set (map T [0..<L]). length b = sz" by (auto simp: T_def length_F)
  have "length (take ?out (concat (map T [0..<L]))) = ?out"
    using length_concat_blocks[OF sizes] L(2) by (simp add: mult.commute)
  then show ?thesis
    using a(1) run assms(3)
    unfolding tls_generate_def tls_P_hash_def Let_def assms(3) L_def[symmetric]
    by (simp add: T_def put_bytes_whole)
qed

end

section \<open>HMAC meets the contract\<close>

context plugin_hash
begin

definition km_alloc :: "'s hmac \<Rightarrow> bool" where
  "km_alloc c \<longleftrightarrow> hm_alloc c \<and> hm_taglen c = dsize \<and> (hm_keybufsz c = 0 \<or> (\<exists>k. hm_holds k c))"

definition km_fresh :: "byte list \<Rightarrow> 's hmac \<Rightarrow> bool" where
  "km_fresh k c \<longleftrightarrow> hm_keyed k [] c \<and> hm_taglen c = dsize"

definition km_spent :: "byte list \<Rightarrow> 's hmac \<Rightarrow> bool" where
  "km_spent k c \<longleftrightarrow> hm_alloc c \<and> hm_holds k c \<and> hm_taglen c = dsize"

lemma km_alloc_reset:
  assumes "km_alloc c"
  shows "km_alloc (snd (hmac_reset ht c))"
proof (cases "hm_keybufsz c = 0")
  case True
  then have "hm_blank [] (snd (hmac_reset ht c))" using hmac_reset_blank(1) assms by (simp add: km_alloc_def)
  moreover have "hm_keybufsz (snd (hmac_reset ht c)) = 0" "hm_taglen (snd (hmac_reset ht c)) = hm_taglen c"
    using True by (simp_all add: hmac_reset_def Let_def)
  ultimately show ?thesis using assms by (simp add: km_alloc_def hm_blank_def)
next
  case False
  then obtain k where k: "hm_holds k c" using assms by (auto simp: km_alloc_def)
  then have "k \<noteq> []" using False by (auto simp: hm_holds_def Let_def)
  then show ?thesis
    using hmac_reset_keyed[of c k] assms k by (auto simp: km_alloc_def hm_keyed_def)
qed

lemma hmac_kdf_prf:
  "kdf_prf (hmack_functbl ht) dsize km_alloc (\<lambda>k. k \<noteq> [] \<and> fits k) fits km_fresh km_spent (HMAC digest BlkSize)"
proof
  show "km_alloc (snd (kt_reset (hmack_functbl ht) c))" if "km_alloc c" for c
    using km_alloc_reset[OF that] by (simp add: hmack_functbl_def hmack_reset_def)
  show "km_fresh k (snd (kt_setkey (hmack_functbl ht) k c))" if "km_alloc c" "k \<noteq> [] \<and> fits k" for c k
    using hmac_setkey_keyed[of c k] that
    by (simp add: hmac_setkey_taglen hmack_functbl_def hmack_setkey_def km_fresh_def km_alloc_def)
  show "km_fresh k (snd (kt_reset (hmack_functbl ht) c))" if "km_spent k c" "k \<noteq> [] \<and> fits k" for c k
    using hmac_reset_keyed[of c k] that by (simp add: hmack_functbl_def hmack_reset_def km_fresh_def km_spent_def)
  show "km_spent k c" if "km_fresh k c" for k c
    using that by (simp add: km_fresh_def km_spent_def hm_keyed_def)
  show "km_alloc c" if "km_spent k c" for k c
    using that by (auto simp: km_alloc_def km_spent_def)
  show "\<exists>c'. kt_generate (hmack_functbl ht) dsize inp c = (0, Some (HMAC digest BlkSize k inp), c') \<and> km_spent k c'"
    if "km_fresh k c" "fits inp" for k c inp
  proof -
    let ?c = "hmac_update ht inp c"
    have c: "hm_keyed k inp ?c" "hm_taglen ?c = dsize" "hm_digestsz ?c = dsize" "hm_digestsz c = dsize"
      using hmac_update_keyed[of k "[]" c inp] that by (simp_all add: km_fresh_def hmac_update_def hm_keyed_def hm_alloc_def)
    have "length (HMAC digest BlkSize k inp) = dsize" by (simp add: HMAC_def Let_def length_digest)
    then have "fst (hmac_final ht ?c) = Some (HMAC digest BlkSize k inp)" using hmac_final_keyed[OF c(1)] c(2) by simp
    moreover have "km_spent k (snd (hmac_final ht ?c))"
      using hmac_final_digests[of ?c] c(1,2) by (auto simp: km_spent_def hm_keyed_def hm_blank_def)
    ultimately show ?thesis
      using c(3,4) by (cases "hmac_final ht ?c") (simp add: hmack_functbl_def hmack_generate_def)
  qed
  show "length (HMAC digest BlkSize k inp) = dsize" for k inp by (simp add: HMAC_def Let_def length_digest)
  show "fits inp" if "length inp < 512" for inp by (rule fits_short[OF that])
qed (use sizes in simp_all)

text \<open>PBKDF2 and TLS-PRF on a context of HMAC-KDF, from its initialisation on.\<close>

lemma hmac_init_km:
  assumes "ready s"
  obtains c where "hmac_init ht True (Some s) 0 = (0, Some c)" "km_alloc c"
  using hmac_init_alloc[OF assms, of 0] by (auto simp: km_alloc_def)

lemma size_of_dsize: "size_of_int (int dsize) = dsize" "\<not> BUFFER_SIZE < dsize"
  using sizes by (simp_all add: size_of_int_def nat_mod_as_int zmod_int[symmetric] BUFFER_SIZE_def)

lemma pbkdf2_hmac_run:
  assumes "ready s" "fits key" "key \<noteq> []" "out \<noteq> []" "0 < count"
  shows "\<exists>c p. hmac_init ht True (Some s) 0 = (0, Some c) \<and>
     pbkdf_init (hmack_functbl ht) True (Some c) = (0, Some p) \<and>
     (\<exists>p'. pbkdf_generate (hmack_functbl ht) out key (snd (pbkdf_setcount count (snd (pbkdf_setsalt salt p))))
       = (0, Some (pbkdf2 (HMAC digest BlkSize key) dsize (take (length salt mod 256) salt) count (length out), p')))"
proof -
  obtain c where c: "hmac_init ht True (Some s) 0 = (0, Some c)" "km_alloc c" by (rule hmac_init_km[OF assms(1)])
  let ?r = "snd (kt_reset (hmack_functbl ht) c)"
  let ?p = "\<lparr>pb_prf = ?r, pb_salt = [], pb_saltsz = 0, pb_count = 0, pb_prfsz = dsize\<rparr>"
  have "pbkdf_init (hmack_functbl ht) True (Some c) = (0, Some ?p)"
    by (simp add: pbkdf_init_def Let_def hmack_functbl_def hmack_info_size_def info_size size_of_dsize)
  moreover have "km_alloc ?r" using km_alloc_reset[OF c(2)] by (simp add: hmack_functbl_def hmack_reset_def)
  moreover have "unat (of_nat (length salt) :: byte) = length salt mod 256" by (simp add: unat_of_nat)
  ultimately show ?thesis
    using kdf_prf.pbkdf_generate_pbkdf2[OF hmac_kdf_prf, of "?p\<lparr>pb_salt := salt, pb_saltsz := of_nat (length salt), pb_count := count\<rparr>" key out]
      c(1) assms by (auto simp: pbkdf_setcount_def pbkdf_setsalt_def)
qed

lemma tls_hmac_run:
  assumes "ready s" "fits key" "key \<noteq> []" "\<And>a. length a \<le> dsize \<Longrightarrow> fits (a @ seed)"
  shows "\<exists>c t. hmac_init ht True (Some s) 0 = (0, Some c) \<and>
     tls_init (hmack_functbl ht) digest_given (Some c) True hk = (0, Some t) \<and>
     (\<exists>t'. tls_generate (hmack_functbl ht) out seed (snd (tls_setkey (hmack_functbl ht) key t))
       = (0, Some (tls_P_hash (HMAC digest BlkSize key) dsize seed (length out), t')))"
proof -
  obtain c where c: "hmac_init ht True (Some s) 0 = (0, Some c)" "km_alloc c" by (rule hmac_init_km[OF assms(1)])
  let ?r = "snd (kt_reset (hmack_functbl ht) c)"
  let ?t = "\<lparr>tls_prf = ?r, tls_prfsz = dsize\<rparr>"
  have "tls_init (hmack_functbl ht) digest_given (Some c) True hk = (0, Some ?t)"
    by (simp add: tls_init_def Let_def hmack_functbl_def hmack_info_size_def info_size size_of_dsize)
  moreover have "km_alloc ?r" using km_alloc_reset[OF c(2)] by (simp add: hmack_functbl_def hmack_reset_def)
  then have "km_fresh key (snd (kt_setkey (hmack_functbl ht) key ?r))"
    using kdf_prf.fresh_setkey[OF hmac_kdf_prf] assms(2,3) by blast
  then have "km_fresh key (tls_prf (snd (tls_setkey (hmack_functbl ht) key ?t)))"
      "tls_prfsz (snd (tls_setkey (hmack_functbl ht) key ?t)) = dsize"
    by (simp_all add: tls_setkey_def split_beta)
  from kdf_prf.tls_generate_P_hash[OF hmac_kdf_prf this(1) _ this(2), of seed out]
  have "\<exists>t'. tls_generate (hmack_functbl ht) out seed (snd (tls_setkey (hmack_functbl ht) key ?t))
       = (0, Some (tls_P_hash (HMAC digest BlkSize key) dsize seed (length out), t'))"
    using assms(2,3) assms(4)[of "[]"] assms(4) by simp
  ultimately show ?thesis using c(1) by blast
qed

end

interpretation hmac_sha: kdf_prf "hmack_functbl (PLUGIN_STRUCTURE host (SHA_Transform R) 64 Big SHA_iv 20)" 20
    "sha_plugin.km_alloc R" "\<lambda>k. k \<noteq> [] \<and> length k < 2 ^ 32" "\<lambda>m. length m < 2 ^ 32"
    "sha_plugin.km_fresh R" "sha_plugin.km_spent R"
    "HMAC (md_digest (SHA_Transform R) 64 Big SHA_iv 20) 64" for host R
  by (rule sha_plugin.hmac_kdf_prf)

interpretation hmac_sha256: kdf_prf "hmack_functbl (PLUGIN_STRUCTURE host SHA256_Transform 64 Big SHA256_iv 32)" 32
    sha256_plugin.km_alloc "\<lambda>k. k \<noteq> [] \<and> length k < 2 ^ 32" "\<lambda>m. length m < 2 ^ 32"
    sha256_plugin.km_fresh sha256_plugin.km_spent
    "HMAC (md_digest SHA256_Transform 64 Big SHA256_iv 32) 64" for host
  by (rule sha256_plugin.hmac_kdf_prf)

end
