(* ===== verification/CMAC.thy ===== *)
theory CMAC
  imports Block_Plugin CFB
begin

text \<open>
  \<^verbatim>\<open>impl/mac/cmac/cmac.c\<close>: CMAC over the function table of a block cipher. The last block is
  treated specially, so a block is processed only when at least one more byte follows; the
  invariant \<open>cm_given\<close> says what a context has been given.
\<close>

section \<open>The context\<close>

record cmac =
  cm_buf :: "byte list"
  cm_hash :: "byte list"
  cm_k1 :: "byte list"
  cm_k2 :: "byte list"
  cm_blksize :: nat
  cm_boff :: nat
  cm_taglen :: nat
  cm_block :: block_algo
  cm_nonzero_len :: bool

definition cmac_init :: "bool \<Rightarrow> block_algo option \<Rightarrow> nat \<Rightarrow> int \<times> cmac option" where
  "cmac_init mem algo tag =
     (case algo of None \<Rightarrow> (- DREW_ERR_INVALID, None)
      | Some a \<Rightarrow>
        if \<not> mem then (- ENOMEM, None)
        else
          let bs = ba_blksize a;
              z = replicate 16 0;
              p = \<lparr>cm_buf = z, cm_hash = z, cm_k1 = z, cm_k2 = z, cm_blksize = bs, cm_boff = 0,
                   cm_taglen = if tag \<noteq> 0 then tag else bs, cm_block = a, cm_nonzero_len = False\<rparr>
          in if 16 < bs \<or> (bs \<noteq> 8 \<and> bs \<noteq> 16) then (- DREW_ERR_INVALID, None) else (0, Some p))"

definition shiftleft :: "byte list \<Rightarrow> nat \<Rightarrow> byte list" where
  "shiftleft buf len =
     (let buf = fold (\<lambda>i buf.
            let buf = buf[i := push_bit 1 (buf ! i)]
            in buf[i := buf ! i OR drop_bit 7 (buf ! (i + 1))]) [0..<len - 1] buf
      in buf[len - 1 := push_bit 1 (buf ! (len - 1))])"

text \<open>\<open>setkey\<close> is the cipher's: the function table with the key set.\<close>

definition cmac_setkey :: "(byte list \<Rightarrow> block_algo \<Rightarrow> block_algo) \<Rightarrow> byte list \<Rightarrow> cmac \<Rightarrow> int \<times> cmac" where
  "cmac_setkey setkey key ctx =
     (let bs = cm_blksize ctx;
          rb = (if bs = 16 then 0x87 else 0x1b);
          blk = setkey key (cm_block ctx);
          k1 = put_bytes 0 (ba_encrypt blk (replicate bs 0)) (cm_k1 ctx);
          c = k1 ! 0;
          k1 = shiftleft k1 bs;
          k1 = (if c AND 0x80 \<noteq> 0 then k1[bs - 1 := k1 ! (bs - 1) XOR rb] else k1);
          k2 = put_bytes 0 (take bs k1) (cm_k2 ctx);
          k2 = shiftleft k2 bs;
          k2 = (if c AND 0x40 \<noteq> 0 then k2[bs - 1 := k2 ! (bs - 1) XOR rb] else k2)
      in (0, ctx\<lparr>cm_block := blk, cm_k1 := k1, cm_k2 := k2\<rparr>))"

text \<open>The cipher's own \<^verbatim>\<open>reset\<close> does nothing (\<^verbatim>\<open>BlockCipher::Reset\<close>).\<close>

definition cmac_reset :: "cmac \<Rightarrow> int \<times> cmac" where
  "cmac_reset c = (0, c\<lparr>cm_boff := 0, cm_nonzero_len := False, cm_hash := replicate 16 0\<rparr>)"

definition process_block :: "byte list \<Rightarrow> cmac \<Rightarrow> cmac" where
  "process_block buf c =
     (let hash = xor_buffers2 (cm_hash c) buf (cm_blksize c)
      in c\<lparr>cm_hash := put_bytes 0 (ba_encrypt (cm_block c) (take (cm_blksize c) hash)) hash\<rparr>)"

function cmac_blocks :: "byte list \<Rightarrow> cmac \<Rightarrow> byte list \<times> cmac" where
  "cmac_blocks data c =
     (if cm_blksize c + 1 \<le> length data \<and> 0 < cm_blksize c
      then cmac_blocks (drop (cm_blksize c) data) (process_block (take (cm_blksize c) data) c)
      else (data, c))"
  by pat_completeness auto
termination
  by (relation "measure (\<lambda>(data, c). length data)") auto

declare cmac_blocks.simps [simp del]

text \<open>
  A block completed by the call that ends with it leaves the offset at 16, whatever the block
  size. \<open>None\<close> is a copy beyond the end of \<^verbatim>\<open>buf\<close>.
\<close>

definition cmac_update :: "byte list \<Rightarrow> cmac \<Rightarrow> cmac option" where
  "cmac_update data c =
     (if data = [] then Some c
      else
        let c = c\<lparr>cm_nonzero_len := True\<rparr>;
            bs = cm_blksize c;
            b = min (size_sub bs (cm_boff c)) (length data)
        in if cm_boff c \<noteq> 0 \<and> 16 < cm_boff c + b then None
           else
             let (data, c) =
                   (if cm_boff c \<noteq> 0
                    then let c = c\<lparr>cm_buf := put_bytes (cm_boff c) (take b data) (cm_buf c)\<rparr>;
                             c = c\<lparr>cm_boff := cm_boff c + b\<rparr>;
                             c = (if cm_boff c = bs
                                  then if length data \<noteq> b then (process_block (cm_buf c) c)\<lparr>cm_boff := 0\<rparr>
                                       else c\<lparr>cm_boff := 16\<rparr>
                                  else c)
                         in (drop b data, c)
                    else (data, c));
                 (data, c) = cmac_blocks data c
             in Some (if data \<noteq> [] then c\<lparr>cm_buf := put_bytes 0 data (cm_buf c), cm_boff := length data\<rparr> else c))"

text \<open>\<open>None\<close> when \<^verbatim>\<open>blksize - boff\<close> wraps round, and when the tag is longer than \<^verbatim>\<open>hash\<close>.\<close>

definition cmac_final :: "cmac \<Rightarrow> (byte list \<times> cmac) option" where
  "cmac_final c =
     (let bs = cm_blksize c;
          buf =
            (if \<not> cm_nonzero_len c
             then Some (xor_aligned2 ((put_bytes 1 (replicate (bs - 1) 0) (cm_buf c))[cm_boff c := 0x80]) (cm_k2 c) 16)
             else if cm_boff c = bs then Some (xor_aligned2 (cm_buf c) (cm_k1 c) 16)
             else if bs < cm_boff c then None
             else Some (xor_aligned2 ((put_bytes (cm_boff c) (replicate (bs - cm_boff c) 0) (cm_buf c))[cm_boff c := 0x80])
                    (cm_k2 c) 16))
      in case buf of None \<Rightarrow> None
         | Some buf \<Rightarrow>
           let c = process_block buf (c\<lparr>cm_buf := buf\<rparr>)
           in if 16 < cm_taglen c then None else Some (take (cm_taglen c) (cm_hash c), c))"

section \<open>Doubling\<close>

text \<open>The loop shifts the whole number by one bit.\<close>

definition shift_one :: "byte list \<Rightarrow> byte list" where
  "shift_one xs = map2 (\<lambda>x y. push_bit 1 x OR drop_bit 7 y) xs (tl xs @ [0])"

lemma shiftleft_prefix:
  "m < len \<Longrightarrow> len \<le> length buf \<Longrightarrow>
   fold (\<lambda>i buf. let buf = buf[i := push_bit 1 (buf ! i)] in buf[i := buf ! i OR drop_bit 7 (buf ! (i + 1))]) [0..<m] buf
   = map2 (\<lambda>x y. push_bit 1 x OR drop_bit 7 y) (take m buf) (take m (tl buf)) @ drop m buf"
  for buf :: "byte list"
proof (induction m)
  case (Suc m)
  let ?f = "\<lambda>x y :: byte. push_bit 1 x OR drop_bit 7 y"
  have m: "m + 1 < length buf" using Suc.prems by simp
  have "fold (\<lambda>i buf. let buf = buf[i := push_bit 1 (buf ! i)] in buf[i := buf ! i OR drop_bit 7 (buf ! (i + 1))]) [0..<m] buf
      = map2 ?f (take m buf) (take m (tl buf)) @ drop m buf" using Suc.IH Suc.prems by simp
  moreover have "drop m buf = buf ! m # buf ! (m + 1) # drop (m + 2) buf"
    using m by (metis Cons_nth_drop_Suc Suc_eq_plus1 Suc_lessD add_2_eq_Suc' Suc_1 add_Suc_right)
  moreover have "drop (Suc m) buf = buf ! (m + 1) # drop (m + 2) buf"
    using m by (metis Cons_nth_drop_Suc Suc_eq_plus1 add_2_eq_Suc')
  moreover have "take (Suc m) buf = take m buf @ [buf ! m]" "take (Suc m) (tl buf) = take m (tl buf) @ [buf ! (m + 1)]"
    using m by (simp_all add: take_Suc_conv_app_nth nth_tl)
  ultimately show ?case using m by (simp add: nth_append list_update_append)
qed simp

lemma shiftleft_shift_one:
  assumes "0 < n" "n \<le> length buf"
  shows "take n (shiftleft buf n) = shift_one (take n buf)" "drop n (shiftleft buf n) = drop n buf"
    "length (shiftleft buf n) = length buf"
proof -
  let ?f = "\<lambda>x y :: byte. push_bit 1 x OR drop_bit 7 y"
  obtain m where m: "n = Suc m" using assms(1) by (cases n) auto
  define b where "b = map2 ?f (take m buf) (take m (tl buf)) @ drop m buf"
  have lt: "m < length buf" "length (take m (tl buf)) = m" using assms(2) m by simp_all
  then have lb: "length b = length buf" by (simp add: b_def)
  have sl: "shiftleft buf n = b[m := push_bit 1 (b ! m)]"
    using shiftleft_prefix[of m n buf] assms m by (simp add: shiftleft_def b_def Let_def)
  have "b ! m = buf ! m" using assms(2) m by (simp add: b_def nth_append)
  then have "take n (shiftleft buf n) ! i = shift_one (take n buf) ! i" if "i < n" for i
    using that assms(2) m lb
    by (cases "i = m") (simp_all add: sl[unfolded m] shift_one_def nth_append nth_tl b_def)
  then show "take n (shiftleft buf n) = shift_one (take n buf)"
    using assms(2) lb by (intro nth_equalityI) (simp_all add: sl shift_one_def)
  show "length (shiftleft buf n) = length buf" by (simp add: sl lb)
  show "drop n (shiftleft buf n) = drop n buf" using assms(2) m by (simp add: sl[unfolded m] b_def)
qed

text \<open>It doubles the number, modulo its range.\<close>

lemma be_num_Cons: "be_num (x # xs) = unat x * 256 ^ length xs + be_num xs" for x :: byte
  using be_num_append[of "[x]" xs] by simp

lemma be_num_carry: "2 * be_num xs div 256 ^ length xs = unat (hd (xs @ [0])) div 128" for xs :: "byte list"
proof (cases xs)
  case (Cons x ys)
  let ?B = "256 ^ length ys :: nat"
  have r: "be_num ys < ?B" using be_num_bound[of ys] by simp
  have "2 * be_num xs = 2 * be_num ys + 2 * unat x * ?B" using Cons by (simp add: be_num_Cons)
  then have "2 * be_num xs div ?B = 2 * unat x + 2 * be_num ys div ?B" using r by simp
  moreover have "2 * be_num ys div ?B < 2" using r by (simp add: less_mult_imp_div_less)
  ultimately have "2 * be_num xs div ?B div 256 = unat x div 128" by linarith
  moreover have "2 * be_num xs div 256 ^ length xs = 2 * be_num xs div ?B div 256"
    unfolding div_mult2_eq[symmetric] by (simp add: Cons mult.commute)
  ultimately show ?thesis using Cons by simp
qed simp

lemma unat_shift_byte: "unat (push_bit 1 x OR drop_bit 7 y) = 2 * unat x mod 256 + unat y div 128" for x y :: byte
proof -
  let ?a = "push_bit 1 x" and ?b = "drop_bit 7 y"
  have "?a AND ?b = 0"
  proof (rule bit_word_eqI)
    show "bit (?a AND ?b) n = bit 0 n" for n
      unfolding bit_and_iff bit_push_bit_iff using bit_imp_le_length[of y "7 + n"]
      by (cases n) (auto simp: bit_simps)
  qed
  then have "unat ?a AND unat ?b = 0" by (metis unsigned_and_eq unsigned_0)
  then have "unat (?a OR ?b) = unat ?a + unat ?b" by (simp add: unsigned_or_eq disjunctive_add_eq_or)
  moreover have "unat ?a = 2 * unat x mod 256"
    unfolding unsigned_push_bit_eq by (simp add: take_bit_eq_mod push_bit_eq_mult mult.commute)
  moreover have "unat ?b = unat y div 128"
    unfolding unsigned_drop_bit_eq by (simp add: take_bit_eq_mod drop_bit_eq_div)
  ultimately show ?thesis by simp
qed

lemma be_num_shift_one: "be_num (shift_one xs) = (2 * be_num xs) mod 256 ^ length xs"
proof (induction xs)
  case Nil
  show ?case by (simp add: shift_one_def)
next
  case (Cons x xs)
  let ?h = "hd (xs @ [0])" and ?B = "256 ^ length xs :: nat"
  have len: "length (shift_one xs) = length xs" by (simp add: shift_one_def)
  have "shift_one (x # xs) = (push_bit 1 x OR drop_bit 7 ?h) # shift_one xs"
    by (cases xs) (simp_all add: shift_one_def)
  then have "be_num (shift_one (x # xs)) = (2 * unat x mod 256 + unat ?h div 128) * ?B + 2 * be_num xs mod ?B"
    by (simp only: be_num_Cons unat_shift_byte len Cons)
  also have "\<dots> = 2 * unat x mod 256 * ?B + 2 * be_num xs"
  proof -
    have "unat ?h div 128 * ?B + 2 * be_num xs mod ?B = 2 * be_num xs"
      using div_mult_mod_eq[of "2 * be_num xs" ?B] by (simp only: be_num_carry)
    then show ?thesis by (simp only: distrib_right add.assoc)
  qed
  also have "\<dots> = (2 * unat x * ?B + 2 * be_num xs) mod (256 * ?B)"
  proof -
    let ?e = "2 * unat x mod 256" and ?q = "2 * unat x div 256"
    have "?e = 2 * (unat x mod 128)" using mult_mod_right[of 2 "unat x" 128] by simp
    moreover have "unat x mod 128 \<le> 127" by simp
    ultimately have "?e \<le> 254" by linarith
    then have "?e * ?B \<le> 254 * ?B" by (rule mult_right_mono) simp
    moreover have "2 * be_num xs < 2 * ?B" using be_num_bound[of xs] by simp
    ultimately have lt: "?e * ?B + 2 * be_num xs < 256 * ?B" by linarith
    have "2 * unat x * ?B = (?q * 256 + ?e) * ?B" by (simp only: div_mult_mod_eq)
    also have "\<dots> = ?q * (256 * ?B) + ?e * ?B" by (simp only: distrib_right mult.assoc)
    finally have "2 * unat x * ?B + 2 * be_num xs = ?q * (256 * ?B) + (?e * ?B + 2 * be_num xs)"
      by (simp only: add.assoc)
    then have "(2 * unat x * ?B + 2 * be_num xs) mod (256 * ?B) = (?e * ?B + 2 * be_num xs) mod (256 * ?B)"
      by (simp only: mod_mult_self3)
    then show ?thesis using mod_less[OF lt] by (simp only:)
  qed
  finally show ?case by (simp add: be_num_Cons algebra_simps)
qed

section \<open>The algorithm\<close>

definition cmac_dbl :: "byte \<Rightarrow> byte list \<Rightarrow> byte list" where
  "cmac_dbl rb b =
     (let s = shift_one b in if bit (b ! 0) 7 then s[length b - 1 := s ! (length b - 1) XOR rb] else s)"

definition cmac_rb :: "nat \<Rightarrow> byte" where
  "cmac_rb bs = (if bs = 16 then 0x87 else 0x1b)"

definition cmac_subkey1 :: "(byte list \<Rightarrow> byte list) \<Rightarrow> nat \<Rightarrow> byte list" where
  "cmac_subkey1 E bs = cmac_dbl (cmac_rb bs) (E (replicate bs 0))"

definition cmac_subkey2 :: "(byte list \<Rightarrow> byte list) \<Rightarrow> nat \<Rightarrow> byte list" where
  "cmac_subkey2 E bs = cmac_dbl (cmac_rb bs) (cmac_subkey1 E bs)"

definition cmac_cbc :: "(byte list \<Rightarrow> byte list) \<Rightarrow> byte list \<Rightarrow> byte list list \<Rightarrow> byte list" where
  "cmac_cbc E h bs = foldl (\<lambda>h b. E (xor_bytes h b)) h bs"

text \<open>The last block is complete, or padded when it is not or when there is none.\<close>

definition cmac_last :: "(byte list \<Rightarrow> byte list) \<Rightarrow> nat \<Rightarrow> byte list \<Rightarrow> byte list" where
  "cmac_last E bs t =
     (if length t = bs then xor_bytes t (cmac_subkey1 E bs)
      else xor_bytes (t @ 0x80 # replicate (bs - length t - 1) 0) (cmac_subkey2 E bs))"

definition CMAC :: "(byte list \<Rightarrow> byte list) \<Rightarrow> nat \<Rightarrow> byte list \<Rightarrow> byte list" where
  "CMAC E bs msg =
     (let m = bs * ((length msg - 1) div bs);
          h = cmac_cbc E (replicate bs 0) (chunks bs (take m msg))
      in E (xor_bytes h (cmac_last E bs (drop m msg))))"

section \<open>The operations compute it\<close>

definition cm_alloc :: "block_algo \<Rightarrow> nat \<Rightarrow> cmac \<Rightarrow> bool" where
  "cm_alloc a bs c \<longleftrightarrow> cm_block c = a \<and> good_algo a \<and> ba_blksize a = bs \<and> cm_blksize c = bs \<and> (bs = 8 \<or> bs = 16) \<and>
     length (cm_buf c) = 16 \<and> length (cm_hash c) = 16 \<and> length (cm_k1 c) = 16 \<and> length (cm_k2 c) = 16"

definition cm_keyed :: "block_algo \<Rightarrow> nat \<Rightarrow> cmac \<Rightarrow> bool" where
  "cm_keyed a bs c \<longleftrightarrow> cm_alloc a bs c \<and> take bs (cm_k1 c) = cmac_subkey1 (ba_encrypt a) bs \<and>
     take bs (cm_k2 c) = cmac_subkey2 (ba_encrypt a) bs"

lemma and_bit: "c AND 0x80 \<noteq> 0 \<longleftrightarrow> bit c 7" "c AND 0x40 \<noteq> 0 \<longleftrightarrow> bit c 6" for c :: byte
  using bit_iff_and_push_bit_not_eq_0[of c 7] bit_iff_and_push_bit_not_eq_0[of c 6]
  by (simp_all add: push_bit_eq_mult)

lemma length_shift_one [simp]: "length (shift_one xs) = length xs"
  by (simp add: shift_one_def)

lemma cmac_setkey_keyed:
  assumes "cm_alloc a bs c" "setkey key a = b" "good_algo b" "ba_blksize b = bs"
  shows "cm_keyed b bs (snd (cmac_setkey setkey key c))"
proof -
  have bs: "bs = 8 \<or> bs = 16" and c: "cm_block c = a" "cm_blksize c = bs" "length (cm_k1 c) = 16" "length (cm_k2 c) = 16"
    using assms(1) by (simp_all add: cm_alloc_def)
  define l where "l = ba_encrypt b (replicate bs 0)"
  have l: "length l = bs" using assms(3,4) by (simp add: l_def good_algo_length)
  define x0 where "x0 = put_bytes 0 l (cm_k1 c)"
  have x0: "length x0 = 16" "take bs x0 = l" "x0 ! 0 = l ! 0"
    using bs l c by (auto simp: x0_def put_bytes_def nth_append)
  define x1 where "x1 = shiftleft x0 bs"
  have x1: "length x1 = 16" "take bs x1 = shift_one l"
    using shiftleft_shift_one[of bs x0] bs x0 by (auto simp: x1_def)
  define k1 where "k1 = (if bit (l ! 0) 7 then x1[bs - 1 := x1 ! (bs - 1) XOR cmac_rb bs] else x1)"
  have x1n: "x1 ! i = shift_one l ! i" if "i < bs" for i using x1(2) that by (metis nth_take)
  have k1: "length k1 = 16" "take bs k1 = cmac_dbl (cmac_rb bs) l"
    using bs x1 x1n[of "bs - 1"] l by (auto simp: k1_def cmac_dbl_def Let_def take_update_swap)
  define x2 where "x2 = shiftleft (put_bytes 0 (take bs k1) (cm_k2 c)) bs"
  have p2: "length (put_bytes 0 (take bs k1) (cm_k2 c)) = 16"
    "take bs (put_bytes 0 (take bs k1) (cm_k2 c)) = take bs k1"
    using bs k1(1) c by (auto simp: put_bytes_def)
  have x2: "length x2 = 16" "take bs x2 = shift_one (take bs k1)"
    using shiftleft_shift_one[of bs "put_bytes 0 (take bs k1) (cm_k2 c)"] bs p2 by (auto simp: x2_def)
  have x2n: "x2 ! i = shift_one (take bs k1) ! i" if "i < bs" for i using x2(2) that by (metis nth_take)
  have top: "bit (take bs k1 ! 0) 7 \<longleftrightarrow> bit (l ! 0) 6"
  proof -
    have "bs - 1 \<noteq> 0" "0 < bs" using bs by auto
    then have "take bs k1 ! 0 = shift_one l ! 0" by (simp add: k1(2) cmac_dbl_def Let_def l)
    also have "\<dots> = push_bit 1 (l ! 0) OR drop_bit 7 ((tl l @ [0]) ! 0)"
      using \<open>0 < bs\<close> l by (simp add: shift_one_def)
    finally show ?thesis
      unfolding bit_or_iff by (simp only: bit_push_bit_iff bit_drop_bit_eq bit_or_iff) (auto dest: bit_imp_le_length)
  qed
  define k2 where "k2 = (if bit (l ! 0) 6 then x2[bs - 1 := x2 ! (bs - 1) XOR cmac_rb bs] else x2)"
  have k2: "length k2 = 16" "take bs k2 = cmac_dbl (cmac_rb bs) (take bs k1)"
    using bs x2 x2n[of "bs - 1"] k1(1) by (auto simp: k2_def cmac_dbl_def Let_def take_update_swap top min_def)
  have "cmac_setkey setkey key c = (0, c\<lparr>cm_block := b, cm_k1 := k1, cm_k2 := k2\<rparr>)"
    unfolding cmac_setkey_def Let_def c assms(2) l_def[symmetric] and_bit cmac_rb_def[symmetric]
      x0_def[symmetric] x1_def[symmetric] x0(3) k1_def[symmetric] x2_def[symmetric] k2_def[symmetric] by (rule refl)
  then show ?thesis
    using assms k1 k2 by (simp add: cm_keyed_def cm_alloc_def cmac_subkey1_def cmac_subkey2_def l_def)
qed

text \<open>The loop over the data takes all blocks but the last one.\<close>

lemma process_block_hash:
  assumes "cm_alloc a bs c" "bs \<le> length buf"
  obtains h where "process_block buf c = c\<lparr>cm_hash := h\<rparr>" "length h = 16"
    "take bs h = ba_encrypt a (xor_bytes (take bs (cm_hash c)) (take bs buf))"
proof (rule that)
  let ?x = "xor_bytes (take bs (cm_hash c)) (take bs buf)"
  have c: "cm_block c = a" "cm_blksize c = bs" "bs \<le> 16" "length (cm_hash c) = 16" "good_algo a" "ba_blksize a = bs"
    using assms(1) by (auto simp: cm_alloc_def)
  then have E: "length (ba_encrypt a ?x) = bs" using assms(2) by (simp add: good_algo_length)
  show "process_block buf c = c\<lparr>cm_hash := ba_encrypt a ?x @ drop bs (cm_hash c)\<rparr>"
    using c assms(2) E by (simp add: process_block_def Let_def xor_buffers2_def xor_buffers_def put_bytes_def)
  show "length (ba_encrypt a ?x @ drop bs (cm_hash c)) = 16" using E c by simp
  show "take bs (ba_encrypt a ?x @ drop bs (cm_hash c)) = ba_encrypt a ?x" using E by simp
qed

lemma cm_alloc_hash: "cm_alloc a bs c \<Longrightarrow> length h = 16 \<Longrightarrow> cm_alloc a bs (c\<lparr>cm_hash := h\<rparr>)"
  by (simp add: cm_alloc_def)

lemma cmac_blocks_cbc:
  assumes "cm_alloc a bs c" "data \<noteq> []"
  obtains q t h where "cmac_blocks data c = (t, c\<lparr>cm_hash := h\<rparr>)" "data = q @ t" "bs dvd length q"
    "0 < length t" "length t \<le> bs" "length h = 16"
    "take bs h = cmac_cbc (ba_encrypt a) (take bs (cm_hash c)) (chunks bs q)"
  using assms
proof (induction "length data" arbitrary: data c thesis rule: less_induct)
  case less
  have bs: "0 < bs" "cm_blksize c = bs" using less.prems(2) by (auto simp: cm_alloc_def)
  show ?case
  proof (cases "bs + 1 \<le> length data")
    case False
    then show ?thesis
      using less.prems bs by (intro less.prems(1)[of data "cm_hash c" "[]"])
        (auto simp: cmac_blocks.simps[of data] cm_alloc_def cmac_cbc_def)
  next
    case True
    obtain h1 where h1: "process_block (take bs data) c = c\<lparr>cm_hash := h1\<rparr>" "length h1 = 16"
      "take bs h1 = ba_encrypt a (xor_bytes (take bs (cm_hash c)) (take bs (take bs data)))"
      by (rule process_block_hash[OF less.prems(2), of "take bs data"]) (use True in auto)
    have "length (drop bs data) < length data" "drop bs data \<noteq> []" using True bs by auto
    from less.hyps[OF this(1) _ cm_alloc_hash[OF less.prems(2) h1(2)] this(2)]
    obtain q t h where r: "cmac_blocks (drop bs data) (c\<lparr>cm_hash := h1\<rparr>) = (t, c\<lparr>cm_hash := h\<rparr>)" "drop bs data = q @ t"
      "bs dvd length q" "0 < length t" "length t \<le> bs" "length h = 16"
      "take bs h = cmac_cbc (ba_encrypt a) (take bs h1) (chunks bs q)" by auto
    have len: "length (take bs data) = bs" using True by simp
    have "chunks bs (take bs data @ q) = take bs data # chunks bs q"
      using chunks_block[of bs "take bs data" q] len bs by simp
    then show ?thesis
      using r h1 len True bs append_take_drop_id[of bs data]
      by (intro less.prems(1)[of t h "take bs data @ q"])
        (simp_all add: cmac_blocks.simps[of data] cmac_cbc_def del: append_take_drop_id)
  qed
qed

text \<open>What a context has been given: whole blocks \<open>q\<close>, processed, and the bytes \<open>t\<close> in \<^verbatim>\<open>buf\<close>.\<close>

definition cm_given :: "block_algo \<Rightarrow> nat \<Rightarrow> byte list \<Rightarrow> cmac \<Rightarrow> bool" where
  "cm_given a bs msg c \<longleftrightarrow> cm_keyed a bs c \<and>
     (\<exists>q t. msg = q @ t \<and> bs dvd length q \<and> length t \<le> bs \<and> (msg \<noteq> [] \<longrightarrow> t \<noteq> []) \<and>
        cm_nonzero_len c = (msg \<noteq> []) \<and> cm_boff c = length t \<and> take (length t) (cm_buf c) = t \<and>
        take bs (cm_hash c) = cmac_cbc (ba_encrypt a) (replicate bs 0) (chunks bs q))"

lemma cm_given_reset:
  assumes "cm_keyed a bs c"
  shows "cm_given a bs [] (snd (cmac_reset c))"
  using assms by (auto simp: cm_given_def cm_keyed_def cm_alloc_def cmac_reset_def cmac_cbc_def)

lemma cm_given_init:
  assumes "cm_keyed a bs c" "cm_boff c = 0" "\<not> cm_nonzero_len c" "cm_hash c = replicate 16 0"
  shows "cm_given a bs [] c"
  using assms by (auto simp: cm_given_def cm_keyed_def cm_alloc_def cmac_cbc_def)

lemma cmac_cbc_append: "cmac_cbc E h (xs @ ys) = cmac_cbc E (cmac_cbc E h xs) ys"
  by (simp add: cmac_cbc_def)

lemma chunks_append_dvd:
  assumes "0 < n" "n dvd length xs"
  shows "chunks n (xs @ ys) = chunks n xs @ chunks n ys"
proof -
  have "length (remainder n xs) = 0" using assms(2) by simp
  then have "remainder n xs = []" by (simp only: length_0_conv)
  then show ?thesis using chunks_append[OF assms(1), of xs ys] by simp
qed

lemma size_sub_le: "n \<le> m \<Longrightarrow> m < 2 ^ 64 \<Longrightarrow> size_sub m n = m - n"
proof -
  assume a: "n \<le> m" "m < 2 ^ 64"
  then have "m + 2 ^ 64 - n = (m - n) + 2 ^ 64" by simp
  then show ?thesis using a by (simp only: size_sub_def mod_add_self2) simp
qed

lemma cm_givenI:
  assumes "cm_keyed a bs c" "msg = q @ t" "bs dvd length q" "length t \<le> bs" "t \<noteq> []"
    and "cm_nonzero_len c" "cm_boff c = length t" "take (length t) (cm_buf c) = t"
    and "take bs (cm_hash c) = cmac_cbc (ba_encrypt a) (replicate bs 0) (chunks bs q)"
  shows "cm_given a bs msg c"
  using assms unfolding cm_given_def by (intro conjI exI[of _ q] exI[of _ t]) simp_all

lemma cm_keyed_simps [simp]:
  "cm_keyed a bs (c\<lparr>cm_boff := k\<rparr>) = cm_keyed a bs c" "cm_keyed a bs (c\<lparr>cm_nonzero_len := z\<rparr>) = cm_keyed a bs c"
  by (simp_all add: cm_keyed_def cm_alloc_def)

lemma cm_keyed_buf: "length b = 16 \<Longrightarrow> cm_keyed a bs c \<Longrightarrow> cm_keyed a bs (c\<lparr>cm_buf := b\<rparr>)"
  by (simp add: cm_keyed_def cm_alloc_def)

lemma cm_keyed_hash: "length h = 16 \<Longrightarrow> cm_keyed a bs c \<Longrightarrow> cm_keyed a bs (c\<lparr>cm_hash := h\<rparr>)"
  by (simp add: cm_keyed_def cm_alloc_def)

text \<open>The second half of \<^verbatim>\<open>update\<close>, on a context with nothing in \<^verbatim>\<open>buf\<close>.\<close>

lemma cmac_blocks_given:
  assumes "cm_keyed a bs c" "cm_nonzero_len c" "bs dvd length p"
    "take bs (cm_hash c) = cmac_cbc (ba_encrypt a) (replicate bs 0) (chunks bs p)" "data \<noteq> []"
  shows "case cmac_blocks data c of (rest, c) \<Rightarrow> rest \<noteq> [] \<and>
     cm_given a bs (p @ data) (c\<lparr>cm_buf := put_bytes 0 rest (cm_buf c), cm_boff := length rest\<rparr>)"
proof -
  have al: "cm_alloc a bs c" "0 < bs" "bs \<le> 16" "length (cm_buf c) = 16" using assms(1) by (auto simp: cm_keyed_def cm_alloc_def)
  obtain q t h where r: "cmac_blocks data c = (t, c\<lparr>cm_hash := h\<rparr>)" "data = q @ t" "bs dvd length q"
    "0 < length t" "length t \<le> bs" "length h = 16"
    "take bs h = cmac_cbc (ba_encrypt a) (take bs (cm_hash c)) (chunks bs q)"
    by (rule cmac_blocks_cbc[OF al(1) assms(5)])
  have "take bs h = cmac_cbc (ba_encrypt a) (replicate bs 0) (chunks bs (p @ q))"
    using r(7) assms(3,4) al(2) by (simp add: chunks_append_dvd cmac_cbc_append)
  moreover have "take (length t) (put_bytes 0 t (cm_buf c)) = t" using r(5) al by (simp add: put_bytes_def)
  moreover have "cm_keyed a bs (c\<lparr>cm_hash := h, cm_buf := put_bytes 0 t (cm_buf c)\<rparr>)"
    using r(5,6) al assms(1) by (intro cm_keyed_buf cm_keyed_hash) simp_all
  moreover have "bs dvd length (p @ q)" using assms(3) r(3) by simp
  ultimately have "cm_given a bs (p @ data) (c\<lparr>cm_hash := h, cm_buf := put_bytes 0 t (cm_buf c), cm_boff := length t\<rparr>)"
    using r(2,4,5) assms(2) by (intro cm_givenI[of a bs _ _ "p @ q" t]) simp_all
  then show ?thesis using r(1,4) by simp
qed

text \<open>
  With 16-byte blocks every update is right. With 8-byte blocks, one that follows another is
  right as long as it does not end exactly with the block that was begun.
\<close>

lemma cmac_update_given:
  assumes "cm_given a bs msg c" "bs = 16 \<or> msg = [] \<or> length data + cm_boff c \<noteq> bs"
  obtains c' where "cmac_update data c = Some c'" "cm_given a bs (msg @ data) c'"
proof (cases "data = []")
  case True
  then show ?thesis using that[of c] assms(1) by (simp add: cmac_update_def)
next
  case ne: False
  obtain q t where g: "msg = q @ t" "bs dvd length q" "length t \<le> bs" "msg \<noteq> [] \<longrightarrow> t \<noteq> []"
    "cm_nonzero_len c = (msg \<noteq> [])" "cm_boff c = length t" "take (length t) (cm_buf c) = t"
    "take bs (cm_hash c) = cmac_cbc (ba_encrypt a) (replicate bs 0) (chunks bs q)"
    and keyed: "cm_keyed a bs c"
    using assms(1) by (auto simp: cm_given_def)
  have al: "cm_alloc a bs c" "0 < bs" "bs \<le> 16" "length (cm_buf c) = 16" "cm_blksize c = bs"
    using keyed by (auto simp: cm_keyed_def cm_alloc_def)
  let ?c = "c\<lparr>cm_nonzero_len := True\<rparr>"
  show ?thesis
  proof (cases "t = []")
    case True
    obtain r c1 where rc: "cmac_blocks data ?c = (r, c1)" by (cases "cmac_blocks data ?c")
    have "r \<noteq> [] \<and> cm_given a bs (q @ data) (c1\<lparr>cm_buf := put_bytes 0 r (cm_buf c1), cm_boff := length r\<rparr>)"
      using cmac_blocks_given[of a bs ?c q data] keyed g ne rc by simp
    moreover have "cmac_update data c = Some (c1\<lparr>cm_buf := put_bytes 0 r (cm_buf c1), cm_boff := length r\<rparr>)"
      using calculation True g(6) ne rc by (simp add: cmac_update_def Let_def)
    ultimately show ?thesis using that True g(1) by simp
  next
    case t: False
    define b where "b = min (bs - length t) (length data)"
    have size: "min (size_sub bs (length t)) (length data) = b" using g(3) al(3) by (simp add: size_sub_le b_def)
    have boff: "length t \<noteq> 0" "length t + b \<le> bs" using t g(3) by (auto simp: b_def)
    let ?buf = "put_bytes (length t) (take b data) (cm_buf c)"
    have lb: "length (take b data) = b" by (simp add: b_def)
    have buf: "length ?buf = 16" "take (length t + b) ?buf = t @ take b data"
      using boff g(6,7) al lb by (simp_all add: put_bytes_def)
    show ?thesis
    proof (cases "length t + length data \<le> bs")
      case True
      then have b: "b = length data" by (simp add: b_def)
      have full: "(if length t + b = bs then 16 else length t + b) = length (t @ data)"
        using assms(2) g(1,4,6) t b by (auto simp: add.commute)
      have upd: "cmac_update data c = Some (c\<lparr>cm_nonzero_len := True, cm_buf := ?buf,
          cm_boff := if length t + b = bs then 16 else length t + b\<rparr>)"
        using boff ne al(3,5) g(6) size b unfolding cmac_update_def Let_def
        by (simp add: cmac_blocks.simps[of "[]"])
      have "cm_given a bs (msg @ data) (c\<lparr>cm_nonzero_len := True, cm_buf := ?buf, cm_boff := length (t @ data)\<rparr>)"
        using g True keyed buf b t by (intro cm_givenI[of a bs _ _ q "t @ data"]) (simp_all add: cm_keyed_buf)
      then show ?thesis using that upd full by simp
    next
      case False
      then have b: "b = bs - length t" "length t + b = bs" "b < length data" using g(3) by (simp_all add: b_def)
      let ?c1 = "c\<lparr>cm_nonzero_len := True, cm_buf := ?buf, cm_boff := bs\<rparr>"
      have al1: "cm_alloc a bs ?c1" using al(1) buf(1) by (simp add: cm_alloc_def)
      obtain h where h: "process_block ?buf ?c1 = ?c1\<lparr>cm_hash := h\<rparr>" "length h = 16"
        "take bs h = ba_encrypt a (xor_bytes (take bs (cm_hash ?c1)) (take bs ?buf))"
        by (rule process_block_hash[OF al1, of ?buf]) (use buf al in auto)
      let ?c2 = "c\<lparr>cm_nonzero_len := True, cm_buf := ?buf, cm_hash := h, cm_boff := 0\<rparr>"
      have blk: "take bs ?buf = t @ take b data" using buf(2) b(2) by simp
      have lblk: "length (t @ take b data) = bs" using b lb by simp
      have hash: "take bs (cm_hash ?c2) = cmac_cbc (ba_encrypt a) (replicate bs 0) (chunks bs (q @ t @ take b data))"
        using h(3) g(2,8) al(2) blk chunks_block[OF al(2) lblk, of "[]"]
        by (simp add: chunks_append_dvd cmac_cbc_append) (simp add: cmac_cbc_def)
      have keyed2: "cm_keyed a bs ?c2" using keyed buf(1) h(2) by (simp add: cm_keyed_def cm_alloc_def)
      obtain r c3 where rc: "cmac_blocks (drop b data) ?c2 = (r, c3)" by (cases "cmac_blocks (drop b data) ?c2")
      have "bs dvd length (q @ t @ take b data)" using g(2) lblk by simp
      from cmac_blocks_given[OF keyed2 _ this hash, of "drop b data"]
      have fin: "r \<noteq> []" "cm_given a bs ((q @ t @ take b data) @ drop b data)
          (c3\<lparr>cm_buf := put_bytes 0 r (cm_buf c3), cm_boff := length r\<rparr>)"
        using b(3) rc by simp_all
      have "cmac_update data c = Some (c3\<lparr>cm_buf := put_bytes 0 r (cm_buf c3), cm_boff := length r\<rparr>)"
        using boff b(2,3) ne al(3,5) g(6) h(1) rc fin(1) size unfolding cmac_update_def Let_def
        by simp
      then show ?thesis using that fin(2) g(1) by simp
    qed
  qed
qed


lemma xor_aligned2_take:
  assumes "length x = 16" "length k = 16" "bs \<le> 16"
  shows "take bs (xor_aligned2 x k 16) = xor_bytes (take bs x) (take bs k)" "length (xor_aligned2 x k 16) = 16"
  using assms by (simp_all add: xor_aligned2_def xor_buffers2_def xor_buffers_def put_bytes_def xor_bytes_def take_map take_zip)

lemma cmac_final_given:
  assumes "cm_given a bs msg c" "cm_taglen c \<le> bs"
  obtains c' where "cmac_final c = Some (take (cm_taglen c) (CMAC (ba_encrypt a) bs msg), c')" "cm_keyed a bs c'"
    "cm_taglen c' = cm_taglen c"
proof -
  let ?E = "ba_encrypt a"
  obtain q t where g: "msg = q @ t" "bs dvd length q" "length t \<le> bs" "msg \<noteq> [] \<longrightarrow> t \<noteq> []"
    "cm_nonzero_len c = (msg \<noteq> [])" "cm_boff c = length t" "take (length t) (cm_buf c) = t"
    "take bs (cm_hash c) = cmac_cbc ?E (replicate bs 0) (chunks bs q)"
    and keyed: "cm_keyed a bs c"
    using assms(1) by (auto simp: cm_given_def)
  have al: "cm_alloc a bs c" "0 < bs" "bs \<le> 16" "length (cm_buf c) = 16" "length (cm_k1 c) = 16"
    "length (cm_k2 c) = 16" "cm_blksize c = bs" "take bs (cm_k1 c) = cmac_subkey1 ?E bs" "take bs (cm_k2 c) = cmac_subkey2 ?E bs"
    using keyed by (auto simp: cm_keyed_def cm_alloc_def)
  have tail: "(t = []) = (msg = [])" using g(1,4) by auto
  define pad where "pad = (put_bytes (length t) (replicate (bs - length t) 0) (cm_buf c))[length t := 0x80]"
  have pad: "length pad = 16" "length t < bs \<longrightarrow> take bs pad = t @ 0x80 # replicate (bs - length t - 1) 0"
  proof -
    show "length pad = 16" using g(3) al by (simp add: pad_def put_bytes_def)
    show "length t < bs \<longrightarrow> take bs pad = t @ 0x80 # replicate (bs - length t - 1) 0"
    proof
      assume lt: "length t < bs"
      then obtain m where m: "bs - length t = Suc m" using Suc_diff_Suc by metis
      have "length t + (bs - length t) = bs" using lt by simp
      then have "put_bytes (length t) (replicate (bs - length t) 0) (cm_buf c) = t @ replicate (bs - length t) 0 @ drop bs (cm_buf c)"
        using g(7) unfolding put_bytes_def by simp
      then have "put_bytes (length t) (replicate (bs - length t) 0) (cm_buf c) = t @ 0 # replicate m 0 @ drop bs (cm_buf c)"
        by (simp add: m)
      then have "pad = t @ 0x80 # replicate m 0 @ drop bs (cm_buf c)" by (simp add: pad_def list_update_append)
      moreover have "length (t @ 0x80 # replicate m (0 :: byte)) = bs" using m lt by simp
      ultimately have "take bs pad = t @ 0x80 # replicate m 0" by (metis append_assoc append_Cons append_eq_conv_conj)
      then show "take bs pad = t @ 0x80 # replicate (bs - length t - 1) 0" using m by simp
    qed
  qed
  have blank: "t = [] \<Longrightarrow> (put_bytes 1 (replicate (bs - 1) 0) (cm_buf c))[0 := 0x80] = pad"
    using al(2,3,4) by (cases "cm_buf c"; cases bs) (simp_all add: pad_def put_bytes_def)
  define buf where "buf = (if length t = bs then xor_aligned2 (cm_buf c) (cm_k1 c) 16 else xor_aligned2 pad (cm_k2 c) 16)"
  have buf: "length buf = 16" "take bs buf = cmac_last ?E bs t"
    using g(3,7) al(3-9) pad xor_aligned2_take[of "cm_buf c" "cm_k1 c" bs] xor_aligned2_take[of pad "cm_k2 c" bs]
    by (cases "length t = bs"; simp add: buf_def cmac_last_def)+
  have al1: "cm_alloc a bs (c\<lparr>cm_buf := buf\<rparr>)" using al(1) buf(1) by (simp add: cm_alloc_def)
  obtain h where h: "process_block buf (c\<lparr>cm_buf := buf\<rparr>) = c\<lparr>cm_buf := buf, cm_hash := h\<rparr>" "length h = 16"
    "take bs h = ?E (xor_bytes (take bs (cm_hash c)) (cmac_last ?E bs t))"
    by (rule process_block_hash[OF al1, of buf]) (use buf al in auto)
  have cut: "length q = bs * ((length msg - 1) div bs)"
  proof -
    obtain m where m: "length q = bs * m" using g(2) by (elim dvdE)
    have "(length msg - 1) div bs = m"
    proof (cases "t = []")
      case True
      then have "msg = []" using tail by (simp only:)
      moreover have "length q = 0" using calculation g(1) by simp
      ultimately show ?thesis using m al(2) by simp
    next
      case False
      then have "0 < length t" by simp
      moreover have "length msg = bs * m + length t" using g(1) m by simp
      ultimately have "length msg - 1 = bs * m + (length t - 1)" "length t - 1 < bs" using g(3) by linarith+
      then show ?thesis by simp
    qed
    then show ?thesis using m by simp
  qed
  then have "take bs h = CMAC ?E bs msg"
    using h(3) g(1,8) by (simp add: CMAC_def Let_def cut[symmetric])
  then have tag: "take (cm_taglen c) h = take (cm_taglen c) (CMAC ?E bs msg)"
    using assms(2) by (metis min_def take_take)
  have final: "cmac_final c = (let c = process_block buf (c\<lparr>cm_buf := buf\<rparr>)
      in if 16 < cm_taglen c then None else Some (take (cm_taglen c) (cm_hash c), c))"
  proof (cases "t = []")
    case True
    then have "msg = []" "length t \<noteq> bs" "length t = 0" using tail al(2) by auto
    then show ?thesis using g(5,6) al(7) blank[OF True] by (simp add: cmac_final_def buf_def)
  next
    case False
    then have "msg \<noteq> []" "\<not> bs < length t" using tail g(3) by auto
    then show ?thesis using g(5,6) al(7) by (simp add: cmac_final_def buf_def pad_def)
  qed
  have "cmac_final c = Some (take (cm_taglen c) (CMAC ?E bs msg), c\<lparr>cm_buf := buf, cm_hash := h\<rparr>)"
    unfolding final h(1) Let_def using tag al(3) assms(2) by simp
  moreover have "cm_keyed a bs (c\<lparr>cm_buf := buf, cm_hash := h\<rparr>)"
    using keyed buf(1) h(2) by (simp add: cm_keyed_def cm_alloc_def)
  ultimately show ?thesis using that by simp
qed

text \<open>A sequence of updates, as the callers make them.\<close>

definition cmac_updates :: "byte list list \<Rightarrow> cmac \<Rightarrow> cmac option" where
  "cmac_updates ds c = foldl (\<lambda>c d. Option.bind c (cmac_update d)) (Some c) ds"

lemma cmac_update_taglen: "cmac_update d c = Some c' \<Longrightarrow> cm_taglen c' = cm_taglen c"
proof -
  have pb: "cm_taglen (process_block x s) = cm_taglen s" for x s by (simp add: process_block_def Let_def)
  have blocks: "cmac_blocks d s = (t, s') \<Longrightarrow> cm_taglen s' = cm_taglen s" for d s t s'
    by (induction d s rule: cmac_blocks.induct) (subst (asm) (2) cmac_blocks.simps, auto simp: pb split: if_splits)
  show "cmac_update d c = Some c' \<Longrightarrow> cm_taglen c' = cm_taglen c"
    by (auto simp: cmac_update_def Let_def pb split: if_splits prod.splits dest!: blocks)
qed

lemma cmac_updates_given:
  assumes "cm_given a 16 msg c"
  shows "\<exists>c'. cmac_updates ds c = Some c' \<and> cm_given a 16 (msg @ concat ds) c' \<and> cm_taglen c' = cm_taglen c"
  using assms
proof (induction ds arbitrary: msg c)
  case Nil
  then show ?case by (simp add: cmac_updates_def)
next
  case (Cons d ds)
  obtain c1 where c1: "cmac_update d c = Some c1" "cm_given a 16 (msg @ d) c1"
    by (rule cmac_update_given[OF Cons.prems, of d]) simp
  show ?case using Cons.IH[OF c1(2)] c1(1) cmac_update_taglen[OF c1(1)] by (simp add: cmac_updates_def)
qed

lemma cmac_setkey_keeps [simp]:
  "cm_boff (snd (cmac_setkey setkey key c)) = cm_boff c" "cm_taglen (snd (cmac_setkey setkey key c)) = cm_taglen c"
  "cm_nonzero_len (snd (cmac_setkey setkey key c)) = cm_nonzero_len c" "cm_hash (snd (cmac_setkey setkey key c)) = cm_hash c"
  "cm_buf (snd (cmac_setkey setkey key c)) = cm_buf c"
  by (simp_all add: cmac_setkey_def Let_def)

text \<open>The life of a context with 16-byte blocks.\<close>

lemma cmac_run:
  assumes "good_algo a" "ba_blksize a = 16" "good_algo (setkey key a)" "ba_blksize (setkey key a) = 16" "tag \<le> 16"
  shows "\<exists>c. cmac_init True (Some a) tag = (0, Some c) \<and>
     (\<exists>d e. cmac_updates ps (snd (cmac_setkey setkey key c)) = Some d \<and>
       cmac_final d = Some (take (if tag = 0 then 16 else tag) (CMAC (ba_encrypt (setkey key a)) 16 (concat ps)), e))"
proof -
  let ?z = "replicate 16 0"
  let ?c = "\<lparr>cm_buf = ?z, cm_hash = ?z, cm_k1 = ?z, cm_k2 = ?z, cm_blksize = 16, cm_boff = 0,
                   cm_taglen = if tag \<noteq> 0 then tag else 16, cm_block = a, cm_nonzero_len = False\<rparr>"
  have init: "cmac_init True (Some a) tag = (0, Some ?c)" using assms(2) by (simp add: cmac_init_def Let_def)
  let ?k = "snd (cmac_setkey setkey key ?c)"
  have "cm_alloc a 16 ?c" using assms(1,2) by (simp add: cm_alloc_def)
  then have "cm_keyed (setkey key a) 16 ?k" by (rule cmac_setkey_keyed) (use assms in simp_all)
  then have "cm_given (setkey key a) 16 [] ?k" by (rule cm_given_init) simp_all
  from cmac_updates_given[OF this, of ps]
  obtain d where d: "cmac_updates ps ?k = Some d" "cm_given (setkey key a) 16 (concat ps) d"
    "cm_taglen d = (if tag = 0 then 16 else tag)" by auto
  have "cm_taglen d \<le> 16" using d(3) assms(5) by simp
  from cmac_final_given[OF d(2) this]
  obtain e where "cmac_final d = Some (take (cm_taglen d) (CMAC (ba_encrypt (setkey key a)) 16 (concat ps)), e)" .
  then show ?thesis using init d(1,3) by auto
qed

text \<open>
  8-byte blocks: an update that completes the block another one began leaves the offset outside
  the block, and \<^verbatim>\<open>final\<close> clears \<open>8 - 16\<close> bytes.
\<close>

lemma cmac_final_wraps:
  assumes "cm_given a 8 msg c" "msg \<noteq> []" "cm_boff c < 8" "length data + cm_boff c = 8"
  shows "\<exists>c'. cmac_update data c = Some c' \<and> cm_blksize c' = 8 \<and> cm_boff c' = 16 \<and>
    size_sub (cm_blksize c') (cm_boff c') = 2 ^ 64 - 8 \<and> cmac_final c' = None"
proof -
  have c: "cm_blksize c = 8" "cm_boff c \<noteq> 0" "data \<noteq> []"
    using assms by (auto simp: cm_given_def cm_keyed_def cm_alloc_def)
  then have "min (size_sub 8 (cm_boff c)) (length data) = length data" "cm_boff c + length data = 8"
    using assms(3,4) by (simp_all add: size_sub_le)
  moreover have "size_sub 8 16 = 2 ^ 64 - 8" by (simp add: size_sub_def)
  ultimately show ?thesis
    using c assms(3) by (simp add: cmac_update_def cmac_final_def Let_def cmac_blocks.simps[of "[]"])
qed

end
