(* ===== verification/Mem.thy ===== *)
theory Mem
  imports Block_Plugin "HOL-Library.Monad_Syntax"
begin

text \<open>
  \<^verbatim>\<open>lib/libdrew/mem.c\<close>: the allocator, with its list of secure blocks. The world has the
  memory given out by the C library, the nodes of the lists with their \<^verbatim>\<open>next\<close> pointers,
  the pools, the pages locked in memory, and what was in a block when it was given back. The answers of
  the C library and of the system to a call are an argument. \<open>None\<close> is a step without a meaning: a pointer
  that points to nothing, a block freed twice, a write beyond a block, a list without an end. Locking
  of the mutex is left out: the calls come one after another.
\<close>

section \<open>The state\<close>

record allocation =
  al_next :: nat
  al_mem :: nat
  al_size :: nat
  al_block :: nat

record pool =
  pl_pgsize :: nat
  pl_inited :: bool
  pl_flags :: u32
  pl_alloc :: nat

record world =
  heap :: "nat \<rightharpoonup> byte list"
  nodes :: "nat \<rightharpoonup> allocation"
  pools :: "nat \<rightharpoonup> pool"
  locked :: "nat set"
  released :: "(nat \<times> byte list) list"
  errno :: int

text \<open>
  How it was compiled and where it runs: \<^verbatim>\<open>ODD_MLOCK_OK\<close>, \<^verbatim>\<open>ALWAYS_ZERO\<close>, the macro
  \<^verbatim>\<open>PAGESIZE\<close> (0 if there is none), the answer of \<^verbatim>\<open>sysconf\<close>, the size of the pages.
\<close>

record config =
  ODD_MLOCK_OK :: bool
  ALWAYS_ZERO :: bool
  PAGESIZE :: nat
  sysconf :: int
  os_page :: nat

text \<open>
  The answers to one call: the error code of the allocation or its address and what the memory held;
  the address of the node or 0; whether the pages could be locked.
\<close>

record answers =
  os_mem :: "int + nat \<times> byte list"
  os_node :: nat
  os_mlock :: bool

definition mempool :: nat where
  "mempool = 1"

definition ENOMEM_errno :: int where
  "ENOMEM_errno = 12"

definition EINVAL_errno :: int where
  "EINVAL_errno = 22"

definition DREW_MEM_SECMEM :: int where
  "DREW_MEM_SECMEM = 1"

definition DREW_MEM_ALLOC :: int where
  "DREW_MEM_ALLOC = 2"

definition DREW_MEM_POOL :: int where
  "DREW_MEM_POOL = 3"

definition DREW_MEM_SECMEM_FAIL_OK :: u32 where
  "DREW_MEM_SECMEM_FAIL_OK = 1"

definition DREW_MEM_SECMEM_NO_LOCK :: u32 where
  "DREW_MEM_SECMEM_NO_LOCK = 2"

section \<open>What the C library does\<close>

definition os_free :: "nat \<Rightarrow> world \<Rightarrow> world option" where
  "os_free a w =
     (if a = 0 then Some w
      else case heap w a of None \<Rightarrow> None
        | Some bs \<Rightarrow> Some (w\<lparr>heap := (heap w)(a := None), released := (a, bs) # released w\<rparr>))"

definition os_write :: "nat \<Rightarrow> nat \<Rightarrow> byte list \<Rightarrow> world \<Rightarrow> world option" where
  "os_write a off xs w =
     (case heap w a of None \<Rightarrow> None
      | Some bs \<Rightarrow>
        if length bs < off + length xs then None else Some (w\<lparr>heap := (heap w)(a \<mapsto> put_bytes off xs bs)\<rparr>))"

text \<open>The pages that contain a byte of a range, which is what \<^verbatim>\<open>mlock\<close> and \<^verbatim>\<open>munlock\<close>
  work on; locks are not counted.\<close>

definition pages :: "nat \<Rightarrow> nat \<Rightarrow> nat \<Rightarrow> nat set" where
  "pages pg a n = (if n = 0 then {} else {a div pg .. (a + n - 1) div pg})"

section \<open>The functions\<close>

definition init_pool :: "config \<Rightarrow> world \<Rightarrow> world option" where
  "init_pool cfg w =
     (if PAGESIZE cfg \<noteq> 0 then Some w
      else do {
        pl \<leftarrow> pools w mempool;
        Some (if pl_inited pl then w
              else
                let pl = (if pl_pgsize pl = 0
                          then pl\<lparr>pl_pgsize := if sysconf cfg \<le> 0 then 4096 else nat (sysconf cfg)\<rparr> else pl)
                in w\<lparr>pools := (pools w)(mempool \<mapsto> pl\<lparr>pl_inited := True\<rparr>)\<rparr>)
      })"

definition block_size :: "config \<Rightarrow> nat \<Rightarrow> nat \<Rightarrow> nat" where
  "block_size cfg pgsize n =
     (if ODD_MLOCK_OK cfg then n
      else let mask = NOT (of_nat pgsize - 1) :: u64
           in unat ((of_nat n + (of_nat pgsize - 1)) AND mask))"

definition create_entry ::
    "config \<Rightarrow> nat \<Rightarrow> nat \<Rightarrow> nat \<Rightarrow> bool \<Rightarrow> nat \<Rightarrow> world \<Rightarrow> (nat \<times> world) option" where
  "create_entry cfg poolp p n secure new w =
     (if p = 0 then Some (0, w)
      else if new = 0 then Some (0, w)
      else do {
        pl \<leftarrow> pools w poolp;
        Some (new, w\<lparr>nodes := (nodes w)(new \<mapsto> \<lparr>al_next = pl_alloc pl, al_mem = p, al_size = n,
          al_block = if secure then block_size cfg (pl_pgsize pl) n else 0\<rparr>)\<rparr>)
      })"

definition do_allocate ::
    "config \<Rightarrow> answers \<Rightarrow> nat \<Rightarrow> nat \<Rightarrow> bool \<Rightarrow> bool \<Rightarrow> world \<Rightarrow> (nat \<times> world) option" where
  "do_allocate cfg os poolp n secure clear w =
     (if n = 0 then Some (0, w)
      else case os_mem os of
        Inl res \<Rightarrow> Some (0, w\<lparr>errno := if \<not> secure \<or> ODD_MLOCK_OK cfg then ENOMEM_errno else res\<rparr>)
      | Inr (p, held) \<Rightarrow>
        let w = w\<lparr>heap := (heap w)(p \<mapsto> if clear then replicate n 0 else held)\<rparr> in
        do {
          pl \<leftarrow> pools w poolp;
          (new, w) \<leftarrow> (if secure \<or> ALWAYS_ZERO cfg then create_entry cfg poolp p n secure (os_node os) w else Some (0, w));
          if (secure \<or> ALWAYS_ZERO cfg) \<and> new = 0
          then do { w \<leftarrow> os_free p w; Some (0, w) }
          else if secure \<and> pl_flags pl AND DREW_MEM_SECMEM_NO_LOCK = 0 \<and> \<not> os_mlock os \<and>
                  pl_flags pl AND DREW_MEM_SECMEM_FAIL_OK = 0
          then do { w \<leftarrow> os_free p w; Some (0, w\<lparr>nodes := (nodes w)(new := None)\<rparr>) }
          else
            let w = (if secure \<and> pl_flags pl AND DREW_MEM_SECMEM_NO_LOCK = 0 \<and> os_mlock os
                     then w\<lparr>locked := locked w \<union> pages (os_page cfg) p (al_block (the (nodes w new)))\<rparr> else w);
                w = (if new \<noteq> 0 then w\<lparr>pools := (pools w)(poolp \<mapsto> pl\<lparr>pl_alloc := new\<rparr>)\<rparr> else w)
            in Some (p, w)
        })"

definition allocate ::
    "config \<Rightarrow> answers \<Rightarrow> nat \<Rightarrow> nat \<Rightarrow> bool \<Rightarrow> bool \<Rightarrow> world \<Rightarrow> (nat \<times> world) option" where
  "allocate cfg os poolp n secure clear w =
     (if n = 0 then Some (0, w)
      else do {
        w \<leftarrow> (if poolp = 0 then init_pool cfg w else Some w);
        do_allocate cfg os (if poolp = 0 then mempool else poolp) n secure clear w
      })"

definition drew_mem_pool_adjust :: "config \<Rightarrow> nat \<Rightarrow> int \<Rightarrow> u32 \<Rightarrow> world \<Rightarrow> (int \<times> world) option" where
  "drew_mem_pool_adjust cfg poolp op flags w =
     (if poolp \<noteq> 0 then Some (- DREW_ERR_INVALID, w)
      else if op \<noteq> DREW_MEM_SECMEM
      then Some (if op = DREW_MEM_ALLOC \<or> op = DREW_MEM_POOL then - DREW_ERR_NOT_IMPL else - DREW_ERR_INVALID, w)
      else do {
        w \<leftarrow> init_pool cfg w;
        pl \<leftarrow> pools w mempool;
        Some (0, w\<lparr>pools := (pools w)(mempool \<mapsto> pl\<lparr>pl_flags := flags\<rparr>)\<rparr>)
      })"

text \<open>\<open>xs\<close> is what is at the pointer to copy from.\<close>

definition drew_mem_pmemdup :: "config \<Rightarrow> answers \<Rightarrow> nat \<Rightarrow> byte list \<Rightarrow> world \<Rightarrow> (nat \<times> world) option" where
  "drew_mem_pmemdup cfg os poolp xs w =
     do {
       (p, w) \<leftarrow> allocate cfg os poolp (length xs) False False w;
       if p \<noteq> 0 then do { w \<leftarrow> os_write p 0 xs w; Some (p, w) } else Some (p, w)
     }"

definition drew_mem_psmemdup :: "config \<Rightarrow> answers \<Rightarrow> nat \<Rightarrow> byte list \<Rightarrow> world \<Rightarrow> (nat \<times> world) option" where
  "drew_mem_psmemdup cfg os poolp xs w =
     do {
       (p, w) \<leftarrow> allocate cfg os poolp (length xs) True False w;
       if p \<noteq> 0 then do { w \<leftarrow> os_write p 0 xs w; Some (p, w) } else Some (p, w)
     }"

definition drew_mem_pmalloc :: "config \<Rightarrow> answers \<Rightarrow> nat \<Rightarrow> nat \<Rightarrow> world \<Rightarrow> (nat \<times> world) option" where
  "drew_mem_pmalloc cfg os poolp n w = allocate cfg os poolp n False False w"

definition drew_mem_psmalloc :: "config \<Rightarrow> answers \<Rightarrow> nat \<Rightarrow> nat \<Rightarrow> world \<Rightarrow> (nat \<times> world) option" where
  "drew_mem_psmalloc cfg os poolp n w = allocate cfg os poolp n True False w"

text \<open>The product wraps round.\<close>

definition drew_mem_pcalloc :: "config \<Rightarrow> answers \<Rightarrow> nat \<Rightarrow> nat \<Rightarrow> nat \<Rightarrow> world \<Rightarrow> (nat \<times> world) option" where
  "drew_mem_pcalloc cfg os poolp nmemb n w = allocate cfg os poolp (nmemb * n mod 2 ^ 64) False True w"

definition drew_mem_pscalloc :: "config \<Rightarrow> answers \<Rightarrow> nat \<Rightarrow> nat \<Rightarrow> nat \<Rightarrow> world \<Rightarrow> (nat \<times> world) option" where
  "drew_mem_pscalloc cfg os poolp nmemb n w = allocate cfg os poolp (nmemb * n mod 2 ^ 64) True True w"

text \<open>The loop of \<^verbatim>\<open>drew_mem_psfree\<close> from the node \<open>p\<close>.\<close>

partial_function (option) psfree_loop :: "config \<Rightarrow> nat \<Rightarrow> nat \<Rightarrow> nat \<Rightarrow> nat \<Rightarrow> world \<Rightarrow> world option" where
  "psfree_loop cfg poolp ptr before p w =
     (if p = 0 then Some w
      else do {
        nd \<leftarrow> nodes w p;
        if ptr = al_mem nd
        then do {
          w \<leftarrow> os_write ptr 0 (replicate (al_size nd) 0) w;
          w \<leftarrow> Some (if al_block nd \<noteq> 0 then w\<lparr>locked := locked w - pages (os_page cfg) (al_mem nd) (al_block nd)\<rparr> else w);
          pl \<leftarrow> pools w poolp;
          w \<leftarrow> (if pl_alloc pl = p then Some (w\<lparr>pools := (pools w)(poolp \<mapsto> pl\<lparr>pl_alloc := al_next nd\<rparr>)\<rparr>)
               else do { pn \<leftarrow> nodes w before; Some (w\<lparr>nodes := (nodes w)(before \<mapsto> pn\<lparr>al_next := al_next nd\<rparr>)\<rparr>) });
          Some (w\<lparr>nodes := (nodes w)(p := None)\<rparr>)
        }
        else psfree_loop cfg poolp ptr p (al_next nd) w
      })"

definition drew_mem_psfree :: "config \<Rightarrow> nat \<Rightarrow> nat \<Rightarrow> world \<Rightarrow> world option" where
  "drew_mem_psfree cfg poolp ptr w =
     (if ptr = 0 then Some w
      else do {
        w \<leftarrow> (if poolp = 0 then init_pool cfg w else Some w);
        pl \<leftarrow> pools w (if poolp = 0 then mempool else poolp);
        w \<leftarrow> psfree_loop cfg (if poolp = 0 then mempool else poolp) ptr (pl_alloc pl) (pl_alloc pl) w;
        os_free ptr w
      })"

definition drew_mem_pfree :: "config \<Rightarrow> nat \<Rightarrow> nat \<Rightarrow> world \<Rightarrow> world option" where
  "drew_mem_pfree cfg poolp ptr w = (if ALWAYS_ZERO cfg then drew_mem_psfree cfg poolp ptr w else os_free ptr w)"

partial_function (option) realloc_loop :: "nat \<Rightarrow> nat \<Rightarrow> world \<Rightarrow> nat option" where
  "realloc_loop ptr p w =
     (if p = 0 then Some 0
      else do { nd \<leftarrow> nodes w p; if ptr = al_mem nd then Some (al_size nd) else realloc_loop ptr (al_next nd) w })"

text \<open>The plain branch is \<^verbatim>\<open>realloc\<close>, which keeps what fits and may move the block.\<close>

definition do_realloc ::
    "config \<Rightarrow> answers \<Rightarrow> nat \<Rightarrow> nat \<Rightarrow> nat \<Rightarrow> nat \<Rightarrow> bool \<Rightarrow> world \<Rightarrow> (nat \<times> world) option" where
  "do_realloc cfg os poolp ptr new n secure w =
     (if secure \<or> ALWAYS_ZERO cfg
      then do {
        pl \<leftarrow> pools w poolp;
        oldsize \<leftarrow> realloc_loop ptr (pl_alloc pl) w;
        if oldsize = 0 then do { w \<leftarrow> os_free new w; Some (0, w\<lparr>errno := EINVAL_errno\<rparr>) }
        else do {
          bs \<leftarrow> heap w ptr;
          w \<leftarrow> os_write new 0 (take (min n oldsize) bs) w;
          w \<leftarrow> (if oldsize < n then os_write new oldsize (replicate (n - oldsize) 0) w else Some w);
          w \<leftarrow> drew_mem_pfree cfg 0 ptr w;
          Some (new, w)
        }
      }
      else case os_mem os of
          Inl res \<Rightarrow> Some (0, w\<lparr>errno := ENOMEM_errno\<rparr>)
        | Inr (p, held) \<Rightarrow>
          do {
            bs \<leftarrow> heap w ptr;
            w \<leftarrow> os_free ptr w;
            Some (p, w\<lparr>heap := (heap w)(p \<mapsto> put_bytes 0 (take n bs) held)\<rparr>)
          })"

text \<open>\<open>os\<close> answers the allocation, \<open>os'\<close> what comes after it.\<close>

definition drew_mem_psrealloc ::
    "config \<Rightarrow> answers \<Rightarrow> answers \<Rightarrow> nat \<Rightarrow> nat \<Rightarrow> nat \<Rightarrow> world \<Rightarrow> (nat \<times> world) option" where
  "drew_mem_psrealloc cfg os os' poolp ptr n w =
     (if ptr = 0 then drew_mem_psmalloc cfg os poolp n w
      else if n = 0 then do { w \<leftarrow> drew_mem_psfree cfg poolp ptr w; Some (0, w) }
      else do {
        (new, w) \<leftarrow> drew_mem_psmalloc cfg os poolp n w;
        if new = 0 then Some (0, w) else do_realloc cfg os' poolp ptr new n True w
      })"

definition drew_mem_prealloc ::
    "config \<Rightarrow> answers \<Rightarrow> answers \<Rightarrow> nat \<Rightarrow> nat \<Rightarrow> nat \<Rightarrow> world \<Rightarrow> (nat \<times> world) option" where
  "drew_mem_prealloc cfg os os' poolp ptr n w =
     (if ptr = 0 then drew_mem_pmalloc cfg os poolp n w
      else if n = 0 then do { w \<leftarrow> drew_mem_pfree cfg poolp ptr w; Some (0, w) }
      else if ALWAYS_ZERO cfg
      then do {
        (new, w) \<leftarrow> drew_mem_pmalloc cfg os poolp n w;
        if new = 0 then Some (0, w) else do_realloc cfg os' poolp ptr new n False w
      }
      else do_realloc cfg os' poolp ptr 0 n False w)"

text \<open>The functions without a pool pass a null pointer.\<close>

definition drew_mem_memdup where "drew_mem_memdup cfg os = drew_mem_pmemdup cfg os 0"
definition drew_mem_smemdup where "drew_mem_smemdup cfg os = drew_mem_psmemdup cfg os 0"
definition drew_mem_malloc where "drew_mem_malloc cfg os = drew_mem_pmalloc cfg os 0"
definition drew_mem_smalloc where "drew_mem_smalloc cfg os = drew_mem_psmalloc cfg os 0"
definition drew_mem_calloc where "drew_mem_calloc cfg os = drew_mem_pcalloc cfg os 0"
definition drew_mem_scalloc where "drew_mem_scalloc cfg os = drew_mem_pscalloc cfg os 0"
definition drew_mem_sfree where "drew_mem_sfree cfg = drew_mem_psfree cfg 0"
definition drew_mem_free where "drew_mem_free cfg = drew_mem_pfree cfg 0"
definition drew_mem_srealloc where "drew_mem_srealloc cfg os os' = drew_mem_psrealloc cfg os os' 0"
definition drew_mem_realloc where "drew_mem_realloc cfg os os' = drew_mem_prealloc cfg os os' 0"

section \<open>Lists of nodes\<close>

text \<open>The nodes \<open>as\<close> lead from \<open>p\<close> to \<open>q\<close>.\<close>

primrec lseg :: "(nat \<rightharpoonup> allocation) \<Rightarrow> nat \<Rightarrow> nat list \<Rightarrow> nat \<Rightarrow> bool" where
  "lseg ns p [] q \<longleftrightarrow> p = q"
| "lseg ns p (a # as) q \<longleftrightarrow> p = a \<and> a \<noteq> 0 \<and> (case ns a of None \<Rightarrow> False | Some nd \<Rightarrow> lseg ns (al_next nd) as q)"

abbreviation chain :: "(nat \<rightharpoonup> allocation) \<Rightarrow> nat \<Rightarrow> nat list \<Rightarrow> bool" where
  "chain ns p as \<equiv> lseg ns p as 0"

lemma lseg_append: "lseg ns p (xs @ ys) q \<longleftrightarrow> (\<exists>r. lseg ns p xs r \<and> lseg ns r ys q)"
  by (induction xs arbitrary: p) (auto split: option.splits)

lemma lseg_upd [simp]: "a \<notin> set as \<Longrightarrow> lseg (ns(a := v)) p as q = lseg ns p as q"
  by (induction as arbitrary: p) (auto split: option.splits)

lemma chain_nodes: "lseg ns p as q \<Longrightarrow> a \<in> set as \<Longrightarrow> a \<noteq> 0 \<and> ns a \<noteq> None"
  by (induction as arbitrary: p) (auto split: option.splits)

lemma chain_unique: "chain ns p as \<Longrightarrow> chain ns p bs \<Longrightarrow> as = bs"
proof (induction as arbitrary: p bs)
  case (Cons a as)
  then show ?case by (cases bs) (auto split: option.splits)
next
  case Nil
  then show ?case by (cases bs) auto
qed

lemma chain_distinct: "chain ns p as \<Longrightarrow> distinct as"
proof (induction as arbitrary: p)
  case (Cons a as)
  obtain nd where nd: "ns a = Some nd" "chain ns (al_next nd) as" using Cons.prems by (auto split: option.splits)
  have "a \<notin> set as"
  proof
    assume "a \<in> set as"
    then obtain xs ys where as: "as = xs @ a # ys" by (auto simp: in_set_conv_decomp)
    then have "chain ns (al_next nd) ys" using nd by (auto simp: lseg_append split: option.splits)
    then show False using chain_unique[OF nd(2)] as by (metis append_Cons append_assoc length_Cons length_append
          less_add_Suc2 less_not_refl)
  qed
  then show ?case using Cons.IH[OF nd(2)] by simp
qed simp

text \<open>Taking a node out, by its predecessor's pointer or as the head.\<close>

lemma chain_unlink:
  assumes "chain ns p (xs @ x # a # ys)" "ns x = Some nx" "ns a = Some na"
  shows "chain (ns(x \<mapsto> nx\<lparr>al_next := al_next na\<rparr>, a := None)) p (xs @ x # ys)"
proof -
  have d: "distinct (xs @ x # a # ys)" by (rule chain_distinct[OF assms(1)])
  have "lseg ns p xs x" "chain ns (al_next na) ys" "x \<noteq> 0" using assms by (auto simp: lseg_append split: option.splits)
  then show ?thesis using d by (auto simp: lseg_append fun_upd_other)
qed

section \<open>The loop of psfree\<close>

definition psfree_hit :: "config \<Rightarrow> nat \<Rightarrow> nat \<Rightarrow> nat \<Rightarrow> allocation \<Rightarrow> world \<Rightarrow> world option" where
  "psfree_hit cfg poolp before p nd w =
     do {
       w \<leftarrow> os_write (al_mem nd) 0 (replicate (al_size nd) 0) w;
       w \<leftarrow> Some (if al_block nd \<noteq> 0 then w\<lparr>locked := locked w - pages (os_page cfg) (al_mem nd) (al_block nd)\<rparr> else w);
       pl \<leftarrow> pools w poolp;
       w \<leftarrow> (if pl_alloc pl = p then Some (w\<lparr>pools := (pools w)(poolp \<mapsto> pl\<lparr>pl_alloc := al_next nd\<rparr>)\<rparr>)
            else do { pn \<leftarrow> nodes w before; Some (w\<lparr>nodes := (nodes w)(before \<mapsto> pn\<lparr>al_next := al_next nd\<rparr>)\<rparr>) });
       Some (w\<lparr>nodes := (nodes w)(p := None)\<rparr>)
     }"

abbreviation mem_of :: "world \<Rightarrow> nat \<Rightarrow> nat" where
  "mem_of w a \<equiv> al_mem (the (nodes w a))"

lemma psfree_loop_hit:
  assumes "chain (nodes w) p (xs @ a # ys)" "nodes w a = Some nd" "ptr \<notin> mem_of w ` set xs" "al_mem nd = ptr"
  shows "psfree_loop cfg poolp ptr before p w = psfree_hit cfg poolp (last (before # xs)) a nd w"
  using assms(1,3)
proof (induction xs arbitrary: p before)
  case Nil
  then show ?case using assms(2,4) by (simp add: psfree_loop.simps[of _ _ _ _ a] psfree_hit_def)
next
  case (Cons x xs)
  obtain nx where x: "nodes w x = Some nx" "p = x" "x \<noteq> 0" "chain (nodes w) (al_next nx) (xs @ a # ys)"
    using Cons.prems(1) by (auto split: option.splits)
  then have "ptr \<noteq> al_mem nx" using Cons.prems(2) by auto
  then have "psfree_loop cfg poolp ptr before p w = psfree_loop cfg poolp ptr x (al_next nx) w"
    using x by (simp add: psfree_loop.simps[of _ _ _ _ x])
  then show ?case using Cons.IH[OF x(4), of x] Cons.prems(2) by simp
qed

lemma psfree_loop_miss:
  "chain (nodes w) p as \<Longrightarrow> ptr \<notin> mem_of w ` set as \<Longrightarrow> psfree_loop cfg poolp ptr before p w = Some w"
proof (induction as arbitrary: p before)
  case (Cons a as)
  then obtain nd where "nodes w a = Some nd" "p = a" "a \<noteq> 0" "chain (nodes w) (al_next nd) as" "ptr \<noteq> al_mem nd"
    by (auto split: option.splits)
  then show ?case using Cons.IH[of "al_next nd" a] Cons.prems(2) by (simp add: psfree_loop.simps[of _ _ _ _ a])
qed (simp add: psfree_loop.simps)

section \<open>The pool as a list of blocks\<close>

text \<open>An entry without its pointer: address, size, and how much of it is locked, 0 if it is not secure.\<close>

definition entry :: "world \<Rightarrow> nat \<Rightarrow> nat \<times> nat \<times> nat" where
  "entry w a = (let nd = the (nodes w a) in (al_mem nd, al_size nd, al_block nd))"

definition holds :: "world \<Rightarrow> (nat \<times> nat \<times> nat) list \<Rightarrow> bool" where
  "holds w es \<longleftrightarrow> (\<exists>pl as. pools w mempool = Some pl \<and> chain (nodes w) (pl_alloc pl) as \<and> map (entry w) as = es \<and>
     distinct (map fst es) \<and> (\<forall>(m, n, b)\<in>set es. \<exists>bs. heap w m = Some bs \<and> length bs = n))"

text \<open>The blocks of the C library: not at 0, not empty, not overlapping.\<close>

definition heap_ok :: "world \<Rightarrow> bool" where
  "heap_ok w \<longleftrightarrow> heap w 0 = None \<and> (\<forall>a bs. heap w a = Some bs \<longrightarrow> bs \<noteq> []) \<and>
     (\<forall>a b xs ys. heap w a = Some xs \<longrightarrow> heap w b = Some ys \<longrightarrow> a < b \<longrightarrow> a + length xs \<le> b)"

definition init_of :: "config \<Rightarrow> pool \<Rightarrow> pool" where
  "init_of cfg pl =
     (if PAGESIZE cfg \<noteq> 0 \<or> pl_inited pl then pl
      else (if pl_pgsize pl = 0 then pl\<lparr>pl_pgsize := if sysconf cfg \<le> 0 then 4096 else nat (sysconf cfg)\<rparr> else pl)
        \<lparr>pl_inited := True\<rparr>)"

lemma init_of_keeps [simp]: "pl_alloc (init_of cfg pl) = pl_alloc pl" "pl_flags (init_of cfg pl) = pl_flags pl"
  by (simp_all add: init_of_def)

lemma init_pool_init_of:
  "pools w mempool = Some pl \<Longrightarrow> init_pool cfg w = Some (w\<lparr>pools := (pools w)(mempool \<mapsto> init_of cfg pl)\<rparr>)"
  by (auto simp: init_pool_def init_of_def Let_def fun_upd_idem)

lemma put_bytes_0_all: "length xs = length bs \<Longrightarrow> put_bytes 0 xs bs = xs"
  by (simp add: put_bytes_def)

lemma holds_same:
  assumes "nodes w' = nodes w" "heap w' = heap w" "pools w mempool = Some pl" "pools w' mempool = Some pl'"
    and "pl_alloc pl' = pl_alloc pl"
  shows "holds w' es = holds w es"
proof -
  have "entry w' = entry w" using assms(1) by (simp add: entry_def fun_eq_iff)
  then show ?thesis using assms by (simp add: holds_def)
qed

text \<open>
  Giving a block back: it is cleared if the pool knows it, its pages are unlocked, its entry is
  gone, and nothing else changes.
\<close>

definition free_pages :: "config \<Rightarrow> nat \<Rightarrow> (nat \<times> nat \<times> nat) list \<Rightarrow> nat set" where
  "free_pages cfg ptr es = (\<Union>(m, n, b)\<in>set es. if m = ptr then pages (os_page cfg) m b else {})"

definition freed :: "config \<Rightarrow> nat \<Rightarrow> (nat \<times> nat \<times> nat) list \<Rightarrow> world \<Rightarrow> world \<Rightarrow> bool" where
  "freed cfg ptr es w w' \<longleftrightarrow> holds w' (filter (\<lambda>e. fst e \<noteq> ptr) es) \<and> heap w' = (heap w)(ptr := None) \<and>
     released w' = (ptr, if ptr \<in> fst ` set es then replicate (length (the (heap w ptr))) 0 else the (heap w ptr)) # released w \<and>
     locked w' = locked w - free_pages cfg ptr es \<and>
     (\<exists>pl q. pools w mempool = Some pl \<and> pools w' = (pools w)(mempool \<mapsto> (init_of cfg pl)\<lparr>pl_alloc := q\<rparr>))"

lemma entry_mems: "map (entry w) as = es \<Longrightarrow> fst ` set es = mem_of w ` set as"
  by (force simp: entry_def Let_def)

lemma sfree_miss:
  assumes "holds w es" "heap w ptr = Some bs" "ptr \<noteq> 0" "ptr \<notin> fst ` set es"
  shows "\<exists>w'. drew_mem_sfree cfg ptr w = Some w' \<and> freed cfg ptr es w w'"
proof -
  obtain pl as where h: "pools w mempool = Some pl" "chain (nodes w) (pl_alloc pl) as" "map (entry w) as = es"
    "distinct (map fst es)" "\<forall>(m, n, b)\<in>set es. \<exists>bs. heap w m = Some bs \<and> length bs = n"
    using assms(1) unfolding holds_def by blast
  define w1 where "w1 = w\<lparr>pools := (pools w)(mempool \<mapsto> init_of cfg pl)\<rparr>"
  let ?w = "w1\<lparr>heap := (heap w)(ptr := None), released := (ptr, bs) # released w\<rparr>"
  have "ptr \<notin> mem_of w1 ` set as" using assms(4) entry_mems[OF h(3)] by (simp add: w1_def)
  then have "psfree_loop cfg mempool ptr (pl_alloc pl) (pl_alloc pl) w1 = Some w1"
    using psfree_loop_miss[of w1 "pl_alloc pl" as ptr] h(2) by (simp add: w1_def)
  then have r: "drew_mem_sfree cfg ptr w = Some ?w"
    using assms(2,3) init_pool_init_of[OF h(1)]
    by (simp add: drew_mem_sfree_def drew_mem_psfree_def os_free_def w1_def)
  have "\<exists>bs. heap ?w m = Some bs \<and> length bs = n" if "(m, n, b) \<in> set es" for m n b
    using that h(5) assms(4) by (force simp: w1_def)
  then have "holds ?w es"
    unfolding holds_def using h
    by (intro exI[of _ "init_of cfg pl"] exI[of _ as]) (auto simp: entry_def w1_def)
  moreover have "filter (\<lambda>e. fst e \<noteq> ptr) es = es" "free_pages cfg ptr es = {}"
    using assms(4) by (auto simp: filter_id_conv free_pages_def split: if_splits intro: rev_image_eqI)
  moreover have "pools ?w = (pools w)(mempool \<mapsto> (init_of cfg pl)\<lparr>pl_alloc := pl_alloc pl\<rparr>)"
    by (simp add: w1_def) (metis (full_types) init_of_keeps(1) pool.surjective pool.update_convs(4))
  ultimately show ?thesis
    using r assms(2,4) h(1) unfolding freed_def by (intro exI[of _ ?w]) (auto simp: w1_def)
qed

lemma sfree_hit:
  assumes "holds w es" "heap w ptr = Some bs" "ptr \<noteq> 0" "ptr \<in> fst ` set es"
  shows "\<exists>w'. drew_mem_sfree cfg ptr w = Some w' \<and> freed cfg ptr es w w'"
proof -
  obtain pl as where h: "pools w mempool = Some pl" "chain (nodes w) (pl_alloc pl) as" "map (entry w) as = es"
    "distinct (map fst es)" "\<forall>(m, n, b)\<in>set es. \<exists>bs. heap w m = Some bs \<and> length bs = n"
    using assms(1) unfolding holds_def by blast
  define w1 where "w1 = w\<lparr>pools := (pools w)(mempool \<mapsto> init_of cfg pl)\<rparr>"
  obtain a where a: "a \<in> set as" "mem_of w a = ptr" using assms(4) entry_mems[OF h(3)] by auto
  then obtain xs ys where as: "as = xs @ a # ys" by (auto simp: in_set_conv_decomp)
  obtain nd where nd: "nodes w a = Some nd" "al_mem nd = ptr" using chain_nodes[OF h(2) a(1)] a(2) by auto
  have "distinct (map (mem_of w) as)" using h(3,4) by (auto simp: entry_def Let_def comp_def)
  then have others: "ptr \<notin> mem_of w ` set (xs @ ys)" using a(2) by (auto simp: as image_iff)
  have d: "distinct as" by (rule chain_distinct[OF h(2)])
  have "(ptr, al_size nd, al_block nd) \<in> set es" using a(1) nd h(3) by (force simp: entry_def)
  then have size: "al_size nd = length bs" using h(5) assms(2) by force
  let ?z = "replicate (length bs) (0 :: byte)"
  define ns where "ns = (if xs = [] then nodes w else (nodes w)(last xs \<mapsto> (the (nodes w (last xs)))\<lparr>al_next := al_next nd\<rparr>))(a := None)"
  define q where "q = (if xs = [] then al_next nd else pl_alloc pl)"
  define w' where "w' = w\<lparr>heap := (heap w)(ptr := None), locked := locked w - pages (os_page cfg) ptr (al_block nd),
      pools := (pools w)(mempool \<mapsto> (init_of cfg pl)\<lparr>pl_alloc := q\<rparr>), nodes := ns, released := (ptr, ?z) # released w\<rparr>"
  have head: "pl_alloc pl = a \<longleftrightarrow> xs = []" using h(2) d as by (cases xs) auto
  have lastn: "xs \<noteq> [] \<Longrightarrow> \<exists>nx. nodes w (last xs) = Some nx" using chain_nodes[OF h(2), of "last xs"] as by auto
  have same: "(init_of cfg pl)\<lparr>pl_alloc := pl_alloc pl\<rparr> = init_of cfg pl"
    by (metis (full_types) init_of_keeps(1) pool.surjective pool.update_convs(4))
  have loop: "psfree_loop cfg mempool ptr (pl_alloc pl) (pl_alloc pl) w1 = psfree_hit cfg mempool (last (pl_alloc pl # xs)) a nd w1"
    by (rule psfree_loop_hit) (use h(2) as nd others in \<open>auto simp: w1_def\<close>)
  have "do { w \<leftarrow> psfree_hit cfg mempool (last (pl_alloc pl # xs)) a nd w1; os_free ptr w } = Some w'"
    using assms(2,3) nd(2) size head lastn
    by (auto simp: same psfree_hit_def os_write_def os_free_def put_bytes_0_all ns_def q_def w'_def w1_def pages_def)
  then have r: "drew_mem_sfree cfg ptr w = Some w'"
    using assms(3) init_pool_init_of[OF h(1)] loop by (simp add: drew_mem_sfree_def drew_mem_psfree_def w1_def)
  have ent: "map (entry w') (xs @ ys) = map (entry w) (xs @ ys)"
    using d as lastn by (auto simp: ns_def w'_def entry_def)
  have filt: "filter (\<lambda>e. fst e \<noteq> ptr) es = map (entry w) (xs @ ys)"
  proof -
    have "filter (\<lambda>e. fst e \<noteq> ptr) (map (entry w) zs) = map (entry w) zs" if "set zs \<subseteq> set (xs @ ys)" for zs
      using that others by (auto simp: filter_id_conv entry_def Let_def image_iff)
    then show ?thesis using h(3) a(2) by (auto simp: as entry_def[of w a] Let_def)
  qed
  have ch: "chain ns q (xs @ ys)"
  proof (cases xs rule: rev_cases)
    case Nil
    then show ?thesis using h(2) d nd by (auto simp: as ns_def q_def)
  next
    case (snoc us x)
    then obtain nx where nx: "nodes w x = Some nx" using lastn by auto
    have "chain (nodes w) (pl_alloc pl) (us @ x # a # ys)" using h(2) by (simp add: as snoc)
    from chain_unlink[OF this nx nd(1)] show ?thesis using nx snoc by (simp add: ns_def q_def)
  qed
  have "holds w' (filter (\<lambda>e. fst e \<noteq> ptr) es)"
  proof -
    have "\<forall>(m, n, b)\<in>set (filter (\<lambda>e. fst e \<noteq> ptr) es). \<exists>bs. heap w' m = Some bs \<and> length bs = n"
      using h(5) by (force simp: w'_def)
    moreover have "distinct (map fst (filter (\<lambda>e. fst e \<noteq> ptr) es))" using h(4) by (simp add: distinct_map_filter)
    ultimately show ?thesis unfolding holds_def using ch ent filt by (auto simp: w'_def)
  qed
  moreover have "free_pages cfg ptr es = pages (os_page cfg) ptr (al_block nd)"
  proof -
    have "set es = insert (ptr, al_size nd, al_block nd) (entry w ` set (xs @ ys))"
      using h(3) nd by (auto simp: as entry_def)
    then show ?thesis using others by (auto simp: free_pages_def entry_def Let_def image_iff)
  qed
  ultimately show ?thesis using r assms(2,4) h(1) unfolding freed_def by (auto simp: w'_def)
qed

lemma sfree_holds:
  assumes "holds w es" "heap w ptr = Some bs" "ptr \<noteq> 0"
  obtains w' where "drew_mem_sfree cfg ptr w = Some w'" "freed cfg ptr es w w'"
  using sfree_miss[OF assms] sfree_hit[OF assms] by blast

section \<open>Allocation\<close>

text \<open>What the C library and the system promise of their answers.\<close>

definition good_answers :: "config \<Rightarrow> nat \<Rightarrow> bool \<Rightarrow> answers \<Rightarrow> world \<Rightarrow> bool" where
  "good_answers cfg n secure os w \<longleftrightarrow> (os_node os = 0 \<or> nodes w (os_node os) = None) \<and>
     (case os_mem os of Inl res \<Rightarrow> True
      | Inr (p, held) \<Rightarrow> p \<noteq> 0 \<and> length held = n \<and> p + n + os_page cfg \<le> 2 ^ 64 \<and>
          (\<forall>a bs. heap w a = Some bs \<longrightarrow> a + length bs \<le> p \<or> p + n \<le> a) \<and>
          (secure \<and> \<not> ODD_MLOCK_OK cfg \<longrightarrow> os_page cfg dvd p))"

text \<open>No memory: nothing has changed. Otherwise a new block, which the pool knows if it has to.\<close>

definition refused :: "config \<Rightarrow> (nat \<times> nat \<times> nat) list \<Rightarrow> world \<Rightarrow> world \<Rightarrow> bool" where
  "refused cfg es w w' \<longleftrightarrow> holds w' es \<and> heap w' = heap w \<and> nodes w' = nodes w \<and> locked w' = locked w \<and>
     (\<exists>pl. pools w mempool = Some pl \<and> pools w' = (pools w)(mempool \<mapsto> init_of cfg pl))"

definition granted ::
    "config \<Rightarrow> answers \<Rightarrow> nat \<Rightarrow> bool \<Rightarrow> bool \<Rightarrow> (nat \<times> nat \<times> nat) list \<Rightarrow> world \<Rightarrow> nat \<Rightarrow> world \<Rightarrow> bool" where
  "granted cfg os n secure clear es w p w' \<longleftrightarrow>
     (\<exists>held pl q. os_mem os = Inr (p, held) \<and> p \<noteq> 0 \<and> pools w mempool = Some pl \<and>
        heap w' = (heap w)(p \<mapsto> if clear then replicate n 0 else held) \<and>
        pools w' = (pools w)(mempool \<mapsto> (init_of cfg pl)\<lparr>pl_alloc := q\<rparr>) \<and> released w' = released w \<and>
        (let b = if secure then block_size cfg (pl_pgsize (init_of cfg pl)) n else 0;
             lock = (secure \<and> pl_flags pl AND DREW_MEM_SECMEM_NO_LOCK = 0)
         in holds w' (if secure \<or> ALWAYS_ZERO cfg then (p, n, b) # es else es) \<and>
            locked w' = (if lock \<and> os_mlock os then locked w \<union> pages (os_page cfg) p b else locked w) \<and>
            (lock \<and> pl_flags pl AND DREW_MEM_SECMEM_FAIL_OK = 0 \<longrightarrow> os_mlock os)))"

text \<open>When the memory, the node of the list or the lock is refused.\<close>

definition alloc_refused :: "config \<Rightarrow> answers \<Rightarrow> bool \<Rightarrow> u32 \<Rightarrow> bool" where
  "alloc_refused cfg os secure flags \<longleftrightarrow>
     (case os_mem os of Inl res \<Rightarrow> True
      | Inr _ \<Rightarrow> (secure \<or> ALWAYS_ZERO cfg) \<and> os_node os = 0 \<or>
          secure \<and> flags AND DREW_MEM_SECMEM_NO_LOCK = 0 \<and> \<not> os_mlock os \<and> flags AND DREW_MEM_SECMEM_FAIL_OK = 0)"

lemma answers_fresh:
  assumes "good_answers cfg n secure os w" "os_mem os = Inr (p, held)" "0 < n" "heap_ok w"
  shows "heap w p = None"
proof (rule ccontr)
  assume "heap w p \<noteq> None"
  then obtain bs where bs: "heap w p = Some bs" by auto
  moreover have "\<forall>a bs. heap w a = Some bs \<longrightarrow> a + length bs \<le> p \<or> p + n \<le> a"
    using assms(1,2) by (simp add: good_answers_def)
  ultimately have "p + length bs \<le> p \<or> p + n \<le> p" by blast
  moreover have "bs \<noteq> []" using assms(4) bs by (simp add: heap_ok_def)
  ultimately show False using assms(3) by simp
qed

lemma pool_alloc_same: "pl_alloc pl = q \<Longrightarrow> pl\<lparr>pl_alloc := q\<rparr> = pl"
  by (metis (full_types) pool.surjective pool.update_convs(4))

lemma holds_new_block:
  assumes "holds w es" "heap w p = None" "length bs = n" "pools w mempool = Some pl"
  shows "holds (w\<lparr>heap := (heap w)(p \<mapsto> bs), pools := (pools w)(mempool \<mapsto> init_of cfg pl)\<rparr>) es"
    and "nodes w a = None \<Longrightarrow> a \<noteq> 0 \<Longrightarrow> holds (w\<lparr>heap := (heap w)(p \<mapsto> bs),
      nodes := (nodes w)(a \<mapsto> \<lparr>al_next = pl_alloc pl, al_mem = p, al_size = n, al_block = b\<rparr>),
      locked := L, pools := (pools w)(mempool \<mapsto> (init_of cfg pl)\<lparr>pl_alloc := a\<rparr>)\<rparr>) ((p, n, b) # es)"
proof -
  obtain as where h: "chain (nodes w) (pl_alloc pl) as" "map (entry w) as = es" "distinct (map fst es)"
    "\<forall>(m, k, b)\<in>set es. \<exists>bs. heap w m = Some bs \<and> length bs = k"
    using assms(1,4) unfolding holds_def by auto
  have old: "\<exists>cs. ((heap w)(p \<mapsto> bs)) m = Some cs \<and> length cs = k" if "(m, k, b) \<in> set es" for m k b
    using that h(4) assms(2) by force
  show "holds (w\<lparr>heap := (heap w)(p \<mapsto> bs), pools := (pools w)(mempool \<mapsto> init_of cfg pl)\<rparr>) es"
    unfolding holds_def using h old
    by (intro exI[of _ "init_of cfg pl"] exI[of _ as]) (auto simp: entry_def)
  assume a: "nodes w a = None" "a \<noteq> 0"
  have na: "a \<notin> set as" using chain_nodes[OF h(1), of a] a(1) by auto
  have "p \<notin> fst ` set es" using h(4) assms(2) by force
  then show "holds (w\<lparr>heap := (heap w)(p \<mapsto> bs),
      nodes := (nodes w)(a \<mapsto> \<lparr>al_next = pl_alloc pl, al_mem = p, al_size = n, al_block = b\<rparr>),
      locked := L, pools := (pools w)(mempool \<mapsto> (init_of cfg pl)\<lparr>pl_alloc := a\<rparr>)\<rparr>) ((p, n, b) # es)"
    unfolding holds_def using h old na a(2) assms(3)
    by (intro exI[of _ "(init_of cfg pl)\<lparr>pl_alloc := a\<rparr>"] exI[of _ "a # as"]) (auto simp: entry_def)
qed

lemma allocate_holds:
  assumes "holds w es" "good_answers cfg n secure os w" "0 < n" "heap_ok w"
  shows "\<exists>p w'. allocate cfg os 0 n secure clear w = Some (p, w') \<and>
     (if p = 0 then refused cfg es w w' else granted cfg os n secure clear es w p w') \<and>
     (p = 0 \<longleftrightarrow> alloc_refused cfg os secure (pl_flags (the (pools w mempool))))"
proof -
  obtain pl where pl: "pools w mempool = Some pl" using assms(1) by (auto simp: holds_def)
  define w1 where "w1 = w\<lparr>pools := (pools w)(mempool \<mapsto> init_of cfg pl)\<rparr>"
  have run: "allocate cfg os 0 n secure clear w = do_allocate cfg os mempool n secure clear w1"
    using assms(3) init_pool_init_of[OF pl] by (simp add: allocate_def w1_def)
  have ref: "refused cfg es w w'"
    if "heap w' = heap w" "nodes w' = nodes w" "locked w' = locked w" "pools w' = pools w1" for w'
    using that assms(1) pl holds_same[of w' w pl "init_of cfg pl" es] by (simp add: refused_def w1_def)
  show ?thesis
  proof (cases "os_mem os")
    case (Inl res)
    then show ?thesis using assms(3) ref by (simp add: run do_allocate_def w1_def alloc_refused_def)
  next
    case (Inr ph)
    obtain p held where ph: "ph = (p, held)" by (cases ph)
    define bs where "bs = (if clear then replicate n 0 else held)"
    define b where "b = (if secure then block_size cfg (pl_pgsize (init_of cfg pl)) n else 0)"
    let ?a = "os_node os"
    let ?track = "secure \<or> ALWAYS_ZERO cfg" and ?lock = "secure \<and> pl_flags pl AND DREW_MEM_SECMEM_NO_LOCK = 0"
    let ?ok = "pl_flags pl AND DREW_MEM_SECMEM_FAIL_OK \<noteq> 0"
    have p: "p \<noteq> 0" "length bs = n" "?a = 0 \<or> nodes w ?a = None"
      using assms(2) Inr ph by (auto simp: good_answers_def bs_def)
    have fresh: "heap w p = None" using answers_fresh[OF assms(2) _ assms(3,4)] Inr ph by simp
    have undo: "(heap w)(p := None) = heap w" "nodes w ?a = None \<Longrightarrow> (nodes w)(?a := None) = nodes w"
      using fresh by (simp_all add: fun_upd_idem)
    note new = holds_new_block[OF assms(1) fresh p(2) pl]
    consider (untracked) "\<not> ?track" | (node) "?track" "?a = 0"
      | (mlock) "?track" "?a \<noteq> 0" "?lock" "\<not> os_mlock os" "\<not> ?ok"
      | (made) "?track" "?a \<noteq> 0" "\<not> (?lock \<and> \<not> os_mlock os \<and> \<not> ?ok)" by blast
    then show ?thesis
    proof cases
      case untracked
      let ?w = "w\<lparr>heap := (heap w)(p \<mapsto> bs), pools := (pools w)(mempool \<mapsto> init_of cfg pl)\<rparr>"
      have "allocate cfg os 0 n secure clear w = Some (p, ?w)"
        unfolding run using untracked Inr ph assms(3) p(1) by (simp add: do_allocate_def w1_def bs_def Let_def)
      moreover have "granted cfg os n secure clear es w p ?w"
        using untracked new(1)[of cfg] Inr ph p(1) pl pool_alloc_same[of "init_of cfg pl"]
        by (auto simp: granted_def bs_def intro!: exI[of _ "pl_alloc pl"])
      ultimately show ?thesis using p(1) untracked Inr by (simp add: alloc_refused_def)
    next
      case node
      then show ?thesis
        using Inr ph assms(3) p(1) undo(1)
        by (auto simp: run do_allocate_def create_entry_def os_free_def w1_def alloc_refused_def Let_def intro!: ref)
    next
      case mlock
      let ?w = "w1\<lparr>heap := (heap w)(p := None), nodes := (nodes w)(?a := None), released := (p, bs) # released w\<rparr>"
      have "allocate cfg os 0 n secure clear w = Some (0, ?w)"
        unfolding run using mlock Inr ph assms(3) p(1)
        by (simp add: do_allocate_def create_entry_def os_free_def w1_def bs_def Let_def)
      moreover have "refused cfg es w ?w" using p(3) mlock(2) undo by (intro ref) (simp_all add: w1_def)
      ultimately show ?thesis using mlock Inr pl by (simp add: alloc_refused_def)
    next
      case made
      let ?L = "if ?lock \<and> os_mlock os then locked w \<union> pages (os_page cfg) p b else locked w"
      let ?w = "w\<lparr>heap := (heap w)(p \<mapsto> bs),
        nodes := (nodes w)(?a \<mapsto> \<lparr>al_next = pl_alloc pl, al_mem = p, al_size = n, al_block = b\<rparr>),
        locked := ?L, pools := (pools w)(mempool \<mapsto> (init_of cfg pl)\<lparr>pl_alloc := ?a\<rparr>)\<rparr>"
      have "allocate cfg os 0 n secure clear w = Some (p, ?w)"
        using made Inr ph assms(3) p(1)
        by (auto simp: run do_allocate_def create_entry_def w1_def bs_def b_def Let_def)
      moreover have "granted cfg os n secure clear es w p ?w"
        unfolding granted_def
      proof (intro exI[of _ held] exI[of _ pl] exI[of _ ?a], unfold Let_def b_def[symmetric] bs_def[symmetric], intro conjI)
        show "holds ?w (if ?track then (p, n, b) # es else es)"
          using new(2)[where a = ?a and cfg = cfg and b = b and L = ?L] p(3) made(1,2) by simp
      qed (use made Inr ph p pl in auto)
      ultimately show ?thesis using p(1) made Inr pl by (auto simp: alloc_refused_def)
    qed
  qed
qed

section \<open>Programs that use the allocator\<close>

text \<open>
  A step of a program: a call of a function of the allocator on its own pool, with any good answers, or a write
  to memory. A block is given back at most once, and secure blocks to \<^verbatim>\<open>sfree\<close> or
  \<^verbatim>\<open>srealloc\<close>. A call that follows a null pointer is the end of the program and no step. The
  functions with a pool of the caller are left out: nothing in the library makes a pool. \<open>F\<close> are the flags
  the program may set.
\<close>

inductive mem_step :: "config \<Rightarrow> u32 set \<Rightarrow> world \<Rightarrow> world \<Rightarrow> bool" for cfg F where
  malloc: "good_answers cfg n False os w \<Longrightarrow> drew_mem_malloc cfg os n w = Some (p, w') \<Longrightarrow> mem_step cfg F w w'"
| smalloc: "good_answers cfg n True os w \<Longrightarrow> drew_mem_smalloc cfg os n w = Some (p, w') \<Longrightarrow> mem_step cfg F w w'"
| calloc: "good_answers cfg (m * n mod 2 ^ 64) False os w \<Longrightarrow> drew_mem_calloc cfg os m n w = Some (p, w') \<Longrightarrow>
    mem_step cfg F w w'"
| scalloc: "good_answers cfg (m * n mod 2 ^ 64) True os w \<Longrightarrow> drew_mem_scalloc cfg os m n w = Some (p, w') \<Longrightarrow>
    mem_step cfg F w w'"
| memdup: "good_answers cfg (length xs) False os w \<Longrightarrow> drew_mem_memdup cfg os xs w = Some (p, w') \<Longrightarrow> mem_step cfg F w w'"
| smemdup: "good_answers cfg (length xs) True os w \<Longrightarrow> drew_mem_smemdup cfg os xs w = Some (p, w') \<Longrightarrow> mem_step cfg F w w'"
| sfree: "ptr = 0 \<or> heap w ptr \<noteq> None \<Longrightarrow> drew_mem_sfree cfg ptr w = Some w' \<Longrightarrow> mem_step cfg F w w'"
| plain_free: "ptr = 0 \<or> heap w ptr \<noteq> None \<Longrightarrow> ALWAYS_ZERO cfg \<or> (\<forall>a nd. nodes w a = Some nd \<longrightarrow> al_mem nd \<noteq> ptr) \<Longrightarrow>
    drew_mem_free cfg ptr w = Some w' \<Longrightarrow> mem_step cfg F w w'"
| srealloc: "good_answers cfg n True os w \<Longrightarrow> ptr = 0 \<or> heap w ptr \<noteq> None \<Longrightarrow>
    drew_mem_srealloc cfg os os' ptr n w = Some (p, w') \<Longrightarrow> mem_step cfg F w w'"
| realloc: "good_answers cfg n False os w \<Longrightarrow> ptr = 0 \<or> heap w ptr \<noteq> None \<Longrightarrow>
    good_answers cfg n False os' (w\<lparr>heap := (heap w)(ptr := None)\<rparr>) \<Longrightarrow>
    ALWAYS_ZERO cfg \<or> (\<forall>a nd. nodes w a = Some nd \<longrightarrow> al_mem nd \<noteq> ptr) \<Longrightarrow>
    drew_mem_realloc cfg os os' ptr n w = Some (p, w') \<Longrightarrow> mem_step cfg F w w'"
| fill: "os_write ptr off xs w = Some w' \<Longrightarrow> mem_step cfg F w w'"
| adjust: "flags \<in> F \<Longrightarrow> drew_mem_pool_adjust cfg 0 op flags w = Some (r, w') \<Longrightarrow> mem_step cfg F w w'"

inductive_cases mem_step_cases: "mem_step cfg F w w'"

definition mem_start :: "config \<Rightarrow> world \<Rightarrow> bool" where
  "mem_start cfg w \<longleftrightarrow> heap w = Map.empty \<and> nodes w = Map.empty \<and>
     pools w = [mempool \<mapsto> \<lparr>pl_pgsize = PAGESIZE cfg, pl_inited = False, pl_flags = 0, pl_alloc = 0\<rparr>]"

definition mem_reachable :: "config \<Rightarrow> u32 set \<Rightarrow> world \<Rightarrow> bool" where
  "mem_reachable cfg F w \<longleftrightarrow> (\<exists>w0. mem_start cfg w0 \<and> (mem_step cfg F)\<^sup>*\<^sup>* w0 w)"

definition mem_inv :: "world \<Rightarrow> bool" where
  "mem_inv w \<longleftrightarrow> heap_ok w \<and> (\<exists>es. holds w es) \<and> pools w 0 = None"

lemma heap_ok_add:
  assumes "heap_ok w" "p \<noteq> 0" "bs \<noteq> []" "\<forall>a cs. heap w a = Some cs \<longrightarrow> a + length cs \<le> p \<or> p + length bs \<le> a"
    and "heap w' = (heap w)(p \<mapsto> bs)"
  shows "heap_ok w'"
proof -
  have "a + length xs \<le> b" if "heap w' a = Some xs" "heap w' b = Some ys" "a < b" for a b xs ys
  proof -
    consider "a = p" "b \<noteq> p" | "a \<noteq> p" "b = p" | "a \<noteq> p" "b \<noteq> p" using \<open>a < b\<close> by blast
    then show ?thesis
    proof cases
      case 1
      then have "heap w b = Some ys" "xs = bs" using that assms(5) by auto
      then have "b + length ys \<le> p \<or> p + length bs \<le> b" using assms(4) by blast
      then show ?thesis using 1 \<open>a < b\<close> \<open>xs = bs\<close> by arith
    next
      case 2
      then have "heap w a = Some xs" using that assms(5) by auto
      then have "a + length xs \<le> p \<or> p + length bs \<le> a" using assms(4) by blast
      then show ?thesis using 2 \<open>a < b\<close> by arith
    next
      case 3
      then show ?thesis using that assms(1,5) by (auto simp: heap_ok_def)
    qed
  qed
  then show ?thesis using assms(1-3,5) by (auto simp: heap_ok_def)
qed

lemma allocate_inv:
  assumes "mem_inv w" "good_answers cfg n secure os w" "allocate cfg os 0 n secure clear w = Some (p, w')"
  shows "mem_inv w' \<and> (0 < n \<and> p \<noteq> 0 \<longrightarrow> (\<exists>bs. heap w' p = Some bs \<and> length bs = n))"
proof (cases "n = 0")
  case True
  then show ?thesis using assms(1,3) by (simp add: allocate_def)
next
  case False
  obtain es where es: "holds w es" and ok: "heap_ok w" and p0: "pools w 0 = None" using assms(1) by (auto simp: mem_inv_def)
  have out: "if p = 0 then refused cfg es w w' else granted cfg os n secure clear es w p w'"
    using allocate_holds[OF es assms(2) _ ok, of clear] False assms(3) by auto
  show ?thesis
  proof (cases "p = 0")
    case True
    then show ?thesis using out p0 ok by (auto simp: refused_def mem_inv_def heap_ok_def mempool_def)
  next
    case p: False
    then obtain held where g: "os_mem os = Inr (p, held)" "heap w' = (heap w)(p \<mapsto> if clear then replicate n 0 else held)"
      "pools w' 0 = None" "\<exists>es. holds w' es"
      using out p0 p unfolding granted_def Let_def by (auto simp del: split_paired_Ex simp: mempool_def, blast+)
    have a: "length held = n" "\<forall>a bs. heap w a = Some bs \<longrightarrow> a + length bs \<le> p \<or> p + n \<le> a"
      using assms(2) g(1) by (simp_all add: good_answers_def)
    have "heap_ok w'"
      by (rule heap_ok_add[OF ok p _ _ g(2)]) (use False a in auto)
    then show ?thesis using g(2-4) a(1) by (simp add: mem_inv_def)
  qed
qed

lemma os_write_holds:
  assumes "os_write ptr off xs w = Some w'"
  shows "holds w es \<Longrightarrow> holds w' es" "nodes w' = nodes w" "locked w' = locked w" "pools w' = pools w"
    "heap_ok w \<Longrightarrow> heap_ok w'"
proof -
  obtain bs where b: "heap w ptr = Some bs" "w' = w\<lparr>heap := (heap w)(ptr \<mapsto> put_bytes off xs bs)\<rparr>"
    "off + length xs \<le> length bs"
    using assms by (auto simp: os_write_def split: option.splits if_splits)
  have len: "length (put_bytes off xs bs) = length bs" using b(3) by (simp add: put_bytes_def)
  have "entry w' = entry w" by (simp add: b(2) entry_def fun_eq_iff)
  then show "holds w es \<Longrightarrow> holds w' es" using b len unfolding holds_def by (fastforce simp: b(2))
  show "nodes w' = nodes w" "locked w' = locked w" "pools w' = pools w" by (simp_all add: b(2))
  assume ok: "heap_ok w"
  then have "ptr \<noteq> 0" using b(1) by (cases "ptr = 0") (auto simp: heap_ok_def)
  moreover have "put_bytes off xs bs \<noteq> []" using len ok b(1) by (auto simp: heap_ok_def)
  ultimately show "heap_ok w'" using ok b(1) len unfolding heap_ok_def b(2) by (auto split: if_splits)
qed

lemma os_write_inv: "mem_inv w \<Longrightarrow> os_write ptr off xs w = Some w' \<Longrightarrow> mem_inv w'"
  using os_write_holds[of ptr off xs w w'] unfolding mem_inv_def by auto

lemma heap_ok_remove: "heap_ok w \<Longrightarrow> heap w' = (heap w)(ptr := None) \<Longrightarrow> heap_ok w'"
  by (auto simp: heap_ok_def)

lemma sfree_inv:
  assumes "mem_inv w" "ptr = 0 \<or> heap w ptr \<noteq> None"
  shows "\<exists>w'. drew_mem_sfree cfg ptr w = Some w' \<and> mem_inv w'"
proof (cases "ptr = 0")
  case True
  then show ?thesis using assms(1) by (simp add: drew_mem_sfree_def drew_mem_psfree_def)
next
  case False
  then obtain bs es where b: "heap w ptr = Some bs" "holds w es" using assms by (auto simp: mem_inv_def)
  obtain w' where "drew_mem_sfree cfg ptr w = Some w'" "freed cfg ptr es w w'"
    by (rule sfree_holds[OF b(2,1) False])
  then show ?thesis
    using assms(1) heap_ok_remove[of w w' ptr] by (auto simp: freed_def mem_inv_def mempool_def)
qed

lemma free_unlisted_holds:
  assumes "heap_ok w" "heap w ptr \<noteq> None" "\<forall>a nd. nodes w a = Some nd \<longrightarrow> al_mem nd \<noteq> ptr" "os_free ptr w = Some w'"
  shows "holds w es \<Longrightarrow> holds w' es" "heap w' = (heap w)(ptr := None)" "nodes w' = nodes w" "locked w' = locked w"
    "pools w' = pools w"
proof -
  have w': "w' = w\<lparr>heap := (heap w)(ptr := None), released := (ptr, the (heap w ptr)) # released w\<rparr>"
    using assms(1,2,4) by (auto simp: os_free_def heap_ok_def split: if_splits)
  then show "heap w' = (heap w)(ptr := None)" "nodes w' = nodes w" "locked w' = locked w" "pools w' = pools w" by simp_all
  assume "holds w es"
  then obtain pl as where h: "pools w mempool = Some pl" "chain (nodes w) (pl_alloc pl) as" "map (entry w) as = es"
    "distinct (map fst es)" "\<forall>(m, n, b)\<in>set es. \<exists>bs. heap w m = Some bs \<and> length bs = n"
    unfolding holds_def by blast
  have "ptr \<notin> mem_of w ` set as" using chain_nodes[OF h(2)] assms(3) by fastforce
  then have "ptr \<notin> fst ` set es" using entry_mems[OF h(3)] by simp
  then have "\<forall>(m, n, b)\<in>set es. \<exists>bs. heap w' m = Some bs \<and> length bs = n" using h(5) by (force simp: w')
  moreover have "entry w' = entry w" by (simp add: w' entry_def fun_eq_iff)
  ultimately show "holds w' es" unfolding holds_def using h by (auto simp: w')
qed

lemma free_unlisted_inv:
  assumes "mem_inv w" "heap w ptr \<noteq> None" "\<forall>a nd. nodes w a = Some nd \<longrightarrow> al_mem nd \<noteq> ptr" "os_free ptr w = Some w'"
  shows "mem_inv w'"
  using free_unlisted_holds[OF _ assms(2-4)] heap_ok_remove[of w w' ptr] assms(1) unfolding mem_inv_def by auto

lemmas alloc_defs = drew_mem_malloc_def drew_mem_pmalloc_def drew_mem_smalloc_def drew_mem_psmalloc_def
  drew_mem_calloc_def drew_mem_pcalloc_def drew_mem_scalloc_def drew_mem_pscalloc_def
  drew_mem_memdup_def drew_mem_pmemdup_def drew_mem_smemdup_def drew_mem_psmemdup_def

lemma adjust_holds:
  assumes "holds w es" "drew_mem_pool_adjust cfg 0 op flags w = Some (r, w')" "pools w mempool = Some pl"
  shows "holds w' es \<and> heap w' = heap w \<and> locked w' = locked w \<and>
    (w' = w \<or> pools w' = (pools w)(mempool \<mapsto> (init_of cfg pl)\<lparr>pl_flags := flags\<rparr>))"
proof (cases "op = DREW_MEM_SECMEM")
  case True
  then have w': "w' = w\<lparr>pools := (pools w)(mempool \<mapsto> (init_of cfg pl)\<lparr>pl_flags := flags\<rparr>)\<rparr>"
    using assms(2) init_pool_init_of[OF assms(3)] by (simp add: drew_mem_pool_adjust_def)
  then show ?thesis
    using holds_same[of w' w pl "(init_of cfg pl)\<lparr>pl_flags := flags\<rparr>"] assms by simp
next
  case False
  then show ?thesis using assms by (simp add: drew_mem_pool_adjust_def)
qed

lemma adjust_inv:
  assumes "mem_inv w" "drew_mem_pool_adjust cfg 0 op flags w = Some (r, w')"
  shows "mem_inv w'"
proof -
  obtain es pl where e: "holds w es" "pools w mempool = Some pl" using assms(1) by (auto simp: mem_inv_def holds_def)
  from adjust_holds[OF e(1) assms(2) e(2)] assms(1) show ?thesis by (auto simp: mem_inv_def heap_ok_def mempool_def)
qed

lemma free_inv:
  assumes "ptr = 0 \<or> heap w ptr \<noteq> None" "ALWAYS_ZERO cfg \<or> (\<forall>a nd. nodes w a = Some nd \<longrightarrow> al_mem nd \<noteq> ptr)"
    and "drew_mem_free cfg ptr w = Some w'" "mem_inv w"
  shows "mem_inv w'"
proof (cases "ALWAYS_ZERO cfg")
  case True
  then show ?thesis
    using assms sfree_inv[of w ptr cfg] by (auto simp: drew_mem_free_def drew_mem_pfree_def drew_mem_sfree_def)
next
  case False
  then show ?thesis
    using assms free_unlisted_inv[of w ptr w']
    by (cases "ptr = 0") (auto simp: drew_mem_free_def drew_mem_pfree_def os_free_def)
qed

text \<open>\<^verbatim>\<open>do_realloc\<close> uses the pool pointer it is given, which for the default pool is null.\<close>

lemma srealloc_default_pool:
  assumes "mem_inv w" "ptr \<noteq> 0" "0 < n" "good_answers cfg n True os w"
  shows "case drew_mem_smalloc cfg os n w of None \<Rightarrow> False
     | Some (new, w1) \<Rightarrow> drew_mem_srealloc cfg os os' ptr n w = (if new = 0 then Some (0, w1) else None)"
proof -
  obtain es where "holds w es" "heap_ok w" using assms(1) by (auto simp: mem_inv_def)
  then obtain new w1 where a: "allocate cfg os 0 n True False w = Some (new, w1)"
    using allocate_holds[OF _ assms(4,3), of es False] by blast
  then have "pools w1 0 = None" using allocate_inv[OF assms(1,4) a] by (simp add: mem_inv_def)
  then show ?thesis
    using a assms(2,3) by (simp add: drew_mem_srealloc_def drew_mem_psrealloc_def alloc_defs do_realloc_def)
qed

text \<open>So a call of it does what \<^verbatim>\<open>smalloc\<close> or \<^verbatim>\<open>sfree\<close> does, or nothing.\<close>

lemma srealloc_cases:
  assumes "mem_inv w" "good_answers cfg n True os w" "drew_mem_srealloc cfg os os' ptr n w = Some (p, w')"
  obtains "ptr \<noteq> 0" "n = 0" "drew_mem_sfree cfg ptr w = Some w'" | q where "drew_mem_smalloc cfg os n w = Some (q, w')"
proof (cases "ptr = 0")
  case True
  then show ?thesis using that(2) assms(3) by (simp add: drew_mem_srealloc_def drew_mem_psrealloc_def drew_mem_smalloc_def)
next
  case ptr: False
  show ?thesis
  proof (cases "n = 0")
    case True
    then show ?thesis using that(1) ptr assms(3)
      by (auto simp: drew_mem_srealloc_def drew_mem_psrealloc_def drew_mem_sfree_def bind_eq_Some_conv)
  next
    case False
    then show ?thesis
      using that(2) srealloc_default_pool[OF assms(1) ptr _ assms(2), of os'] assms(3) by (auto split: option.splits if_splits)
  qed
qed

text \<open>Likewise \<^verbatim>\<open>realloc\<close>, unless it comes to the function of the C library, which may move the
  block.\<close>

definition moved :: "answers \<Rightarrow> nat \<Rightarrow> nat \<Rightarrow> world \<Rightarrow> world \<Rightarrow> bool" where
  "moved os ptr n w w' \<longleftrightarrow>
     (case os_mem os of Inl res \<Rightarrow> w' = w\<lparr>errno := ENOMEM_errno\<rparr>
      | Inr (p, held) \<Rightarrow> \<exists>bs w1. heap w ptr = Some bs \<and> os_free ptr w = Some w1 \<and>
          w' = w1\<lparr>heap := (heap w1)(p \<mapsto> put_bytes 0 (take n bs) held)\<rparr>)"

lemma realloc_cases:
  assumes "mem_inv w" "good_answers cfg n False os w" "drew_mem_realloc cfg os os' ptr n w = Some (p, w')"
  obtains "ptr \<noteq> 0" "n = 0" "drew_mem_free cfg ptr w = Some w'" | q where "drew_mem_malloc cfg os n w = Some (q, w')"
    | "ptr \<noteq> 0" "0 < n" "\<not> ALWAYS_ZERO cfg" "moved os' ptr n w w'"
proof -
  consider (null) "ptr = 0" | (free) "ptr \<noteq> 0" "n = 0" | (copy) "ptr \<noteq> 0" "0 < n" "ALWAYS_ZERO cfg"
    | (move) "ptr \<noteq> 0" "0 < n" "\<not> ALWAYS_ZERO cfg" by blast
  then show ?thesis
  proof cases
    case null
    then show ?thesis using that(2) assms(3) by (simp add: drew_mem_realloc_def drew_mem_prealloc_def drew_mem_malloc_def)
  next
    case free
    then show ?thesis using that(1) assms(3)
      by (auto simp: drew_mem_realloc_def drew_mem_prealloc_def drew_mem_free_def bind_eq_Some_conv)
  next
    case copy
    obtain es where "holds w es" "heap_ok w" using assms(1) by (auto simp: mem_inv_def)
    then obtain q w1 where a: "allocate cfg os 0 n False False w = Some (q, w1)"
      using allocate_holds[OF _ assms(2) copy(2), of es False] by blast
    then have "pools w1 0 = None" using allocate_inv[OF assms(1,2) a] by (simp add: mem_inv_def)
    then have "q = 0 \<and> w1 = w'"
      using a copy assms(3) by (auto simp: drew_mem_realloc_def drew_mem_prealloc_def alloc_defs do_realloc_def split: if_splits)
    then show ?thesis using that(2)[of q] a by (simp add: alloc_defs)
  next
    case move
    then show ?thesis using that(3) assms(3)
      by (auto simp: drew_mem_realloc_def drew_mem_prealloc_def do_realloc_def moved_def bind_eq_Some_conv split: sum.splits prod.splits)
  qed
qed

lemma moved_cases:
  assumes "heap_ok w" "heap w ptr \<noteq> None" "\<forall>a nd. nodes w a = Some nd \<longrightarrow> al_mem nd \<noteq> ptr" "0 < n"
    and "good_answers cfg n False os (w\<lparr>heap := (heap w)(ptr := None)\<rparr>)" "moved os ptr n w w'"
  obtains "w' = w\<lparr>errno := ENOMEM_errno\<rparr>"
    | w1 p cs where "os_free ptr w = Some w1" "w' = w1\<lparr>heap := (heap w1)(p \<mapsto> cs)\<rparr>" "p \<noteq> 0" "length cs = n"
      "heap w1 p = None" "\<forall>a bs. heap w1 a = Some bs \<longrightarrow> a + length bs \<le> p \<or> p + n \<le> a" "heap_ok w1"
proof (cases "os_mem os")
  case (Inl res)
  then show ?thesis using that(1) assms(6) by (simp add: moved_def)
next
  case (Inr ph)
  obtain p held where ph: "ph = (p, held)" by (cases ph)
  obtain bs w1 where m: "heap w ptr = Some bs" "os_free ptr w = Some w1"
    "w' = w1\<lparr>heap := (heap w1)(p \<mapsto> put_bytes 0 (take n bs) held)\<rparr>"
    using assms(6) Inr ph by (auto simp: moved_def)
  have f: "heap w1 = (heap w)(ptr := None)" by (rule free_unlisted_holds(2)[OF assms(1-3) m(2)])
  have h: "p \<noteq> 0" "length held = n" "\<forall>a cs. heap w1 a = Some cs \<longrightarrow> a + length cs \<le> p \<or> p + n \<le> a"
    using assms(5) unfolding good_answers_def Inr ph f by simp_all
  have ok1: "heap_ok w1" by (rule heap_ok_remove[OF assms(1) f])
  have "heap w1 p = None"
  proof (rule ccontr)
    assume "heap w1 p \<noteq> None"
    then obtain cs where c: "heap w1 p = Some cs" by auto
    then have "p + length cs \<le> p \<or> p + n \<le> p" using h(3) by blast
    moreover have "cs \<noteq> []" using ok1 c unfolding heap_ok_def by blast
    ultimately show False using assms(4) by simp
  qed
  with that(2)[OF m(2,3) h(1) _ _ h(3) ok1] h(2) show ?thesis by simp
qed

lemma holds_block_added:
  assumes "holds w es" "heap w p = None"
  shows "holds (w\<lparr>heap := (heap w)(p \<mapsto> cs)\<rparr>) es"
proof -
  have e: "entry (w\<lparr>heap := (heap w)(p \<mapsto> cs)\<rparr>) = entry w" by (simp add: entry_def fun_eq_iff)
  have "\<forall>(m, n, b)\<in>set es. \<exists>bs. ((heap w)(p \<mapsto> cs)) m = Some bs \<and> length bs = n"
    using assms unfolding holds_def by fastforce
  then show ?thesis using assms(1) unfolding holds_def e by auto
qed

lemma moved_holds:
  assumes "heap_ok w" "heap w ptr \<noteq> None" "\<forall>a nd. nodes w a = Some nd \<longrightarrow> al_mem nd \<noteq> ptr" "0 < n"
    and "good_answers cfg n False os (w\<lparr>heap := (heap w)(ptr := None)\<rparr>)" "moved os ptr n w w'"
  shows "holds w es \<Longrightarrow> holds w' es" "nodes w' = nodes w" "locked w' = locked w" "pools w' = pools w" "heap_ok w'"
proof -
  have "(holds w es \<longrightarrow> holds w' es) \<and> nodes w' = nodes w \<and> locked w' = locked w \<and> pools w' = pools w \<and> heap_ok w'"
    using assms
  proof (cases rule: moved_cases)
    case 1
    have "entry w' = entry w" by (simp add: 1 entry_def fun_eq_iff)
    then have "holds w' es = holds w es" by (simp add: holds_def 1)
    then show ?thesis using assms(1) by (simp add: 1 heap_ok_def)
  next
    case (2 w1 p cs)
    note f = free_unlisted_holds[OF assms(1-3) 2(1)]
    have "heap_ok w'" by (rule heap_ok_add[OF 2(7,3)]) (use 2 assms(4) in auto)
    then show ?thesis using f holds_block_added[OF _ 2(5)] by (simp add: 2(2))
  qed
  then show "holds w es \<Longrightarrow> holds w' es" "nodes w' = nodes w" "locked w' = locked w" "pools w' = pools w" "heap_ok w'"
    by blast+
qed

lemma moved_inv:
  assumes "mem_inv w" "heap w ptr \<noteq> None" "\<forall>a nd. nodes w a = Some nd \<longrightarrow> al_mem nd \<noteq> ptr" "0 < n"
    and "good_answers cfg n False os (w\<lparr>heap := (heap w)(ptr := None)\<rparr>)" "moved os ptr n w w'"
  shows "mem_inv w'"
proof -
  have "heap_ok w" using assms(1) by (simp add: mem_inv_def)
  note m = moved_holds[OF this assms(2-)]
  show ?thesis using assms(1) m unfolding mem_inv_def by auto
qed

lemma mem_step_inv: "mem_step cfg F w w' \<Longrightarrow> mem_inv w \<Longrightarrow> mem_inv w'"
proof (induction rule: mem_step.induct)
  case (memdup xs os w p w')
  then obtain w1 where a: "allocate cfg os 0 (length xs) False False w = Some (p, w1)"
    "if p \<noteq> 0 then os_write p 0 xs w1 = Some w' else w' = w1"
    by (auto simp: alloc_defs bind_eq_Some_conv split: if_splits prod.splits)
  then show ?case using allocate_inv[OF memdup(3,1) a(1)] os_write_inv[of w1 p 0 xs w'] by (cases "p = 0") auto
next
  case (smemdup xs os w p w')
  then obtain w1 where a: "allocate cfg os 0 (length xs) True False w = Some (p, w1)"
    "if p \<noteq> 0 then os_write p 0 xs w1 = Some w' else w' = w1"
    by (auto simp: alloc_defs bind_eq_Some_conv split: if_splits prod.splits)
  then show ?case using allocate_inv[OF smemdup(3,1) a(1)] os_write_inv[of w1 p 0 xs w'] by (cases "p = 0") auto
next
  case (sfree ptr w w')
  then show ?case using sfree_inv[of w ptr cfg] by auto
next
  case (plain_free ptr w w')
  then show ?case by (rule free_inv)
next
  case (srealloc n os w ptr os' p w')
  from srealloc(4,1,3) show ?case
  proof (cases rule: srealloc_cases)
    case 1
    then show ?thesis using sfree_inv[OF srealloc(4), of ptr cfg] srealloc(2) by auto
  next
    case (2 q)
    then show ?thesis using allocate_inv[OF srealloc(4,1)] by (auto simp: alloc_defs)
  qed
next
  case (realloc n os w ptr os' p w')
  from realloc(6,1,5) show ?case
  proof (cases rule: realloc_cases)
    case 1
    then show ?thesis using free_inv[OF realloc(2,4) 1(3) realloc(6)] by simp
  next
    case (2 q)
    then show ?thesis using allocate_inv[OF realloc(6,1)] by (auto simp: alloc_defs)
  next
    case 3
    then show ?thesis using moved_inv[OF realloc(6) _ _ 3(2) realloc(3) 3(4)] realloc(2,4) by auto
  qed
next
  case (fill ptr off xs w w')
  then show ?case using os_write_inv by blast
next
  case (adjust flags op w r w')
  then show ?case using adjust_inv by blast
qed (auto simp: alloc_defs dest: allocate_inv)

lemma mem_start_inv: "mem_start cfg w \<Longrightarrow> mem_inv w"
  by (auto simp: mem_start_def mem_inv_def heap_ok_def holds_def mempool_def intro!: exI[of _ "[]"])

lemma mem_reachable_inv: "mem_reachable cfg F w \<Longrightarrow> mem_inv w"
proof -
  assume "mem_reachable cfg F w"
  then obtain w0 where w0: "mem_start cfg w0" and run: "(mem_step cfg F)\<^sup>*\<^sup>* w0 w" by (auto simp: mem_reachable_def)
  from run show ?thesis by (induction rule: rtranclp_induct) (auto intro: mem_start_inv[OF w0] mem_step_inv)
qed

section \<open>Locked pages\<close>

text \<open>A sound configuration: the size of the pages is known, and a power of two.\<close>

definition good_config :: "config \<Rightarrow> bool" where
  "good_config cfg \<longleftrightarrow> (if PAGESIZE cfg = 0 then sysconf cfg = int (os_page cfg) else PAGESIZE cfg = os_page cfg) \<and>
     (\<exists>k. 0 < k \<and> k < 64 \<and> os_page cfg = 2 ^ k)"

lemma unat_drop_bit_div: "unat (drop_bit k x) = unat x div 2 ^ k" for x :: u64
proof -
  have "unat x < 2 ^ LENGTH(64)" by (rule unsigned_less)
  then show ?thesis unfolding unsigned_drop_bit_eq by (simp add: take_bit_eq_mod drop_bit_eq_div)
qed

lemma round_up_word:
  fixes n :: nat
  assumes "k < 64" "n + 2 ^ k \<le> 2 ^ 64"
  shows "unat ((of_nat n + (of_nat (2 ^ k) - 1) :: u64) AND NOT (of_nat (2 ^ k) - 1)) = (n + (2 ^ k - 1)) div 2 ^ k * 2 ^ k"
proof -
  have m: "of_nat (2 ^ k) - 1 = (mask k :: u64)" by (simp add: mask_eq_exp_minus_1)
  let ?x = "of_nat (n + (2 ^ k - 1)) :: u64"
  have "of_nat (2 ^ k - 1) = (of_nat (2 ^ k) - of_nat 1 :: u64)" by (rule of_nat_diff) simp
  then have x: "of_nat n + (of_nat (2 ^ k) - 1) = ?x" by (simp only: of_nat_add of_nat_1)
  have "0 < (2 :: nat) ^ k" by simp
  then have "n + (2 ^ k - 1) < 2 ^ 64" using assms(2) by linarith
  then have ux: "unat ?x = n + (2 ^ k - 1)" by (simp only: unat_of_nat len_num1 len_bit0 len_bit1) simp
  have "?x AND NOT (mask k) = push_bit k (drop_bit k ?x)"
    by (rule bit_word_eqI) (auto simp: bit_simps)
  also have "unat \<dots> = take_bit 64 (push_bit k (unat (drop_bit k ?x)))"
    unfolding unsigned_push_bit_eq by simp
  also have "unat (drop_bit k ?x) = unat ?x div 2 ^ k" by (rule unat_drop_bit_div)
  also have "take_bit 64 (push_bit k (unat ?x div 2 ^ k)) = unat ?x div 2 ^ k * 2 ^ k"
  proof -
    have "unat ?x div 2 ^ k * 2 ^ k \<le> unat ?x" by simp
    also have "unat ?x < 2 ^ 64" using ux \<open>n + (2 ^ k - 1) < 2 ^ 64\<close> by simp
    finally show ?thesis by (simp only: push_bit_eq_mult take_bit_nat_eq_self_iff)
  qed
  finally show ?thesis unfolding x unfolding m ux .
qed

lemma pages_disjoint:
  assumes "0 < pg" "pg dvd m" "pg dvd m'" "m + n \<le> m'" "0 < n"
  shows "pages pg m ((n + (pg - 1)) div pg * pg) \<inter> pages pg m' b' = {}"
proof -
  obtain q q' where q: "m = pg * q" "m' = pg * q'" using assms(2,3) by (elim dvdE)
  let ?k = "(n + (pg - 1)) div pg"
  have "n \<le> pg * (q' - q)" using assms(4) q by (simp add: diff_mult_distrib2)
  then have "n + (pg - 1) < pg * (q' - q) + pg" using assms(1) by simp
  then have "?k < q' - q + 1" by (simp add: less_mult_imp_div_less algebra_simps)
  moreover have "q < q'" using assms(1,4,5) q by (metis add_lessD1 le_neq_implies_less less_add_same_cancel1 mult_less_cancel1 nat_less_le order_less_le_trans)
  ultimately have lt: "q + ?k \<le> q'" by simp
  have "(m + ?k * pg - 1) div pg < q + ?k" if "0 < ?k"
    using that assms(1) q by (intro less_mult_imp_div_less) (simp add: algebra_simps)
  then have "x < q'" if "x \<in> pages pg m (?k * pg)" for x
    using that lt assms(1) by (cases "?k = 0") (auto simp: pages_def)
  moreover have "q' \<le> x" if "x \<in> pages pg m' b'" for x
    using that q assms(1) by (auto simp: pages_def split: if_splits)
  ultimately show ?thesis by fastforce
qed

definition secure_ok :: "config \<Rightarrow> world \<Rightarrow> (nat \<times> nat \<times> nat) list \<Rightarrow> bool" where
  "secure_ok cfg w es \<longleftrightarrow> (\<forall>(m, n, b)\<in>set es. b \<noteq> 0 \<longrightarrow> os_page cfg dvd m \<and>
     b = (n + (os_page cfg - 1)) div os_page cfg * os_page cfg \<and> pages (os_page cfg) m b \<subseteq> locked w)"

definition lock_inv :: "config \<Rightarrow> world \<Rightarrow> bool" where
  "lock_inv cfg w \<longleftrightarrow> mem_inv w \<and> (\<exists>es. holds w es \<and> secure_ok cfg w es) \<and>
     (\<exists>pl. pools w mempool = Some pl \<and> pl_flags pl = 0 \<and> pl_pgsize (init_of cfg pl) = os_page cfg)"

lemma holds_block: "holds w es \<Longrightarrow> (m, n, b) \<in> set es \<Longrightarrow> \<exists>bs. heap w m = Some bs \<and> length bs = n"
  by (auto simp: holds_def)

lemma holds_unique: "holds w es \<Longrightarrow> holds w fs \<Longrightarrow> es = fs"
  by (auto simp: holds_def dest: chain_unique)

lemma init_of_init_of [simp]:
  "pl_pgsize (init_of cfg (init_of cfg pl)) = pl_pgsize (init_of cfg pl)"
  "pl_pgsize (init_of cfg (pl\<lparr>pl_alloc := q\<rparr>)) = pl_pgsize (init_of cfg pl)"
  "pl_pgsize (init_of cfg (pl\<lparr>pl_flags := f\<rparr>)) = pl_pgsize (init_of cfg pl)"
  by (auto simp: init_of_def)

lemma secure_ok_mono: "secure_ok cfg w es \<Longrightarrow> locked w \<subseteq> locked w' \<Longrightarrow> secure_ok cfg w' es"
  by (fastforce simp: secure_ok_def)

lemma allocate_lock:
  assumes "lock_inv cfg w" "good_answers cfg n secure os w" "allocate cfg os 0 n secure clear w = Some (p, w')"
    and "good_config cfg" "\<not> ODD_MLOCK_OK cfg"
  shows "lock_inv cfg w'"
proof (cases "n = 0")
  case True
  then show ?thesis using assms(1,3) by (simp add: allocate_def)
next
  case False
  have inv: "mem_inv w'" using allocate_inv[OF _ assms(2,3)] assms(1) by (simp add: lock_inv_def)
  obtain es pl where es: "holds w es" "secure_ok cfg w es" and ok: "heap_ok w"
    and pl: "pools w mempool = Some pl" "pl_flags pl = 0" "pl_pgsize (init_of cfg pl) = os_page cfg"
    using assms(1) by (auto simp: lock_inv_def mem_inv_def)
  have out: "if p = 0 then refused cfg es w w' else granted cfg os n secure clear es w p w'"
    using allocate_holds[OF es(1) assms(2) _ ok, of clear] False assms(3) by auto
  show ?thesis
  proof (cases "p = 0")
    case True
    then have "holds w' es" "secure_ok cfg w' es" "pools w' mempool = Some (init_of cfg pl)"
      using out pl(1) secure_ok_mono[OF es(2), of w'] by (auto simp: refused_def)
    then show ?thesis using inv pl by (auto simp: lock_inv_def)
  next
    case p: False
    define b where "b = (if secure then block_size cfg (os_page cfg) n else 0)"
    let ?es = "if secure \<or> ALWAYS_ZERO cfg then (p, n, b) # es else es"
    obtain held q where g: "os_mem os = Inr (p, held)" "pools w' mempool = Some ((init_of cfg pl)\<lparr>pl_alloc := q\<rparr>)"
      "holds w' ?es" "locked w' = (if secure then locked w \<union> pages (os_page cfg) p b else locked w)"
      using out p pl unfolding granted_def Let_def b_def by (auto split: if_splits)
    have "b = (n + (os_page cfg - 1)) div os_page cfg * os_page cfg \<and> os_page cfg dvd p" if secure
    proof -
      obtain k where k: "os_page cfg = 2 ^ k" "k < 64" using assms(4) by (auto simp: good_config_def)
      have a: "p + n + os_page cfg \<le> 2 ^ 64" "os_page cfg dvd p"
        using assms(2,5) g(1) that by (simp_all add: good_answers_def)
      have "n + 2 ^ k \<le> 2 ^ 64" using a(1) k(1) by simp
      from round_up_word[OF k(2) this] show ?thesis
        using a(2) that assms(5) k(1) by (simp add: b_def block_size_def Let_def)
    qed
    then have "secure_ok cfg w' ?es"
      using es(2) g(4) by (auto simp: secure_ok_def b_def split: if_splits)
    then show ?thesis using inv g(2,3) pl unfolding lock_inv_def by auto
  qed
qed

text \<open>Unlocking the pages of a block leaves those of the others locked.\<close>

lemma free_pages_disjoint:
  assumes "holds w es" "heap_ok w" "secure_ok cfg w es" "(m, n, b) \<in> set es" "m \<noteq> ptr" "b \<noteq> 0" "good_config cfg"
  shows "pages (os_page cfg) m b \<inter> free_pages cfg ptr es = {}"
proof -
  have pg: "0 < os_page cfg" using assms(7) by (auto simp: good_config_def)
  have "pages (os_page cfg) m b \<inter> pages (os_page cfg) ptr b' = {}" if e: "(ptr, n', b') \<in> set es" for n' b'
  proof (cases "b' = 0")
    case True
    then show ?thesis by (simp add: pages_def)
  next
    case False
    obtain bs bs' where h: "heap w m = Some bs" "length bs = n" "heap w ptr = Some bs'" "length bs' = n'"
      using holds_block[OF assms(1,4)] holds_block[OF assms(1) e] by auto
    have len: "0 < n" "0 < n'" using assms(2) h by (auto simp: heap_ok_def)
    have a: "os_page cfg dvd m" "b = (n + (os_page cfg - 1)) div os_page cfg * os_page cfg"
      "os_page cfg dvd ptr" "b' = (n' + (os_page cfg - 1)) div os_page cfg * os_page cfg"
      using assms(3,4,6) e False by (auto simp: secure_ok_def)
    consider "m + n \<le> ptr" | "ptr + n' \<le> m"
      using assms(2,5) h unfolding heap_ok_def by (metis linorder_neqE_nat)
    then show ?thesis
    proof cases
      case 1
      then show ?thesis using pages_disjoint[OF pg a(1,3) _ len(1), of b'] a(2) by simp
    next
      case 2
      then show ?thesis using pages_disjoint[OF pg a(3,1) _ len(2), of b] a(4) by (simp add: Int_commute)
    qed
  qed
  then show ?thesis by (auto simp: free_pages_def split: if_splits) blast
qed

lemma sfree_lock:
  assumes "lock_inv cfg w" "ptr = 0 \<or> heap w ptr \<noteq> None" "drew_mem_sfree cfg ptr w = Some w'" "good_config cfg"
  shows "lock_inv cfg w'"
proof (cases "ptr = 0")
  case True
  then show ?thesis using assms(1,3) by (simp add: drew_mem_sfree_def drew_mem_psfree_def)
next
  case False
  obtain es pl bs where es: "holds w es" "secure_ok cfg w es" and ok: "heap_ok w" and bs: "heap w ptr = Some bs"
    and pl: "pools w mempool = Some pl" "pl_flags pl = 0" "pl_pgsize (init_of cfg pl) = os_page cfg"
    using assms(1,2) False by (auto simp: lock_inv_def mem_inv_def)
  have f: "freed cfg ptr es w w'" using sfree_holds[OF es(1) bs False, of cfg] assms(3) by auto
  let ?es = "filter (\<lambda>e. fst e \<noteq> ptr) es"
  have "secure_ok cfg w' ?es"
    using es(2) free_pages_disjoint[OF es(1) ok es(2) _ _ _ assms(4)] f
    unfolding secure_ok_def freed_def by fastforce
  moreover have "mem_inv w'" using sfree_inv[of w ptr cfg] assms(1-3) by (auto simp: lock_inv_def)
  ultimately show ?thesis using f pl unfolding lock_inv_def freed_def by auto
qed

lemma fill_lock: "lock_inv cfg w \<Longrightarrow> os_write ptr off xs w = Some w' \<Longrightarrow> lock_inv cfg w'"
  using os_write_holds[of ptr off xs w w'] os_write_inv[of w ptr off xs w'] secure_ok_mono[of cfg w _ w']
  unfolding lock_inv_def by (metis order_refl)

lemma same_lock:
  assumes "lock_inv cfg w" "mem_inv w'" "\<And>es. holds w es \<Longrightarrow> holds w' es" "locked w' = locked w" "pools w' = pools w"
  shows "lock_inv cfg w'"
  using assms secure_ok_mono[of cfg w _ w'] unfolding lock_inv_def by (metis order_refl)

lemma free_lock:
  assumes "ptr = 0 \<or> heap w ptr \<noteq> None" "ALWAYS_ZERO cfg \<or> (\<forall>a nd. nodes w a = Some nd \<longrightarrow> al_mem nd \<noteq> ptr)"
    and "drew_mem_free cfg ptr w = Some w'" "lock_inv cfg w" "good_config cfg"
  shows "lock_inv cfg w'"
proof (cases "ALWAYS_ZERO cfg")
  case True
  then show ?thesis
    using assms(3) sfree_lock[OF assms(4,1) _ assms(5)]
    by (simp add: drew_mem_free_def drew_mem_pfree_def drew_mem_sfree_def)
next
  case False
  then have f: "os_free ptr w = Some w'" and u: "\<forall>a nd. nodes w a = Some nd \<longrightarrow> al_mem nd \<noteq> ptr"
    using assms(2,3) by (simp_all add: drew_mem_free_def drew_mem_pfree_def)
  show ?thesis
  proof (cases "ptr = 0")
    case True
    then show ?thesis using f assms(4) by (simp add: os_free_def)
  next
    case p: False
    then have h: "heap w ptr \<noteq> None" "heap_ok w" "mem_inv w" using assms(1,4) by (auto simp: lock_inv_def mem_inv_def)
    note same = free_unlisted_holds[OF h(2,1) u f]
    show ?thesis by (rule same_lock[OF assms(4) free_unlisted_inv[OF h(3,1) u f] same(1) same(4,5)])
  qed
qed

lemma mem_step_lock:
  assumes "mem_step cfg {0} w w'" "lock_inv cfg w" "good_config cfg" "\<not> ODD_MLOCK_OK cfg"
  shows "lock_inv cfg w'"
  using assms(1,2)
proof (induction rule: mem_step.induct)
  case (memdup xs os w p w')
  then obtain w1 where a: "allocate cfg os 0 (length xs) False False w = Some (p, w1)"
    "if p \<noteq> 0 then os_write p 0 xs w1 = Some w' else w' = w1"
    by (auto simp: alloc_defs bind_eq_Some_conv split: if_splits prod.splits)
  then show ?case using allocate_lock[OF memdup(3,1) a(1) assms(3,4)] fill_lock[of cfg w1 p 0 xs w'] by (cases "p = 0") auto
next
  case (smemdup xs os w p w')
  then obtain w1 where a: "allocate cfg os 0 (length xs) True False w = Some (p, w1)"
    "if p \<noteq> 0 then os_write p 0 xs w1 = Some w' else w' = w1"
    by (auto simp: alloc_defs bind_eq_Some_conv split: if_splits prod.splits)
  then show ?case using allocate_lock[OF smemdup(3,1) a(1) assms(3,4)] fill_lock[of cfg w1 p 0 xs w'] by (cases "p = 0") auto
next
  case (sfree ptr w w')
  show ?case by (rule sfree_lock[OF sfree(3,1,2) assms(3)])
next
  case (plain_free ptr w w')
  show ?case by (rule free_lock[OF plain_free assms(3)])
next
  case (srealloc n os w ptr os' p w')
  have inv: "mem_inv w" using srealloc(4) by (simp add: lock_inv_def)
  from inv srealloc(1,3) show ?case
  proof (cases rule: srealloc_cases)
    case 1
    show ?thesis by (rule sfree_lock[OF srealloc(4,2) 1(3) assms(3)])
  next
    case (2 q)
    then show ?thesis using allocate_lock[OF srealloc(4,1) _ assms(3,4)] by (auto simp: alloc_defs)
  qed
next
  case (realloc n os w ptr os' p w')
  have inv: "mem_inv w" using realloc(6) by (simp add: lock_inv_def)
  from inv realloc(1,5) show ?case
  proof (cases rule: realloc_cases)
    case 1
    show ?thesis by (rule free_lock[OF realloc(2,4) 1(3) realloc(6) assms(3)])
  next
    case (2 q)
    then show ?thesis using allocate_lock[OF realloc(6,1) _ assms(3,4)] by (auto simp: alloc_defs)
  next
    case 3
    then have u: "heap w ptr \<noteq> None" "\<forall>a nd. nodes w a = Some nd \<longrightarrow> al_mem nd \<noteq> ptr" using realloc(2,4) by auto
    have "heap_ok w" using inv by (simp add: mem_inv_def)
    note m = moved_holds[OF this u 3(2) realloc(3) 3(4)]
    show ?thesis by (rule same_lock[OF realloc(6) moved_inv[OF inv u 3(2) realloc(3) 3(4)] m(1) m(3,4)])
  qed
next
  case (fill ptr off xs w w')
  then show ?case using fill_lock by blast
next
  case (adjust flags op w r w')
  obtain es pl where es: "holds w es" "secure_ok cfg w es"
    and pl: "pools w mempool = Some pl" "pl_flags pl = 0" "pl_pgsize (init_of cfg pl) = os_page cfg"
    using adjust(3) by (auto simp: lock_inv_def)
  from adjust_holds[OF es(1) adjust(2) pl(1)] adjust_inv[of w cfg op flags r w'] adjust show ?case
    using pl secure_ok_mono[OF es(2), of w'] unfolding lock_inv_def by auto
qed (auto simp: alloc_defs intro: allocate_lock[OF _ _ _ assms(3,4)])

lemma mem_reachable_lock:
  assumes "mem_reachable cfg {0} w" "good_config cfg" "\<not> ODD_MLOCK_OK cfg"
  shows "lock_inv cfg w"
proof -
  obtain w0 where w0: "mem_start cfg w0" and run: "(mem_step cfg {0})\<^sup>*\<^sup>* w0 w"
    using assms(1) by (auto simp: mem_reachable_def)
  have "holds w0 []" using w0 by (auto simp: mem_start_def holds_def intro!: exI[of _ "[]"])
  moreover have "0 < os_page cfg" using assms(2) by (auto simp: good_config_def)
  ultimately have "lock_inv cfg w0"
    using w0 mem_start_inv[OF w0] assms(2)
    by (auto simp: lock_inv_def mem_start_def secure_ok_def init_of_def good_config_def split: if_splits)
  with run show ?thesis by (induction rule: rtranclp_induct) (auto intro: mem_step_lock[OF _ _ assms(2,3)])
qed

text \<open>So the page of every byte of a secure block is locked.\<close>

lemma locked_bytes:
  assumes "mem_reachable cfg {0} w" "good_config cfg" "\<not> ODD_MLOCK_OK cfg"
    and "holds w es" "(m, n, b) \<in> set es" "b \<noteq> 0" "x < n"
  shows "(m + x) div os_page cfg \<in> locked w"
proof -
  obtain fs where "holds w fs" "secure_ok cfg w fs" using mem_reachable_lock[OF assms(1-3)] by (auto simp: lock_inv_def)
  then have "b = (n + (os_page cfg - 1)) div os_page cfg * os_page cfg" "pages (os_page cfg) m b \<subseteq> locked w"
    using holds_unique[OF assms(4)] assms(5,6) by (auto simp: secure_ok_def)
  moreover have "0 < os_page cfg" using assms(2) by (auto simp: good_config_def)
  then have "n \<le> (n + (os_page cfg - 1)) div os_page cfg * os_page cfg"
    using mod_less_divisor[of "os_page cfg" "n + (os_page cfg - 1)"]
      div_mult_mod_eq[of "n + (os_page cfg - 1)" "os_page cfg"] by linarith
  ultimately have "m + x \<le> m + b - 1" using assms(7) by linarith
  then have "(m + x) div os_page cfg \<in> pages (os_page cfg) m b"
    using assms(6) by (simp add: pages_def div_le_mono)
  then show ?thesis using \<open>pages (os_page cfg) m b \<subseteq> locked w\<close> by blast
qed

section \<open>Single calls\<close>

text \<open>
  The outcome of an allocation of \<open>n\<close> bytes. If the system refuses, null, and the blocks, the list and the
  locked pages are what they were. Otherwise the address the system gave, which was free, with the content
  \<open>fill held\<close> made from what the memory held; the pool lists the block if it has to, and its pages are
  locked if it is secure and the flags do not say otherwise.
\<close>

definition alloc_result ::
    "config \<Rightarrow> answers \<Rightarrow> nat \<Rightarrow> bool \<Rightarrow> (byte list \<Rightarrow> byte list) \<Rightarrow> (nat \<times> nat \<times> nat) list \<Rightarrow> world \<Rightarrow> (nat \<times> world) option \<Rightarrow> bool" where
  "alloc_result cfg os n secure fill es w r \<longleftrightarrow>
     (\<exists>p w' pl. r = Some (p, w') \<and> pools w mempool = Some pl \<and>
        (if alloc_refused cfg os secure (pl_flags pl)
         then p = 0 \<and> heap w' = heap w \<and> nodes w' = nodes w \<and> locked w' = locked w \<and> holds w' es
         else \<exists>held b. os_mem os = Inr (p, held) \<and> p \<noteq> 0 \<and> heap w p = None \<and> length held = n \<and>
           heap w' = (heap w)(p \<mapsto> fill held) \<and>
           b = (if secure then block_size cfg (pl_pgsize (init_of cfg pl)) n else 0) \<and>
           holds w' (if secure \<or> ALWAYS_ZERO cfg then (p, n, b) # es else es) \<and>
           locked w' = (if secure \<and> pl_flags pl AND DREW_MEM_SECMEM_NO_LOCK = 0 \<and> os_mlock os
                        then locked w \<union> pages (os_page cfg) p b else locked w)))"

lemma alloc_result_granted:
  assumes "r = Some (p, w')" "pools w mempool = Some pl" "\<not> alloc_refused cfg os secure (pl_flags pl)"
    and "os_mem os = Inr (p, held)" "p \<noteq> 0" "heap w p = None" "length held = n" "heap w' = (heap w)(p \<mapsto> fill held)"
    and "b = (if secure then block_size cfg (pl_pgsize (init_of cfg pl)) n else 0)"
    and "holds w' (if secure \<or> ALWAYS_ZERO cfg then (p, n, b) # es else es)"
    and "locked w' = (if secure \<and> pl_flags pl AND DREW_MEM_SECMEM_NO_LOCK = 0 \<and> os_mlock os
      then locked w \<union> pages (os_page cfg) p b else locked w)"
  shows "alloc_result cfg os n secure fill es w r"
  unfolding alloc_result_def
  by (rule exI[of _ p], rule exI[of _ w'], rule exI[of _ pl], intro conjI, rule assms(1), rule assms(2),
      subst if_not_P, rule assms(3), intro exI[of _ held] exI[of _ b] conjI assms(4-11))

lemma allocate_result:
  assumes "mem_inv w" "holds w es" "good_answers cfg n secure os w" "0 < n"
  shows "alloc_result cfg os n secure (if clear then \<lambda>held. replicate n 0 else (\<lambda>held. held)) es w (allocate cfg os 0 n secure clear w)"
proof -
  have ok: "heap_ok w" using assms(1) by (simp add: mem_inv_def)
  obtain pl where pl: "pools w mempool = Some pl" using assms(2) by (auto simp: holds_def)
  obtain p w' where r: "allocate cfg os 0 n secure clear w = Some (p, w')"
    "if p = 0 then refused cfg es w w' else granted cfg os n secure clear es w p w'"
    "p = 0 \<longleftrightarrow> alloc_refused cfg os secure (pl_flags pl)"
    using allocate_holds[OF assms(2,3,4) ok, of clear] pl by auto
  show ?thesis
  proof (cases "p = 0")
    case True
    then show ?thesis using r pl unfolding alloc_result_def
      by (intro exI[of _ p] exI[of _ w'] exI[of _ pl]) (simp add: refused_def)
  next
    case False
    define b where "b = (if secure then block_size cfg (pl_pgsize (init_of cfg pl)) n else 0)"
    obtain held where g: "os_mem os = Inr (p, held)" "heap w' = (heap w)(p \<mapsto> if clear then replicate n 0 else held)"
      "holds w' (if secure \<or> ALWAYS_ZERO cfg then (p, n, b) # es else es)"
      "locked w' = (if secure \<and> pl_flags pl AND DREW_MEM_SECMEM_NO_LOCK = 0 \<and> os_mlock os
         then locked w \<union> pages (os_page cfg) p b else locked w)"
      using r(2) False pl unfolding granted_def Let_def b_def by auto
    have "length held = n" using assms(3) g(1) by (simp add: good_answers_def)
    moreover have "heap w p = None" by (rule answers_fresh[OF assms(3) g(1) assms(4) ok])
    ultimately show ?thesis
      by (intro alloc_result_granted[OF r(1) pl _ g(1) False _ _ _ b_def g(3,4)]) (use r(3) False g(2) in simp_all)
  qed
qed

lemma memdup_result:
  assumes "alloc_result cfg os (length xs) secure (\<lambda>held. held) es w r"
  shows "alloc_result cfg os (length xs) secure (\<lambda>held. xs) es w
    (Option.bind r (\<lambda>(p, w). if p \<noteq> 0 then Option.bind (os_write p 0 xs w) (\<lambda>w. Some (p, w)) else Some (p, w)))"
proof -
  obtain p w1 pl where r: "r = Some (p, w1)" "pools w mempool = Some pl"
    and q: "if alloc_refused cfg os secure (pl_flags pl)
         then p = 0 \<and> heap w1 = heap w \<and> nodes w1 = nodes w \<and> locked w1 = locked w \<and> holds w1 es
         else \<exists>held b. os_mem os = Inr (p, held) \<and> p \<noteq> 0 \<and> heap w p = None \<and> length held = length xs \<and>
           heap w1 = (heap w)(p \<mapsto> held) \<and>
           b = (if secure then block_size cfg (pl_pgsize (init_of cfg pl)) (length xs) else 0) \<and>
           holds w1 (if secure \<or> ALWAYS_ZERO cfg then (p, length xs, b) # es else es) \<and>
           locked w1 = (if secure \<and> pl_flags pl AND DREW_MEM_SECMEM_NO_LOCK = 0 \<and> os_mlock os
                        then locked w \<union> pages (os_page cfg) p b else locked w)"
    using assms unfolding alloc_result_def by blast
  show ?thesis
  proof (cases "alloc_refused cfg os secure (pl_flags pl)")
    case True
    then show ?thesis using q r unfolding alloc_result_def by simp
  next
    case False
    then obtain held b where h: "os_mem os = Inr (p, held)" "p \<noteq> 0" "heap w p = None" "length held = length xs"
      "heap w1 = (heap w)(p \<mapsto> held)" "b = (if secure then block_size cfg (pl_pgsize (init_of cfg pl)) (length xs) else 0)"
      "holds w1 (if secure \<or> ALWAYS_ZERO cfg then (p, length xs, b) # es else es)"
      "locked w1 = (if secure \<and> pl_flags pl AND DREW_MEM_SECMEM_NO_LOCK = 0 \<and> os_mlock os
         then locked w \<union> pages (os_page cfg) p b else locked w)" using q by auto
    define w2 where "w2 = w1\<lparr>heap := (heap w1)(p \<mapsto> xs)\<rparr>"
    have wr: "os_write p 0 xs w1 = Some w2" using h(4,5) by (simp add: os_write_def w2_def put_bytes_0_all)
    note k = os_write_holds(1)[OF wr h(7)] os_write_holds(3)[OF wr]
    show ?thesis
      by (rule alloc_result_granted[where held = held and b = b and w' = w2 and p = p and pl = pl])
        (use r h False wr k in \<open>simp_all add: w2_def\<close>)
  qed
qed

text \<open>The six functions.\<close>

theorem allocation_results:
  assumes "mem_inv w" "holds w es" "0 < n" "good_answers cfg n False os w" "good_answers cfg n True oz w"
    and "length xs = n" "nmemb * m mod 2 ^ 64 = n"
  shows "alloc_result cfg os n False (\<lambda>held. held) es w (drew_mem_malloc cfg os n w)"
    "alloc_result cfg os n False (\<lambda>held. replicate n 0) es w (drew_mem_calloc cfg os nmemb m w)"
    "alloc_result cfg os n False (\<lambda>held. xs) es w (drew_mem_memdup cfg os xs w)"
    "alloc_result cfg oz n True (\<lambda>held. held) es w (drew_mem_smalloc cfg oz n w)"
    "alloc_result cfg oz n True (\<lambda>held. replicate n 0) es w (drew_mem_scalloc cfg oz nmemb m w)"
    "alloc_result cfg oz n True (\<lambda>held. xs) es w (drew_mem_smemdup cfg oz xs w)"
proof -
  note plain = allocate_result[OF assms(1,2,4,3)] and secure = allocate_result[OF assms(1,2,5,3)]
  show "alloc_result cfg os n False (\<lambda>held. held) es w (drew_mem_malloc cfg os n w)"
    "alloc_result cfg os n False (\<lambda>held. replicate n 0) es w (drew_mem_calloc cfg os nmemb m w)"
    "alloc_result cfg oz n True (\<lambda>held. held) es w (drew_mem_smalloc cfg oz n w)"
    "alloc_result cfg oz n True (\<lambda>held. replicate n 0) es w (drew_mem_scalloc cfg oz nmemb m w)"
    unfolding alloc_defs assms(7) using plain[of False] plain[of True] secure[of False] secure[of True] by simp_all
  show "alloc_result cfg os n False (\<lambda>held. xs) es w (drew_mem_memdup cfg os xs w)"
    "alloc_result cfg oz n True (\<lambda>held. xs) es w (drew_mem_smemdup cfg oz xs w)"
    using memdup_result[of cfg os xs False es w "allocate cfg os 0 n False False w"] plain[of False]
      memdup_result[of cfg oz xs True es w "allocate cfg oz 0 n True False w"] secure[of False]
    by (simp_all add: alloc_defs assms(6))
qed

text \<open>On a secure block, \<^verbatim>\<open>sfree\<close> clears all of it before it is given back, whatever the
  list of the pool is; memory of other origin is given back as it is; a second time is an error.\<close>

lemma sfree_clears:
  assumes "mem_inv w" "holds w es" "heap w ptr = Some bs" "ptr \<noteq> 0"
  shows "\<exists>w'. drew_mem_sfree cfg ptr w = Some w' \<and> heap w' = (heap w)(ptr := None) \<and>
     holds w' (filter (\<lambda>e. fst e \<noteq> ptr) es) \<and>
     hd (released w') = (ptr, if ptr \<in> fst ` set es then replicate (length bs) 0 else bs) \<and>
     drew_mem_sfree cfg ptr w' = None"
proof -
  obtain w' where w': "drew_mem_sfree cfg ptr w = Some w'" "freed cfg ptr es w w'"
    by (rule sfree_holds[OF assms(2-4)])
  have h: "holds w' (filter (\<lambda>e. fst e \<noteq> ptr) es)" "heap w' = (heap w)(ptr := None)" using w'(2) by (simp_all add: freed_def)
  then obtain pl as where l: "pools w' mempool = Some pl" "chain (nodes w') (pl_alloc pl) as"
    "map (entry w') as = filter (\<lambda>e. fst e \<noteq> ptr) es" unfolding holds_def by blast
  let ?w = "w'\<lparr>pools := (pools w')(mempool \<mapsto> init_of cfg pl)\<rparr>"
  have "ptr \<notin> mem_of ?w ` set as" using entry_mems[OF l(3)] by auto
  then have "psfree_loop cfg mempool ptr (pl_alloc pl) (pl_alloc pl) ?w = Some ?w"
    using psfree_loop_miss[of ?w "pl_alloc pl" as ptr] l(2) by simp
  then have "drew_mem_sfree cfg ptr w' = None"
    using assms(4) h(2) init_pool_init_of[OF l(1)]
    by (simp add: drew_mem_sfree_def drew_mem_psfree_def os_free_def)
  then show ?thesis using w' h assms(3) by (auto simp: freed_def)
qed

text \<open>Where any range can be locked, blocks share pages: freeing one unlocks the other's.\<close>

lemma sfree_unlocks_neighbour:
  assumes "holds w es" "heap w m = Some bs" "m \<noteq> 0"
    and "(m, n, b) \<in> set es" "(m', n', b') \<in> set es" "m \<noteq> m'" "pg \<in> pages (os_page cfg) m b"
  shows "\<exists>w' es'. drew_mem_sfree cfg m w = Some w' \<and> holds w' es' \<and> (m', n', b') \<in> set es' \<and> pg \<notin> locked w'"
proof -
  obtain w' where w': "drew_mem_sfree cfg m w = Some w'" "freed cfg m es w w'"
    by (rule sfree_holds[OF assms(1-3)])
  have "pg \<in> free_pages cfg m es" using assms(4,7) by (force simp: free_pages_def)
  then show ?thesis using w' assms(5,6) by (intro exI[of _ w']) (auto simp: freed_def)
qed

lemma calloc_wraps:
  assumes "nmemb * n mod 2 ^ 64 = 0"
  shows "drew_mem_calloc cfg os nmemb n w = Some (0, w)" "drew_mem_scalloc cfg os nmemb n w = Some (0, w)"
  using assms by (simp_all add: alloc_defs allocate_def)

end
