(* ===== verification/Spec2Isabelle.thy ===== *)
theory Spec2Isabelle
  imports AES Rijndael Serpent TEA RC2 Blowfish CAST SHACAL MD2 MD4_MD5 RIPEMD RC4 Salsa20 ChaCha CBC OFB_CTR CFB GCM_Fast KDF CMAC Mem
begin

text \<open>
  A verification library for drew, a suite of cryptographic primitives behind a plugin
  interface. Every algorithm of \<^verbatim>\<open>impl\<close> is a C++ class built on a small template (a
  hash on \<^verbatim>\<open>Hash\<close>, a block cipher on \<^verbatim>\<open>BlockCipher\<close>, a stream cipher on
  \<^verbatim>\<open>CopyAndXor\<close>), and every template on the byte order classes of
  \<^verbatim>\<open>include/util.hh\<close>. The theories follow this structure.

  Conventions. A machine word is a \<^verbatim>\<open>w word\<close> and wraps as in the code; an array of words or
  bytes is a list, updated by index; a buffer written through a pointer is \<open>put_bytes\<close>; a class
  is a record with the members of the class and its methods are functions that return the record
  updated. The byte order of the machine is an argument, \<open>host\<close>, wherever the code asks for it;
  the lemmas show that no result depends on it. Virtual methods and template parameters are
  arguments. Arrays of a record keep the length the class declares; the predicates named
  \<open>alloc\<close>, \<open>ready\<close> and \<open>keyed\<close> say so.

  Base.
  \<^item> \<open>Drew_Prelude\<close>: types, lists cut into blocks, the ring of sixteen words.
  \<^item> \<open>Util\<close>: \<^verbatim>\<open>include/util.hh\<close>, rotations and the byte order classes. Shown: the
    rotations are inverse, reading and writing words does not depend on the machine.

  Hashes.
  \<^item> \<open>Hash\<close>: \<^verbatim>\<open>impl/hash/hash.hh\<close>, the template with its counter, buffer, padding and
    digest. The locale \<open>streaming_hash\<close> is the contract of a hash object, \<open>md_hash\<close> that of
    an algorithm that uses the template's padding; the relation \<open>absorbed\<close> says what a
    context has been given.
  \<^item> \<open>SHA1\<close>, \<open>SHA2\<close>, \<open>MD4_MD5\<close>, \<open>MD2\<close>, \<open>RIPEMD\<close>: the algorithms of
    \<^verbatim>\<open>impl/hash\<close> of the same names. Shown: the unrolled, in-place code is the loop of the
    standard over its full schedule; inverse transforms; MD2's own padding and its aliasing; each is an
    interpretation of the contract.

  Block ciphers.
  \<^item> \<open>Block_Cipher\<close>: \<^verbatim>\<open>impl/block/blockcipher.hh\<close> and the locale \<open>block_cipher\<close>,
    the contract (two mutually inverse operations on blocks) with the lemmas on several blocks.
  \<^item> \<open>Rijndael_Spec\<close>: the specification, FIPS 197 for any number of columns: the field with 256
    elements, the steps of a round on columns of bytes, the cipher, its inverse and the key expansion.
  \<^item> \<open>AES\<close>, \<open>Rijndael\<close> (and their tables): \<^verbatim>\<open>impl/block/aes\<close>, with rounds over tables of
    words, and \<^verbatim>\<open>impl/block/rijndael\<close>, with unrolled rounds over bytes for five block sizes and
    a decryption on four packed rows. Shown: every table is what the arithmetic of the field gives, and both compute
    the specification, key schedules included.
  \<^item> \<open>Serpent\<close> (and \<open>Serpent_Boxes\<close>): \<^verbatim>\<open>impl/block/serpent\<close>. Shown: the sliced
    substitutions are the published tables, the code is the published cipher.
  \<^item> \<open>TEA\<close>, \<open>RC2\<close>, \<open>Blowfish\<close> (and its tables), \<open>CAST\<close> (and its tables),
    \<open>SHACAL\<close>: the ciphers, their key schedules, each an interpretation of the contract; SHACAL
    shares its rounds with the hashes, which are its Davies-Meyer construction.

  Stream ciphers.
  \<^item> \<open>Keystream\<close>: \<^verbatim>\<open>CopyAndXor\<close> and \<^verbatim>\<open>CopyAndXorAligned\<close>, the locale
    \<open>keystream\<close> of a generator that fills a buffer and \<open>stream_cipher\<close> of a cipher object on it.
  \<^item> \<open>RC4\<close>, \<open>Salsa20\<close>, \<open>ChaCha\<close>: generators and ciphers against their
    specifications, block by block, with the behaviour at the end of a buffer.

  Modes of operation, over the function table of any block cipher.
  \<^item> \<open>Block_Plugin\<close>: the table (\<^verbatim>\<open>impl/block/block-plugin.hh\<close>), the error codes and
    the buffer operations of \<^verbatim>\<open>include/util.h\<close>.
  \<^item> \<open>CBC\<close>, \<open>OFB_CTR\<close>, \<open>CFB\<close>: \<^verbatim>\<open>impl/mode\<close>. CBC works on a memory with
    offsets, since it may work in place; the others on lists. Shown: the operations are the modes of the
    standard, in any pieces, and where the aligned variants differ. The locale \<open>cfb_step\<close> is what
    encryption and decryption of CFB share.
  \<^item> \<open>GF128\<close>: the multiplication of GCM (\<^verbatim>\<open>impl/mode/gcm.cc\<close>), bit by bit and with a table;
    shown: they agree, as sums of halved blocks.
  \<^item> \<open>GCM\<close>, \<open>GCM_Fast\<close>: the mode over either multiplication (\<^verbatim>\<open>impl/mode/gcm-impl.cc\<close>).
    \<open>gcm_at\<close> relates a context to the ciphertext so far, whatever the pieces; shown: the output and the tag are those
    of SP 800-38D, decryption accepts exactly this tag (for lengths an \<^verbatim>\<open>int\<close> can hold), what \<^verbatim>\<open>setdata\<close> does to whole blocks, and where the
    aligned operations agree with the plain ones.

  Authentication and key derivation, over function tables.
  \<^item> \<open>Hash_Plugin\<close>: the table of a hash; the locale \<open>plugin_hash\<close> extends
    \<open>streaming_hash\<close> by what a client of the table needs and is interpreted on five hashes.
  \<^item> \<open>HMAC\<close>, \<open>CMAC\<close>: \<^verbatim>\<open>impl/mac\<close>. Invariants say what a context has been
    keyed with and given; shown: RFC 2104 and SP 800-38B, and what is left behind by \<^verbatim>\<open>final\<close>.
  \<^item> \<open>KDF\<close>: \<^verbatim>\<open>impl/kdf\<close>, PBKDF2 and TLS-PRF inside the locale \<open>kdf_prf\<close>, the
    contract of a pseudorandom function, which is interpreted on HMAC.

  Memory.
  \<^item> \<open>Mem\<close>: \<^verbatim>\<open>lib/libdrew/mem.c\<close>, the allocator with its list of secure blocks, over a
    world with the blocks of the C library, the nodes of the list and the locked pages. \<open>holds\<close> relates
    the linked list to a list of entries, each operation is shown to refine one on that list, \<open>alloc_result\<close> is the
    outcome of an allocation, \<open>mem_step\<close> is what a program can do with the functions on the allocator's own pool
    (those with a pool of the caller are defined, but nothing in the library makes a pool), and \<open>mem_inv\<close> and \<open>lock_inv\<close> are its invariants.

  Loops. The loops of the algorithms are bounded by a length or a constant and are folds or
  structural or measured recursions, so no definition needs fuel. The loops over the linked list of the
  allocator and the key schedule of Rijndael are partial functions into an option; that they return, in reachable
  worlds and for the keys of the standard, is proved. An access
  outside an array or through a pointer to nothing, or a division by zero, where the code makes one, is the result
  \<open>None\<close>. So is, for TEA, XTEA, RC2, Blowfish, CAST, Serpent and RC4, the result of \<^verbatim>\<open>SetKey\<close> for a key that the
  code copies past the end of a member, reads past the end of, or divides by the length of, since it checks no length. The key
  setup of SHACAL (up to 64 bytes), Salsa20 and ChaCha (16 or 32 bytes, nonces of 8 or 12) is modelled for keys of
  these lengths only.
  A length that a function returns as an \<^verbatim>\<open>int\<close> goes through \<open>int_of_size\<close>, which is the conversion to 32 bits.

  Not modelled: the plugin functions that allocate, describe or test (info, init of the primitives, clone,
  fini), assembly and kernel-socket variants, the bignum plugins (wrappers of third-party
  libraries), the loader (file system and dynamic linking), programs and tests. DES, the remaining
  ciphers and hashes, generators of random numbers and the public-key plugins are not modelled yet.
\<close>

section \<open>Machine words and byte order\<close>

text \<open>C1. Writing words out does not depend on the machine: on a host of either byte order,
  \<^verbatim>\<open>Endian::CopyCarefully\<close>, which may stop inside a word, gives the leading bytes of the
  words in the order asked for, and reading them back with \<^verbatim>\<open>Endian::Copy\<close> on a host of any
  other byte order gives the words.\<close>
theorem Copy_host_independent:
  fixes src :: "'a::len word list"
  assumes "8 dvd LENGTH('a)" "len \<le> LENGTH('a) div 8 * length src"
  shows "CopyCarefully_out host E src len (LENGTH('a) div 8) = take len (store_words E src) \<and>
     Copy_in host' E (CopyCarefully_out host E src (LENGTH('a) div 8 * length src) (LENGTH('a) div 8))
       (LENGTH('a) div 8 * length src) = src"
  using assms by (simp add: CopyCarefully_out_store Copy_in_load_words load_store_words bytes_simps
      flip: store_words_def)

lemma Copy_host_independent_witness:
  "CopyCarefully_out Big Little [0x11223344, 0x55667788 :: u32] 6 4 = take 6 (store_words Little [0x11223344, 0x55667788 :: u32])"
  using Copy_host_independent[of 6 "[0x11223344, 0x55667788 :: u32]" Big Little Big] by simp

section \<open>The hash template\<close>

text \<open>C2. Any algorithm built on the template \<^verbatim>\<open>Hash\<close> with its own \<^verbatim>\<open>Pad\<close>, whose words have
  more than 3 bits and are whole bytes, whose blocks have room for the length and divide the range of a word, and whose digest is no
  longer than its state: after \<^verbatim>\<open>Reset\<close>, any sequence of \<^verbatim>\<open>Update\<close> calls, each of fewer than
  \<open>2 ^ LENGTH('w)\<close> bytes, and \<^verbatim>\<open>GetDigest\<close>, the result is the Merkle-Damgaard digest of the
  concatenation of the pieces, however the message was cut, whatever the context held before and whatever the byte order of
  the machine. The bound is needed: one call with as many bytes as the range of a word leaves both words of the counter
  as they were, so the length that \<^verbatim>\<open>Pad\<close> appends is wrong.\<close>
theorem hash_template_digest:
  fixes tr :: "'w::len transform" and st st' :: "'w word hstate"
  assumes "3 < LENGTH('w)" "8 dvd LENGTH('w)" "BlkSize dvd 2 ^ LENGTH('w)" "2 * (LENGTH('w) div 8) < BlkSize"
    and "\<And>h b. length h = length iv \<Longrightarrow> length b = BlkSize \<Longrightarrow> length (tr h b) = length iv"
    and "dsize \<le> LENGTH('w) div 8 * length iv"
    and "length (m_buf st) = BlkSize" "\<forall>p\<in>set ps. length p < 2 ^ LENGTH('w)"
  shows "fst (hash_GetDigest host (hash_Pad host tr BlkSize E) E dsize False
       (fold (hash_Update tr BlkSize) ps (hash_Reset iv st))) = md_digest tr BlkSize E iv dsize (concat ps) \<and>
     (length long = 2 ^ LENGTH('w) \<longrightarrow> m_len0 (hash_Update tr BlkSize long st') = m_len0 st' \<and>
       m_len1 (hash_Update tr BlkSize long st') = m_len1 st')"
  using md_hash.template_digest[OF md_hash.intro[OF assms(1-4) _ assms(6)] assms(7,8)] assms(5)
    hash_Update_whole_range[of long tr BlkSize st'] by simp

lemma hash_template_digest_witness:
  "fst (hash_GetDigest Big (hash_Pad Big SHA256_Transform 64 Big) Big 32 False
       (fold (hash_Update SHA256_Transform 64) [[0x61], [0x62, 0x63]] (hash_Reset SHA256_iv
         \<lparr>m_hash = [], m_buf = replicate 64 7, m_len0 = 5, m_len1 = 9\<rparr>)))
     = md_digest SHA256_Transform 64 Big SHA256_iv 32 [0x61, 0x62, 0x63]"
  using hash_template_digest[where tr = SHA256_Transform and iv = SHA256_iv and BlkSize = 64 and dsize = 32
      and st = "\<lparr>m_hash = [], m_buf = replicate 64 7, m_len0 = 5, m_len1 = 9\<rparr>" and ps = "[[0x61], [0x62, 0x63]]"
      and host = Big and E = Big] sha256.length_tr
  by (simp add: SHA256_iv_def)

text \<open>C3. The two hashes that do more than the template: SHA-512/t, whose \<^verbatim>\<open>Reset\<close> derives the
  initial value with the hash itself, and MD2, whose padding and checksum are its own, give after any sequence of
  pieces the digest of the standard for their concatenation. MD2's \<^verbatim>\<open>Pad\<close> hands \<^verbatim>\<open>Update\<close>
  a pointer to the checksum inside the state that the transform overwrites; the aliasing is harmless, the result
  is that of a copy.\<close>
theorem own_hashes_digest:
  assumes "length (m_buf st) = 128" "t \<le> 64" "\<forall>p\<in>set ps. length p < 2 ^ 64" "length (m_buf st') = 16" "length x = 64"
  shows "fst (hash_GetDigest host (hash_Pad host SHA512_Transform 128 Big) Big t False
       (fold (hash_Update SHA512_Transform 128) ps (SHA512t_Reset host t st)))
     = md_digest SHA512_Transform 128 Big (SHA512t_iv t) t (concat ps) \<and>
     fst (MD2_GetDigest 16 False (fold (hash_Update MD2_Transform 16) ps (MD2_Reset st'))) = md2_digest 16 (concat ps) \<and>
     MD2_Transform_csum x = MD2_Transform x (drop 48 x)"
proof (intro conjI)
  show "fst (MD2_GetDigest 16 False (fold (hash_Update MD2_Transform 16) ps (MD2_Reset st'))) = md2_digest 16 (concat ps)"
    by (rule md2.stream_digest[OF assms(4)]) (use assms(3) in simp)
qed (use sha512t.stream_digest[of st ps host t] MD2_Transform_csum_copy[OF assms(5)] assms in \<open>simp_all add: SHA512t_Reset_iv\<close>)

lemma own_hashes_digest_witness:
  "fst (hash_GetDigest Little (hash_Pad Little SHA512_Transform 128 Big) Big 28 False
       (fold (hash_Update SHA512_Transform 128) [[1, 2], [], [3]]
         (SHA512t_Reset Little 28 \<lparr>m_hash = [], m_buf = replicate 128 1, m_len0 = 5, m_len1 = 9\<rparr>)))
     = md_digest SHA512_Transform 128 Big (SHA512t_iv 28) 28 (concat [[1, 2], [], [3]])"
  by (rule own_hashes_digest[where st' = "\<lparr>m_hash = [], m_buf = replicate 16 1, m_len0 = 5, m_len1 = 9\<rparr>"
      and x = "replicate 64 3", THEN conjunct1]) simp_all

section \<open>Compression functions\<close>

text \<open>C4. The compression functions of SHA-1 (\<open>R = 1\<close>), SHA-0 (\<open>R = 0\<close>), SHA-256 and SHA-512,
  which compute their schedules in place or in a ring of sixteen words between the rounds, are the rounds of
  the standard over the full schedule.\<close>
theorem SHA_Transforms_standard:
  assumes "length block = 64" "length block' = 128"
  shows "SHA_Transform R st block = map2 (+) st (sha_store_regs
       (fold (\<lambda>t. sha_OP (sha_fun t) (sha_word R (load_words Big block) t)) [0..<80] (sha_load_regs st))) \<and>
     SHA256_Transform st block = map2 (+) st (sha2_store_regs
       (fold (\<lambda>t. sha256_ROUND (sha256_k ! t) (sha256_word (load_words Big block) t)) [0..<64] (sha2_load_regs st))) \<and>
     SHA512_Transform st' block' = map2 (+) st' (sha2_store_regs
       (fold (\<lambda>t. sha512_ROUND (sha512_k ! t) (sha512_word (load_words Big block') t)) [0..<80] (sha2_load_regs st')))"
proof -
  have "16 \<le> length (load_words Big block :: u32 list)" using assms(1) by (simp add: bytes_simps)
  then show ?thesis
    using SHA512_Transform_steps[OF assms(2)]
    by (simp only: SHA_Transform_def SHA256_Transform_def SHA_ForwardTransform_steps SHA256_ForwardTransform_steps simp_thms)
qed

lemma SHA_Transforms_standard_witness:
  "SHA_Transform 1 SHA_iv (replicate 64 5) = map2 (+) SHA_iv (sha_store_regs
     (fold (\<lambda>t. sha_OP (sha_fun t) (sha_word 1 (load_words Big (replicate 64 5)) t)) [0..<80] (sha_load_regs SHA_iv)))"
  by (rule conjunct1[OF SHA_Transforms_standard[where block' = "replicate 128 0"]]) simp_all

text \<open>C5. The unrolled lines of MD4 and MD5 are the loops of RFC 1320 and RFC 1321, and the four
  RIPEMD functions are the published ones: two independent lines whose word orders are powers of one
  permutation, with the exchanges of the wide variants.\<close>
theorem MD4_MD5_RIPEMD_published:
  "MD4_Transform = MD4_compress \<and> MD5_Transform = MD5_compress (nth MD5_constants) \<and>
   RIPEMD160_Transform = RIPEMD160_compress \<and> RIPEMD128_Transform = RIPEMD128_compress \<and>
   RIPEMD320_Transform = RIPEMD320_compress \<and> RIPEMD256_Transform = RIPEMD256_compress"
  by (simp add: MD4_Transform_compress MD5_Transform_compress RIPEMD160_Transform_compress RIPEMD128_Transform_compress
      RIPEMD320_Transform_compress RIPEMD256_Transform_compress)

text \<open>C6. The rounds of SHA-0, SHA-1 and SHA-256 can be undone: \<^verbatim>\<open>InverseTransform\<close>, given the full
  schedule, undoes \<^verbatim>\<open>ForwardTransform\<close> and is undone by it, on any block and state. SHACAL-1 and
  SHACAL-2 are these rounds, so the compression functions are the Davies-Meyer construction on the ciphers keyed
  with the block.\<close>
theorem SHA_SHACAL_rounds:
  assumes "16 \<le> length block" "length state = 5" "length state' = 8"
    and "length key = 64" "length (m_words c) = 80" "length (m_words c') = 64"
  shows "SHA_InverseTransform (SHA_ForwardTransform R state block) (sha_schedule R block) = state \<and>
     SHA_ForwardTransform R (SHA_InverseTransform state (sha_schedule R block)) block = state \<and>
     SHA256_InverseTransform (SHA256_ForwardTransform state' block) (sha256_schedule block) = state' \<and>
     SHA256_ForwardTransform (SHA256_InverseTransform state' (sha256_schedule block)) block = state' \<and>
     SHA_Transform 1 state key
       = map2 (+) state (load_words Big (SHACAL1_Encrypt (SHACAL1_SetKeyInternal key c) (store_words Big state))) \<and>
     SHA256_Transform state' key
       = map2 (+) state' (load_words Big (SHACAL2_Encrypt (SHACAL2_SetKeyInternal key c') (store_words Big state')))"
  using SHA_Inverse_Forward[OF assms(1,2)] SHA_Forward_Inverse[OF assms(1,2)]
    SHA256_Inverse_Forward[OF assms(1,3)] SHA256_Forward_Inverse[OF assms(1,3)]
    SHA1_davies_meyer[OF assms(4,5,2)] SHA256_davies_meyer[OF assms(4,6,3)] by simp

lemma SHA_SHACAL_rounds_witness:
  "SHA_InverseTransform (SHA_ForwardTransform 1 [1, 2, 3, 4, 5] (replicate 16 9)) (sha_schedule 1 (replicate 16 9)) = [1, 2, 3, 4, 5]"
  using SHA_SHACAL_rounds[of "replicate 16 9" "[1, 2, 3, 4, 5]" "replicate 8 1" "replicate 64 2"
      "\<lparr>m_words = replicate 80 0\<rparr>" "\<lparr>m_words = replicate 64 0\<rparr>" 1] by simp

section \<open>Block ciphers\<close>

text \<open>C7. AES is FIPS 197: for keys of 16, 24 and 32 bytes \<^verbatim>\<open>SetKeyInternal\<close> succeeds, and then
  \<^verbatim>\<open>Encrypt\<close>, with its rounds unrolled over tables of words, is the cipher given by the arithmetic of
  the field with 256 elements under the expanded key, and \<^verbatim>\<open>Decrypt\<close>, which works with the keys of the
  equivalent inverse cipher, is the inverse cipher. Every other key size is refused, with its error code, and leaves
  the context as it was.\<close>
theorem AES_fips197:
  assumes "length key \<in> {16, 24, 32}" "length (ae_rk c) = 72" "length inp = 16" "length key' \<notin> {16, 24, 32}"
  shows "fst (AES_SetKeyInternal key c) = 0 \<and>
     AES_Encrypt (snd (AES_SetKeyInternal key c)) inp
       = state_bytes (cipher (length key div 4 + 6) (round_key 4 (bytes_state key)) (bytes_state inp)) \<and>
     AES_Decrypt (snd (AES_SetKeyInternal key c)) inp
       = state_bytes (inv_cipher (length key div 4 + 6) (round_key 4 (bytes_state key)) (bytes_state inp)) \<and>
     AES_SetKeyInternal key' c = (if length key' \<in> {20, 28} then - DREW_ERR_NOT_IMPL else - DREW_ERR_INVALID, c)"
  using AES_SetKeyInternal_keyed[of key c] AES_Encrypt_cipher[of key "snd (AES_SetKeyInternal key c)" inp]
    AES_Decrypt_inv_cipher[of key "snd (AES_SetKeyInternal key c)" inp] assms
  by (simp add: key_len_ok_def aes_nr_def AES_SetKeyInternal_def)

lemma AES_fips197_witness:
  "AES_Encrypt (snd (AES_SetKeyInternal (replicate 24 1) aes_fresh)) (replicate 16 7)
     = state_bytes (cipher 12 (round_key 4 (bytes_state (replicate 24 1))) (bytes_state (replicate 16 7)))"
  using AES_fips197[of "replicate 24 1" "aes_fresh" "replicate 16 7" "[]"] by simp

text \<open>C8. Rijndael with blocks of 16, 20, 24, 28 and 32 bytes and keys of these sizes: the key schedule, a loop
  without a bound of its own, returns, and then \<^verbatim>\<open>Encrypt\<close> is the cipher and
  \<^verbatim>\<open>Decrypt\<close>, which works on the four rows packed in words of 64 bits, is the inverse cipher.\<close>
theorem Rijndael_specification:
  assumes "N \<in> {128, 160, 192, 224, 256}" "length key \<in> {16, 20, 24, 28, 32}" "length (rj_rkb c) = 480" "length inp = N div 8"
  shows "\<exists>c'. Rijndael_SetKeyInternal N key c = Some c' \<and>
     Rijndael_Encrypt N c' inp = state_bytes (cipher (6 + max (rj_nb N) (length key div 4))
       (round_key (rj_nb N) (bytes_state key)) (bytes_state inp)) \<and>
     Rijndael_Decrypt N c' inp = state_bytes (inv_cipher (6 + max (rj_nb N) (length key div 4))
       (round_key (rj_nb N) (bytes_state key)) (bytes_state inp))"
proof -
  have N: "rijndael_size N" and key: "rijndael_key key" using assms(1,2) by (auto simp: rijndael_size_def rijndael_key_def)
  obtain c' where c': "Rijndael_SetKeyInternal N key c = Some c'" "rj_nr c' = 6 + max (rj_nb N) (length key div 4)"
      "rj_keys N (round_key (rj_nb N) (bytes_state key)) c'" "rj_row_keys N (round_key (rj_nb N) (bytes_state key)) c'"
    using Rijndael_SetKeyInternal_keys[OF N key assms(3)] by auto
  show ?thesis
    using c' Rijndael_Encrypt_cipher[OF N c'(3) assms(4)] Rijndael_Decrypt_inv_cipher[OF N c'(4) assms(4)] by auto
qed

lemma Rijndael_specification_witness:
  "\<exists>c'. Rijndael_SetKeyInternal 160 (replicate 28 1) rijndael_fresh = Some c' \<and>
     Rijndael_Encrypt 160 c' (replicate 20 7) = state_bytes (cipher (6 + max (rj_nb 160) (length (replicate 28 (1 :: byte)) div 4))
       (round_key (rj_nb 160) (bytes_state (replicate 28 1))) (bytes_state (replicate 20 7))) \<and>
     Rijndael_Decrypt 160 c' (replicate 20 7) = state_bytes (inv_cipher (6 + max (rj_nb 160) (length (replicate 28 (1 :: byte)) div 4))
       (round_key (rj_nb 160) (bytes_state (replicate 28 1))) (bytes_state (replicate 20 7)))"
  by (rule Rijndael_specification) simp_all

text \<open>C9. The two implementations of the same cipher agree: AES and Rijndael with a block of 128 bits encrypt
  and decrypt alike under any key of 16, 24 or 32 bytes.\<close>
theorem AES_Rijndael_agree:
  assumes "length key \<in> {16, 24, 32}" "length (ae_rk c) = 72" "length (rj_rkb d) = 480" "length inp = 16"
    and "Rijndael_SetKeyInternal 128 key d = Some d'"
  shows "AES_Encrypt (snd (AES_SetKeyInternal key c)) inp = Rijndael_Encrypt 128 d' inp \<and>
     AES_Decrypt (snd (AES_SetKeyInternal key c)) inp = Rijndael_Decrypt 128 d' inp"
proof -
  have N: "rijndael_size 128" and key: "rijndael_key key" "key_len_ok key"
    using assms(1) by (auto simp: rijndael_size_def rijndael_key_def key_len_ok_def)
  have nr: "rj_nb 128 = 4" "6 + max 4 (length key div 4) = aes_nr key" using assms(1) by (auto simp: rj_nb_def aes_nr_def)
  have d': "rj_nr d' = aes_nr key" "rj_keys 128 (round_key 4 (bytes_state key)) d'" "rj_row_keys 128 (round_key 4 (bytes_state key)) d'"
    using Rijndael_SetKeyInternal_keys[OF N key(1) assms(3)] assms(5) unfolding nr by auto
  show ?thesis
    using AES_Encrypt_cipher[OF AES_SetKeyInternal_keyed(2)[OF key(2) assms(2)] assms(4)]
      AES_Decrypt_inv_cipher[OF AES_SetKeyInternal_keyed(2)[OF key(2) assms(2)] assms(4)]
      Rijndael_Encrypt_cipher[OF N d'(2)] Rijndael_Decrypt_inv_cipher[OF N d'(3)] assms(4) d'(1) by simp
qed

lemma AES_Rijndael_agree_witness:
  "AES_Encrypt (snd (AES_SetKeyInternal (replicate 16 1) aes_fresh)) (replicate 16 7)
     = Rijndael_Encrypt 128 (the (Rijndael_SetKeyInternal 128 (replicate 16 1) rijndael_fresh)) (replicate 16 7)"
proof -
  obtain d' where "Rijndael_SetKeyInternal 128 (replicate 16 1) rijndael_fresh = Some d'"
    using Rijndael_SetKeyInternal_keys[of 128 "replicate 16 1" rijndael_fresh]
    by (auto simp: rijndael_size_def rijndael_key_def)
  then show ?thesis
    using AES_Rijndael_agree[of "replicate 16 1" "aes_fresh" rijndael_fresh "replicate 16 7" d']
    by simp
qed

text \<open>C10. Serpent is the published cipher: the bit-sliced \<^verbatim>\<open>s0\<close> to \<^verbatim>\<open>s7\<close> apply the
  published tables to every nibble. For a key of at most 560 bytes, what the key buffer holds, the key schedule and the
  32 unrolled rounds are those of the affine recurrence and the linear transformation over the key's first 32 bytes, or
  all of it followed by a byte 1 and zeros, as little-endian words (the copy of the key is that of a little-endian
  machine); a longer key is written past the buffer (no value). Under any round keys \<^verbatim>\<open>DecryptFast\<close> undoes
  \<^verbatim>\<open>EncryptFast\<close>.\<close>
theorem Serpent_specification:
  assumes "i < 8" "n < 32" "length bin = 16 * m"
  shows "nibble (at n (serpent_box i x)) = serpent_standard ! i ! nibble (at n x) \<and>
     (if length key \<le> 560
      then \<exists>w. Serpent_SetKeyInternal key k = Some w \<and>
        Serpent_Encrypt w inp = serpent_store (serpent_cipher (serpent_round_key
          (load_words Little (take 32 (key @ [1] @ replicate 31 0)))) (serpent_load inp))
      else Serpent_SetKeyInternal key k = None) \<and>
     DecryptFast 16 Serpent_Decrypt k (EncryptFast 16 Serpent_Encrypt k bin m) m = bin"
  using serpent_box_standard[OF assms(1,2)] Serpent_Encrypt_published[of key k]
    serpent.DecryptFast_EncryptFast[OF TrueI assms(3)]
  by (auto simp: serpent_padded_def Serpent_SetKeyInternal_def Let_def)

lemma Serpent_specification_witness:
  "nibble (at 31 (serpent_box 5 (0x80000000, 1, 0x80000000, 0))) = 10 \<and>
   (\<exists>w. Serpent_SetKeyInternal [1, 2, 3, 4, 5] (replicate 140 0) = Some w)"
  using Serpent_specification[of 5 31 "[]" 0 "(0x80000000, 1, 0x80000000, 0)" "[1, 2, 3, 4, 5]" "replicate 140 0"]
  by (auto simp: serpent_standard_def)


text \<open>C11. The keys that TEA and XTEA take are those of whole words that fit their four words, RC2's those of 1 to
  128 bytes, Blowfish's those that are not empty. Any other is written or read past an array, or before it, or divides by
  zero (no value; for TEA and XTEA this counts a last, incomplete word, which \<^verbatim>\<open>Copy\<close> is documented not
  to take). Under a key that is taken \<^verbatim>\<open>DecryptFast\<close> undoes \<^verbatim>\<open>EncryptFast\<close>
  on any even number of blocks, the single-block operations of TEA and XTEA (with any number of rounds) are
  inverse to each other, and RC2's expansion yields its 64 words. Blowfish keeps its round keys twice: whatever the key,
  the schedule leaves the second array the reverse of the first, so that running the same algorithm on it
  decrypts.\<close>
theorem TEA_RC2_Blowfish_round_trip:
  assumes "length bin = 8 * n" "even n" "length b = 8" "length (tea_k c) = 4" "length (xtea_k c') = 4" "length (bf_pd f) = 18"
  shows "(if 4 dvd length key \<and> length key \<le> 16
      then \<exists>t x. TEA_SetKeyInternal key c = Some t \<and> XTEA_SetKeyInternal key c' = Some x \<and>
        take (length key div 4) (tea_k t) = load_words Big key \<and> take (length key div 4) (xtea_k x) = load_words Big key \<and>
        DecryptFast 8 TEA_Decrypt t (EncryptFast 8 TEA_Encrypt t bin n) n = bin \<and> TEA_Encrypt t (TEA_Decrypt t b) = b \<and>
        DecryptFast 8 XTEA_Decrypt x (EncryptFast 8 XTEA_Encrypt x bin n) n = bin \<and> XTEA_Encrypt x (XTEA_Decrypt x b) = b
      else TEA_SetKeyInternal key c = None \<and> XTEA_SetKeyInternal key c' = None) \<and>
     (if key \<noteq> [] \<and> length key \<le> 128
      then \<exists>k. RC2_SetKeyInternal key r = Some k \<and> length (rc2_k k) = 64 \<and>
        DecryptFast 8 RC2_Decrypt k (EncryptFast 8 RC2_Encrypt k bin n) n = bin
      else RC2_SetKeyInternal key r = None) \<and>
     (if key \<noteq> []
      then \<exists>k. Blowfish_SetKeyInternal key f = Some k \<and> bf_pd k = rev (bf_p k) \<and>
        DecryptFast 8 Blowfish_Decrypt k (EncryptFast 8 Blowfish_Encrypt k bin n) n = bin
      else Blowfish_SetKeyInternal key f = None)"
  (is "?T \<and> ?R \<and> ?B")
proof (intro conjI)
  note trips = tea.DecryptFast_EncryptFast[OF TrueI assms(1)] xtea.DecryptFast_EncryptFast[OF TrueI assms(1)]
  show ?T using trips assms(2,3)
    by (simp add: TEA_SetKeyInternal_accepts[OF assms(4)] XTEA_SetKeyInternal_accepts[OF assms(5)] bytes_simps
      tea.Encrypt_Decrypt xtea.Encrypt_Decrypt)
  show ?R using length_RC2_key[of key r] rc2.DecryptFast_EncryptFast[OF _ assms(1)] assms(2)
    by (auto simp: RC2_SetKeyInternal_def)
  show ?B using Blowfish_SetKey_keyed[OF assms(6), of key] blowfish.DecryptFast_EncryptFast[OF _ assms(1)] assms(2)
    by (auto simp: blowfish_keyed_def Blowfish_SetKeyInternal_def)
qed

lemma TEA_RC2_Blowfish_round_trip_witness:
  "\<exists>t. TEA_SetKeyInternal (replicate 16 1) \<lparr>tea_k = replicate 4 0\<rparr> = Some t \<and>
     DecryptFast 8 TEA_Decrypt t (EncryptFast 8 TEA_Encrypt t (replicate 32 7) 4) 4 = replicate 32 7"
  using TEA_RC2_Blowfish_round_trip[of "replicate 32 7" 4 "replicate 8 0" "\<lparr>tea_k = replicate 4 0\<rparr>"
      "\<lparr>xtea_k = replicate 4 0, xtea_rounds = 32\<rparr>" "\<lparr>bf_s = [], bf_p = [], bf_pd = replicate 18 0\<rparr>" "replicate 16 1"] by auto



section \<open>Stream ciphers\<close>

text \<open>C13. \<^verbatim>\<open>CopyAndXor\<close>, for any generator that fills a buffer: the output is the input
  combined with the generator's stream from the pending bytes on, the context is left so that the
  next call continues the stream, and fewer bytes than a buffer are pending afterwards. (A context
  whose buffer is full may not be given an empty input.)\<close>
theorem CopyAndXor_is_stream:
  fixes fill :: "'s fill"
  assumes "0 < bufsz" "\<And>s. ok s \<Longrightarrow> length (fst (fill s)) = bufsz \<and> ok (snd (fill s))"
    and "ok (obj st)" "length (mbuf st) = bufsz" "bufrem st \<le> bufsz" "bufrem st = bufsz \<Longrightarrow> data \<noteq> []"
  shows "fst (CopyAndXor fill bufsz data st)
       = map (\<lambda>i. keystream_byte fill bufsz st i XOR data ! i) [0..<length data] \<and>
     keystream_byte fill bufsz (snd (CopyAndXor fill bufsz data st)) i
       = keystream_byte fill bufsz st (length data + i) \<and>
     bufrem (snd (CopyAndXor fill bufsz data st)) < bufsz"
proof -
  have ks: "keystream fill bufsz ok" using assms(1,2) by unfold_locales auto
  have "keystream.good bufsz ok st" using assms(3-5) by (simp add: keystream.good_def[OF ks])
  note run = keystream.CopyAndXor_stream[OF ks this assms(6) surjective_pairing]
  show ?thesis using run by (auto intro!: nth_equalityI)
qed

lemma CopyAndXor_is_stream_witness:
  "fst (CopyAndXor RC4Keystream_FillBuffer 256 [1, 2, 3]
      \<lparr>mbuf = replicate 256 5, bufrem = 2, obj = RC4Keystream_Reset \<lparr>ks_s = [], ks_i = 0, ks_j = 0\<rparr>\<rparr>)
     = map (\<lambda>i. keystream_byte RC4Keystream_FillBuffer 256
         \<lparr>mbuf = replicate 256 5, bufrem = 2, obj = RC4Keystream_Reset \<lparr>ks_s = [], ks_i = 0, ks_j = 0\<rparr>\<rparr> i XOR [1, 2, 3] ! i) [0..<3]"
  using CopyAndXor_is_stream[where fill = RC4Keystream_FillBuffer and bufsz = 256 and ok = rc4_perm and data = "[1, 2, 3]"
      and st = "\<lparr>mbuf = replicate 256 5, bufrem = 2, obj = RC4Keystream_Reset \<lparr>ks_s = [], ks_i = 0, ks_j = 0\<rparr>\<rparr>"]
    rc4.length_fill rc4.ok_fill
  by (simp add: Reset_perm upt_rec)

text \<open>C14. RC4: for a key of 1 to 256 bytes, \<^verbatim>\<open>SetKey\<close> and one \<^verbatim>\<open>Encrypt\<close> of at
  most the bytes buffered at keying compute the textbook cipher, after the configured number of dropped bytes; an empty
  key divides by zero and a longer one is written past the key (no value). What follows is not RC4:
  \<^verbatim>\<open>FillBuffer\<close> is not 256 calls of \<^verbatim>\<open>GetValue\<close> from where the generator
  stands: it gives the values of a generator whose index is 255, so its first byte uses the entry 0,
  where \<^verbatim>\<open>GetValue\<close>, after the 256 calls that fill the first buffer, would use entry 1. The
  generator's \<^verbatim>\<open>SetKey\<close> takes a length that is not 0 and, up to 256, within what is at the pointer, and
  it and every other operation of the generator keep the state a rearrangement of 0 to 255.\<close>
theorem RC4_textbook:
  assumes "rc4_alloc c" "length data \<le> 256 - rc_drop c mod 256"
  shows "(if key \<noteq> [] \<and> length key \<le> 256
      then \<exists>c'. RC4_SetKey key c = Some c' \<and> fst (RC4_Encrypt data c')
        = xor_bytes (drop (rc_drop c) (rc4_stream key (rc_drop c + length data))) data
      else RC4_SetKey key c = None) \<and>
     RC4Keystream_FillBuffer k = (let (bs, k') = rc4_values 256 (k\<lparr>ks_i := 255\<rparr>) in (bs, k'\<lparr>ks_i := ks_i k\<rparr>)) \<and>
     (if sz \<noteq> 0 \<and> min sz 256 \<le> length key' then \<exists>k'. RC4Keystream_SetKey key' sz k = Some k' \<and> rc4_perm k'
      else RC4Keystream_SetKey key' sz k = None) \<and> rc4_perm (RC4Keystream_Reset k) \<and>
     (rc4_perm k \<longrightarrow> rc4_perm (snd (RC4Keystream_GetValue k)) \<and> rc4_perm (snd (RC4Keystream_FillBuffer k)))"
  (is "?T \<and> _ \<and> ?S \<and> _ \<and> _")
proof (intro conjI)
  show ?T using RC4_Encrypt_textbook[OF assms(1) _ _ assms(2)] RC4_SetKey_refused[of key c] assms(1)
    by (auto simp: rc4_alloc_def)
  show ?S using SetKey_perm[of key' sz k] by (auto simp: RC4Keystream_SetKey_def Let_def split: prod.splits)
qed (use FillBuffer_values Reset_perm GetValue_perm FillBuffer_perm in auto)

lemma RC4_textbook_witness:
  "\<exists>c'. RC4_SetKey [9, 8] \<lparr>rc_ks = \<lparr>ks_s = [], ks_i = 0, ks_j = 0\<rparr>, rc_drop = 3,
       rc_key = replicate 256 0, rc_buf = replicate 256 0, rc_nbytes = 0, rc_sz = 0\<rparr> = Some c' \<and>
     fst (RC4_Encrypt [1, 2, 3] c') = xor_bytes (drop 3 (rc4_stream [9, 8] (3 + 3))) [1, 2, 3]"
  using RC4_textbook[of "\<lparr>rc_ks = \<lparr>ks_s = [], ks_i = 0, ks_j = 0\<rparr>, rc_drop = 3,
      rc_key = replicate 256 0, rc_buf = replicate 256 0, rc_nbytes = 0, rc_sz = 0\<rparr>" "[1, 2, 3]" "[9, 8]"]
  by (auto simp: rc4_alloc_def)

text \<open>C15. Salsa20 and ChaCha: after \<^verbatim>\<open>SetKey\<close> and \<^verbatim>\<open>SetNonce\<close>,
  \<^verbatim>\<open>Encrypt\<close> combines any input with the stream of the specification, the blocks of the core
  function for the counters 0, 1, 2 and so on, for keys of 16 and 32 bytes, and for ChaCha nonces of 8 and
  of 12 bytes. With a nonce of 12 bytes only the low half of the 64-bit counter enters the state, and nothing
  stops the cipher when it wraps: after 256 GiB the stream is that from the start.\<close>
theorem Salsa20_ChaCha_stream:
  assumes "salsa_alloc c" "chacha_alloc c'" "length key = 16 \<or> length key = 32" "length iv = 8"
    and "length iv' = 8 \<or> length iv' = 12"
  shows "fst (Salsa20_Encrypt data (Salsa20_SetNonce iv (Salsa20_SetKey key c)))
       = map (\<lambda>i. salsa_stream (sk_nrounds (sa_ks c)) key iv i XOR data ! i) [0..<length data] \<and>
     fst (ChaCha_Encrypt data (ChaCha_SetNonce iv' (ChaCha_SetKey key c')))
       = map (\<lambda>i. chacha_stream (ck_nrounds (ch_ks c')) key iv' i XOR data ! i) [0..<length data] \<and>
     (length iv' = 12 \<longrightarrow> chacha_stream nr key iv' (k + 64 * 2 ^ 32) = chacha_stream nr key iv' k)"
  using Salsa20_Encrypt_stream[OF assms(1,3,4)] ChaCha_Encrypt_stream[OF assms(2,3,5)]
    chacha_stream_repeats[of iv' nr key k] by simp

lemma Salsa20_ChaCha_stream_witness:
  "fst (ChaCha_Encrypt [1, 2] (ChaCha_SetNonce (replicate 12 3) (ChaCha_SetKey (replicate 16 4)
      \<lparr>ch_ks = \<lparr>ck_keysz = 0, ck_noncesz = 0, ck_nrounds = 10, ck_state = replicate 16 9, ck_ctr = 5\<rparr>,
        ch_buf = replicate 64 3, ch_nbytes = 2\<rparr>)))
     = map (\<lambda>i. chacha_stream 10 (replicate 16 4) (replicate 12 3) i XOR [1, 2] ! i) [0..<2]"
  using Salsa20_ChaCha_stream[of "\<lparr>sa_ks = \<lparr>sk_keysz = 0, sk_nrounds = 10, sk_state = replicate 16 9, sk_ctr = 5\<rparr>,
      sa_buf = replicate 64 3, sa_nbytes = 2\<rparr>" "\<lparr>ch_ks = \<lparr>ck_keysz = 0, ck_noncesz = 0, ck_nrounds = 10,
      ck_state = replicate 16 9, ck_ctr = 5\<rparr>, ch_buf = replicate 64 3, ch_nbytes = 2\<rparr>" "replicate 16 4"
      "replicate 8 3" "replicate 12 3" "[1, 2]"]
  by (simp add: chacha_alloc_def salsa_alloc_def upt_rec)

text \<open>C16. The stream ciphers on a keyed context: decrypting gives the data back, and encrypting a message
  in two calls gives what one call gives (for RC4 if the first part is not empty). Salsa20 and ChaCha stay
  keyed, and with nothing pending \<^verbatim>\<open>EncryptFast\<close> on whole blocks gives what \<^verbatim>\<open>Encrypt\<close>
  gives, on hosts of either byte order.\<close>
theorem stream_cipher_operations:
  assumes "rc4_keyed r" "a \<noteq> []" "salsa_ready s" "chacha_ready c"
  shows "fst (RC4_Decrypt (fst (RC4_Encrypt a r)) r) = a \<and>
     fst (RC4_Encrypt (a @ b) r) = fst (RC4_Encrypt a r) @ fst (RC4_Encrypt b (snd (RC4_Encrypt a r))) \<and>
     fst (Salsa20_Decrypt (fst (Salsa20_Encrypt a s)) s) = a \<and>
     fst (Salsa20_Encrypt (a @ b) s) = fst (Salsa20_Encrypt a s) @ fst (Salsa20_Encrypt b (snd (Salsa20_Encrypt a s))) \<and>
     salsa_ready (snd (Salsa20_Encrypt a s)) \<and>
     (sa_nbytes s = 0 \<and> 64 dvd length a \<longrightarrow> fst (Salsa20_EncryptFast host a s) = fst (Salsa20_Encrypt a s)) \<and>
     fst (ChaCha_Decrypt (fst (ChaCha_Encrypt a c)) c) = a \<and>
     fst (ChaCha_Encrypt (a @ b) c) = fst (ChaCha_Encrypt a c) @ fst (ChaCha_Encrypt b (snd (ChaCha_Encrypt a c))) \<and>
     chacha_ready (snd (ChaCha_Encrypt a c)) \<and>
     (ch_nbytes c = 0 \<and> 64 dvd length a \<longrightarrow> fst (ChaCha_EncryptFast host a c) = fst (ChaCha_Encrypt a c))"
  using RC4_Decrypt_Encrypt[OF assms(1,2)] RC4_Encrypt_append[OF assms(1,2)]
    salsa_cipher.Encrypt_twice[OF assms(3)] salsa_cipher.Encrypt_append[OF assms(3)]
    salsa_cipher.Encrypt_ready[OF assms(3)] Salsa20_EncryptFast_eq[OF assms(3)]
    chacha_cipher.Encrypt_twice[OF assms(4)] chacha_cipher.Encrypt_append[OF assms(4)]
    chacha_cipher.Encrypt_ready[OF assms(4)] ChaCha_EncryptFast_eq[OF assms(4)]
  by (simp add: Salsa20_Decrypt_def ChaCha_Decrypt_def)

lemma stream_cipher_operations_witness:
  "\<exists>r. RC4_SetKey [9] \<lparr>rc_ks = \<lparr>ks_s = [], ks_i = 0, ks_j = 0\<rparr>, rc_drop = 0,
       rc_key = replicate 256 0, rc_buf = replicate 256 0, rc_nbytes = 0, rc_sz = 0\<rparr> = Some r \<and>
     fst (RC4_Decrypt (fst (RC4_Encrypt [1, 2] r)) r) = [1, 2]"
proof -
  obtain r where r: "RC4_SetKey [9] \<lparr>rc_ks = \<lparr>ks_s = [], ks_i = 0, ks_j = 0\<rparr>, rc_drop = 0,
       rc_key = replicate 256 0, rc_buf = replicate 256 0, rc_nbytes = 0, rc_sz = 0\<rparr> = Some r" "rc4_keyed r"
    using RC4_SetKey_keyed[of "\<lparr>rc_ks = \<lparr>ks_s = [], ks_i = 0, ks_j = 0\<rparr>, rc_drop = 0,
       rc_key = replicate 256 0, rc_buf = replicate 256 0, rc_nbytes = 0, rc_sz = 0\<rparr>" "[9]"]
    by (auto simp: rc4_alloc_def)
  have "fst (RC4_Decrypt (fst (RC4_Encrypt [1, 2] r)) r) = [1, 2]"
    by (rule conjunct1[OF stream_cipher_operations[where
      s = "\<lparr>sa_ks = \<lparr>sk_keysz = 0, sk_nrounds = 10, sk_state = replicate 16 9, sk_ctr = 5\<rparr>,
        sa_buf = replicate 64 3, sa_nbytes = 0\<rparr>" and
      c = "\<lparr>ch_ks = \<lparr>ck_keysz = 0, ck_noncesz = 8, ck_nrounds = 4, ck_state = replicate 16 9, ck_ctr = 5\<rparr>,
        ch_buf = replicate 64 3, ch_nbytes = 0\<rparr>"], OF r(2)])
      (simp_all add: salsa_ready_def salsa_alloc_def chacha_ready_def chacha_alloc_def)
  with r(1) show ?thesis by blast
qed

section \<open>Modes of operation\<close>

text \<open>The function tables of a cipher with 8-byte blocks and of one with 16-byte blocks.\<close>

definition tea_table :: block_algo where
  "tea_table = plugin_algo 8 TEA_Encrypt TEA_Decrypt \<lparr>tea_k = replicate 4 1\<rparr>"

definition cast6_table :: block_algo where
  "cast6_table = plugin_algo 16 CAST6_Encrypt CAST6_Decrypt
     (the (CAST6_SetKeyInternal (replicate 32 1) \<lparr>c6_km = [], c6_kr = []\<rparr>))"

lemma good_tables: "good_algo tea_table" "ba_blksize tea_table = 8" "good_algo cast6_table" "ba_blksize cast6_table = 16"
  using block_cipher.good_plugin_algo[OF tea.block_cipher_axioms TrueI]
    block_cipher.good_plugin_algo[OF cast6.block_cipher_axioms TrueI]
  by (simp_all add: tea_table_def cast6_table_def) (simp_all add: plugin_algo_def)

text \<open>C17. CBC on a context with any block cipher, in place or between buffers that do not overlap:
  \<^verbatim>\<open>cbc_encrypt\<close> and \<^verbatim>\<open>cbc_decrypt\<close> write the mode's output, leave the chaining block
  for the next call, and change nothing else; the aligned operations, used for 16-byte blocks, do the
  same.\<close>
theorem CBC_is_the_mode:
  assumes "cbc_ready c a" "len = ba_blksize a * n" "no_overlap outp inp len (length mem)"
  shows "cbc_encrypt outp inp len mem c =
       (let xs = cbc_enc (ba_encrypt a) (cbc_buf c) (cbc_blocks inp (ba_blksize a) n mem)
        in (0, put_bytes outp (concat xs) mem, c\<lparr>cbc_buf := last (cbc_buf c # xs)\<rparr>)) \<and>
     cbc_decrypt outp inp len mem c =
       (let P = cbc_blocks inp (ba_blksize a) n mem
        in (0, put_bytes outp (concat (cbc_dec (ba_decrypt a) (cbc_buf c) P)) mem,
            c\<lparr>cbc_buf := last (cbc_buf c # P), cbc_buf2 := last (cbc_buf2 c # P)\<rparr>)) \<and>
     (ba_blksize a = 16 \<longrightarrow> cbc_encryptfast outp inp len mem c = cbc_encrypt outp inp len mem c) \<and>
     cbc_decryptfast outp inp len mem c = cbc_decrypt outp inp len mem c"
  using cbc_encrypt_mode[OF assms] cbc_decrypt_mode[OF assms] cbc_encryptfast_mode[OF assms]
    cbc_decryptfast_mode[of len c outp inp mem] assms(1,2)
  by (simp add: Let_def cbc_ready_def)

lemma CBC_is_the_mode_witness:
  "cbc_decryptfast 0 0 32 (replicate 32 5) \<lparr>cbc_algo = Some cast6_table, cbc_buf = replicate 16 1,
      cbc_buf2 = replicate 16 2, cbc_iv = replicate 16 1, cbc_blksize = 16, cbc_fast = True\<rparr>
     = cbc_decrypt 0 0 32 (replicate 32 5) \<lparr>cbc_algo = Some cast6_table, cbc_buf = replicate 16 1,
      cbc_buf2 = replicate 16 2, cbc_iv = replicate 16 1, cbc_blksize = 16, cbc_fast = True\<rparr>"
  by (rule CBC_is_the_mode[where a = cast6_table and n = 2, THEN conjunct2, THEN conjunct2, THEN conjunct2])
    (simp_all add: cbc_ready_def good_tables no_overlap_def)



text \<open>C19. CBC's error path and its final operations, on a context with any block cipher. A length that is not a
  multiple of the block size is refused by \<^verbatim>\<open>cbc_encrypt\<close> and \<^verbatim>\<open>cbc_decrypt\<close>, nothing is
  written and the context is unchanged, by the final operations too. On a multiple of it, in place or between buffers
  that do not overlap, the final operations write the mode's output and leave the context the others leave. What they
  return does not tell the two apart: it is the length, refused or not, below \<open>2 ^ 31\<close> bytes, and a negative
  number from there to \<open>2 ^ 32\<close>, processed or not.\<close>
theorem CBC_partial_block:
  assumes "cbc_ready c a"
  shows "(len mod ba_blksize a \<noteq> 0 \<longrightarrow>
       cbc_encrypt outp inp len mem c = (- DREW_ERR_INVALID, mem, c) \<and>
       cbc_decrypt outp inp len mem c = (- DREW_ERR_INVALID, mem, c) \<and>
       snd (cbc_encryptfinal outp inp len mem c) = (mem, c) \<and> snd (cbc_decryptfinal outp inp len mem c) = (mem, c)) \<and>
     (len = ba_blksize a * n \<and> no_overlap outp inp len (length mem) \<longrightarrow>
       snd (cbc_encryptfinal outp inp len mem c) = snd (cbc_encrypt outp inp len mem c) \<and>
       fst (snd (cbc_encryptfinal outp inp len mem c)) =
         put_bytes outp (concat (cbc_enc (ba_encrypt a) (cbc_buf c) (cbc_blocks inp (ba_blksize a) n mem))) mem \<and>
       snd (cbc_decryptfinal outp inp len mem c) = snd (cbc_decrypt outp inp len mem c) \<and>
       fst (snd (cbc_decryptfinal outp inp len mem c)) =
         put_bytes outp (concat (cbc_dec (ba_decrypt a) (cbc_buf c) (cbc_blocks inp (ba_blksize a) n mem))) mem) \<and>
     (len < 2 ^ 31 \<longrightarrow>
       fst (cbc_encryptfinal outp inp len mem c) = int len \<and> fst (cbc_decryptfinal outp inp len mem c) = int len) \<and>
     (2 ^ 31 \<le> len \<and> len < 2 ^ 32 \<longrightarrow>
       fst (cbc_encryptfinal outp inp len mem c) < 0 \<and> fst (cbc_decryptfinal outp inp len mem c) < 0)"
  using cbc_partial_block[of len c outp inp mem] cbc_final_mode[OF assms, of len n outp inp mem]
    cbc_final_result[of outp inp len mem c] int_of_size_small[of len] int_of_size_large[of len] assms
  by (auto simp: cbc_ready_def)

lemma CBC_partial_block_witness:
  "(let c = \<lparr>cbc_algo = Some tea_table, cbc_buf = replicate 8 1, cbc_buf2 = replicate 8 2, cbc_iv = replicate 8 1,
      cbc_blksize = 8, cbc_fast = False\<rparr>
    in cbc_encrypt 0 0 5 [1, 2, 3, 4, 5] c = (- DREW_ERR_INVALID, [1, 2, 3, 4, 5], c) \<and>
      fst (cbc_encryptfinal 0 0 5 [1, 2, 3, 4, 5] c) = 5 \<and> snd (cbc_encryptfinal 0 0 5 [1, 2, 3, 4, 5] c) = ([1, 2, 3, 4, 5], c))"
  using CBC_partial_block[of "\<lparr>cbc_algo = Some tea_table, cbc_buf = replicate 8 1, cbc_buf2 = replicate 8 2,
      cbc_iv = replicate 8 1, cbc_blksize = 8, cbc_fast = False\<rparr>" tea_table 5 0 0 "[1, 2, 3, 4, 5]" 0]
  by (simp add: cbc_ready_def good_tables)

text \<open>C20. OFB: the output is the input combined with the blocks \<open>E(iv)\<close>, \<open>E(E(iv))\<close> and so
  on, two calls give what one call on the concatenation gives, and encrypting twice gives the data
  back. But the aligned operation on a cipher with 8-byte blocks encrypts two blocks at once instead of one
  after the other, so that it agrees with \<^verbatim>\<open>ofb_encrypt\<close> only when the second half of the
  buffer, which \<^verbatim>\<open>setiv\<close> does not write, happens to be the encryption of the first.\<close>
theorem OFB_stream:
  assumes "ofb_ready a c" "ofb_boff c = 0"
  shows "fst (ofb_encrypt data c) = map (\<lambda>i. data ! i XOR
       (ba_encrypt a ^^ Suc (i div ba_blksize a)) (take (ba_blksize a) (ofb_buf c)) ! (i mod ba_blksize a)) [0..<length data] \<and>
     fst (ofb_encrypt (data @ data2) c) = fst (ofb_encrypt data c) @ fst (ofb_encrypt data2 (snd (ofb_encrypt data c))) \<and>
     fst (ofb_encrypt (fst (ofb_encrypt data c)) c) = data \<and>
     (ba_blksize a = 8 \<longrightarrow> ofb_chunks c = 2 \<longrightarrow> length data = 16 \<longrightarrow>
        (fst (ofb_encryptfast data c) = fst (ofb_encrypt data c) \<longleftrightarrow> slice 8 8 (ofb_buf c) = ba_encrypt a (take 8 (ofb_buf c))))"
  using ofb_encrypt_chain[OF assms] ofb_encrypt_pieces[OF assms(1)] ofb_encryptfast_8[OF assms(1) _ assms(2), of data] by blast

lemma OFB_stream_witness:
  "fst (ofb_encrypt (fst (ofb_encrypt [1, 2, 3] \<lparr>ofb_algo = Some tea_table, ofb_buf = replicate 32 4,
      ofb_iv = replicate 32 4, ofb_blksize = 8, ofb_boff = 0, ofb_chunks = 2, ofb_fast = True\<rparr>))
      \<lparr>ofb_algo = Some tea_table, ofb_buf = replicate 32 4,
      ofb_iv = replicate 32 4, ofb_blksize = 8, ofb_boff = 0, ofb_chunks = 2, ofb_fast = True\<rparr>) = [1, 2, 3]"
  by (rule OFB_stream[where a = tea_table, THEN conjunct2, THEN conjunct2, THEN conjunct1])
    (simp_all add: ofb_ready_def ofb_alloc_def good_tables)

lemma replicate_8: "replicate 8 x = [x, x, x, x, x, x, x, x]"
  by (simp add: eval_nat_numeral)

text \<open>C21. CTR: byte \<open>i\<close> of the output is the input byte combined with a byte of the encryption of
  the counter block plus the number of the block, as a big-endian number that wraps round; pieces and
  decryption as for OFB.\<close>
theorem CTR_stream:
  assumes "ctr_ready a c" "ctr_boff c = 0" "i < length data" "length blk = ba_blksize a"
    and "be_num blk = (be_num (take (ba_blksize a) (ctr_ctr c)) + i div ba_blksize a) mod 256 ^ ba_blksize a"
  shows "fst (ctr_encrypt data c) ! i = data ! i XOR ba_encrypt a blk ! (i mod ba_blksize a) \<and>
     length (fst (ctr_encrypt data c)) = length data \<and>
     fst (ctr_encrypt (data @ data2) c) = fst (ctr_encrypt data c) @ fst (ctr_encrypt data2 (snd (ctr_encrypt data c))) \<and>
     fst (ctr_encrypt (fst (ctr_encrypt data c)) c) = data"
  using ctr_encrypt_counter[OF assms] ctr_encrypt_pieces[OF assms(1)] by simp

lemma CTR_stream_witness:
  "fst (ctr_encrypt (replicate 20 7) \<lparr>ctr_algo = Some tea_table, ctr_ctr = replicate 32 255,
      ctr_buf = replicate 32 255, ctr_iv = replicate 32 255, ctr_blksize = 8, ctr_boff = 0, ctr_fast = False\<rparr>) ! 9
     = 7 XOR ba_encrypt tea_table (replicate 8 0) ! 1"
  by (rule trans[OF CTR_stream[where a = tea_table and i = 9 and blk = "replicate 8 0", THEN conjunct1]])
    (simp_all add: ctr_ready_def ctr_alloc_def good_tables be_num_def replicate_8)

text \<open>C22. The aligned operations, on whole blocks of a 16-byte cipher with nothing pending, compute what
  the plain ones do: those of OFB and CFB always, that of CTR for up to 4096 bytes. Beyond that the
  aligned CTR and the aligned decryption of CFB read past the end of their array.\<close>
theorem fast_modes:
  assumes "ofb_ready a c" "ofb_boff c = 0" "ofb_chunks c = 1" "ctr_ready a d" "ctr_boff d = 0"
    and "cfb_ready a 16 e" "cfb_boff e = 0" "cfb_chunks e = 1" "ba_blksize a = 16" "16 dvd length data"
  shows "fst (ofb_encryptfast data c) = fst (ofb_encrypt data c) \<and>
     fst (cfb_encryptfast data e) = fst (cfb_encrypt data e) \<and>
     (length data \<le> 4096 \<longrightarrow> map_option fst (ctr_encryptfast data d) = Some (fst (ctr_encrypt data d))) \<and>
     (4096 < length data \<longrightarrow> ctr_encryptfast data d = None \<and> cfb_decryptfast data e = None)"
  using ofb_encryptfast_16[OF assms(1,9,2,3,10)] cfb_encryptfast_16[OF assms(6,9,8,7,10)]
    ctr_encryptfast_short[OF assms(4,9,5,10)] ctr_encryptfast_long[of data d]
    cfb_decryptfast_long[of data e] assms(10)
  by simp

lemma fast_modes_witness:
  "ctr_encryptfast (replicate 4112 0) \<lparr>ctr_algo = Some cast6_table, ctr_ctr = replicate 32 1,
      ctr_buf = replicate 32 1, ctr_iv = replicate 32 1, ctr_blksize = 16, ctr_boff = 0, ctr_fast = True\<rparr> = None"
  by (rule fast_modes[where a = cast6_table and c = "\<lparr>ofb_algo = Some cast6_table, ofb_buf = replicate 32 4,
          ofb_iv = replicate 32 4, ofb_blksize = 16, ofb_boff = 0, ofb_chunks = 1, ofb_fast = True\<rparr>"
        and e = "\<lparr>cfb_feedback = 16, cfb_algo = Some cast6_table, cfb_buf = replicate 32 0, cfb_prev = replicate 32 0,
          cfb_iv = [], cfb_blksize = 16, cfb_boff = 0, cfb_chunks = 1, cfb_fast = True\<rparr>",
        THEN conjunct2, THEN conjunct2, THEN conjunct2, THEN mp, THEN conjunct1])
    (simp_all add: ofb_ready_def ofb_alloc_def ctr_ready_def ctr_alloc_def cfb_ready_def cfb_static_def good_tables)

text \<open>C23. CFB with any width of the feedback: encryption is that of the standard, each piece of the
  output being shifted into the register, and the pieces in which the data comes do not matter.\<close>
theorem CFB_encryption:
  assumes "cfb_ready a fb c"
  shows "(cfb_boff c = 0 \<longrightarrow>
       fst (cfb_encrypt data c) = cfb_spec (ba_encrypt a) fb (take (ba_blksize a) (cfb_prev c)) data) \<and>
     cfb_encrypt (data @ data2) c =
       (let (o1, c1) = cfb_encrypt data c; (o2, c2) = cfb_encrypt data2 c1 in (o1 @ o2, c2))"
  using cfb_encrypt_spec[OF assms] cfb_encrypt_append[OF assms] by simp

lemma CFB_encryption_witness:
  "fst (cfb_encrypt [1, 2, 3] \<lparr>cfb_feedback = 1, cfb_algo = Some tea_table, cfb_buf = replicate 32 0,
      cfb_prev = replicate 32 5, cfb_iv = [], cfb_blksize = 8, cfb_boff = 0, cfb_chunks = 0, cfb_fast = False\<rparr>)
     = cfb_spec (ba_encrypt tea_table) 1 (replicate 8 5) [1, 2, 3]"
  by (rule trans[OF CFB_encryption[where a = tea_table and fb = 1, THEN conjunct1, rule_format]])
    (simp_all add: cfb_ready_def cfb_static_def good_tables)

text \<open>C24. CFB decryption in one call gives the data back, whatever the width of the feedback, and so does
  the aligned decryption of up to 4096 bytes with 16-byte blocks. Decryption in pieces is another matter: with a
  feedback of 8 bytes, one byte, then seven, then anything more is not decrypted, since the offset went down instead of
  up and has wrapped round.\<close>
theorem CFB_decryption:
  assumes "cfb_ready a fb c" "cfb_ready a fb d" "cfb_boff c = 0" "cfb_boff d = 0" "cfb_prev d = cfb_prev c"
    and "cfb_ready a 8 e" "cfb_boff e = 0" "length xs = 7" "ys \<noteq> []"
  shows "map_option fst (cfb_decrypt (fst (cfb_encrypt data c)) d) = Some data \<and>
     (fb = 16 \<and> ba_blksize a = 16 \<and> cfb_chunks c = 1 \<and> 16 dvd length data \<and> length data \<le> 4096 \<longrightarrow>
      map_option fst (cfb_decryptfast (fst (cfb_encrypt data c)) d) = Some data) \<and>
     (case cfb_decrypt [x] e of None \<Rightarrow> None | Some (o1, e) \<Rightarrow>
          case cfb_decrypt xs e of None \<Rightarrow> None | Some (o2, e) \<Rightarrow> cfb_decrypt ys e) = None \<and>
     cfb_decrypt ([x] @ xs @ ys) e \<noteq> None"
  using cfb_round_trip[OF assms(1-5)] cfb_decryptfast_round_trip[of a c d data] assms(1-5)
  by (intro conjI cfb_decrypt_pieces[OF assms(6-9)]) (blast, blast, simp add: cfb_decrypt_run[OF assms(6,7)])

lemma CFB_decryption_witness:
  "map_option fst (cfb_decrypt (fst (cfb_encrypt [1, 2, 3] \<lparr>cfb_feedback = 2, cfb_algo = Some tea_table,
      cfb_buf = replicate 32 0, cfb_prev = replicate 32 5, cfb_iv = [], cfb_blksize = 8, cfb_boff = 0,
      cfb_chunks = 0, cfb_fast = False\<rparr>)) \<lparr>cfb_feedback = 2, cfb_algo = Some tea_table,
      cfb_buf = replicate 32 9, cfb_prev = replicate 32 5, cfb_iv = [], cfb_blksize = 8, cfb_boff = 0,
      cfb_chunks = 0, cfb_fast = False\<rparr>) = Some [1, 2, 3]"
  by (rule conjunct1[OF CFB_decryption[where a = tea_table and fb = 2 and xs = "replicate 7 0" and ys = "[1]"
      and e = "\<lparr>cfb_feedback = 8, cfb_algo = Some tea_table, cfb_buf = replicate 32 0, cfb_prev = replicate 32 5,
        cfb_iv = [], cfb_blksize = 8, cfb_boff = 0, cfb_chunks = 2, cfb_fast = True\<rparr>"]])
    (simp_all add: cfb_ready_def cfb_static_def good_tables)

text \<open>C25. The two multiplications of GCM agree: adding up sixteen entries of the table of 64 KiB that
  \<^verbatim>\<open>gen_table_fl\<close> builds from the hash key, over whatever it held, is the multiplication bit by bit, on a machine of
  either byte order. Behind this is that the product in the field, as the code computes it, is commutative: the
  slow code goes over the bits of the key and the fast one over those of the block.\<close>
theorem GCM_multiplications_agree:
  assumes "length table = 65536" "length h = 16" "length buf = 16"
  shows "gcm_mul_fl host (gen_table_fl h table) buf = gcm_mul h buf \<and> gcm_mul h buf = gcm_mul buf h"
  using gcm_mul_fl_mul[OF assms] gcm_mul_gf[OF assms(2), of buf] gcm_mul_gf[OF assms(3), of h] gf_mult_commute by metis

lemma GCM_multiplications_agree_witness:
  "gcm_mul_fl Little (gen_table_fl (replicate 16 0x5a) (replicate 65536 1)) (replicate 16 3) = gcm_mul (replicate 16 0x5a) (replicate 16 3)"
  by (rule GCM_multiplications_agree[THEN conjunct1]) simp_all

text \<open>A context for the examples.\<close>

definition gcm_example :: gcm where
  "gcm_example = snd (gcm_setblock (Some cast6_table) (gcm_new [12]))"

lemma gcm_example_ready: "gcm_block_set cast6_table gcm_example" "gc_boff gcm_example = 0" "gc_taglen gcm_example = 12"
  using gcm_setblock_ready[of cast6_table "gcm_new [12]"] good_tables
  by (simp_all add: gcm_example_def gcm_new_def) (simp_all add: gcm_setblock_def good_tables)

text \<open>C26. GCM encryption on a context that has been given a cipher of 16-byte blocks and in which no part of a block is
  left over (it is fresh or has been reset), with either multiplication, a tag of at most 16 bytes, an initialisation vector of 12 bytes or,
  with full tags, of any length, and data to authenticate of any length but whole blocks: after \<^verbatim>\<open>setiv\<close>
  and \<^verbatim>\<open>setdata\<close>, encrypting in any pieces and finishing with \<^verbatim>\<open>encryptfinal\<close>, given room for
  the tag, gives the ciphertext of SP 800-38D followed by its tag. The result is the length of the buffer through an
  \<^verbatim>\<open>int\<close>: the length below \<open>2 ^ 31\<close> bytes, a negative number from there to \<open>2 ^ 32\<close>.\<close>
theorem GCM_sp800_38d:
  assumes "gcm_block_set a c" "gc_boff c = 0" "length iv = 12 \<or> gc_taglen c = 16" "length A mod 16 \<noteq> 0 \<or> A = []"
    and "gc_taglen c \<le> 16" "length p + gc_taglen c \<le> outlen"
    and "gcm_pieces (gcm_encrypt host) ps (snd (gcm_setdata host A (snd (gcm_setiv host iv c)))) = (out, c1)"
  defines "C \<equiv> gctr a (gcm_J0 a iv) 0 (concat ps @ p)"
  shows "\<exists>res out' c2. gcm_encryptfinal host outlen p c1 = Some (res, out', c2) \<and>
    out @ out' = C @ take (gc_taglen c) (gcm_tag a iv A C) \<and>
    (outlen < 2 ^ 31 \<longrightarrow> res = int outlen) \<and> (2 ^ 31 \<le> outlen \<and> outlen < 2 ^ 32 \<longrightarrow> res < 0)"
  using gcm_encrypt_standard[OF assms(1-6) assms(7)[folded gcm_setup_def]] int_of_size_small[of outlen] int_of_size_large[of outlen]
  unfolding C_def by blast

lemma GCM_sp800_38d_witness:
  "let (out, c1) = gcm_pieces (gcm_encrypt Little) [[1, 2, 3], []]
       (snd (gcm_setdata Little [9] (snd (gcm_setiv Little (replicate 12 7) gcm_example))));
     C = gctr cast6_table (gcm_J0 cast6_table (replicate 12 7)) 0 [1, 2, 3, 4, 5]
   in \<exists>out' c2. gcm_encryptfinal Little 20 [4, 5] c1 = Some (20, out', c2) \<and>
        out @ out' = C @ take 12 (gcm_tag cast6_table (replicate 12 7) [9] C)"
proof -
  obtain out c1 where r: "gcm_pieces (gcm_encrypt Little) [[1, 2, 3], []]
      (snd (gcm_setdata Little [9] (snd (gcm_setiv Little (replicate 12 7) gcm_example)))) = (out, c1)" by fastforce
  show ?thesis unfolding r using GCM_sp800_38d[OF gcm_example_ready(1,2) _ _ _ _ r, of "[4, 5]" 20]
    by (auto simp: gcm_example_ready(3))
qed

text \<open>C27. GCM decryption, for the same arguments: the output is the combination with the same stream, so it undoes
  the encryption, whether the tag is right or not. \<^verbatim>\<open>decryptfinal\<close> returns
  \<^verbatim>\<open>DREW_ERR_VERIFY_FAILED\<close> if the bytes after the ciphertext are not its tag under the data and the
  initialisation vector. If they are, it returns the length of the last piece through an \<^verbatim>\<open>int\<close>: below
  \<open>2 ^ 31\<close> bytes the length, so that the result is negative exactly when the tag is wrong; from there to
  \<open>2 ^ 32\<close> negative too, and for the one length \<open>2 ^ 32 - 0x1000b\<close> the very number of the failure.\<close>
theorem GCM_authenticated:
  assumes "gcm_block_set a c" "gc_boff c = 0" "length iv = 12 \<or> gc_taglen c = 16" "length A mod 16 \<noteq> 0 \<or> A = []"
    and "gc_taglen c \<le> 16" "length t = gc_taglen c"
    and "gcm_pieces (gcm_decrypt host) ps (snd (gcm_setdata host A (snd (gcm_setiv host iv c)))) = (out, c1)"
  shows "\<exists>res out' c2. gcm_decryptfinal host (length p) (p @ t) c1 = Some (res, out', c2) \<and>
    out @ out' = gctr a (gcm_J0 a iv) 0 (concat ps @ p) \<and> gctr a (gcm_J0 a iv) 0 (out @ out') = concat ps @ p \<and>
    (t \<noteq> take (gc_taglen c) (gcm_tag a iv A (concat ps @ p)) \<longrightarrow> res = - DREW_ERR_VERIFY_FAILED) \<and>
    (t = take (gc_taglen c) (gcm_tag a iv A (concat ps @ p)) \<longrightarrow>
       (length p < 2 ^ 31 \<longrightarrow> res = int (length p)) \<and> (2 ^ 31 \<le> length p \<and> length p < 2 ^ 32 \<longrightarrow> res < 0) \<and>
       (length p = 2 ^ 32 - 0x1000b \<longrightarrow> res = - DREW_ERR_VERIFY_FAILED)) \<and>
    (length p < 2 ^ 31 \<longrightarrow> (0 \<le> res \<longleftrightarrow> t = take (gc_taglen c) (gcm_tag a iv A (concat ps @ p))))"
proof -
  obtain out' c2 where r: "gcm_decryptfinal host (length p) (p @ t) c1 =
      Some (if t = take (gc_taglen c) (gcm_tag a iv A (concat ps @ p)) then int_of_size (length p) else - DREW_ERR_VERIFY_FAILED, out', c2)"
    and o: "out @ out' = gctr a (gcm_J0 a iv) 0 (concat ps @ p)"
    using gcm_decrypt_standard[OF assms(1-6) assms(7)[folded gcm_setup_def], of p] by blast
  have "length p = 2 ^ 32 - 0x1000b \<Longrightarrow> int_of_size (length p) = - DREW_ERR_VERIFY_FAILED"
    by (simp add: int_of_size_def DREW_ERR_VERIFY_FAILED_def)
  note i = this int_of_size_small[of "length p"] int_of_size_large[of "length p"]
  show ?thesis
    by (rule exI, rule exI, rule exI, rule conjI[OF r], rule conjI[OF o])
      (use i in \<open>simp add: o gctr_twice DREW_ERR_VERIFY_FAILED_def\<close>)
qed

lemma GCM_authenticated_witness:
  "let (out, c1) = gcm_pieces (gcm_decrypt Big) [[1, 2, 3], []]
       (snd (gcm_setdata Big [9] (snd (gcm_setiv Big (replicate 12 7) gcm_example))))
   in \<exists>res out' c2. gcm_decryptfinal Big (length [4, 5]) ([4, 5] @ replicate 12 0) c1 = Some (res, out', c2) \<and>
        out @ out' = gctr cast6_table (gcm_J0 cast6_table (replicate 12 7)) 0 [1, 2, 3, 4, 5]"
proof -
  obtain out c1 where r: "gcm_pieces (gcm_decrypt Big) [[1, 2, 3], []]
      (snd (gcm_setdata Big [9] (snd (gcm_setiv Big (replicate 12 7) gcm_example)))) = (out, c1)" by fastforce
  show ?thesis unfolding r using GCM_authenticated[OF gcm_example_ready(1,2) _ _ _ _ r, of "replicate 12 0" "[4, 5]"]
    by (auto simp: gcm_example_ready(3))
qed

text \<open>C28. Setting GCM up. An initialisation vector that is not of 12 bytes is refused unless the tag is full, but only
  after it has been stored. Otherwise \<^verbatim>\<open>setiv\<close> leaves the first counter block of the standard; it does not
  reset the offset in the last block, \<^verbatim>\<open>reset\<close> does. \<^verbatim>\<open>setdata\<close> leaves the hash of the padded data,
  except that data of whole blocks is followed by one more block of zeros, so that the tag is not that of the
  standard.\<close>
theorem GCM_setup:
  assumes "gcm_block_set a c"
  shows "(let (res, d) = gcm_setiv host iv c; x = ghash (gcm_key a) (replicate 16 0) (chunks 16 (pad16 A))
      in if length iv = 12 \<or> gc_taglen c = 16
         then res = 0 \<and> gcm_block_set a d \<and> gc_y0 d = gcm_J0 a iv \<and> gc_y d = gcm_J0 a iv \<and> gc_boff d = gc_boff c \<and>
           gc_x (snd (gcm_setdata host A d)) = (if A \<noteq> [] \<and> length A mod 16 = 0 then gcm_mul (gcm_key a) x else x)
         else res = - DREW_ERR_INVALID \<and> gc_iv d = iv) \<and>
    (length (gc_iv c) = 12 \<or> gc_taglen c = 16 \<longrightarrow>
       (let (res, d) = gcm_reset host c in res = 0 \<and> gcm_block_set a d \<and> gc_boff d = 0 \<and> gc_y d = gcm_J0 a (gc_iv c)))"
proof (rule conjI)
  let ?d = "snd (gcm_setiv host iv c)" and ?x = "ghash (gcm_key a) (replicate 16 0) (chunks 16 (pad16 A))"
  note s = gcm_setiv_key(1-4)[OF assms, of iv host] gcm_setiv_key(10,12)[OF assms, of iv host]
  have x: "gc_x (snd (gcm_setdata host A ?d)) = (if A \<noteq> [] \<and> length A mod 16 = 0 then gcm_mul (gcm_key a) ?x else ?x)"
    if "length iv = 12 \<or> gc_taglen c = 16"
    using gcm_setdata_standard[OF s(2)[OF that], of A host] gcm_setdata_full[OF s(2)[OF that], of A host] by auto
  show "let (res, d) = gcm_setiv host iv c; x = ?x
      in if length iv = 12 \<or> gc_taglen c = 16
         then res = 0 \<and> gcm_block_set a d \<and> gc_y0 d = gcm_J0 a iv \<and> gc_y d = gcm_J0 a iv \<and> gc_boff d = gc_boff c \<and>
           gc_x (snd (gcm_setdata host A d)) = (if A \<noteq> [] \<and> length A mod 16 = 0 then gcm_mul (gcm_key a) x else x)
         else res = - DREW_ERR_INVALID \<and> gc_iv d = iv"
    unfolding Let_def case_prod_unfold using s x gcm_setiv_refused[of iv c host] by simp
  show "length (gc_iv c) = 12 \<or> gc_taglen c = 16 \<longrightarrow>
       (let (res, d) = gcm_reset host c in res = 0 \<and> gcm_block_set a d \<and> gc_boff d = 0 \<and> gc_y d = gcm_J0 a (gc_iv c))"
    unfolding Let_def case_prod_unfold using gcm_reset_ready[OF assms, of host] by simp
qed

lemma GCM_setup_witness:
  "gc_x (snd (gcm_setdata Little (replicate 16 1) (snd (gcm_setiv Little (replicate 12 7) gcm_example))))
     = (let h = gcm_key cast6_table in gcm_mul h (ghash h (replicate 16 0) (chunks 16 (pad16 (replicate 16 1)))))"
  using GCM_setup[OF gcm_example_ready(1), of Little "replicate 12 7" "replicate 16 1"]
  by (simp add: case_prod_unfold Let_def)



section \<open>Message authentication and key derivation\<close>

text \<open>The table of SHA-256 as the plugin exports it, and an object of it, for the examples.\<close>

definition sha256_table :: "32 word hstate hash_table" where
  "sha256_table = PLUGIN_STRUCTURE Little SHA256_Transform 64 Big SHA256_iv 32"

definition sha256_object :: "32 word hstate" where
  "sha256_object = \<lparr>m_hash = SHA256_iv, m_buf = replicate 64 0, m_len0 = 0, m_len1 = 0\<rparr>"

lemmas sha256_example = sha256_table_def sha256_object_def sha256.md_hash_axioms

text \<open>C30. HMAC over the function table that \<^verbatim>\<open>PLUGIN_STRUCTURE\<close> makes of a hash of the template: its
  words have more than 8 bits and it meets the conditions of C2, its digest is not empty nor longer than a block, and a
  block is at most 256 bytes. Initialisation with a tag length of at most the digest's (0 for all of it), keying, any
  sequence of pieces and \<^verbatim>\<open>hmac_final\<close> give the leading bytes of the HMAC of RFC 2104, if the key and
  every piece are shorter than \<open>2 ^ LENGTH('w)\<close> bytes, the limit of one \<^verbatim>\<open>Update\<close> of the hash. A key
  longer than a block is hashed, an empty one is padded like any other.\<close>
theorem HMAC_rfc2104:
  fixes tr :: "'w::len transform" and E host :: endianness
  assumes "md_hash tr BlkSize iv dsize" "8 < LENGTH('w)" "BlkSize \<le> 256" "0 < dsize" "dsize \<le> BlkSize"
    and "length (m_buf s) = BlkSize" "length key < 2 ^ LENGTH('w)"
    and "\<forall>p\<in>set ps. length p < 2 ^ LENGTH('w)" "tag \<le> dsize"
  defines "ht \<equiv> PLUGIN_STRUCTURE host tr BlkSize E iv dsize"
  shows "\<exists>c. hmac_init ht True (Some s) tag = (0, Some c) \<and>
     fst (hmac_final ht (fold (hmac_update ht) ps (snd (hmac_setkey ht (Some key) (length key) c))))
       = Some (take (if tag = 0 then dsize else tag) (HMAC (md_digest tr BlkSize E iv dsize) BlkSize key (concat ps)))"
  unfolding ht_def
  by (rule plugin_hash.hmac_run[OF md_hash.plugin_hash_template[OF assms(1,3-5,2)] assms(6-9)])

lemma HMAC_rfc2104_witness:
  "\<exists>c. hmac_init sha256_table True (Some sha256_object) 10 = (0, Some c) \<and>
     fst (hmac_final sha256_table (fold (hmac_update sha256_table) [[1, 2], [3]]
       (snd (hmac_setkey sha256_table (Some (replicate 80 7)) (length (replicate 80 (7 :: byte))) c))))
       = Some (take 10 (HMAC (md_digest SHA256_Transform 64 Big SHA256_iv 32) 64 (replicate 80 7) [1, 2, 3]))"
  using HMAC_rfc2104[of SHA256_Transform 64 SHA256_iv 32 sha256_object "replicate 80 7" "[[1, 2], [3]]" 10 Little Big]
  by (simp add: sha256_example)

text \<open>C31. What \<^verbatim>\<open>hmac_final\<close> leaves behind, for the hashes, keys and pieces of C30 and the full tag:
  \<^verbatim>\<open>hmac_reset\<close> keys the context again, unless the key was empty; a context used again without it, or with
  an empty key, gives the digest of the digest of the message, in which there is no key.\<close>
theorem HMAC_used_again:
  fixes tr :: "'w::len transform" and E host :: endianness
  assumes "md_hash tr BlkSize iv dsize" "8 < LENGTH('w)" "BlkSize \<le> 256" "0 < dsize" "dsize \<le> BlkSize"
    and "length (m_buf s) = BlkSize" "length key < 2 ^ LENGTH('w)"
    and "\<forall>p\<in>set ps. length p < 2 ^ LENGTH('w)" "\<forall>q\<in>set qs. length q < 2 ^ LENGTH('w)"
    and "hmac_init (PLUGIN_STRUCTURE host tr BlkSize E iv dsize) True (Some s) 0 = (0, Some c)"
  defines "ht \<equiv> PLUGIN_STRUCTURE host tr BlkSize E iv dsize" and "H \<equiv> md_digest tr BlkSize E iv dsize"
  defines "d \<equiv> snd (hmac_final ht (fold (hmac_update ht) ps (snd (hmac_setkey ht (Some key) (length key) c))))"
  shows "fst (hmac_final ht (fold (hmac_update ht) qs (snd (hmac_reset ht d))))
       = Some (if key = [] then H (H (concat qs)) else HMAC H BlkSize key (concat qs)) \<and>
     fst (hmac_final ht (fold (hmac_update ht) qs d)) = Some (H (H (concat qs)))"
  using plugin_hash.hmac_run_again[OF md_hash.plugin_hash_template[OF assms(1,3-5,2)] assms(6-10)]
  unfolding d_def ht_def H_def by simp

lemma HMAC_used_again_witness:
  "\<exists>c. hmac_init sha256_table True (Some sha256_object) 0 = (0, Some c) \<and>
     fst (hmac_final sha256_table (fold (hmac_update sha256_table) [[9]] (snd (hmac_reset sha256_table
       (snd (hmac_final sha256_table (fold (hmac_update sha256_table) [[1]]
         (snd (hmac_setkey sha256_table (Some []) (length ([] :: byte list)) c)))))))))
       = Some (md_digest SHA256_Transform 64 Big SHA256_iv 32 (md_digest SHA256_Transform 64 Big SHA256_iv 32 [9]))"
proof -
  obtain c where c: "hmac_init sha256_table True (Some sha256_object) 0 = (0, Some c)"
    by (simp add: hmac_init_def sha256_table_def PLUGIN_STRUCTURE_def Let_def size_of_int_def BUFFER_SIZE_def)
  then show ?thesis
    using HMAC_used_again[of SHA256_Transform 64 SHA256_iv 32 sha256_object "[]" "[[1]]" "[[9]]" Little Big c]
    by (simp add: sha256_example)
qed

text \<open>C32. PBKDF2 over HMAC with a hash of C30, for a password that is not empty and shorter than
  \<open>2 ^ LENGTH('w)\<close> bytes, at least one iteration and at least one byte to derive: from the initialisation of both,
  the derived key, of any length, is that of RFC 2898, for a salt shorter than 256 bytes; of a longer one only the length
  modulo 256 counts, since it is kept in a byte. (An empty password is left out because by C31
  \<^verbatim>\<open>hmac_reset\<close> does not key the context again, and the result is another.)\<close>
theorem PBKDF2_rfc2898:
  fixes tr :: "'w::len transform" and E host :: endianness
  assumes "md_hash tr BlkSize iv dsize" "8 < LENGTH('w)" "BlkSize \<le> 256" "0 < dsize" "dsize \<le> BlkSize"
    and "length (m_buf s) = BlkSize" "length key < 2 ^ LENGTH('w)" "key \<noteq> []" "out \<noteq> []" "0 < iters"
  defines "ht \<equiv> PLUGIN_STRUCTURE host tr BlkSize E iv dsize" and "H \<equiv> md_digest tr BlkSize E iv dsize"
  shows "\<exists>c p. hmac_init ht True (Some s) 0 = (0, Some c) \<and>
     pbkdf_init (hmack_functbl ht) True (Some c) = (0, Some p) \<and>
     (\<exists>p'. pbkdf_generate (hmack_functbl ht) out key (snd (pbkdf_setcount iters (snd (pbkdf_setsalt salt p))))
       = (0, Some (pbkdf2 (HMAC H BlkSize key) dsize (take (length salt mod 256) salt) iters (length out), p')))"
  unfolding ht_def H_def
  by (rule plugin_hash.pbkdf2_hmac_run[OF md_hash.plugin_hash_template[OF assms(1,3-5,2)] assms(6-10)])

lemma PBKDF2_rfc2898_witness:
  "\<exists>c p. hmac_init sha256_table True (Some sha256_object) 0 = (0, Some c) \<and>
     pbkdf_init (hmack_functbl sha256_table) True (Some c) = (0, Some p) \<and>
     (\<exists>p'. pbkdf_generate (hmack_functbl sha256_table) (replicate 40 0) [1, 2] (snd (pbkdf_setcount 3 (snd (pbkdf_setsalt (replicate 256 9) p))))
       = (0, Some (pbkdf2 (HMAC (md_digest SHA256_Transform 64 Big SHA256_iv 32) 64 [1, 2]) 32 [] 3 40, p')))"
  using PBKDF2_rfc2898[of SHA256_Transform 64 SHA256_iv 32 sha256_object "[1, 2]" "replicate 40 0" 3 Little Big "replicate 256 9"]
  by (simp add: sha256_example)

text \<open>C33. TLS-PRF over HMAC with a hash of C30, with the context of the parameter \<^verbatim>\<open>prf\<close>, for a
  secret that is not empty and shorter than \<open>2 ^ LENGTH('w)\<close> bytes, and a seed that together with a digest is
  shorter than that: the first output after \<^verbatim>\<open>setkey\<close> is \<open>P_hash\<close> of RFC 5246, of any length. (An
  empty secret is left out for the same reason as in C32.)\<close>
theorem TLS_P_hash:
  fixes tr :: "'w::len transform" and E host :: endianness
  assumes "md_hash tr BlkSize iv dsize" "8 < LENGTH('w)" "BlkSize \<le> 256" "0 < dsize" "dsize \<le> BlkSize"
    and "length (m_buf s) = BlkSize" "length key < 2 ^ LENGTH('w)" "key \<noteq> []" "dsize + length seed < 2 ^ LENGTH('w)"
  defines "ht \<equiv> PLUGIN_STRUCTURE host tr BlkSize E iv dsize"
  shows "\<exists>c t. hmac_init ht True (Some s) 0 = (0, Some c) \<and>
     tls_init (hmack_functbl ht) digest_given (Some c) True hk = (0, Some t) \<and>
     (\<exists>t'. tls_generate (hmack_functbl ht) out seed (snd (tls_setkey (hmack_functbl ht) key t))
       = (0, Some (tls_P_hash (HMAC (md_digest tr BlkSize E iv dsize) BlkSize key) dsize seed (length out), t')))"
  unfolding ht_def
  by (rule plugin_hash.tls_hmac_run[OF md_hash.plugin_hash_template[OF assms(1,3-5,2)] assms(6-8)])
    (use assms(9) in simp)

lemma TLS_P_hash_witness:
  "\<exists>c t. hmac_init sha256_table True (Some sha256_object) 0 = (0, Some c) \<and>
     tls_init (hmack_functbl sha256_table) False (Some c) True None = (0, Some t) \<and>
     (\<exists>t'. tls_generate (hmack_functbl sha256_table) (replicate 40 0) [5] (snd (tls_setkey (hmack_functbl sha256_table) [1, 2] t))
       = (0, Some (tls_P_hash (HMAC (md_digest SHA256_Transform 64 Big SHA256_iv 32) 64 [1, 2]) 32 [5] 40, t')))"
  using TLS_P_hash[of SHA256_Transform 64 SHA256_iv 32 sha256_object "[1, 2]" "[5]" Little Big False None "replicate 40 0"]
  by (simp add: sha256_example)

text \<open>C34. CMAC on a cipher with 16-byte blocks: initialisation, keying, any sequence of pieces and
  \<^verbatim>\<open>cmac_final\<close> give the CMAC of NIST SP 800-38B, with the tag the caller asked for; the
  subkeys, which the code shifts byte by byte, are twice and four times the encrypted zero block in the
  field.\<close>
theorem CMAC_sp800_38b:
  assumes "good_algo a" "ba_blksize a = 16" "good_algo (setkey key a)" "ba_blksize (setkey key a) = 16" "tag \<le> 16"
  shows "\<exists>c. cmac_init True (Some a) tag = (0, Some c) \<and>
     (\<exists>d e. cmac_updates ps (snd (cmac_setkey setkey key c)) = Some d \<and>
       cmac_final d = Some (take (if tag = 0 then 16 else tag) (CMAC (ba_encrypt (setkey key a)) 16 (concat ps)), e)) \<and>
     be_num (shift_one b) = 2 * be_num b mod 256 ^ length b"
  using cmac_run[where setkey = setkey and key = key, OF assms] be_num_shift_one by simp

lemma CMAC_sp800_38b_witness:
  "\<exists>c. cmac_init True (Some cast6_table) 8 = (0, Some c) \<and>
     (\<exists>d e. cmac_updates [[1], [2, 3]] (snd (cmac_setkey (\<lambda>key a. a) [] c)) = Some d \<and>
       cmac_final d = Some (take 8 (CMAC (ba_encrypt cast6_table) 16 [1, 2, 3]), e)) \<and>
     be_num (shift_one [128, 1]) = 2 * be_num [128 :: byte, 1] mod 256 ^ length [128 :: byte, 1]"
  using CMAC_sp800_38b[of cast6_table "\<lambda>key a. a" "[]" 8 "[[1], [2, 3]]" "[128, 1]"] by (simp add: good_tables)

text \<open>C35. CMAC on a cipher with 8-byte blocks: a message given in one piece is right, with a tag of at most 8 bytes.
  But a piece that completes a block begun by an earlier one is taken by \<^verbatim>\<open>cmac_update\<close> and leaves the
  offset at 16, beyond the block, so that \<^verbatim>\<open>cmac_final\<close> clears \<open>8 - 16\<close> bytes as a
  \<^verbatim>\<open>size_t\<close>, which is \<open>2 ^ 64 - 8\<close>, from the buffer on (no value).\<close>
theorem CMAC_8_byte_blocks:
  assumes "cm_given a 8 [] c" "cm_taglen c \<le> 8"
    and "cm_given a 8 msg e" "msg \<noteq> []" "cm_boff e < 8" "length data + cm_boff e = 8"
  shows "(case cmac_update data1 c of None \<Rightarrow> None | Some d \<Rightarrow> map_option fst (cmac_final d))
       = Some (take (cm_taglen c) (CMAC (ba_encrypt a) 8 data1)) \<and>
     (\<exists>d. cmac_update data e = Some d \<and> cm_blksize d = 8 \<and> cm_boff d = 16 \<and>
       size_sub (cm_blksize d) (cm_boff d) = 2 ^ 64 - 8 \<and> cmac_final d = None)"
proof -
  obtain d where d: "cmac_update data1 c = Some d" "cm_given a 8 data1 d"
    by (rule cmac_update_given[OF assms(1), of data1]) auto
  have "cm_taglen d = cm_taglen c" by (rule cmac_update_taglen[OF d(1)])
  then show ?thesis
    using d cmac_final_given[OF d(2)] cmac_final_wraps[OF assms(3-6)] assms(2)
    by (metis (no_types, lifting) fst_conv option.map(2) option.simps(5))
qed

definition tea_cmac_start :: "byte list \<Rightarrow> cmac" where
  "tea_cmac_start msg = \<lparr>cm_buf = msg @ replicate (16 - length msg) 0, cm_hash = replicate 16 0,
     cm_k1 = replicate 16 0, cm_k2 = replicate 16 0, cm_blksize = 8, cm_boff = length msg, cm_taglen = 8,
     cm_block = tea_table, cm_nonzero_len = msg \<noteq> []\<rparr>"

definition tea_cmac :: "byte list \<Rightarrow> cmac" where
  "tea_cmac msg = snd (cmac_setkey (\<lambda>key a. a) [] (tea_cmac_start msg))"

lemma tea_cmac_given: "length msg \<le> 8 \<Longrightarrow> cm_given tea_table 8 msg (tea_cmac msg)"
proof -
  assume len: "length msg \<le> 8"
  have "cm_alloc tea_table 8 (tea_cmac_start msg)" using len by (simp add: cm_alloc_def good_tables tea_cmac_start_def)
  then have "cm_keyed tea_table 8 (tea_cmac msg)"
    unfolding tea_cmac_def by (rule cmac_setkey_keyed) (simp_all add: good_tables)
  then show ?thesis
    using len unfolding cm_given_def
    by (intro conjI exI[of _ "[]"] exI[of _ msg]) (simp_all add: tea_cmac_def tea_cmac_start_def cmac_cbc_def)
qed

lemma CMAC_8_byte_blocks_witness:
  "\<exists>d. cmac_update [1, 2, 3, 4] (tea_cmac [1, 2, 3, 4]) = Some d \<and> cm_blksize d = 8 \<and> cm_boff d = 16 \<and>
     size_sub (cm_blksize d) (cm_boff d) = 2 ^ 64 - 8 \<and> cmac_final d = None"
  by (rule CMAC_8_byte_blocks[where a = tea_table and c = "tea_cmac []" and msg = "[1, 2, 3, 4]", THEN conjunct2])
    (simp_all add: tea_cmac_given, simp_all add: tea_cmac_def tea_cmac_start_def)

section \<open>The allocator\<close>

text \<open>For the examples: Linux, a system where locked memory has to be aligned, and the world of a program
  that has allocated two secure blocks of 10 bytes.\<close>

definition linux :: config where
  "linux = \<lparr>ODD_MLOCK_OK = True, ALWAYS_ZERO = False, PAGESIZE = 0, sysconf = 4096, os_page = 4096\<rparr>"

definition aligned_host :: config where
  "aligned_host = linux\<lparr>ODD_MLOCK_OK := False\<rparr>"

definition start_world :: world where
  "start_world = \<lparr>heap = Map.empty, nodes = Map.empty,
     pools = [mempool \<mapsto> \<lparr>pl_pgsize = 0, pl_inited = False, pl_flags = 0, pl_alloc = 0\<rparr>],
     locked = {}, released = [], errno = 0\<rparr>"

definition blocks_world :: "nat \<Rightarrow> nat \<Rightarrow> nat \<Rightarrow> nat \<Rightarrow> world" where
  "blocks_world k p q b = start_world\<lparr>
     heap := (if k = 0 then Map.empty else if k = 1 then [p \<mapsto> replicate 10 7] else [p \<mapsto> replicate 10 7, q \<mapsto> replicate 10 8]),
     nodes := (let n1 = \<lparr>al_next = 0, al_mem = p, al_size = 10, al_block = b\<rparr>;
                   n2 = \<lparr>al_next = 11, al_mem = q, al_size = 10, al_block = b\<rparr>
               in if k = 0 then Map.empty else if k = 1 then [11 \<mapsto> n1] else [11 \<mapsto> n1, 12 \<mapsto> n2]),
     pools := [mempool \<mapsto> if k = 0 then \<lparr>pl_pgsize = 0, pl_inited = False, pl_flags = 0, pl_alloc = 0\<rparr>
        else \<lparr>pl_pgsize = 4096, pl_inited = True, pl_flags = 0, pl_alloc = if k = 1 then 11 else 12\<rparr>],
     locked := (if k = 0 then {} else if k = 1 then pages 4096 p b else pages 4096 p b \<union> pages 4096 q b)\<rparr>"

lemmas example_config = linux_def aligned_host_def alloc_defs allocate_def do_allocate_def init_pool_def create_entry_def
  block_size_def DREW_MEM_SECMEM_NO_LOCK_def DREW_MEM_SECMEM_FAIL_OK_def

lemma blocks_world_smalloc:
  "p \<noteq> 0 \<Longrightarrow> drew_mem_smalloc linux \<lparr>os_mem = Inr (p, replicate 10 7), os_node = 11, os_mlock = True\<rparr> 10 (blocks_world 0 p q b)
     = Some (p, blocks_world 1 p q 10)"
  "q \<noteq> 0 \<Longrightarrow> drew_mem_smalloc linux \<lparr>os_mem = Inr (q, replicate 10 8), os_node = 12, os_mlock = True\<rparr> 10 (blocks_world 1 p q 10)
     = Some (q, blocks_world 2 p q 10)"
  "p \<noteq> 0 \<Longrightarrow> drew_mem_smalloc aligned_host \<lparr>os_mem = Inr (p, replicate 10 7), os_node = 11, os_mlock = True\<rparr> 10 (blocks_world 0 p q b)
     = Some (p, blocks_world 1 p q 4096)"
  "q \<noteq> 0 \<Longrightarrow> drew_mem_smalloc aligned_host \<lparr>os_mem = Inr (q, replicate 10 8), os_node = 12, os_mlock = True\<rparr> 10 (blocks_world 1 p q 4096)
     = Some (q, blocks_world 2 p q 4096)"
  by (simp_all add: example_config blocks_world_def start_world_def Let_def)

lemma blocks_world_holds: "holds (blocks_world 2 8192 12288 b) [(12288, 10, b), (8192, 10, b)]"
  "holds (blocks_world 2 8192 8208 b) [(8208, 10, b), (8192, 10, b)]"
  unfolding holds_def blocks_world_def start_world_def
  by (auto simp: entry_def intro!: exI[of _ "[12, 11]"])

lemmas world_answers = good_answers_def blocks_world_def start_world_def aligned_host_def linux_def

lemma blocks_world_reachable:
  "mem_reachable aligned_host F (blocks_world 2 8192 12288 4096)" "mem_reachable linux F (blocks_world 2 8192 8208 10)"
proof -
  have "mem_start aligned_host (blocks_world 0 8192 12288 0)" "mem_start linux (blocks_world 0 8192 8208 0)"
    by (simp_all add: mem_start_def blocks_world_def start_world_def aligned_host_def linux_def)
  moreover have "mem_step aligned_host F (blocks_world 0 8192 12288 0) (blocks_world 1 8192 12288 4096)"
    by (rule mem_step.smalloc[OF _ blocks_world_smalloc(3)]) (simp_all add: world_answers)
  moreover have "mem_step linux F (blocks_world 0 8192 8208 0) (blocks_world 1 8192 8208 10)"
    by (rule mem_step.smalloc[OF _ blocks_world_smalloc(1)]) (simp_all add: world_answers)
  moreover have "mem_step aligned_host F (blocks_world 1 8192 12288 4096) (blocks_world 2 8192 12288 4096)"
    by (rule mem_step.smalloc[OF _ blocks_world_smalloc(4)]) (simp_all add: world_answers)
  moreover have "mem_step linux F (blocks_world 1 8192 8208 10) (blocks_world 2 8192 8208 10)"
    by (rule mem_step.smalloc[OF _ blocks_world_smalloc(2)]) (simp_all add: world_answers)
  ultimately show "mem_reachable aligned_host F (blocks_world 2 8192 12288 4096)" "mem_reachable linux F (blocks_world 2 8192 8208 10)"
    unfolding mem_reachable_def by (meson converse_rtranclp_into_rtranclp rtranclp.rtrancl_refl)+
qed

text \<open>C36. In every world a program can reach with the functions of the allocator on its own pool (all of them; those
  with a pool of the caller are left out, the library makes none), \<^verbatim>\<open>drew_mem_sfree\<close> of a live block
  returns: the loop over the list ends, the block is given back, cleared to the last byte if the pool knows it,
  and its entry, and no other, is gone from the list. Freeing it again is an error.\<close>
theorem sfree_returns:
  assumes "mem_reachable cfg F w" "heap w ptr = Some bs"
  shows "\<exists>es w'. holds w es \<and> drew_mem_sfree cfg ptr w = Some w' \<and> heap w' = (heap w)(ptr := None) \<and>
     holds w' (filter (\<lambda>e. fst e \<noteq> ptr) es) \<and>
     hd (released w') = (ptr, if ptr \<in> fst ` set es then replicate (length bs) 0 else bs) \<and>
     drew_mem_sfree cfg ptr w' = None"
proof -
  have inv: "mem_inv w" by (rule mem_reachable_inv[OF assms(1)])
  then obtain es where "holds w es" "ptr \<noteq> 0" using assms(2) by (cases "ptr = 0") (auto simp: mem_inv_def heap_ok_def)
  with sfree_clears[OF inv] assms(2) show ?thesis by blast
qed

lemma sfree_returns_witness:
  "\<exists>w'. drew_mem_sfree linux 8192 (blocks_world 2 8192 8208 10) = Some w' \<and> drew_mem_sfree linux 8192 w' = None"
  using sfree_returns[OF blocks_world_reachable(2), of 8192 "replicate 10 7"] by (auto simp: blocks_world_def start_world_def)

text \<open>C37. Where locked memory is aligned to pages, and the flags are left alone, the page of every byte of
  every secure block is locked in every world reachable as in C36, whatever other blocks have been freed.\<close>
theorem secure_memory_locked:
  assumes "mem_reachable cfg {0} w" "good_config cfg" "\<not> ODD_MLOCK_OK cfg"
    and "holds w es" "(m, n, b) \<in> set es" "b \<noteq> 0" "x < n"
  shows "(m + x) div os_page cfg \<in> locked w"
  using assms by (rule locked_bytes)

lemma secure_memory_locked_witness: "(12288 + 9) div os_page aligned_host \<in> locked (blocks_world 2 8192 12288 4096)"
proof (rule secure_memory_locked[OF blocks_world_reachable(1) _ _ blocks_world_holds(1), where n = 10 and b = 4096])
  show "good_config aligned_host"
    by (auto simp: good_config_def aligned_host_def linux_def intro!: exI[of _ 12])
qed (simp_all add: aligned_host_def)

text \<open>C38. On Linux, where the code locks unaligned blocks, this fails: two secure blocks can share a page,
  and freeing one unlocks the page although the other block is still in use.\<close>
theorem sfree_unlocks_shared_page:
  assumes "mem_reachable cfg F w" "holds w es" "(m, n, b) \<in> set es" "(m', n', b') \<in> set es" "m \<noteq> m'"
    and "pg \<in> pages (os_page cfg) m b" "pg \<in> pages (os_page cfg) m' b'"
  shows "\<exists>w' es'. drew_mem_sfree cfg m w = Some w' \<and> holds w' es' \<and> (m', n', b') \<in> set es' \<and> pg \<notin> locked w'"
proof -
  obtain bs where "heap w m = Some bs" using holds_block[OF assms(2,3)] by auto
  moreover from this have "m \<noteq> 0"
    using mem_reachable_inv[OF assms(1)] by (cases "m = 0") (auto simp: mem_inv_def heap_ok_def)
  ultimately show ?thesis by (rule sfree_unlocks_neighbour[OF assms(2) _ _ assms(3-6)])
qed

lemma sfree_unlocks_shared_page_witness:
  "\<exists>w' es'. drew_mem_sfree linux 8192 (blocks_world 2 8192 8208 10) = Some w' \<and> holds w' es' \<and>
     (8208, 10, 10) \<in> set es' \<and> 2 \<notin> locked w'"
  by (rule sfree_unlocks_shared_page[OF blocks_world_reachable(2) blocks_world_holds(2), where n = 10 and b = 10])
    (simp_all add: pages_def linux_def)

text \<open>C39. The six functions that allocate, for a size that is not 0, in every reachable world and for any good answers
  (\<open>alloc_result\<close>). Null is returned exactly when the memory, the node or a lock that matters is refused
  (\<open>alloc_refused\<close>: the lock, if the flags ask for one and do not forgive its failure, the node for secure blocks
  and with \<^verbatim>\<open>ALWAYS_ZERO\<close> for all); then the blocks, the list and the locks are what they were. Otherwise the block is the
  new one of the C library, nothing else in the heap has changed, a secure block is at the head of the list, and its pages are
  locked if the lock was asked for and granted. It holds what the C library left there, zeros for \<^verbatim>\<open>calloc\<close> and
  \<^verbatim>\<open>scalloc\<close>, whose size is the product modulo \<open>2 ^ 64\<close>, or the bytes to copy. Where that product is
  0, \<^verbatim>\<open>calloc\<close> and \<^verbatim>\<open>scalloc\<close> return null.\<close>
theorem allocation_outcome:
  assumes "mem_reachable cfg F w" "holds w es" "0 < n" "good_answers cfg n False os w" "good_answers cfg n True oz w"
    and "length xs = n" "nmemb * m mod 2 ^ 64 = n"
  shows "alloc_result cfg os n False (\<lambda>held. held) es w (drew_mem_malloc cfg os n w) \<and>
     alloc_result cfg os n False (\<lambda>held. replicate n 0) es w (drew_mem_calloc cfg os nmemb m w) \<and>
     alloc_result cfg os n False (\<lambda>held. xs) es w (drew_mem_memdup cfg os xs w) \<and>
     alloc_result cfg oz n True (\<lambda>held. held) es w (drew_mem_smalloc cfg oz n w) \<and>
     alloc_result cfg oz n True (\<lambda>held. replicate n 0) es w (drew_mem_scalloc cfg oz nmemb m w) \<and>
     alloc_result cfg oz n True (\<lambda>held. xs) es w (drew_mem_smemdup cfg oz xs w) \<and>
     (nmemb' * m' mod 2 ^ 64 = 0 \<longrightarrow>
        drew_mem_calloc cfg os nmemb' m' w = Some (0, w) \<and> drew_mem_scalloc cfg oz nmemb' m' w = Some (0, w))"
  by (intro conjI impI allocation_results[OF mem_reachable_inv[OF assms(1)] assms(2-7)] calloc_wraps) simp_all

lemma allocation_outcome_witness:
  "let w = blocks_world 2 8192 8208 10 in
   (\<exists>w'. drew_mem_smemdup linux \<lparr>os_mem = Inr (16, [0, 0]), os_node = 20, os_mlock = False\<rparr> [1, 2] w = Some (0, w') \<and>
      heap w' = heap w \<and> locked w' = locked w) \<and>
   (\<exists>w'. drew_mem_smemdup linux \<lparr>os_mem = Inr (16, [0, 0]), os_node = 20, os_mlock = True\<rparr> [1, 2] w = Some (16, w') \<and>
      heap w' = (heap w)(16 \<mapsto> [1, 2]) \<and> 0 \<in> locked w')"
proof -
  let ?os = "\<lambda>lock. \<lparr>os_mem = Inr (16, [0, 0]), os_node = 20, os_mlock = lock\<rparr>"
  have "alloc_result linux (?os lock) 2 True (\<lambda>held. [1, 2]) [(8208, 10, 10), (8192, 10, 10)] (blocks_world 2 8192 8208 10)
      (drew_mem_smemdup linux (?os lock) [1, 2] (blocks_world 2 8192 8208 10))" for lock
    by (rule allocation_outcome[OF blocks_world_reachable(2) blocks_world_holds(2), where os = "?os lock" and nmemb = 1
          and m = 2, THEN conjunct2, THEN conjunct2, THEN conjunct2, THEN conjunct2, THEN conjunct2, THEN conjunct1])
      (simp_all add: good_answers_def blocks_world_def start_world_def linux_def)
  from this[of False] this[of True] show ?thesis
    by (auto simp: alloc_result_def alloc_refused_def DREW_MEM_SECMEM_NO_LOCK_def DREW_MEM_SECMEM_FAIL_OK_def
        blocks_world_def start_world_def linux_def Let_def block_size_def pages_def)
qed

text \<open>C40. \<^verbatim>\<open>drew_mem_srealloc\<close> cannot resize a block: unless the new allocation is refused,
  \<^verbatim>\<open>do_realloc\<close> follows the null pointer it was given for the default pool.\<close>
theorem srealloc_null_pool:
  assumes "mem_reachable cfg F w" "ptr \<noteq> 0" "0 < n" "good_answers cfg n True os w"
  shows "case drew_mem_smalloc cfg os n w of None \<Rightarrow> False
     | Some (new, w1) \<Rightarrow> drew_mem_srealloc cfg os os' ptr n w = (if new = 0 then Some (0, w1) else None)"
  by (rule srealloc_default_pool[OF mem_reachable_inv[OF assms(1)] assms(2-4)])

lemma srealloc_null_pool_witness:
  "drew_mem_srealloc linux \<lparr>os_mem = Inr (8208, replicate 10 8), os_node = 12, os_mlock = True\<rparr> \<lparr>os_mem = Inl 12, os_node = 0, os_mlock = True\<rparr> 8192 10 (blocks_world 1 8192 8208 10) = None"
proof -
  have "mem_reachable linux {0} (blocks_world 1 8192 8208 10)"
    unfolding mem_reachable_def
    by (rule exI[of _ "blocks_world 0 8192 8208 0"], rule conjI, simp add: mem_start_def blocks_world_def start_world_def linux_def,
        rule r_into_rtranclp, rule mem_step.smalloc[OF _ blocks_world_smalloc(1)])
      (simp_all add: good_answers_def blocks_world_def start_world_def linux_def)
  from srealloc_null_pool[OF this, where ptr = 8192 and n = 10 and os = "\<lparr>os_mem = Inr (8208, replicate 10 8), os_node = 12, os_mlock = True\<rparr>" and os' = "\<lparr>os_mem = Inl 12, os_node = 0, os_mlock = True\<rparr>"]
  show ?thesis
    using blocks_world_smalloc(2)[of 8208 8192]
    by (simp add: good_answers_def blocks_world_def start_world_def linux_def)
qed

end
